(* ===== verification/Prelude.thy ===== *)
theory Prelude
  imports Main "HOL-Library.Word"
begin

unbundle bit_operations_syntax

text \<open>
  What the theories of the library share: the machine integers of the Rust source as
  words, the outcome type of a fallible Rust function with its sequencing operators, the
  cursor-style repetition of a parser, and the little text formatting the error messages
  of the source need.

  \<^item> \<open>u8 .. u128\<close> and \<open>i8 .. i64\<close> are words; a signed type is the same word type read with
    \<open>sint\<close>, so \<open>as\<close> casts are \<open>ucast\<close>, \<open>scast\<close> and the identity.
  \<^item> \<open>usize\<close> is \<open>nat\<close>: every size and offset the program computes is a sum of a few \<open>u32\<close>
    values and small constants, far below the 64-bit limit.
  \<^item> A Rust \<open>&str\<close> or \<open>String\<close> is the HOL \<open>string\<close> of its UTF-8 bytes, so \<open>len\<close>, prefix tests
    and literals agree with the source.
\<close>

type_synonym u8 = "8 word"
type_synonym u16 = "16 word"
type_synonym u32 = "32 word"
type_synonym u64 = "64 word"
type_synonym u128 = "128 word"
type_synonym i8 = "8 word"
type_synonym i16 = "16 word"
type_synonym i32 = "32 word"
type_synonym i64 = "64 word"

section \<open>Outcomes\<close>

text \<open>
  \<open>Ok\<close> and \<open>Err\<close> are the variants of Rust's \<open>Result\<close>. \<open>Panic\<close> is an unwinding panic (an
  index out of bounds, \<open>as_int\<close> of a long). \<open>Diverge\<close> is the outcome of a model whose fuel
  is used up; every use of fuel comes with a lemma that says when it does not occur.
\<close>

datatype ('e, 'a) outcome = Ok 'a | Err 'e | Panic | Diverge

fun obind :: "('e, 'a) outcome \<Rightarrow> ('a \<Rightarrow> ('e, 'b) outcome) \<Rightarrow> ('e, 'b) outcome" where
  "obind (Ok x) f = f x"
| "obind (Err e) f = Err e"
| "obind Panic f = Panic"
| "obind Diverge f = Diverge"

lemma obind_cong [fundef_cong]:
  "m = m' \<Longrightarrow> (\<And>x. m' = Ok x \<Longrightarrow> f x = g x) \<Longrightarrow> obind m f = obind m' g"
  by (cases m') auto

lemma obind_Ok_iff: "obind m f = Ok y \<longleftrightarrow> (\<exists>x. m = Ok x \<and> f x = Ok y)"
  by (cases m) auto

lemma obind_Err_iff: "obind m f = Err e \<longleftrightarrow> m = Err e \<or> (\<exists>x. m = Ok x \<and> f x = Err e)"
  by (cases m) auto

lemma obind_Panic_iff: "obind m f = Panic \<longleftrightarrow> m = Panic \<or> (\<exists>x. m = Ok x \<and> f x = Panic)"
  by (cases m) auto

lemma obind_Diverge_iff:
  "obind m f = Diverge \<longleftrightarrow> m = Diverge \<or> (\<exists>x. m = Ok x \<and> f x = Diverge)"
  by (cases m) auto

lemmas obind_iffs = obind_Ok_iff obind_Err_iff obind_Panic_iff obind_Diverge_iff

lemma obind_assoc: "obind (obind m f) g = obind m (\<lambda>x. obind (f x) g)"
  by (cases m) auto

text \<open>Rust's \<open>ok_or_else\<close> and \<open>map_err\<close>, and a guarded early return.\<close>

fun ok_or :: "'e \<Rightarrow> 'a option \<Rightarrow> ('e, 'a) outcome" where
  "ok_or e None = Err e"
| "ok_or e (Some x) = Ok x"

fun omap_err :: "('e \<Rightarrow> 'f) \<Rightarrow> ('e, 'a) outcome \<Rightarrow> ('f, 'a) outcome" where
  "omap_err h (Ok x) = Ok x"
| "omap_err h (Err e) = Err (h e)"
| "omap_err h Panic = Panic"
| "omap_err h Diverge = Diverge"

lemma ok_or_Ok_iff [simp]: "ok_or e m = Ok x \<longleftrightarrow> m = Some x"
  by (cases m) auto

lemma ok_or_Err_iff [simp]: "ok_or e m = Err e' \<longleftrightarrow> m = None \<and> e' = e"
  by (cases m) auto

lemma ok_or_not [simp]: "ok_or e m \<noteq> Panic" "ok_or e m \<noteq> Diverge"
  by (cases m; simp)+

lemma omap_err_Ok_iff [simp]: "omap_err h m = Ok x \<longleftrightarrow> m = Ok x"
  by (cases m) auto

definition guard :: "bool \<Rightarrow> 'e \<Rightarrow> ('e, unit) outcome" where
  "guard b e = (if b then Ok () else Err e)"

lemma guard_simps [simp]:
  "guard b e = Ok u \<longleftrightarrow> b" "guard b e = Err e' \<longleftrightarrow> \<not> b \<and> e' = e"
  "guard b e \<noteq> Panic" "guard b e \<noteq> Diverge"
  by (auto simp: guard_def)

lemma guard_True [simp]: "guard True e = Ok ()" and guard_False [simp]: "guard False e = Err e"
  by (simp_all add: guard_def)

section \<open>Loops over a range, with an early exit on an error\<close>

text \<open>\<open>omap f xs\<close> is a \<open>for\<close> loop that pushes \<open>f x?\<close>; \<open>orep n p c\<close> runs the cursor reader \<open>p\<close> \<open>n\<close> times.\<close>

fun omap :: "('a \<Rightarrow> ('e, 'b) outcome) \<Rightarrow> 'a list \<Rightarrow> ('e, 'b list) outcome" where
  "omap f [] = Ok []"
| "omap f (x # xs) = obind (f x) (\<lambda>y. obind (omap f xs) (\<lambda>ys. Ok (y # ys)))"

fun orep :: "nat \<Rightarrow> ('c \<Rightarrow> ('e, 'a \<times> 'c) outcome) \<Rightarrow> 'c \<Rightarrow> ('e, 'a list \<times> 'c) outcome" where
  "orep 0 p c = Ok ([], c)"
| "orep (Suc n) p c =
     obind (p c) (\<lambda>(x, c'). obind (orep n p c') (\<lambda>(xs, c''). Ok (x # xs, c'')))"

lemma omap_cong [fundef_cong]:
  "xs = ys \<Longrightarrow> (\<And>x. x \<in> set ys \<Longrightarrow> f x = g x) \<Longrightarrow> omap f xs = omap g ys"
proof (induction ys arbitrary: xs)
  case (Cons y ys)
  then have "f y = g y" and "omap f ys = omap g ys" by auto
  with Cons.prems show ?case by simp
qed simp

lemma omap_Ok_iff:
  "omap f xs = Ok ys \<longleftrightarrow> list_all2 (\<lambda>x y. f x = Ok y) xs ys"
  by (induction xs arbitrary: ys) (auto simp: obind_Ok_iff list_all2_Cons1)

lemma omap_Ok_length: "omap f xs = Ok ys \<Longrightarrow> length ys = length xs"
  by (auto simp: omap_Ok_iff dest: list_all2_lengthD)

lemma orep_Ok_length: "orep n p c = Ok (xs, c') \<Longrightarrow> length xs = n"
  by (induction n arbitrary: c xs) (auto simp: obind_Ok_iff)

text \<open>A reader that only moves the cursor on keeps that property when it is repeated.\<close>

lemma orep_preserves:
  assumes "orep n p c = Ok (xs, c')" and "R c c"
    and "\<And>a x b. R c a \<Longrightarrow> p a = Ok (x, b) \<Longrightarrow> R c b"
  shows "R c c'"
proof -
  have "R c a \<Longrightarrow> orep n p a = Ok (xs, c') \<Longrightarrow> R c c'" for a xs
  proof (induction n arbitrary: a xs)
    case (Suc n)
    then obtain x b ys where "p a = Ok (x, b)" and "orep n p b = Ok (ys, c')"
      by (auto simp: obind_Ok_iff)
    with Suc show ?case using assms(3) by blast
  qed simp
  with assms show ?thesis by blast
qed

lemma omap_Ok_nth: "omap f xs = Ok ys \<Longrightarrow> k < length xs \<Longrightarrow> f (xs ! k) = Ok (ys ! k)"
  by (auto simp: omap_Ok_iff list_all2_conv_all_nth)

lemma omap_at: "omap g [0..<n] = Ok xs \<Longrightarrow> k < n \<Longrightarrow> g k = Ok (xs ! k)"
  using omap_Ok_nth [of g "[0..<n]" xs k] by simp

lemma omap_Panic: "omap f xs = Panic \<Longrightarrow> \<exists>x \<in> set xs. f x = Panic"
  by (induction xs) (auto simp: obind_iffs)

lemma omap_Diverge: "omap f xs = Diverge \<Longrightarrow> \<exists>x \<in> set xs. f x = Diverge"
  by (induction xs) (auto simp: obind_iffs)

section \<open>Outcomes that are a result or an error\<close>

definition settles :: "('e, 'a) outcome \<Rightarrow> bool" where
  "settles r \<longleftrightarrow> r \<noteq> Panic \<and> r \<noteq> Diverge"

named_theorems settles_intros

lemma settles_simps [simp]: "settles (Ok x)" "settles (Err e)" "settles (ok_or e m)" "settles (guard b e)"
  by (simp_all add: settles_def)

lemma settles_obind:
  "settles m \<Longrightarrow> (\<And>x. m = Ok x \<Longrightarrow> settles (f x)) \<Longrightarrow> settles (obind m f)"
  by (cases m) (auto simp: settles_def)

lemma settles_obind_pair [settles_intros]:
  "settles m \<Longrightarrow> (\<And>x y. m = Ok (x, y) \<Longrightarrow> settles (f x y)) \<Longrightarrow> settles (obind m (\<lambda>(x, y). f x y))"
  by (cases m) (auto simp: settles_def)

lemma settles_if [settles_intros]:
  "(b \<Longrightarrow> settles p) \<Longrightarrow> (\<not> b \<Longrightarrow> settles q) \<Longrightarrow> settles (if b then p else q)"
  by simp

lemma settles_omap: "(\<And>x. x \<in> set xs \<Longrightarrow> settles (f x)) \<Longrightarrow> settles (omap f xs)"
  by (induction xs) (auto intro!: settles_obind)

lemma settles_map: "settles m \<Longrightarrow> settles (obind m (\<lambda>x. Ok (f x)))"
  by (intro settles_obind) simp_all

lemma settlesD: "settles r \<Longrightarrow> r \<noteq> Panic" "settles r \<Longrightarrow> r \<noteq> Diverge"
  by (simp_all add: settles_def)

lemma omap_total:
  "(\<And>x. x \<in> set xs \<Longrightarrow> f x \<noteq> Panic \<and> f x \<noteq> Diverge) \<Longrightarrow> omap f xs \<noteq> Panic \<and> omap f xs \<noteq> Diverge"
  by (induction xs) (auto simp: obind_iffs)

lemma omap_total_obind [simp]:
  assumes "\<And>x. f x \<noteq> Panic \<and> f x \<noteq> Diverge"
  shows "omap f xs \<noteq> Panic" "omap f xs \<noteq> Diverge"
  using omap_total [of xs f] assms by auto

section \<open>Slices\<close>

definition nth_opt :: "'a list \<Rightarrow> nat \<Rightarrow> 'a option" where
  "nth_opt xs i = (if i < length xs then Some (xs ! i) else None)"

lemma nth_opt_Some_iff [simp]: "nth_opt xs i = Some x \<longleftrightarrow> i < length xs \<and> x = xs ! i"
  by (auto simp: nth_opt_def)

lemma nth_opt_None_iff [simp]: "nth_opt xs i = None \<longleftrightarrow> length xs \<le> i"
  by (auto simp: nth_opt_def)

text \<open>\<open>&v[a..b]\<close> without its bounds check, and \<open>v.iter().position(p)\<close>.\<close>

definition sub :: "'a list \<Rightarrow> nat \<Rightarrow> nat \<Rightarrow> 'a list" where
  "sub xs a b = take (b - a) (drop a xs)"

fun position_from :: "nat \<Rightarrow> ('a \<Rightarrow> bool) \<Rightarrow> 'a list \<Rightarrow> nat option" where
  "position_from i p [] = None"
| "position_from i p (x # xs) = (if p x then Some i else position_from (Suc i) p xs)"

definition position :: "('a \<Rightarrow> bool) \<Rightarrow> 'a list \<Rightarrow> nat option" where
  "position p xs = position_from 0 p xs"

lemma position_from_Some_iff:
  "position_from i p xs = Some k \<longleftrightarrow>
     i \<le> k \<and> k < i + length xs \<and> p (xs ! (k - i)) \<and> (\<forall>j < k - i. \<not> p (xs ! j))"
proof (induction xs arbitrary: i)
  case (Cons x xs)
  show ?case
  proof (cases "p x")
    case True
    then show ?thesis by (auto simp: nth_Cons split: nat.splits)
  next
    case False
    have *: "k - i = Suc (k - Suc i)" if "Suc i \<le> k" for k :: nat
      using that by simp
    show ?thesis
    proof (cases "Suc i \<le> k")
      case True
      with False Cons[of "Suc i"] show ?thesis
        by (auto simp: * All_less_Suc2 less_Suc_eq_0_disj)
    next
      case b: False
      with False Cons[of "Suc i"] show ?thesis
        by (auto simp: not_less_eq_eq)
    qed
  qed
qed simp

lemma position_Some_iff:
  "position p xs = Some k \<longleftrightarrow> k < length xs \<and> p (xs ! k) \<and> (\<forall>j < k. \<not> p (xs ! j))"
  by (simp add: position_def position_from_Some_iff)

lemma position_from_None_iff: "position_from i p xs = None \<longleftrightarrow> (\<forall>x \<in> set xs. \<not> p x)"
  by (induction xs arbitrary: i) auto

lemma position_None_iff: "position p xs = None \<longleftrightarrow> (\<forall>x \<in> set xs. \<not> p x)"
  by (simp add: position_def position_from_None_iff)

lemma length_concat_mem: "bs \<in> set bss \<Longrightarrow> length bs \<le> length (concat bss)"
  by (induction bss) auto

section \<open>Little-endian bytes\<close>

definition u16_le :: "u8 \<Rightarrow> u8 \<Rightarrow> u16" where
  "u16_le a b = ucast a OR push_bit 8 (ucast b)"

definition u32_le :: "u8 \<Rightarrow> u8 \<Rightarrow> u8 \<Rightarrow> u8 \<Rightarrow> u32" where
  "u32_le a b c d =
     ucast a OR push_bit 8 (ucast b) OR push_bit 16 (ucast c) OR push_bit 24 (ucast d)"

fun u64_le :: "u8 list \<Rightarrow> u64" where
  "u64_le [] = 0"
| "u64_le (b # bs) = ucast b OR push_bit 8 (u64_le bs)"

lemma unat_u32_less: "unat (w :: u32) < 4294967296"
  using uint_lt2p [of w] by (simp add: nat_less_iff flip: nat_uint_eq)

definition byte_char :: "u8 \<Rightarrow> char" where
  "byte_char b = char_of (unat b)"

definition char_byte :: "char \<Rightarrow> u8" where
  "char_byte c = of_char c"

section \<open>Decimal and hexadecimal text of the error messages\<close>

definition digit_char :: "nat \<Rightarrow> char" where
  "digit_char d = (if d < 10 then char_of (48 + d) else char_of (87 + d))"

fun show_base :: "nat \<Rightarrow> nat \<Rightarrow> nat \<Rightarrow> string" where
  "show_base 0 b n = []"
| "show_base (Suc f) b n =
     (if n < b then [digit_char n] else show_base f b (n div b) @ [digit_char (n mod b)])"

definition show_nat :: "nat \<Rightarrow> string" where
  "show_nat n = show_base (Suc n) 10 n"

definition show_int :: "int \<Rightarrow> string" where
  "show_int i = (if i < 0 then ''-'' @ show_nat (nat (- i)) else show_nat (nat i))"

text \<open>The formats \<open>{:#x}\<close> and \<open>{:#04x}\<close>.\<close>

definition show_hex :: "nat \<Rightarrow> string" where
  "show_hex n = ''0x'' @ show_base (Suc n) 16 n"

definition show_hex_04 :: "nat \<Rightarrow> string" where
  "show_hex_04 n = ''0x'' @ (if n < 16 then ''0'' else []) @ show_base (Suc n) 16 n"

end
