(* ===== verification/Permission.thy ===== *)
theory Permission
  imports Prelude "HOL-Library.Sublist" "HOL-Library.Char_ord"
begin

text \<open>
  The sandbox of \<open>permission.rs\<close>: capabilities, which capability covers which, and the store of
  grants. Paths are those of a Unix host. The file system enters through two functions of Rust's
  standard library, \<open>std::fs::canonicalize\<close> and \<open>std::env::current_dir\<close>, which are the fields of
  the record \<open>host_fs\<close> and an argument of everything that compares paths.
\<close>

section \<open>Capabilities\<close>

datatype filesystem_permission =
  FsAny | Read | Write | ReadPath string | WritePath string | Path string

datatype network_permission = NetAny | Connect string

datatype process_permission = ProcAny | Command string

datatype permission =
  Filesystem filesystem_permission | Network network_permission | Process process_permission | Env

section \<open>Paths\<close>

text \<open>The components of a path, as \<open>std::path::Component\<close> has them on Unix.\<close>

datatype component = RootDir | CurDir | ParentDir | Normal string

type_synonym path = "component list"

text \<open>The segments of a text between separators.\<close>

fun split_on :: "char \<Rightarrow> string \<Rightarrow> string list" where
  "split_on c [] = [[]]"
| "split_on c (x # xs) =
     (if x = c then [] # split_on c xs
      else case split_on c xs of s # ss \<Rightarrow> (x # s) # ss | [] \<Rightarrow> [[x]])"

definition segment :: "string \<Rightarrow> path" where
  "segment s =
     (if s = [] \<or> s = ''.'' then [] else if s = ''..'' then [ParentDir] else [Normal s])"

text \<open>
  \<open>Path::components\<close>: a leading separator is the root, empty segments and dots vanish, except a
  dot that begins a relative path.
\<close>

definition components :: "string \<Rightarrow> path" where
  "components s = (let ss = split_on (CHR ''/'') s in
     (if s = [] then []
      else if hd s = CHR ''/'' then [RootDir]
      else if hd ss = ''.'' then [CurDir] else []) @
     concat (map segment ss))"

fun segment_text :: "component \<Rightarrow> string" where
  "segment_text RootDir = []"
| "segment_text CurDir = ''.''"
| "segment_text ParentDir = ''..''"
| "segment_text (Normal s) = s"

fun join_with :: "char \<Rightarrow> string list \<Rightarrow> string" where
  "join_with c [] = []"
| "join_with c [s] = s"
| "join_with c (s # t # ts) = s @ c # join_with c (t # ts)"

text \<open>The text of a \<open>PathBuf\<close> that was built by pushing components.\<close>

fun show_path :: "path \<Rightarrow> string" where
  "show_path (RootDir # cs) = CHR ''/'' # join_with (CHR ''/'') (map segment_text cs)"
| "show_path cs = join_with (CHR ''/'') (map segment_text cs)"

definition file_name :: "path \<Rightarrow> string option" where
  "file_name p = (case rev p of Normal s # _ \<Rightarrow> Some s | _ \<Rightarrow> None)"

text \<open>\<open>PathBuf::pop\<close>: the parent, if there is one.\<close>

definition pop_path :: "path \<Rightarrow> path option" where
  "pop_path p = (if p = [] \<or> last p = RootDir then None else Some (butlast p))"

definition is_absolute :: "path \<Rightarrow> bool" where
  "is_absolute p \<longleftrightarrow> p \<noteq> [] \<and> hd p = RootDir"

text \<open>One component after another; \<open>push\<close> of the root starts over.\<close>

definition push_component :: "path \<Rightarrow> component \<Rightarrow> path" where
  "push_component p c = (case c of
     CurDir \<Rightarrow> p
   | ParentDir \<Rightarrow>
       (case file_name p of
          Some name \<Rightarrow> if name \<noteq> ''..'' then (case pop_path p of Some q \<Rightarrow> q | None \<Rightarrow> p) else p @ [c]
        | None \<Rightarrow> p @ [c])
   | RootDir \<Rightarrow> [RootDir]
   | Normal s \<Rightarrow> p @ [c])"

definition normalized_path :: "string \<Rightarrow> path" where
  "normalized_path s = foldl push_component [] (components s)"

record host_fs =
  canonicalize :: "path \<Rightarrow> path option"
  current_dir :: "path option"

lemma pop_path_shorter [simp]: "pop_path p = Some q \<Longrightarrow> length q < length p"
  by (auto simp: pop_path_def split: if_splits)

text \<open>The longest prefix that exists is resolved, the rest is put back as it was.\<close>

function resolve_loop :: "host_fs \<Rightarrow> path \<Rightarrow> path \<Rightarrow> string list \<Rightarrow> path" where
  "resolve_loop F absolute existing missing =
     (case canonicalize F existing of
        Some real \<Rightarrow> normalized_path (show_path (real @ map Normal (rev missing)))
      | None \<Rightarrow>
          (case file_name existing of
             None \<Rightarrow> normalized_path (show_path absolute)
           | Some name \<Rightarrow>
               (case pop_path existing of
                  None \<Rightarrow> normalized_path (show_path absolute)
                | Some parent \<Rightarrow> resolve_loop F absolute parent (missing @ [name]))))"
  by pat_completeness auto
termination by (relation "measure (\<lambda>(F, a, e, m). length e)") auto

declare resolve_loop.simps [simp del]

definition resolved_path :: "host_fs \<Rightarrow> string \<Rightarrow> path" where
  "resolved_path F s =
     (let p = normalized_path s;
          absolute = (if is_absolute p then p
            else (case current_dir F of Some d \<Rightarrow> d | None \<Rightarrow> [RootDir]) @ p)
      in resolve_loop F absolute absolute [])"

definition path_under :: "host_fs \<Rightarrow> string \<Rightarrow> string \<Rightarrow> bool" where
  "path_under F pre p \<longleftrightarrow> prefix (resolved_path F pre) (resolved_path F p)"

section \<open>Hosts\<close>

definition ascii_digit :: "char \<Rightarrow> bool" where
  "ascii_digit c \<longleftrightarrow> CHR ''0'' \<le> c \<and> c \<le> CHR ''9''"

definition ascii_lower :: "char \<Rightarrow> char" where
  "ascii_lower c =
     (if CHR ''A'' \<le> c \<and> c \<le> CHR ''Z'' then char_of (of_char c + (32 :: nat)) else c)"

definition lowercase :: "string \<Rightarrow> string" where
  "lowercase s = map ascii_lower s"

text \<open>\<open>rsplit_once\<close>: before and after the last occurrence.\<close>

definition rsplit_once :: "char \<Rightarrow> string \<Rightarrow> (string \<times> string) option" where
  "rsplit_once c s =
     (if c \<in> set s
      then Some (rev (tl (dropWhile (\<lambda>x. x \<noteq> c) (rev s))), rev (takeWhile (\<lambda>x. x \<noteq> c) (rev s)))
      else None)"

definition strip_prefix :: "string \<Rightarrow> string \<Rightarrow> string option" where
  "strip_prefix p s = (if prefix p s then Some (drop (length p) s) else None)"

definition explicit_port :: "string \<Rightarrow> bool" where
  "explicit_port v =
     (case rsplit_once (CHR '':'') v of
        None \<Rightarrow> False
      | Some (host, port) \<Rightarrow> host \<noteq> [] \<and> list_all ascii_digit port \<and>
          (hd host = CHR ''['' \<or> CHR '':'' \<notin> set host))"

definition host_matches :: "string \<Rightarrow> string \<Rightarrow> bool" where
  "host_matches allow host_port =
     (let a = lowercase allow; h = lowercase host_port in
      if explicit_port a then h = a
      else if h = a then True
      else (case strip_prefix a h of
              None \<Rightarrow> False
            | Some rest \<Rightarrow>
                (case strip_prefix '':'' rest of
                   None \<Rightarrow> False
                 | Some port \<Rightarrow> list_all ascii_digit port)))"

section \<open>Coverage and the store\<close>

fun covers_fs :: "host_fs \<Rightarrow> filesystem_permission \<Rightarrow> filesystem_permission \<Rightarrow> bool" where
  "covers_fs F FsAny b = True"
| "covers_fs F Read b = (case b of Read \<Rightarrow> True | ReadPath _ \<Rightarrow> True | _ \<Rightarrow> False)"
| "covers_fs F Write b = (case b of Write \<Rightarrow> True | WritePath _ \<Rightarrow> True | _ \<Rightarrow> False)"
| "covers_fs F (ReadPath p) b = (case b of ReadPath q \<Rightarrow> path_under F p q | _ \<Rightarrow> False)"
| "covers_fs F (WritePath p) b = (case b of WritePath q \<Rightarrow> path_under F p q | _ \<Rightarrow> False)"
| "covers_fs F (Path p) b = (case b of
     ReadPath q \<Rightarrow> path_under F p q
   | WritePath q \<Rightarrow> path_under F p q
   | Path q \<Rightarrow> path_under F p q
   | FsAny \<Rightarrow> False | Read \<Rightarrow> False | Write \<Rightarrow> False)"

fun covers :: "host_fs \<Rightarrow> permission \<Rightarrow> permission \<Rightarrow> bool" where
  "covers F (Filesystem a) (Filesystem b) = covers_fs F a b"
| "covers F (Network a) (Network b) = (case a of
     NetAny \<Rightarrow> True
   | Connect h \<Rightarrow> (case b of Connect t \<Rightarrow> host_matches h t | NetAny \<Rightarrow> False))"
| "covers F (Process a) (Process b) = (case a of
     ProcAny \<Rightarrow> True
   | Command c \<Rightarrow> (case b of Command t \<Rightarrow> t = c | ProcAny \<Rightarrow> False))"
| "covers F Env Env = True"
| "covers F _ _ = False"

record permissions = grants :: "permission list"

definition no_permissions :: permissions where
  "no_permissions = \<lparr>grants = []\<rparr>"

definition has_permission :: "host_fs \<Rightarrow> permissions \<Rightarrow> permission \<Rightarrow> bool" where
  "has_permission F ps p \<longleftrightarrow> list_ex (\<lambda>g. covers F g p) (grants ps)"

definition grant :: "host_fs \<Rightarrow> permission \<Rightarrow> permissions \<Rightarrow> permissions" where
  "grant F p ps =
     (if list_ex (\<lambda>g. covers F g p) (grants ps) then ps else ps\<lparr>grants := grants ps @ [p]\<rparr>)"

definition revoke :: "host_fs \<Rightarrow> permission \<Rightarrow> permissions \<Rightarrow> permissions" where
  "revoke F p ps = ps\<lparr>grants := filter (\<lambda>g. \<not> covers F g p) (grants ps)\<rparr>"

section \<open>What coverage promises the store\<close>

text \<open>
  The store keeps a list of grants and asks one thing of them: whether some grant covers a
  capability. It relies on coverage being reflexive, and transitive through the capabilities that
  are \<open>plain\<close>.
\<close>

locale coverage =
  fixes cov :: "'p \<Rightarrow> 'p \<Rightarrow> bool" and plain :: "'p \<Rightarrow> bool"
  assumes cov_refl: "cov p p"
    and cov_trans: "plain p \<Longrightarrow> cov g p \<Longrightarrow> cov p q \<Longrightarrow> cov g q"
begin

definition allowed :: "'p list \<Rightarrow> 'p set" where
  "allowed gs = {q. \<exists>g \<in> set gs. cov g q}"

lemma absorbed: "plain p \<Longrightarrow> g \<in> set gs \<Longrightarrow> cov g p \<Longrightarrow> allowed gs \<union> {q. cov p q} = allowed gs"
  using cov_trans by (fastforce simp: allowed_def)

lemma added: "allowed (gs @ [p]) = allowed gs \<union> {q. cov p q}"
  by (auto simp: allowed_def)

lemma revoked: "p \<notin> allowed (filter (\<lambda>g. \<not> cov g p) gs)"
  by (auto simp: allowed_def)

lemma shrunk: "allowed (filter P gs) \<subseteq> allowed gs"
  by (auto simp: allowed_def)

end

lemma path_under_refl [simp]: "path_under F p p"
  by (simp add: path_under_def)

lemma path_under_trans: "path_under F p q \<Longrightarrow> path_under F q r \<Longrightarrow> path_under F p r"
  unfolding path_under_def by (rule prefix_order.trans)

lemma host_matches_refl [simp]: "host_matches h h"
  by (simp add: host_matches_def)

text \<open>A host without a colon, or with an explicit port.\<close>

definition plain_host :: "string \<Rightarrow> bool" where
  "plain_host h \<longleftrightarrow> CHR '':'' \<notin> set (lowercase h) \<or> explicit_port (lowercase h)"

lemma host_matches_cases:
  "host_matches a h \<longleftrightarrow> lowercase h = lowercase a \<or>
     \<not> explicit_port (lowercase a) \<and>
     (\<exists>port. lowercase h = lowercase a @ CHR '':'' # port \<and> list_all ascii_digit port)"
  by (auto simp: host_matches_def Let_def strip_prefix_def prefix_def split: option.splits)

lemma host_matches_trans:
  assumes "plain_host p" and "host_matches g p" and "host_matches p q"
  shows "host_matches g q"
proof (cases "explicit_port (lowercase p)")
  case True
  then have "lowercase q = lowercase p" using assms(3) by (simp add: host_matches_cases)
  then show ?thesis using assms(2) by (simp add: host_matches_def)
next
  case False
  then have "CHR '':'' \<notin> set (lowercase p)" using assms(1) by (simp add: plain_host_def)
  then have "lowercase p = lowercase g" using assms(2) by (auto simp: host_matches_cases)
  then show ?thesis using assms(3) by (simp add: host_matches_def)
qed

fun plain :: "permission \<Rightarrow> bool" where
  "plain (Network (Connect h)) = plain_host h"
| "plain _ = True"

lemma covers_fs_trans: "covers_fs F a b \<Longrightarrow> covers_fs F b c \<Longrightarrow> covers_fs F a c"
  by (cases a; cases b; cases c) (auto intro: path_under_trans)

interpretation sandbox: coverage "covers F" plain for F
proof
  show "covers F p p" for p
    by (cases p; (auto split: filesystem_permission.splits network_permission.splits
        process_permission.splits)?) (metis covers_fs.simps filesystem_permission.exhaust
        filesystem_permission.simps path_under_refl)+
  show "covers F g q" if "plain p" "covers F g p" "covers F p q" for g p q
    using that
    by (cases g; cases p; cases q)
      (auto split: network_permission.splits process_permission.splits
        intro: covers_fs_trans host_matches_trans)
qed

lemma has_permission_iff: "has_permission F ps q \<longleftrightarrow> q \<in> sandbox.allowed F (grants ps)"
  by (auto simp: has_permission_def sandbox.allowed_def list_ex_iff)

section \<open>Paths that are real\<close>











subsection \<open>The walk of the kernel\<close>































text \<open>A host with a directory and a symbolic link in it that leads out of it.\<close>

definition sample_fs :: host_fs where
  "sample_fs = \<lparr>canonicalize = map_of [([RootDir], [RootDir]),
       ([RootDir, Normal ''data''], [RootDir, Normal ''data'']),
       ([RootDir, Normal ''etc''], [RootDir, Normal ''etc'']),
       ([RootDir, Normal ''data'', Normal ''link''], [RootDir, Normal ''etc''])],
     current_dir = None\<rparr>"

section \<open>Hosts that a grant reaches\<close>

lemma ascii_lower_simps [simp]:
  "ascii_lower (CHR '':'') = CHR '':''" "ascii_lower c = CHR '':'' \<longleftrightarrow> c = CHR '':''"
  "ascii_digit (ascii_lower c) = ascii_digit c"
  by (auto simp: ascii_lower_def ascii_digit_def less_eq_char_def char_of_eq_iff
      take_bit_nat_eq_self)

lemma lower_colon [simp]: "CHR '':'' = ascii_lower c \<longleftrightarrow> c = CHR '':''"
  using ascii_lower_simps(2) [of c] by metis

lemma lower_digit: "ascii_digit c \<Longrightarrow> ascii_lower c = c"
  by (auto simp: ascii_lower_def ascii_digit_def less_eq_char_def char_of_eq_iff)

lemma lowercase_simps [simp]:
  "lowercase (s @ t) = lowercase s @ lowercase t" "lowercase (c # s) = ascii_lower c # lowercase s"
  "lowercase [] = []" "lowercase s = [] \<longleftrightarrow> s = []"
  "CHR '':'' \<in> set (lowercase s) \<longleftrightarrow> CHR '':'' \<in> set s"
  "list_all ascii_digit (lowercase s) = list_all ascii_digit s"
  by (auto simp: lowercase_def list_all_iff intro: image_eqI [of _ _ "CHR '':''"])

lemma lowercase_digits: "list_all ascii_digit s \<Longrightarrow> lowercase s = s"
  by (induction s) (auto simp: lower_digit)

lemma split_colon:
  "c \<notin> set s \<Longrightarrow> c \<notin> set t \<Longrightarrow> s @ c # u = t @ c # v \<longleftrightarrow> s = t \<and> u = v"
  by (auto simp: append_eq_append_conv2 append_eq_Cons_conv Cons_eq_append_conv)

lemma rsplit_once_at: "c \<notin> set t \<Longrightarrow> rsplit_once c (s @ c # t) = Some (s, t)"
  by (auto simp: rsplit_once_def takeWhile_append dropWhile_append)

lemma no_digit_colon: "list_all ascii_digit p \<Longrightarrow> CHR '':'' \<notin> set p"
  by (auto simp: list_all_iff ascii_digit_def less_eq_char_def)

lemma not_explicit: "CHR '':'' \<notin> set v \<Longrightarrow> \<not> explicit_port v"
  by (simp add: explicit_port_def rsplit_once_def)

lemma explicit_portI:
  "v \<noteq> [] \<Longrightarrow> CHR '':'' \<notin> set v \<Longrightarrow> list_all ascii_digit p \<Longrightarrow> explicit_port (v @ CHR '':'' # p)"
  by (simp add: explicit_port_def rsplit_once_at no_digit_colon)

text \<open>
  C26: A grant to connect reaches one host. A granted name without a port covers exactly that name,
  alone or with a port of digits, in any case of its letters: no other host that merely begins
  or ends like it. A granted name with a port covers that name with that port only.
\<close>

theorem connect_reaches_host:
  assumes "CHR '':'' \<notin> set name" and "name \<noteq> []" and "CHR '':'' \<notin> set host"
    and "list_all ascii_digit p"
  shows "(covers F (Network (Connect name)) (Network (Connect host)) \<longleftrightarrow>
      lowercase host = lowercase name) \<and>
    (covers F (Network (Connect name)) (Network (Connect (host @ CHR '':'' # port))) \<longleftrightarrow>
      lowercase host = lowercase name \<and> list_all ascii_digit port) \<and>
    (covers F (Network (Connect (name @ CHR '':'' # p))) (Network (Connect (host @ CHR '':'' # port)))
      \<longleftrightarrow> lowercase host = lowercase name \<and> port = p)"
proof -
  have n: "\<not> explicit_port (lowercase name)"
    "explicit_port (lowercase name @ CHR '':'' # p)"
    using assms by (auto intro!: not_explicit explicit_portI)
  have port: "lowercase port = p \<longleftrightarrow> port = p"
  proof
    assume l: "lowercase port = p"
    then have "list_all ascii_digit port" using assms(4) by (metis lowercase_simps(6))
    then show "port = p" using l lowercase_digits by metis
  qed (use assms(4) lowercase_digits in auto)
  have "CHR '':'' \<notin> set (lowercase name)" "CHR '':'' \<notin> set (lowercase host)"
    using assms by auto
  then have "lowercase name \<noteq> xs @ CHR '':'' # ys" "lowercase host \<noteq> xs @ CHR '':'' # ys"
    "xs @ CHR '':'' # ys \<noteq> lowercase name" for xs ys
    by (metis in_set_conv_decomp)+
  then show ?thesis
    using n assms port by (auto simp: host_matches_cases split_colon lowercase_digits)
qed

theorem connect_reaches_host_witness:
  "covers sample_fs (Network (Connect ''api.x'')) (Network (Connect ''API.x:443'')) \<and>
   \<not> covers sample_fs (Network (Connect ''api.x'')) (Network (Connect ''api.x.evil:443'')) \<and>
   \<not> covers sample_fs (Network (Connect ''api.x:443'')) (Network (Connect ''api.x:8443''))"
proof -
  have d: "list_all ascii_digit ''443''" by code_simp
  have l: "lowercase ''API.x'' = lowercase ''api.x''" "lowercase ''api.x.evil'' \<noteq> lowercase ''api.x''"
    by code_simp+
  show ?thesis
    using connect_reaches_host [of "''api.x''" "''API.x''" "''443''" sample_fs "''443''"]
      connect_reaches_host [of "''api.x''" "''api.x.evil''" "''443''" sample_fs "''443''"]
      connect_reaches_host [of "''api.x''" "''api.x''" "''443''" sample_fs "''8443''"] d l
    by simp
qed

section \<open>The store\<close>

text \<open>The capabilities a store allows.\<close>

definition capabilities :: "host_fs \<Rightarrow> permissions \<Rightarrow> permission set" where
  "capabilities F ps = {q. has_permission F ps q}"

lemma capabilities_allowed: "capabilities F ps = sandbox.allowed F (grants ps)"
  by (simp add: capabilities_def has_permission_iff)

text \<open>
  C23: The store of grants refines a set of capabilities. Seen as the set of what \<open>has\<close> allows, a
  new store is empty; granting a capability (a host name without a port must not contain a colon)
  adds exactly what it covers, even where the list of grants stays as it was; revoking one leaves
  a smaller set that does not contain it, with all that some grant not covering it allows.
\<close>

theorem store_refines_sets:
  assumes "plain p"
  shows "capabilities F no_permissions = {} \<and>
    capabilities F (grant F p ps) = capabilities F ps \<union> {q. covers F p q} \<and>
    r \<notin> capabilities F (revoke F r ps) \<and> capabilities F (revoke F r ps) \<subseteq> capabilities F ps \<and>
    {q. \<exists>g \<in> set (grants ps). \<not> covers F g r \<and> covers F g q} \<subseteq> capabilities F (revoke F r ps)"
proof -
  have "capabilities F (grant F p ps) = capabilities F ps \<union> {q. covers F p q}"
    using sandbox.absorbed [OF assms, of _ "grants ps" F]
    by (auto simp: capabilities_allowed grant_def sandbox.added list_ex_iff)
  then show ?thesis
    using sandbox.revoked [of r F] sandbox.shrunk
    by (auto simp: capabilities_allowed no_permissions_def revoke_def sandbox.allowed_def)
qed

theorem store_refines_sets_witness:
  "capabilities sample_fs (grant sample_fs (Network (Connect ''api.x'')) no_permissions) =
     {q. covers sample_fs (Network (Connect ''api.x'')) q}"
proof -
  have "plain (Network (Connect ''api.x''))" by code_simp
  from store_refines_sets [OF this, of sample_fs no_permissions] show ?thesis by simp
qed

text \<open>What a host does to a store.\<close>

datatype store_op = Grant permission | Revoke permission

fun store_step :: "host_fs \<Rightarrow> store_op \<Rightarrow> permissions \<Rightarrow> permissions" where
  "store_step F (Grant p) ps = grant F p ps"
| "store_step F (Revoke p) ps = revoke F p ps"

text \<open>\<open>stands F g ops\<close>: \<open>g\<close> was granted, and nothing it covers was revoked since.\<close>

definition stands :: "host_fs \<Rightarrow> permission \<Rightarrow> store_op list \<Rightarrow> bool" where
  "stands F g ops \<longleftrightarrow> (\<exists>before after. ops = before @ Grant g # after \<and>
     (\<forall>r. Revoke r \<in> set after \<longrightarrow> \<not> covers F g r))"

lemma grants_stand:
  "g \<in> set (grants (fold (store_step F) ops no_permissions)) \<Longrightarrow> stands F g ops"
proof (induction ops rule: rev_induct)
  case (snoc x ops)
  let ?ps = "fold (store_step F) ops no_permissions"
  have kept: "stands F g (ops @ [x])" if "stands F g ops" "\<And>r. x = Revoke r \<Longrightarrow> \<not> covers F g r"
  proof -
    obtain xs ys where "ops = xs @ Grant g # ys" "\<forall>r. Revoke r \<in> set ys \<longrightarrow> \<not> covers F g r"
      using \<open>stands F g ops\<close> by (auto simp: stands_def)
    then show ?thesis using that(2) unfolding stands_def
      by (intro exI [of _ xs] exI [of _ "ys @ [x]"]) auto
  qed
  have new: "stands F g (ops @ [Grant g])" unfolding stands_def by fastforce
  show ?case
  proof (cases x)
    case (Grant p)
    then show ?thesis using snoc kept new by (auto simp: grant_def split: if_splits)
  next
    case (Revoke p)
    then show ?thesis using snoc kept by (auto simp: revoke_def)
  qed
qed (simp add: no_permissions_def)

text \<open>
  C24: Nothing is allowed that was not granted. Whatever the host granted and revoked, a capability
  the store allows is covered by a capability the host granted, and since then revoked nothing
  that this grant covers; in particular a store nobody granted anything denies everything.
\<close>

theorem only_granted_allowed:
  assumes "has_permission F (fold (store_step F) ops no_permissions) q"
  shows "\<exists>g. stands F g ops \<and> covers F g q"
  using assms grants_stand by (auto simp: has_permission_def list_ex_iff)

theorem only_granted_allowed_witness:
  "\<exists>g. stands sample_fs g [Grant (Network NetAny), Revoke Env] \<and>
     covers sample_fs g (Network (Connect ''api.x''))"
proof (rule only_granted_allowed)
  show "has_permission sample_fs
      (fold (store_step sample_fs) [Grant (Network NetAny), Revoke Env] no_permissions)
      (Network (Connect ''api.x''))"
    by code_simp
qed

text \<open>
  The converse fails: a grant that a broader one covers is not stored, so it is lost when the
  broader one is revoked, even though it does not cover what is revoked.
\<close>

theorem absorbed_grant_lost:
  assumes "covers F g p" and "covers F g r" and "\<not> covers F p r"
  shows "stands F p [Grant g, Grant p, Revoke r] \<and>
    \<not> has_permission F (fold (store_step F) [Grant g, Grant p, Revoke r] no_permissions) p"
proof -
  have "stands F p [Grant g, Grant p, Revoke r]" unfolding stands_def
    using assms(3) by (intro exI [of _ "[Grant g]"] exI [of _ "[Revoke r]"]) simp
  then show ?thesis using assms by (simp add: no_permissions_def grant_def revoke_def has_permission_def)
qed

text \<open>
  A parent component is removed together with the name before it, before any symbolic link is
  looked up. If the name is a link that leads out of the directory, the operating system goes to
  the parent of its target; the check never looks at it.
\<close>

theorem parent_removed_before_links:
  "covers sample_fs (Filesystem (ReadPath ''/data'')) (Filesystem (ReadPath ''/data/link/../secret'')) \<and>
   \<not> covers sample_fs (Filesystem (ReadPath ''/data'')) (Filesystem (ReadPath ''/data/link''))"
  by code_simp

end
