(* ===== verification/Monad.thy ===== *)
theory Monad
  imports Prelude
begin

text \<open>
  The shape of a Rust method on \<open>&mut self\<close> that can fail: a function from the state to an
  outcome and the state it leaves behind, also when it fails. \<open>bnd\<close> is the \<open>?\<close> operator;
  \<open>amap\<close>, \<open>afold\<close> are \<open>for\<close> loops. The predicates \<open>keeps\<close> (an invariant of the state) and
  \<open>returns\<close> (never out of fuel) have one rule per operator, so that they are proved along the
  structure of the code.
\<close>

type_synonym ('s, 'e, 'a) act = "'s \<Rightarrow> ('e, 'a) outcome \<times> 's"

definition ret :: "'a \<Rightarrow> ('s, 'e, 'a) act" where
  "ret x = (\<lambda>s. (Ok x, s))"

definition fail :: "'e \<Rightarrow> ('s, 'e, 'a) act" where
  "fail e = (\<lambda>s. (Err e, s))"

definition panic :: "('s, 'e, 'a) act" where
  "panic = (\<lambda>s. (Panic, s))"

definition bnd :: "('s, 'e, 'a) act \<Rightarrow> ('a \<Rightarrow> ('s, 'e, 'b) act) \<Rightarrow> ('s, 'e, 'b) act" where
  "bnd m f = (\<lambda>s. case m s of
     (Ok x, s') \<Rightarrow> f x s'
   | (Err e, s') \<Rightarrow> (Err e, s')
   | (Panic, s') \<Rightarrow> (Panic, s')
   | (Diverge, s') \<Rightarrow> (Diverge, s'))"

definition asks :: "('s \<Rightarrow> 'a) \<Rightarrow> ('s, 'e, 'a) act" where
  "asks f = (\<lambda>s. (Ok (f s), s))"

definition modify :: "('s \<Rightarrow> 's) \<Rightarrow> ('s, 'e, unit) act" where
  "modify g = (\<lambda>s. (Ok (), g s))"

definition lift :: "('e, 'a) outcome \<Rightarrow> ('s, 'e, 'a) act" where
  "lift r = (\<lambda>s. (r, s))"

text \<open>A checked access whose failure is a panic.\<close>

definition unwrap :: "'a option \<Rightarrow> ('s, 'e, 'a) act" where
  "unwrap m = (case m of Some x \<Rightarrow> ret x | None \<Rightarrow> panic)"

definition check :: "bool \<Rightarrow> 'e \<Rightarrow> ('s, 'e, unit) act" where
  "check b e = (if b then ret () else fail e)"

text \<open>\<open>match r { Ok .. Err(e) .. }\<close> on the result of a call, and \<open>unwrap_or\<close>.\<close>

definition catch :: "('s, 'e, 'a) act \<Rightarrow> ('e \<Rightarrow> ('s, 'e, 'a) act) \<Rightarrow> ('s, 'e, 'a) act" where
  "catch m h = (\<lambda>s. case m s of (Err e, s') \<Rightarrow> h e s' | r \<Rightarrow> r)"

fun amap :: "('a \<Rightarrow> ('s, 'e, 'b) act) \<Rightarrow> 'a list \<Rightarrow> ('s, 'e, 'b list) act" where
  "amap f [] = ret []"
| "amap f (x # xs) = bnd (f x) (\<lambda>y. bnd (amap f xs) (\<lambda>ys. ret (y # ys)))"

fun afold :: "('b \<Rightarrow> 'a \<Rightarrow> ('s, 'e, 'b) act) \<Rightarrow> 'b \<Rightarrow> 'a list \<Rightarrow> ('s, 'e, 'b) act" where
  "afold f acc [] = ret acc"
| "afold f acc (x # xs) = bnd (f acc x) (\<lambda>acc'. afold f acc' xs)"

section \<open>Rules for invariants and for returning\<close>

named_theorems keeps_intros

named_theorems returns_intros

text \<open>An action keeps a relation between the state before and the state after.\<close>

definition keeps :: "('s \<Rightarrow> bool) \<Rightarrow> ('s, 'e, 'a) act \<Rightarrow> bool" where
  "keeps I m \<longleftrightarrow> (\<forall>s. I s \<longrightarrow> I (snd (m s)))"

definition returns :: "('s \<Rightarrow> bool) \<Rightarrow> ('s, 'e, 'a) act \<Rightarrow> bool" where
  "returns I m \<longleftrightarrow> (\<forall>s. I s \<longrightarrow> fst (m s) \<noteq> Diverge)"

lemma keepsD: "keeps I m \<Longrightarrow> I s \<Longrightarrow> m s = (r, s') \<Longrightarrow> I s'"
  unfolding keeps_def by (metis snd_conv)

lemma keeps_ret [keeps_intros]: "keeps I (ret x)" by (simp add: keeps_def ret_def)
lemma keeps_fail [keeps_intros]: "keeps I (fail e)" by (simp add: keeps_def fail_def)
lemma keeps_panic [keeps_intros]: "keeps I panic" by (simp add: keeps_def panic_def)
lemma keeps_asks [keeps_intros]: "keeps I (asks f)" by (simp add: keeps_def asks_def)
lemma keeps_lift [keeps_intros]: "keeps I (lift r)" by (simp add: keeps_def lift_def)
lemma keeps_unwrap [keeps_intros]: "keeps I (unwrap m)"
  by (cases m) (simp_all add: unwrap_def keeps_ret keeps_panic)
lemma keeps_check [keeps_intros]: "keeps I (check b e)"
  by (simp add: check_def keeps_ret keeps_fail)

lemma keeps_modify: "(\<And>s. I s \<Longrightarrow> I (g s)) \<Longrightarrow> keeps I (modify g)"
  by (simp add: keeps_def modify_def)

lemma keeps_bnd [keeps_intros]:
  assumes "keeps I m" and "\<And>x. keeps I (f x)"
  shows "keeps I (bnd m f)"
  unfolding keeps_def
proof (intro allI impI)
  fix s assume s: "I s"
  obtain r s' where r: "m s = (r, s')" by (cases "m s")
  with keepsD [OF assms(1) s r] assms(2) show "I (snd (bnd m f s))"
    by (cases r) (auto simp: bnd_def keeps_def)
qed

lemma keeps_catch [keeps_intros]:
  assumes "keeps I m" and "\<And>e. keeps I (h e)"
  shows "keeps I (catch m h)"
  unfolding keeps_def
proof (intro allI impI)
  fix s assume s: "I s"
  obtain r s' where r: "m s = (r, s')" by (cases "m s")
  with keepsD [OF assms(1) s r] assms(2) show "I (snd (catch m h s))"
    by (cases r) (auto simp: catch_def keeps_def)
qed

lemma keeps_amap [keeps_intros]: "(\<And>x. keeps I (f x)) \<Longrightarrow> keeps I (amap f xs)"
  by (induction xs) (auto intro!: keeps_intros)

lemma keeps_afold [keeps_intros]: "(\<And>acc x. keeps I (f acc x)) \<Longrightarrow> keeps I (afold f acc xs)"
  by (induction xs arbitrary: acc) (auto intro!: keeps_intros)

lemma keeps_if [keeps_intros]:
  "(b \<Longrightarrow> keeps I p) \<Longrightarrow> (\<not> b \<Longrightarrow> keeps I q) \<Longrightarrow> keeps I (if b then p else q)"
  by simp

lemma keeps_option [keeps_intros]:
  "keeps I p \<Longrightarrow> (\<And>x. keeps I (q x)) \<Longrightarrow> keeps I (case m of None \<Rightarrow> p | Some x \<Rightarrow> q x)"
  by (cases m) auto

lemma keeps_pair [keeps_intros]:
  "(\<And>x y. keeps I (f x y)) \<Longrightarrow> keeps I (case p of (x, y) \<Rightarrow> f x y)"
  by (cases p) auto

lemma returns_ret [returns_intros]: "returns I (ret x)" by (simp add: returns_def ret_def)
lemma returns_fail [returns_intros]: "returns I (fail e)" by (simp add: returns_def fail_def)
lemma returns_panic [returns_intros]: "returns I panic" by (simp add: returns_def panic_def)
lemma returns_asks [returns_intros]: "returns I (asks f)" by (simp add: returns_def asks_def)
lemma returns_modify [returns_intros]: "returns I (modify g)" by (simp add: returns_def modify_def)
lemma returns_unwrap [returns_intros]: "returns I (unwrap m)"
  by (cases m) (simp_all add: unwrap_def returns_ret returns_panic)
lemma returns_check [returns_intros]: "returns I (check b e)"
  by (simp add: check_def returns_ret returns_fail)

lemma returns_lift: "r \<noteq> Diverge \<Longrightarrow> returns I (lift r)"
  by (simp add: returns_def lift_def)

lemma returns_bnd [returns_intros]:
  assumes "returns I m" and "keeps I m" and "\<And>x. returns I (f x)"
  shows "returns I (bnd m f)"
  unfolding returns_def
proof (intro allI impI)
  fix s assume s: "I s"
  obtain r s' where r: "m s = (r, s')" by (cases "m s")
  have "r \<noteq> Diverge" using assms(1) s r by (metis returns_def fst_conv)
  with keepsD [OF assms(2) s r] assms(3) r show "fst (bnd m f s) \<noteq> Diverge"
    by (cases r) (auto simp: bnd_def returns_def)
qed

lemma returns_catch [returns_intros]:
  assumes "returns I m" and "keeps I m" and "\<And>e. returns I (h e)"
  shows "returns I (catch m h)"
  unfolding returns_def
proof (intro allI impI)
  fix s assume s: "I s"
  obtain r s' where r: "m s = (r, s')" by (cases "m s")
  have "r \<noteq> Diverge" using assms(1) s r by (metis returns_def fst_conv)
  with keepsD [OF assms(2) s r] assms(3) r show "fst (catch m h s) \<noteq> Diverge"
    by (cases r) (auto simp: catch_def returns_def)
qed

lemma returns_if [returns_intros]:
  "(b \<Longrightarrow> returns I p) \<Longrightarrow> (\<not> b \<Longrightarrow> returns I q) \<Longrightarrow> returns I (if b then p else q)"
  by simp

lemma returns_option [returns_intros]:
  "returns I p \<Longrightarrow> (\<And>x. returns I (q x)) \<Longrightarrow> returns I (case m of None \<Rightarrow> p | Some x \<Rightarrow> q x)"
  by (cases m) auto

lemma returns_pair [returns_intros]:
  "(\<And>x y. returns I (f x y)) \<Longrightarrow> returns I (case p of (x, y) \<Rightarrow> f x y)"
  by (cases p) auto

lemma returns_amap [returns_intros]:
  "(\<And>x. returns I (f x)) \<Longrightarrow> (\<And>x. keeps I (f x)) \<Longrightarrow> returns I (amap f xs)"
  by (induction xs) (auto intro!: returns_intros keeps_intros)

lemma returns_afold [returns_intros]:
  "(\<And>acc x. returns I (f acc x)) \<Longrightarrow> (\<And>acc x. keeps I (f acc x)) \<Longrightarrow> returns I (afold f acc xs)"
  by (induction xs arbitrary: acc) (auto intro!: returns_intros keeps_intros)

text \<open>What a successful bind did.\<close>

lemma bnd_Ok: "bnd m f s = (Ok y, s'') \<longleftrightarrow> (\<exists>x s'. m s = (Ok x, s') \<and> f x s' = (Ok y, s''))"
  by (cases "m s"; cases "fst (m s)") (auto simp: bnd_def)

lemma bnd_run: "m s = (Ok x, s') \<Longrightarrow> bnd m f s = f x s'"
  by (simp add: bnd_def)

lemmas run_simps = ret_def fail_def panic_def asks_def modify_def lift_def unwrap_def check_def

end
