(* ===== verification/DexRead.thy ===== *)
theory DexRead
  imports Prelude
begin

text \<open>
  \<open>src/src/dex/read.rs\<close>: the error type of the DEX parser, the bounds-checked cursor over
  the raw bytes with its fixed-width and LEB128 readers, and the MUTF-8 decoder. A method
  that takes \<open>&mut self\<close> returns the moved cursor beside its result.
\<close>

section \<open>Errors and the cursor\<close>

record dex_error =
  msg :: string
  off :: nat

definition dex_err :: "nat \<Rightarrow> string \<Rightarrow> dex_error" where
  "dex_err o' m = \<lparr>msg = m, off = o'\<rparr>"

type_synonym 'a dex = "(dex_error, 'a) outcome"

record cursor =
  data :: "u8 list"
  pos :: nat

definition cursor_new :: "u8 list \<Rightarrow> cursor" where
  "cursor_new d = \<lparr>data = d, pos = 0\<rparr>"

definition oob :: "nat \<Rightarrow> dex_error" where
  "oob p = dex_err p ''out of bounds read''"

definition seek :: "nat \<Rightarrow> cursor \<Rightarrow> cursor dex" where
  "seek p c = (if p > length (data c) then Err (oob p) else Ok (c\<lparr>pos := p\<rparr>))"

definition read_u8 :: "cursor \<Rightarrow> (u8 \<times> cursor) dex" where
  "read_u8 c =
     (if pos c \<ge> length (data c) then Err (oob (pos c))
      else Ok (data c ! pos c, c\<lparr>pos := pos c + 1\<rparr>))"

definition read_u16 :: "cursor \<Rightarrow> (u16 \<times> cursor) dex" where
  "read_u16 c =
     (if pos c + 2 > length (data c) then Err (oob (pos c))
      else Ok (u16_le (data c ! pos c) (data c ! (pos c + 1)), c\<lparr>pos := pos c + 2\<rparr>))"

definition read_u32 :: "cursor \<Rightarrow> (u32 \<times> cursor) dex" where
  "read_u32 c =
     (if pos c + 4 > length (data c) then Err (oob (pos c))
      else Ok (u32_le (data c ! pos c) (data c ! (pos c + 1)) (data c ! (pos c + 2))
                 (data c ! (pos c + 3)), c\<lparr>pos := pos c + 4\<rparr>))"

text \<open>\<open>as i32\<close> keeps the bits.\<close>

definition read_i32 :: "cursor \<Rightarrow> (i32 \<times> cursor) dex" where
  "read_i32 c = read_u32 c"

definition read_bytes :: "nat \<Rightarrow> cursor \<Rightarrow> (u8 list \<times> cursor) dex" where
  "read_bytes n c =
     (if pos c + n > length (data c) then Err (oob (pos c))
      else Ok (sub (data c) (pos c) (pos c + n), c\<lparr>pos := pos c + n\<rparr>))"

definition byte_at :: "cursor \<Rightarrow> nat \<Rightarrow> u8 dex" where
  "byte_at c p = ok_or (oob p) (nth_opt (data c) p)"

definition u16_at :: "cursor \<Rightarrow> nat \<Rightarrow> u16 dex" where
  "u16_at c p =
     (if p + 2 > length (data c) then Err (oob p)
      else Ok (u16_le (data c ! p) (data c ! (p + 1))))"

definition u32_at :: "cursor \<Rightarrow> nat \<Rightarrow> u32 dex" where
  "u32_at c p =
     (if p + 4 > length (data c) then Err (oob p)
      else Ok (u32_le (data c ! p) (data c ! (p + 1)) (data c ! (p + 2)) (data c ! (p + 3))))"

definition slice_at :: "cursor \<Rightarrow> nat \<Rightarrow> nat \<Rightarrow> u8 list dex" where
  "slice_at c p n =
     (if p + n > length (data c) then Err (oob p) else Ok (sub (data c) p (p + n)))"

definition remaining :: "cursor \<Rightarrow> nat" where
  "remaining c = length (data c) - pos c"

section \<open>LEB128\<close>

function uleb128_loop :: "u32 \<Rightarrow> nat \<Rightarrow> cursor \<Rightarrow> (u32 \<times> cursor) dex" where
  "uleb128_loop result shift c =
     obind (read_u8 c) (\<lambda>(b, c').
       let r = result OR push_bit shift (ucast (b AND 0x7f)) in
       if b AND 0x80 = 0 then Ok (r, c')
       else if shift + 7 \<ge> 35 then Err (dex_err (pos c' - 1) ''uleb128 overflow'')
       else uleb128_loop r (shift + 7) c')"
  by pat_completeness auto
termination
  by (relation "measure (\<lambda>(r, s, c). 35 - s)") auto

definition uleb128 :: "cursor \<Rightarrow> (u32 \<times> cursor) dex" where
  "uleb128 c = uleb128_loop 0 0 c"

function sleb128_loop :: "i32 \<Rightarrow> nat \<Rightarrow> cursor \<Rightarrow> (i32 \<times> cursor) dex" where
  "sleb128_loop result shift c =
     obind (read_u8 c) (\<lambda>(b, c').
       let r = result OR push_bit shift (ucast (b AND 0x7f)); s = shift + 7 in
       if b AND 0x80 = 0 then
         Ok (if s < 32 \<and> b AND 0x40 \<noteq> 0 then r OR push_bit s (- 1) else r, c')
       else if s \<ge> 35 then Err (dex_err (pos c' - 1) ''sleb128 overflow'')
       else sleb128_loop r s c')"
  by pat_completeness auto
termination
  by (relation "measure (\<lambda>(r, s, c). 35 - s)") auto

definition sleb128 :: "cursor \<Rightarrow> (i32 \<times> cursor) dex" where
  "sleb128 c = sleb128_loop 0 0 c"

declare uleb128_loop.simps [simp del] sleb128_loop.simps [simp del]

section \<open>MUTF-8\<close>

text \<open>
  \<open>String::from_utf8_lossy\<close> of the standard library: well-formed UTF-8 sequences are kept,
  and each maximal ill-formed prefix becomes U+FFFD (bytes EF BF BD).
\<close>

definition cont :: "u8 \<Rightarrow> bool" where
  "cont b \<longleftrightarrow> 0x80 \<le> b \<and> b \<le> 0xBF"

definition second3 :: "u8 \<Rightarrow> u8 \<Rightarrow> bool" where
  "second3 b c \<longleftrightarrow>
     (if b = 0xE0 then 0xA0 \<le> c \<and> c \<le> 0xBF else if b = 0xED then 0x80 \<le> c \<and> c \<le> 0x9F else cont c)"

definition second4 :: "u8 \<Rightarrow> u8 \<Rightarrow> bool" where
  "second4 b c \<longleftrightarrow>
     (if b = 0xF0 then 0x90 \<le> c \<and> c \<le> 0xBF else if b = 0xF4 then 0x80 \<le> c \<and> c \<le> 0x8F else cont c)"

abbreviation replacement :: "u8 list" where
  "replacement \<equiv> [0xEF, 0xBF, 0xBD]"

fun from_utf8_lossy :: "u8 list \<Rightarrow> u8 list" where
  "from_utf8_lossy [] = []"
| "from_utf8_lossy (b # bs) =
     (if b < 0x80 then b # from_utf8_lossy bs
      else if 0xC2 \<le> b \<and> b \<le> 0xDF then
        (case bs of
           c # r \<Rightarrow> if cont c then b # c # from_utf8_lossy r else replacement @ from_utf8_lossy bs
         | [] \<Rightarrow> replacement)
      else if 0xE0 \<le> b \<and> b \<le> 0xEF then
        (case bs of
           c # r \<Rightarrow>
             if second3 b c then
               (case r of
                  d # r' \<Rightarrow>
                    if cont d then b # c # d # from_utf8_lossy r'
                    else replacement @ from_utf8_lossy r
                | [] \<Rightarrow> replacement)
             else replacement @ from_utf8_lossy bs
         | [] \<Rightarrow> replacement)
      else if 0xF0 \<le> b \<and> b \<le> 0xF4 then
        (case bs of
           c # r \<Rightarrow>
             if second4 b c then
               (case r of
                  d # r' \<Rightarrow>
                    if cont d then
                      (case r' of
                         e # r'' \<Rightarrow>
                           if cont e then b # c # d # e # from_utf8_lossy r''
                           else replacement @ from_utf8_lossy r'
                       | [] \<Rightarrow> replacement)
                    else replacement @ from_utf8_lossy r
                | [] \<Rightarrow> replacement)
             else replacement @ from_utf8_lossy bs
         | [] \<Rightarrow> replacement)
      else replacement @ from_utf8_lossy bs)"

text \<open>The scan of \<open>decode_mutf8\<close>: \<open>i\<close> is the index of the head of the remaining bytes.\<close>

function mutf8_scan :: "nat \<Rightarrow> u8 list \<Rightarrow> u8 list dex" where
  "mutf8_scan i [] = Ok []"
| "mutf8_scan i (b # bs) =
     (if b = 0 then Ok []
      else if b = 0xc0 \<and> bs \<noteq> [] \<and> hd bs = 0x80 then
        obind (mutf8_scan (i + 2) (tl bs)) (\<lambda>out. Ok (0 # out))
      else if b < 0x80 then obind (mutf8_scan (i + 1) bs) (\<lambda>out. Ok (b # out))
      else if b < 0xe0 then
        (if length bs < 1 then Err (dex_err i ''truncated utf8'')
         else obind (mutf8_scan (i + 2) (drop 1 bs)) (\<lambda>out. Ok (b # take 1 bs @ out)))
      else if b < 0xf0 then
        (if length bs < 2 then Err (dex_err i ''truncated utf8'')
         else obind (mutf8_scan (i + 3) (drop 2 bs)) (\<lambda>out. Ok (b # take 2 bs @ out)))
      else
        (if length bs < 3 then Err (dex_err i ''truncated utf8'')
         else obind (mutf8_scan (i + 4) (drop 3 bs)) (\<lambda>out. Ok (b # take 3 bs @ out))))"
  by pat_completeness auto
termination
  by (relation "measure (\<lambda>(i, bs). length bs)") auto

definition decode_mutf8 :: "u8 list \<Rightarrow> string dex" where
  "decode_mutf8 bytes =
     obind (mutf8_scan 0 bytes) (\<lambda>out. Ok (map byte_char (from_utf8_lossy out)))"

section \<open>LEB128 round trips\<close>

lemma int_split7: "(i::int) = take_bit 7 i OR push_bit 7 (drop_bit 7 i)"
proof (rule bit_eqI)
  fix n
  show "bit i n = bit (take_bit 7 i OR push_bit 7 (drop_bit 7 i)) n"
    by (cases "n < 7") (auto simp: bit_simps)
qed

lemma word_split7: "(word_of_int i :: 'a::len word) = word_of_int (i mod 128) OR push_bit 7 (word_of_int (i div 128))"
proof -
  have "(word_of_int (take_bit 7 i OR push_bit 7 (drop_bit 7 i)) :: 'a word)
      = word_of_int (i mod 128) OR push_bit 7 (word_of_int (i div 128))"
    by (simp add: of_int_or_eq push_bit_of_int take_bit_eq_mod drop_bit_eq_div)
  then show ?thesis by (simp flip: int_split7)
qed
lemma uint_and7f: "uint ((b::8 word) AND 0x7f) = uint b mod 128"
proof -
  have "b AND 0x7f = take_bit 7 b" by (simp add: take_bit_eq_mask mask_eq_exp_minus_1)
  then have "uint (b AND 0x7f) = take_bit 7 (uint b)" by (simp only: unsigned_take_bit_eq)
  then show ?thesis by (simp only: take_bit_eq_mod) simp
qed
lemma top_bit: "0 \<le> x \<Longrightarrow> x < 2 * 2 ^ n \<Longrightarrow> bit (x::int) n \<longleftrightarrow> 2 ^ n \<le> x"
proof -
  assume "0 \<le> x" "x < 2 * 2 ^ n"
  then have "x div 2 ^ n = (if 2 ^ n \<le> x then 1 else 0)"
    by (auto simp: div_pos_pos_trivial intro: int_div_pos_eq [of _ _ _ "x - 2 ^ n"])
  then show ?thesis by (simp add: bit_iff_odd)
qed
lemma bit7: "bit (b::8 word) 7 = (128 \<le> uint b)"
proof -
  have "uint b < 256" using uint_lt2p [of b] by simp
  moreover have "bit b 7 = bit (uint b) 7" by (simp add: bit_uint_iff)
  ultimately show ?thesis using top_bit [of "uint b" 7] by simp
qed
lemma bit6: "bit (b::8 word) 6 = (64 \<le> uint b mod 128)"
proof -
  have "bit b 6 = bit (take_bit 7 (uint b)) 6" by (simp add: bit_uint_iff bit_take_bit_iff)
  then show ?thesis using top_bit [of "uint b mod 128" 6] by (simp add: take_bit_eq_mod)
qed
lemma and80: "(((b::8 word) AND 0x80) = 0) = (uint b < 128)"
  using and_exp_eq_0_iff_not_bit [of b 7] by (simp add: bit7 not_le)
lemma and40: "(((b::8 word) AND 0x40) = 0) = (uint b mod 128 < 64)"
  using and_exp_eq_0_iff_not_bit [of b 6] by (simp add: bit6 not_le)


function uleb_encode :: "int \<Rightarrow> u8 list" where
  "uleb_encode i =
     (if i < 128 then [word_of_int i]
      else word_of_int (i mod 128 + 128) # uleb_encode (i div 128))"
  by pat_completeness auto
termination by (relation "measure nat") auto
declare uleb_encode.simps [simp del]

lemma read_u8_at: 
  "data c = pre @ b # rest \<Longrightarrow> pos c = length pre \<Longrightarrow> read_u8 c = Ok (b, c\<lparr>pos := length pre + 1\<rparr>)"
  by (auto simp: read_u8_def)

lemma uint_byte: "0 \<le> i \<Longrightarrow> i < 256 \<Longrightarrow> uint (word_of_int i :: 8 word) = i"
  by (simp add: uint_word_of_int)

lemma byte_low7: "0 \<le> i \<Longrightarrow> i < 256 \<Longrightarrow> (ucast ((word_of_int i :: 8 word) AND 0x7f) :: 32 word) = word_of_int (i mod 128)"
  using uint_and7f [of "word_of_int i"] by (simp add: uint_byte ucast_eq)

lemma byte_more: "0 \<le> i \<Longrightarrow> i < 256 \<Longrightarrow> ((word_of_int i :: 8 word) AND 0x80 = 0) \<longleftrightarrow> i < 128"
  by (simp add: and80 uint_byte)
lemma byte_sign: "0 \<le> i \<Longrightarrow> i < 256 \<Longrightarrow> ((word_of_int i :: 8 word) AND 0x40 = 0) \<longleftrightarrow> i mod 128 < 64"
  by (simp add: and40 uint_byte)

lemma push_split7:
  "push_bit s (word_of_int i :: 'a::len word) =
     push_bit s (word_of_int (i mod 128)) OR push_bit (s + 7) (word_of_int (i div 128))"
  by (subst word_split7) (simp add: push_bit_or push_bit_push_bit)

lemma more_byte:
  assumes "0 \<le> m" "m < 128"
  shows "(ucast ((word_of_int (m + 128) :: 8 word) AND 0x7f) :: 32 word) = word_of_int m"
    and "(word_of_int (m + 128) :: 8 word) AND 0x80 \<noteq> 0"
  using byte_low7 [of "m + 128"] byte_more [of "m + 128"] assms by (simp_all del: of_int_add)

lemma uleb128_loop_more:
  assumes "read_u8 c = Ok (word_of_int (m + 128), c')" "0 \<le> m" "m < 128" "s + 7 < 35"
  shows "uleb128_loop r s c = uleb128_loop (r OR push_bit s (word_of_int m)) (s + 7) c'"
  using assms more_byte [of m] by (subst uleb128_loop.simps) (simp del: of_int_add add: Let_def)

lemma sleb128_loop_more:
  assumes "read_u8 c = Ok (word_of_int (m + 128), c')" "0 \<le> m" "m < 128" "s + 7 < 35"
  shows "sleb128_loop r s c = sleb128_loop (r OR push_bit s (word_of_int m)) (s + 7) c'"
  using assms more_byte [of m] by (subst sleb128_loop.simps) (simp del: of_int_add add: Let_def)

lemma uleb_loop_encode:
  assumes "data c = pre @ uleb_encode i @ rest" and "pos c = length pre"
    and "s < 32" and "0 \<le> i" and "i < 2 ^ (32 - s)"
  shows "uleb128_loop r s c =
     Ok (r OR push_bit s (word_of_int i), c\<lparr>pos := length pre + length (uleb_encode i)\<rparr>)"
  using assms
proof (induction i arbitrary: r s c pre rule: uleb_encode.induct)
  case (1 i)
  show ?case
  proof (cases "i < 128")
    case True
    with 1 have "read_u8 c = Ok (word_of_int i, c\<lparr>pos := length pre + 1\<rparr>)"
      by (intro read_u8_at) (simp_all add: uleb_encode.simps [of i])
    with 1 True show ?thesis
      by (simp add: uleb128_loop.simps [of r s c] byte_low7 byte_more uleb_encode.simps [of i])
  next
    case False
    let ?b = "word_of_int (i mod 128 + 128) :: 8 word"
    let ?c = "c\<lparr>pos := length (pre @ [?b])\<rparr>"
    let ?r = "r OR push_bit s (word_of_int (i mod 128))"
    have rd: "read_u8 c = Ok (?b, ?c)"
      using 1 False read_u8_at [of c pre ?b "uleb_encode (i div 128) @ rest"]
      by (simp add: uleb_encode.simps [of i])
    have "(2::int) ^ 7 \<le> i" using False by simp
    also note "1.prems"(5)
    finally have "7 < 32 - s" by (rule power_less_imp_less_exp [rotated]) simp
    then have s: "s + 7 < 32" by simp
    have "i < 2 ^ (7 + (32 - (s + 7)))" using "1.prems"(5) \<open>7 < 32 - s\<close> by simp
    then have bound: "i div 128 < 2 ^ (32 - (s + 7))"
      by (simp add: power_add)
    have "uleb128_loop ?r (s + 7) ?c =
        Ok (?r OR push_bit (s + 7) (word_of_int (i div 128)),
            ?c\<lparr>pos := length (pre @ [?b]) + length (uleb_encode (i div 128))\<rparr>)"
      using False "1.prems" s bound
      by (intro "1.IH") (simp_all add: uleb_encode.simps [of i])
    moreover have "uleb128_loop r s c = uleb128_loop ?r (s + 7) ?c"
      using s by (intro uleb128_loop_more [OF rd]) simp_all
    ultimately show ?thesis
      using False by (simp add: uleb_encode.simps [of i] push_split7 [of s i] or.assoc)
  qed
qed

lemma uleb128_encode:
  assumes "data c = pre @ uleb_encode (uint w) @ rest" and "pos c = length pre"
  shows "uleb128 c = Ok (w, c\<lparr>pos := length pre + length (uleb_encode (uint w))\<rparr>)"
  using uleb_loop_encode [OF assms, of 0 0] uint_lt2p [of w]
  by (simp add: uleb128_def)

function sleb_encode :: "int \<Rightarrow> u8 list" where
  "sleb_encode i =
     (if (i div 128 = 0 \<and> i mod 128 < 64) \<or> (i div 128 = -1 \<and> i mod 128 \<ge> 64)
      then [word_of_int (i mod 128)]
      else word_of_int (i mod 128 + 128) # sleb_encode (i div 128))"
  by pat_completeness auto
termination
proof (relation "measure (\<lambda>i. nat \<bar>i\<bar>)")
  fix i :: int
  assume A: "\<not> ((i div 128 = 0 \<and> i mod 128 < 64) \<or> (i div 128 = -1 \<and> i mod 128 \<ge> 64))"
  define q r where "q = i div 128" and "r = i mod 128"
  have "i = 128 * q + r" "0 \<le> r" "r < 128" by (simp_all add: q_def r_def)
  moreover have "\<not> ((q = 0 \<and> r < 64) \<or> (q = -1 \<and> r \<ge> 64))" using A by (simp add: q_def r_def)
  ultimately have "\<bar>q\<bar> < \<bar>i\<bar>" by arith
  then show "(i div 128, i) \<in> measure (\<lambda>i. nat \<bar>i\<bar>)" by (simp add: q_def)
qed simp
declare sleb_encode.simps [simp del]

lemma sleb_loop_encode:
  assumes "data c = pre @ sleb_encode i @ rest" and "pos c = length pre"
    and "s < 32" and "- (2 ^ (31 - s)) \<le> i" and "i < 2 ^ (31 - s)"
  shows "sleb128_loop r s c =
     Ok (r OR push_bit s (word_of_int i), c\<lparr>pos := length pre + length (sleb_encode i)\<rparr>)"
  using assms
proof (induction i arbitrary: r s c pre rule: sleb_encode.induct)
  case (1 i)
  define q m where "q = i div 128" and "m = i mod 128"
  have i: "i = 128 * q + m" and m: "0 \<le> m" "m < 128" by (simp_all add: q_def m_def)
  have split: "push_bit s (word_of_int i) =
      push_bit s (word_of_int m) OR push_bit (s + 7) (word_of_int q :: 32 word)"
    by (simp add: push_split7 [of s i] q_def m_def)
  show ?case
  proof (cases "(q = 0 \<and> m < 64) \<or> (q = -1 \<and> m \<ge> 64)")
    case True
    have enc: "sleb_encode i = [word_of_int m]"
      using True by (simp add: sleb_encode.simps [of i] q_def m_def)
    with 1 have "read_u8 c = Ok (word_of_int m, c\<lparr>pos := length pre + 1\<rparr>)"
      by (intro read_u8_at) simp_all
    moreover have "32 \<le> s + 7 \<Longrightarrow> push_bit (s + 7) (w :: 32 word) = 0" for w
      by (rule push_bit_word_beyond) simp
    ultimately show ?thesis
      using True m
      by (subst sleb128_loop.simps)
         (auto simp: byte_low7 byte_more byte_sign enc split Let_def or.assoc not_less)
  next
    case False
    let ?b = "word_of_int (m + 128) :: 8 word"
    let ?c = "c\<lparr>pos := length (pre @ [?b])\<rparr>"
    let ?r = "r OR push_bit s (word_of_int m)"
    have enc: "sleb_encode i = ?b # sleb_encode q"
      using False by (subst sleb_encode.simps) (auto simp: q_def m_def)
    have rd: "read_u8 c = Ok (?b, ?c)"
      using "1.prems" read_u8_at [of c pre ?b "sleb_encode q @ rest"] by (simp add: enc)
    have "\<not> (-64 \<le> i \<and> i < 64)" using False i m by arith
    then have "(2::int) ^ 6 < 2 ^ (31 - s)" using "1.prems"(4,5) by (cases "i < 64") simp_all
    then have "6 < 31 - s" by (rule power_less_imp_less_exp [rotated]) simp
    then have s: "s + 7 < 32" "31 - s = 7 + (31 - (s + 7))" by simp_all
    have b: "- (2 ^ (31 - (s + 7))) \<le> q" "q < 2 ^ (31 - (s + 7))"
      using "1.prems"(4,5) m unfolding s(2) power_add i by simp_all
    have "sleb128_loop ?r (s + 7) ?c =
        Ok (?r OR push_bit (s + 7) (word_of_int q),
            ?c\<lparr>pos := length (pre @ [?b]) + length (sleb_encode q)\<rparr>)"
      using False "1.prems"(1,2) s(1) b unfolding q_def m_def
      by (intro "1.IH") (simp_all add: enc [unfolded q_def m_def])
    moreover have "sleb128_loop r s c = sleb128_loop ?r (s + 7) ?c"
      using s m by (intro sleb128_loop_more [OF rd]) simp_all
    ultimately show ?thesis by (simp add: enc split or.assoc)
  qed
qed

lemma sleb128_encode:
  assumes "data c = pre @ sleb_encode (sint w) @ rest" and "pos c = length pre"
  shows "sleb128 c = Ok (w, c\<lparr>pos := length pre + length (sleb_encode (sint w))\<rparr>)"
  using sleb_loop_encode [OF assms, of 0 0] sint_range_size [of w]
  by (simp add: sleb128_def word_size)

section \<open>The contract of a cursor reader\<close>

text \<open>
  What the parsers rely on when they call a reader: a success has moved the cursor strictly
  forward, inside the same bytes. A total reader never panics and always returns. The
  lemmas lift both to a counted loop; every reader of the parser is an interpretation.
\<close>

locale byte_reader =
  fixes p :: "cursor \<Rightarrow> ('a \<times> cursor) dex"
  assumes moves: "p c = Ok (x, c') \<Longrightarrow> data c' = data c \<and> pos c < pos c' \<and> pos c' \<le> length (data c)"
begin

lemma rep_moves:
  assumes "orep n p c = Ok (xs, c')" and "pos c \<le> length (data c)"
  shows "data c' = data c \<and> pos c + n \<le> pos c' \<and> pos c' \<le> length (data c)"
  using assms
proof (induction n arbitrary: c xs)
  case (Suc n)
  then obtain x b ys where 1: "p c = Ok (x, b)" and 2: "orep n p b = Ok (ys, c')"
    by (auto simp: obind_Ok_iff)
  from moves [OF 1] Suc.IH [OF 2] show ?case by simp
qed simp

end

locale total_reader = byte_reader +
  assumes no_panic: "p c \<noteq> Panic" and returns: "p c \<noteq> Diverge"
begin

lemma rep_no_panic: "orep n p c \<noteq> Panic"
  by (induction n arbitrary: c) (auto simp: obind_Panic_iff no_panic)

lemma rep_returns: "orep n p c \<noteq> Diverge"
  by (induction n arbitrary: c) (auto simp: obind_Diverge_iff returns)

end

interpretation r_u8: total_reader read_u8
  by unfold_locales (auto simp: read_u8_def split: if_splits)

interpretation r_u16: total_reader read_u16
  by unfold_locales (auto simp: read_u16_def split: if_splits)

interpretation r_u32: total_reader read_u32
  by unfold_locales (auto simp: read_u32_def split: if_splits)

lemma read_u8_Ok: "read_u8 c = Ok (b, c') \<Longrightarrow> c' = c\<lparr>pos := pos c + 1\<rparr> \<and> pos c < length (data c)"
  by (auto simp: read_u8_def split: if_splits)

lemma uleb128_loop_moves:
  "uleb128_loop r s c = Ok (x, c') \<Longrightarrow> s < 35 \<Longrightarrow>
     data c' = data c \<and> pos c < pos c' \<and> pos c' \<le> length (data c) \<and> pos c' \<le> pos c + (41 - s) div 7"
proof (induction r s c rule: uleb128_loop.induct)
  case (1 r s c)
  from "1.prems" obtain b c1 where rd: "read_u8 c = Ok (b, c1)"
    by (subst (asm) uleb128_loop.simps) (auto simp: obind_Ok_iff)
  have step: "(41 - s) div 7 = Suc ((41 - (s + 7)) div 7)" if "s + 7 < 35"
    using that by simp
  show ?case
    using "1.prems" "1.IH" [OF rd refl refl] read_u8_Ok [OF rd] step
    by (subst (asm) uleb128_loop.simps) (auto simp: rd Let_def split: if_splits)
qed

lemma uleb128_loop_total: "uleb128_loop r s c \<noteq> Panic \<and> uleb128_loop r s c \<noteq> Diverge"
proof (induction r s c rule: uleb128_loop.induct)
  case (1 r s c)
  then show ?case
    by (subst (1 2) uleb128_loop.simps)
       (auto simp: obind_iffs Let_def r_u8.no_panic r_u8.returns)
qed

interpretation r_uleb: total_reader uleb128
  using uleb128_loop_moves [of 0 0] uleb128_loop_total [of 0 0]
  by unfold_locales (auto simp: uleb128_def)

lemma sleb128_loop_moves:
  "sleb128_loop r s c = Ok (x, c') \<Longrightarrow> data c' = data c \<and> pos c < pos c' \<and> pos c' \<le> length (data c)"
proof (induction r s c rule: sleb128_loop.induct)
  case (1 r s c)
  from "1.prems" obtain b c1 where rd: "read_u8 c = Ok (b, c1)"
    by (subst (asm) sleb128_loop.simps) (auto simp: obind_Ok_iff)
  show ?case
    using "1.prems" "1.IH" [OF rd refl refl refl] read_u8_Ok [OF rd]
    by (subst (asm) sleb128_loop.simps) (auto simp: rd Let_def split: if_splits)
qed

lemma sleb128_loop_total: "sleb128_loop r s c \<noteq> Panic \<and> sleb128_loop r s c \<noteq> Diverge"
proof (induction r s c rule: sleb128_loop.induct)
  case (1 r s c)
  then show ?case
    by (subst (1 2) sleb128_loop.simps)
       (auto simp: obind_iffs Let_def r_u8.no_panic r_u8.returns)
qed

interpretation r_sleb: total_reader sleb128
  using sleb128_loop_moves [of 0 0] sleb128_loop_total [of 0 0]
  by unfold_locales (auto simp: sleb128_def)

section \<open>Readers built from readers\<close>

text \<open>
  A part of a reader may consume nothing: \<open>weak_reader\<close> is the contract without progress.
  The rules follow the shape of the parser code, a bind of readers that ends in a result.
\<close>

definition weak_reader :: "(cursor \<Rightarrow> ('a \<times> cursor) dex) \<Rightarrow> bool" where
  "weak_reader p \<longleftrightarrow> (\<forall>c x c'. p c = Ok (x, c') \<longrightarrow> pos c \<le> length (data c) \<longrightarrow>
     data c' = data c \<and> pos c \<le> pos c' \<and> pos c' \<le> length (data c))"

lemma weak_readerD:
  "weak_reader p \<Longrightarrow> p c = Ok (x, c') \<Longrightarrow> pos c \<le> length (data c) \<Longrightarrow>
     data c' = data c \<and> pos c \<le> pos c' \<and> pos c' \<le> length (data c)"
  unfolding weak_reader_def by blast

named_theorems reader_intros

lemma weak_ret [reader_intros]: "weak_reader (\<lambda>c. Ok (v, c))"
  by (simp add: weak_reader_def)

lemma weak_err [reader_intros]: "weak_reader (\<lambda>c. Err (e c))"
  by (simp add: weak_reader_def)

lemma weak_if [reader_intros]:
  "weak_reader p \<Longrightarrow> weak_reader q \<Longrightarrow> weak_reader (\<lambda>c. if b then p c else q c)"
  by (cases b) simp_all

lemma weak_bind [reader_intros]:
  assumes "weak_reader p" and "\<And>x. weak_reader (f x)"
  shows "weak_reader (\<lambda>c. obind (p c) (\<lambda>(x, c). f x c))"
  unfolding weak_reader_def
proof (intro allI impI)
  fix c y c' assume "obind (p c) (\<lambda>(x, c). f x c) = Ok (y, c')" and le: "pos c \<le> length (data c)"
  then obtain x b where 1: "p c = Ok (x, b)" and 2: "f x b = Ok (y, c')" by (auto simp: obind_Ok_iff)
  note b = weak_readerD [OF assms(1) 1 le]
  then have "pos b \<le> length (data b)" by simp
  from weak_readerD [OF assms(2) 2 this] b
  show "data c' = data c \<and> pos c \<le> pos c' \<and> pos c' \<le> length (data c)" by simp
qed

lemma weak_byte_reader: "byte_reader p \<Longrightarrow> weak_reader p"
  unfolding weak_reader_def byte_reader_def by (metis less_imp_le)

lemma weak_orep [reader_intros]:
  assumes "weak_reader p"
  shows "weak_reader (orep n p)"
proof (induction n)
  case (Suc n)
  have "orep (Suc n) p = (\<lambda>c. obind (p c) (\<lambda>(x, c). obind (orep n p c) (\<lambda>(xs, c). Ok (x # xs, c))))"
    by (rule ext) simp
  then show ?case using assms Suc by (simp only:) (intro reader_intros)
qed (simp add: weak_reader_def)

lemma reader_bind:
  assumes "byte_reader p" and "\<And>x. weak_reader (f x)"
  shows "byte_reader (\<lambda>c. obind (p c) (\<lambda>(x, c). f x c))"
proof (rule byte_reader.intro)
  fix c y c' assume "obind (p c) (\<lambda>(x, c). f x c) = Ok (y, c')"
  then obtain x b where 1: "p c = Ok (x, b)" and 2: "f x b = Ok (y, c')" by (auto simp: obind_Ok_iff)
  note b = byte_reader.moves [OF assms(1) 1]
  then have "pos b \<le> length (data b)" by simp
  from weak_readerD [OF assms(2) 2 this] b
  show "data c' = data c \<and> pos c < pos c' \<and> pos c' \<le> length (data c)" by simp
qed

lemmas weak_basic [reader_intros] =
  r_u8.byte_reader_axioms [THEN weak_byte_reader] r_uleb.byte_reader_axioms [THEN weak_byte_reader]

lemma rep_safe:
  assumes "byte_reader p"
    and "\<And>b. data b = data c \<Longrightarrow> pos c \<le> pos b \<Longrightarrow> p b \<noteq> Panic \<and> p b \<noteq> Diverge"
  shows "orep n p c \<noteq> Panic \<and> orep n p c \<noteq> Diverge"
  using assms(2)
proof (induction n arbitrary: c)
  case (Suc n)
  have "orep n p b \<noteq> Panic \<and> orep n p b \<noteq> Diverge" if "p c = Ok (x, b)" for x b
    using byte_reader.moves [OF assms(1) that] Suc.prems by (intro Suc.IH) auto
  then show ?case using Suc.prems [of c] by (auto simp: obind_iffs)
qed simp

section \<open>Formats: what a reader makes of the bytes under the cursor\<close>

definition reads :: "(cursor \<Rightarrow> ('a \<times> cursor) dex) \<Rightarrow> u8 list \<Rightarrow> 'a \<Rightarrow> bool" where
  "reads p bs x \<longleftrightarrow> (\<forall>c pre rest. data c = pre @ bs @ rest \<longrightarrow> pos c = length pre \<longrightarrow>
     p c = Ok (x, c\<lparr>pos := length pre + length bs\<rparr>))"

lemma readsD:
  "reads p bs x \<Longrightarrow> data c = pre @ bs @ rest \<Longrightarrow> pos c = length pre \<Longrightarrow>
     p c = Ok (x, c\<lparr>pos := length pre + length bs\<rparr>)"
  unfolding reads_def by blast

lemma readsI:
  "(\<And>c pre rest. data c = pre @ bs @ rest \<Longrightarrow> pos c = length pre \<Longrightarrow>
     p c = Ok (x, c\<lparr>pos := length pre + length bs\<rparr>)) \<Longrightarrow> reads p bs x"
  unfolding reads_def by blast

lemma reads_ret: "reads (\<lambda>c. Ok (x, c)) [] x"
  by (rule readsI) simp

lemma reads_bind:
  assumes "reads p bs x" and "reads (f x) bs' y"
  shows "reads (\<lambda>c. obind (p c) (\<lambda>(x, c). f x c)) (bs @ bs') y"
proof (rule readsI)
  fix c :: cursor and pre rest
  assume d: "data c = pre @ (bs @ bs') @ rest" and p: "pos c = length pre"
  have "p c = Ok (x, c\<lparr>pos := length pre + length bs\<rparr>)"
    using d p by (intro readsD [OF assms(1)]) simp_all
  moreover have "f x (c\<lparr>pos := length pre + length bs\<rparr>) = Ok (y, c\<lparr>pos := length pre + length (bs @ bs')\<rparr>)"
    using d readsD [OF assms(2), of "c\<lparr>pos := length pre + length bs\<rparr>" "pre @ bs" rest] by (simp add: add.assoc)
  ultimately show "obind (p c) (\<lambda>(x, c). f x c) = Ok (y, c\<lparr>pos := length pre + length (bs @ bs')\<rparr>)"
    by simp
qed

text \<open>The same when the last part is a plain result.\<close>

lemma reads_map:
  assumes "reads p bs x"
  shows "reads (\<lambda>c. obind (p c) (\<lambda>(x, c). Ok (f x, c))) bs (f x)"
  using reads_bind [OF assms, of "\<lambda>x c. Ok (f x, c)", OF reads_ret] by simp

lemma reads_orep:
  "list_all2 (\<lambda>x bs. reads p bs x) xs bss \<Longrightarrow> reads (orep (length xs) p) (concat bss) xs"
proof (induction rule: list_all2_induct)
  case Nil
  show ?case by (simp add: reads_def)
next
  case (Cons x xs bs bss)
  have "orep (length (x # xs)) p = (\<lambda>c. obind (p c) (\<lambda>(x, c). obind (orep (length xs) p c) (\<lambda>(xs, c). Ok (x # xs, c))))"
    by (rule ext) simp
  then show ?case
    using reads_bind [OF Cons(1) reads_map [OF Cons(3)]] by simp
qed

lemma reads_byte: "reads read_u8 [b] b"
  by (rule readsI) (simp add: read_u8_def nth_append)

lemma reads_bytes: "reads (orep (length bs) read_u8) bs bs"
proof -
  have "list_all2 (\<lambda>x bs. reads read_u8 bs x) bs (map (\<lambda>b. [b]) bs)"
    by (simp add: list_all2_conv_all_nth reads_byte)
  from reads_orep [OF this] show ?thesis by simp
qed

lemma reads_uleb: "reads uleb128 (uleb_encode (uint w)) w"
  by (rule readsI) (rule uleb128_encode)

lemma reads_sleb: "reads sleb128 (sleb_encode (sint w)) w"
  by (rule readsI) (rule sleb128_encode)

section \<open>MUTF-8 round trip\<close>

definition scalar :: "nat \<Rightarrow> bool" where
  "scalar u \<longleftrightarrow> u < 0xD800 \<or> (0xE000 \<le> u \<and> u < 0x110000)"

text \<open>UTF-8 of one code point, and the MUTF-8 form of a code point of the BMP.\<close>

definition utf8_encode :: "nat \<Rightarrow> u8 list" where
  "utf8_encode u =
     (if u < 0x80 then [of_nat u]
      else if u < 0x800 then [of_nat (0xC0 + u div 64), of_nat (0x80 + u mod 64)]
      else if u < 0x10000 then
        [of_nat (0xE0 + u div 4096), of_nat (0x80 + u div 64 mod 64), of_nat (0x80 + u mod 64)]
      else
        [of_nat (0xF0 + u div 262144), of_nat (0x80 + u div 4096 mod 64),
         of_nat (0x80 + u div 64 mod 64), of_nat (0x80 + u mod 64)])"

definition mutf8_encode :: "nat \<Rightarrow> u8 list" where
  "mutf8_encode u = (if u = 0 then [0xC0, 0x80] else utf8_encode u)"

lemma unat_byte: "n < 256 \<Longrightarrow> unat (of_nat n :: u8) = n"
  by (simp add: unat_of_nat)

lemmas byte_cmp = word_le_nat_alt word_less_nat_alt word_unat_eq_iff

lemma byte_le: "n < 256 \<Longrightarrow> numeral k \<le> (of_nat n :: u8) \<longleftrightarrow> unat (numeral k :: u8) \<le> n"
  by (simp add: word_le_nat_alt unat_byte)
lemma byte_ge: "n < 256 \<Longrightarrow> (of_nat n :: u8) \<le> numeral k \<longleftrightarrow> n \<le> unat (numeral k :: u8)"
  by (simp add: word_le_nat_alt unat_byte)
lemma byte_less: "n < 256 \<Longrightarrow> (of_nat n :: u8) < numeral k \<longleftrightarrow> n < unat (numeral k :: u8)"
  by (simp add: word_less_nat_alt unat_byte)
lemma byte_eq: "n < 256 \<Longrightarrow> (of_nat n :: u8) = numeral k \<longleftrightarrow> n = unat (numeral k :: u8)"
  by (simp add: word_unat_eq_iff unat_byte)
lemma byte_eq0: "n < 256 \<Longrightarrow> (of_nat n :: u8) = 0 \<longleftrightarrow> n = 0"
  by (simp add: word_unat_eq_iff unat_byte)


lemma mod64_le: "(n::nat) mod 64 \<le> 63"
  using mod_less_divisor [of 64 n] by simp

lemmas byte_simps = byte_less byte_le byte_ge byte_eq byte_eq0 mod64_le

lemma lossy_utf8_encode:
  assumes "scalar u"
  shows "from_utf8_lossy (utf8_encode u @ r) = utf8_encode u @ from_utf8_lossy r"
proof -
  consider "u < 0x80" | "0x80 \<le> u" "u < 0x800" | "0x800 \<le> u" "u < 0x10000"
    | "0x10000 \<le> u" "u < 0x110000"
    using assms by (force simp: scalar_def)
  then show ?thesis
  proof cases
    case 1
    then show ?thesis by (simp add: utf8_encode_def byte_less)
  next
    case 2
    then have "u div 64 < 32" "2 \<le> u div 64" by (simp_all add: less_mult_imp_div_less)
    then show ?thesis using 2
      by (simp add: utf8_encode_def byte_simps cont_def del: of_nat_add)
  next
    case 3
    define a b where "a = u div 4096" and "b = u div 64 mod 64"
    have a: "a < 16" and b: "b < 64" using 3 by (simp_all add: a_def b_def less_mult_imp_div_less)
    have ab: "u div 64 = a * 64 + b"
      by (simp add: a_def b_def div_mult2_eq [of u 64 64, simplified])
    have "a = 0 \<Longrightarrow> 32 \<le> b" using 3 ab div_le_mono [of "0x800" u 64] by simp
    moreover have "u div 64 < 864 \<or> 896 \<le> u div 64"
      using assms 3 div_le_mono [of "0xE000" u 64]
      by (auto simp: scalar_def less_mult_imp_div_less)
    then have "a = 13 \<Longrightarrow> b < 32" using ab b by auto
    ultimately have "second3 (of_nat (0xE0 + a)) (of_nat (0x80 + b))"
      using a b by (auto simp: second3_def byte_simps cont_def simp del: of_nat_add)
    then show ?thesis using 3 a b
      by (simp add: utf8_encode_def byte_simps cont_def flip: a_def b_def del: of_nat_add)
  next
    case 4
    define a b where "a = u div 262144" and "b = u div 4096 mod 64"
    have ab: "u div 4096 = a * 64 + b"
      by (simp add: a_def b_def div_mult2_eq [of u 4096 64, simplified])
    have a: "a < 5" and b: "b < 64" using 4 by (simp_all add: a_def b_def less_mult_imp_div_less)
    have "16 \<le> u div 4096" using 4 div_le_mono [of "0x10000" u 4096] by simp
    moreover have "u div 4096 < 272" using 4 by (simp add: less_mult_imp_div_less)
    ultimately have "a = 0 \<Longrightarrow> 16 \<le> b" "a = 4 \<Longrightarrow> b < 16" using ab by auto
    then have "second4 (of_nat (0xF0 + a)) (of_nat (0x80 + b))"
      using a b by (auto simp: second4_def byte_simps cont_def simp del: of_nat_add)
    then show ?thesis using 4 a b
      by (simp add: utf8_encode_def byte_simps cont_def flip: a_def b_def del: of_nat_add)
  qed
qed

lemma lossy_utf8_encodes:
  "\<forall>u \<in> set us. scalar u \<Longrightarrow> from_utf8_lossy (concat (map utf8_encode us)) = concat (map utf8_encode us)"
  by (induction us) (simp_all add: lossy_utf8_encode)

declare mutf8_scan.simps [simp del]

lemma mutf8_scan_encode:
  assumes "u < 0x10000"
  shows "mutf8_scan i (mutf8_encode u @ r) =
    obind (mutf8_scan (i + length (mutf8_encode u)) r) (\<lambda>out. Ok (utf8_encode u @ out))"
proof -
  consider "u = 0" | "u < 0x80" "u \<noteq> 0" | "0x80 \<le> u" "u < 0x800" | "0x800 \<le> u"
    by force
  then show ?thesis
  proof cases
    case 1
    then show ?thesis by (simp add: mutf8_encode_def utf8_encode_def mutf8_scan.simps)
  next
    case 2
    then show ?thesis
      by (simp add: mutf8_encode_def utf8_encode_def mutf8_scan.simps byte_simps)
  next
    case 3
    then have "u div 64 < 32" "2 \<le> u div 64" by (simp_all add: less_mult_imp_div_less)
    then show ?thesis using 3
      by (simp add: mutf8_encode_def utf8_encode_def mutf8_scan.simps byte_simps del: of_nat_add)
  next
    case 4
    then have "u div 4096 < 16" using assms by (simp add: less_mult_imp_div_less)
    then show ?thesis using 4 assms
      by (simp add: mutf8_encode_def utf8_encode_def mutf8_scan.simps byte_simps numeral_3_eq_3
          del: of_nat_add)
  qed
qed

lemma mutf8_scan_encodes:
  "\<forall>u \<in> set us. u < 0x10000 \<Longrightarrow>
     mutf8_scan i (concat (map mutf8_encode us) @ 0 # junk) = Ok (concat (map utf8_encode us))"
  by (induction us arbitrary: i) (simp_all add: mutf8_scan_encode, simp add: mutf8_scan.simps)

section \<open>Properties\<close>

text \<open>
  Reading a LEB128 number that was written at the cursor gives the number back and leaves
  the cursor right behind it, for every 32-bit value, whatever bytes surround it. The writer
  is the format's definition: seven bits a byte, low ones first, the top bit on all but the last.
\<close>

theorem uleb128_roundtrip:
  assumes "data c = before @ uleb_encode (uint w) @ after" and "pos c = length before"
  shows "uleb128 c = Ok (w, c\<lparr>pos := length before + length (uleb_encode (uint w))\<rparr>)"
  by (rule uleb128_encode [OF assms])

theorem uleb128_roundtrip_witness:
  "uleb128 \<lparr>data = [9] @ uleb_encode (uint (300 :: u32)) @ [7], pos = 1\<rparr>
     = Ok (300, \<lparr>data = [9] @ uleb_encode 300 @ [7], pos = 1 + length (uleb_encode 300)\<rparr>)"
  using uleb128_roundtrip [of "\<lparr>data = [9] @ uleb_encode (uint (300 :: u32)) @ [7], pos = 1\<rparr>" "[9]" 300 "[7]"]
  by simp

text \<open>
  The same for signed LEB128, which the exception handler lists use for their size: every
  32-bit value comes back with its sign, so a negative count (a list with a catch-all) is
  told apart from a positive one.
\<close>

theorem sleb128_roundtrip:
  assumes "data c = before @ sleb_encode (sint w) @ after" and "pos c = length before"
  shows "sleb128 c = Ok (w, c\<lparr>pos := length before + length (sleb_encode (sint w))\<rparr>)"
  by (rule sleb128_encode [OF assms])

theorem sleb128_roundtrip_witness:
  "sleb128 \<lparr>data = sleb_encode (sint (- 123456 :: i32)), pos = 0\<rparr>
     = Ok (- 123456, \<lparr>data = sleb_encode (- 123456), pos = length (sleb_encode (- 123456))\<rparr>)"
  using sleb128_roundtrip [of "\<lparr>data = sleb_encode (sint (- 123456 :: i32)), pos = 0\<rparr>" "[]" "- 123456" "[]"]
  by simp

text \<open>
  C8: A DEX string of Basic-Multilingual-Plane characters survives: decoding the MUTF-8 form
  of any scalar values below U+10000, up to the terminating NUL byte and whatever follows it,
  gives exactly their UTF-8 text, the NUL character (stored as C0 80) included.
\<close>

theorem decode_mutf8_roundtrip:
  assumes "\<forall>u \<in> set us. scalar u \<and> u < 0x10000"
  shows "decode_mutf8 (concat (map mutf8_encode us) @ 0 # junk)
       = Ok (map byte_char (concat (map utf8_encode us)))"
  using assms by (simp add: decode_mutf8_def mutf8_scan_encodes lossy_utf8_encodes)

theorem decode_mutf8_roundtrip_witness:
  "decode_mutf8 (concat (map mutf8_encode [97, 0, 0xE9, 0x20AC]) @ 0 # [1])
     = Ok (map byte_char (concat (map utf8_encode [97, 0, 0xE9, 0x20AC])))"
  by (rule decode_mutf8_roundtrip) (simp add: scalar_def)

text \<open>
  Above the BMP the decoder loses the text. MUTF-8 stores U+1F600 as the two surrogates
  D83D DE00, three bytes each; the decoder copies the six bytes through, the UTF-8 check then
  rejects every one of them, and the string holds six replacement characters.
\<close>

theorem decode_mutf8_surrogates_lost:
  "decode_mutf8 [0xED, 0xA0, 0xBD, 0xED, 0xB8, 0x80, 0]
     = Ok (map byte_char (replacement @ replacement @ replacement @ replacement @ replacement @ replacement))"
  by (simp add: decode_mutf8_def mutf8_scan.simps second3_def cont_def)

end
