(* ===== verification/DexInsn.thy ===== *)
theory DexInsn
  imports DexRead
begin

text \<open>
  \<open>src/src/dex/insn.rs\<close>: the pre-decoded instruction set, the decoder of one instruction
  (\<open>decode\<close>, here \<open>decode_insn\<close>, split by the groups of opcodes its \<open>match\<close> lists), the inline
  payload readers, and the linear sweep \<open>decode_all\<close> with the side tables it returns. Code
  is a list of 16-bit units; a position is an index into it, and every error carries the
  byte offset the source computes (twice the index).
\<close>

section \<open>Instructions\<close>

record args =
  count :: u8
  regs5 :: "u8 list"
  range :: bool
  base :: u16

text \<open>\<open>self.regs[i]\<close> panics from the sixth argument on; \<open>base + i\<close> wraps in a release build.\<close>

definition reg_at :: "args \<Rightarrow> u8 \<Rightarrow> nat option" where
  "reg_at a i =
     (if range a then Some (unat (base a + ucast i))
      else map_option unat (nth_opt (regs5 a) (unat i)))"

datatype invoke_kind = Virtual | Super | Direct | Static | Interface

datatype array_elem = AE_Int | AE_Wide | AE_Obj | AE_Bool | AE_Byte | AE_Char | AE_Short

datatype cmp_op = CmplFloat | CmpgFloat | CmplDouble | CmpgDouble | CmpLong

datatype if_op = If_Eq | If_Ne | If_Lt | If_Ge | If_Gt | If_Le
  | If_Ez | If_Nz | If_Ltz | If_Gez | If_Gtz | If_Lez

datatype unop = NegInt | NotInt | NegLong | NotLong | NegFloat | NegDouble
  | IntToLong | IntToFloat | IntToDouble | LongToInt | LongToFloat | LongToDouble
  | FloatToInt | FloatToLong | FloatToDouble | DoubleToInt | DoubleToLong | DoubleToFloat
  | IntToByte | IntToChar | IntToShort

datatype binop = Add | Sub | Mul | Div | Rem | And | Or | Xor | Shl | Shr | Ushr

datatype lit_op = Bin binop | Rsub

fun to_binop :: "lit_op \<Rightarrow> binop" where
  "to_binop (Bin b) = b"
| "to_binop Rsub = Sub"

datatype fill_array =
    FA_Byte "u8 list" | FA_Short "u16 list" | FA_Char "u16 list" | FA_Int "u32 list"
  | FA_Wide "u64 list"

datatype (plugins only: code) insn =
    Nop | Move u8 u16 | MoveWide u8 u16 | MoveResult u8 | MoveResultWide u8 | MoveException u8
  | ReturnVoid | Return u8 | ReturnWide u8
  | Const4 u8 i8 | Const16 u8 i16 | Const u8 i32 | ConstHigh16 u8 i32
  | ConstWide16 u8 i64 | ConstWide32 u8 i64 | ConstWide u8 i64 | ConstWideHigh16 u8 i64
  | ConstString u8 u32 | ConstStringJumbo u8 u32 | ConstClass u8 u32
  | ConstMethodHandle u8 u32 | ConstMethodType u8 u32
  | MonitorEnter u8 | MonitorExit u8 | CheckCast u8 u32 | InstanceOf u8 u8 u32
  | ArrayLength u8 u8 | NewInstance u8 u32 | NewArray u8 u8 u32 | FilledNewArray args u32
  | FillArrayData u8 u32 fill_array | Throw u8 | Goto u32
  | PackedSwitch u8 u32 i32 "i32 list" | SparseSwitch u8 u32 "i32 list" "i32 list"
  | Cmp cmp_op u8 u8 u8 | If if_op u8 u8 u32 | IfZ if_op u8 u32
  | AGet array_elem u8 u8 u8 | APut array_elem u8 u8 u8
  | IGet u8 u8 u32 | IGetWide u8 u8 u32 | IGetObj u8 u8 u32
  | IPut u8 u8 u32 | IPutWide u8 u8 u32 | IPutObj u8 u8 u32
  | SGet u8 u32 | SGetWide u8 u32 | SGetObj u8 u32
  | SPut u8 u32 | SPutWide u8 u32 | SPutObj u8 u32
  | Invoke invoke_kind u32 args
  | Unop unop u8 u8 | Binop binop u8 u8 u8 | BinopLit lit_op u8 u8 i32

section \<open>Operand fields of a code unit\<close>

type_synonym code = "u16 list"

text \<open>The opcode, the 4-bit fields A and B, the 8-bit field AA, and the bytes of a second unit.\<close>

definition op_of :: "u16 \<Rightarrow> nat" where
  "op_of w = unat (w AND 0xff)"

definition a4 :: "u16 \<Rightarrow> u8" where
  "a4 w = ucast (drop_bit 8 w AND 0x0f)"

definition b4 :: "u16 \<Rightarrow> u8" where
  "b4 w = ucast (drop_bit 12 w AND 0x0f)"

definition a8 :: "u16 \<Rightarrow> u8" where
  "a8 w = ucast (drop_bit 8 w AND 0xff)"

definition lo8 :: "u16 \<Rightarrow> u8" where
  "lo8 w = ucast (w AND 0xff)"

definition hi8 :: "u16 \<Rightarrow> u8" where
  "hi8 w = ucast (drop_bit 8 w)"

text \<open>\<open>(pc as i64 + i64::from(off)) as u32\<close>, with \<open>off\<close> an \<open>i32\<close>.\<close>

definition tgt :: "nat \<Rightarrow> i32 \<Rightarrow> u32" where
  "tgt pc off' = word_of_int (int pc + sint off')"

text \<open>The closures \<open>w1\<close>, \<open>w2\<close> and the functions \<open>w3\<close>, \<open>w4\<close>: the unit \<open>k\<close> after the opcode's.\<close>

definition unit_at :: "code \<Rightarrow> nat \<Rightarrow> nat \<Rightarrow> u16 dex" where
  "unit_at insns pc k =
     ok_or (dex_err ((pc + k) * 2) ''short instruction'') (nth_opt insns (pc + k))"

abbreviation w1 :: "code \<Rightarrow> nat \<Rightarrow> u16 dex" where "w1 insns pc \<equiv> unit_at insns pc 1"

abbreviation w2 :: "code \<Rightarrow> nat \<Rightarrow> u16 dex" where "w2 insns pc \<equiv> unit_at insns pc 2"

definition w3 :: "code \<Rightarrow> nat \<Rightarrow> u16 dex" where "w3 insns pc = unit_at insns pc 3"

definition w4 :: "code \<Rightarrow> nat \<Rightarrow> u16 dex" where "w4 insns pc = unit_at insns pc 4"

text \<open>\<open>i32::from(lo) | (i32::from(hi) << 16)\<close>; also the \<open>u32\<close> form, the bits are the same.\<close>

definition join32 :: "u16 \<Rightarrow> u16 \<Rightarrow> u32" where
  "join32 lo hi = ucast lo OR push_bit 16 (ucast hi)"

type_synonym decoded1 = "(insn \<times> nat) dex"

text \<open>Readers of one, two and four extra units with the continuation the source writes inline.\<close>

definition with1 :: "code \<Rightarrow> nat \<Rightarrow> (u16 \<Rightarrow> insn) \<Rightarrow> decoded1" where
  "with1 insns pc f = obind (w1 insns pc) (\<lambda>u. Ok (f u, pc + 2))"

definition with2 :: "code \<Rightarrow> nat \<Rightarrow> (u16 \<Rightarrow> u16 \<Rightarrow> insn) \<Rightarrow> decoded1" where
  "with2 insns pc f =
     obind (w1 insns pc) (\<lambda>u. obind (w2 insns pc) (\<lambda>v. Ok (f u v, pc + 3)))"

text \<open>The 32x moves read their second unit first: \<open>Move(w2()? as u8, w1()?)\<close>.\<close>

definition with21 :: "code \<Rightarrow> nat \<Rightarrow> (u16 \<Rightarrow> u16 \<Rightarrow> insn) \<Rightarrow> decoded1" where
  "with21 insns pc f =
     obind (w2 insns pc) (\<lambda>v. obind (w1 insns pc) (\<lambda>u. Ok (f u v, pc + 3)))"

section \<open>The opcode groups\<close>

definition decode_move :: "code \<Rightarrow> nat \<Rightarrow> u16 \<Rightarrow> nat \<Rightarrow> decoded1" where
  "decode_move insns pc w op =
     (if op = 0x00 then Ok (Nop, pc + 1)
      else if op = 0x01 then Ok (Move (a4 w) (ucast (b4 w)), pc + 1)
      else if op = 0x02 then with1 insns pc (Move (a8 w))
      else if op = 0x03 then with21 insns pc (\<lambda>u v. Move (ucast v) u)
      else if op = 0x04 then Ok (MoveWide (a4 w) (ucast (b4 w)), pc + 1)
      else if op = 0x05 then with1 insns pc (MoveWide (a8 w))
      else if op = 0x06 then with21 insns pc (\<lambda>u v. MoveWide (ucast v) u)
      else if op = 0x07 then Ok (Move (a4 w) (ucast (b4 w)), pc + 1)
      else if op = 0x08 then with1 insns pc (Move (a8 w))
      else if op = 0x09 then with21 insns pc (\<lambda>u v. Move (ucast v) u)
      else if op = 0x0a then Ok (MoveResult (a8 w), pc + 1)
      else if op = 0x0b then Ok (MoveResultWide (a8 w), pc + 1)
      else if op = 0x0c then Ok (MoveResult (a8 w), pc + 1)
      else if op = 0x0d then Ok (MoveException (a8 w), pc + 1)
      else if op = 0x0e then Ok (ReturnVoid, pc + 1)
      else if op = 0x0f then Ok (Return (a8 w), pc + 1)
      else if op = 0x10 then Ok (ReturnWide (a8 w), pc + 1)
      else Ok (Return (a8 w), pc + 1))"

text \<open>\<open>((b4 << 4) as i8) >> 4\<close> sign-extends the nibble; \<open>i32::from(u as i16)\<close> is \<open>scast\<close>.\<close>

definition decode_const :: "code \<Rightarrow> nat \<Rightarrow> u16 \<Rightarrow> nat \<Rightarrow> decoded1" where
  "decode_const insns pc w op =
     (if op = 0x12 then Ok (Const4 (a4 w) (signed_drop_bit 4 (push_bit 4 (b4 w))), pc + 1)
      else if op = 0x13 then with1 insns pc (\<lambda>u. Const16 (a8 w) u)
      else if op = 0x14 then with2 insns pc (\<lambda>u v. Const (a8 w) (join32 u v))
      else if op = 0x15 then with1 insns pc (\<lambda>u. ConstHigh16 (a8 w) (push_bit 16 (scast u)))
      else if op = 0x16 then with1 insns pc (\<lambda>u. ConstWide16 (a8 w) (scast u))
      else if op = 0x17 then
        with2 insns pc (\<lambda>u v. ConstWide32 (a8 w) (ucast u OR push_bit 16 (ucast v)))
      else if op = 0x18 then
        obind (w1 insns pc) (\<lambda>u. obind (w2 insns pc) (\<lambda>v.
        obind (w3 insns pc) (\<lambda>x. obind (w4 insns pc) (\<lambda>y.
          Ok (ConstWide (a8 w)
                (ucast u OR push_bit 16 (ucast v) OR push_bit 32 (ucast x) OR push_bit 48 (ucast y)),
              pc + 5)))))
      else if op = 0x19 then with1 insns pc (\<lambda>u. ConstWideHigh16 (a8 w) (push_bit 48 (scast u)))
      else if op = 0x1a then with1 insns pc (\<lambda>u. ConstString (a8 w) (ucast u))
      else if op = 0x1b then with2 insns pc (\<lambda>u v. ConstStringJumbo (a8 w) (join32 u v))
      else with1 insns pc (\<lambda>u. ConstClass (a8 w) (ucast u)))"

text \<open>Format 35c: the count, the five packed registers and the 16-bit reference index.\<close>

definition args_35c :: "u16 \<Rightarrow> u16 \<Rightarrow> u16 \<Rightarrow> args \<times> u32" where
  "args_35c word u v =
     (\<lparr>count = ucast (drop_bit 12 word AND 0x0f),
       regs5 = [ucast (v AND 0x0f), ucast (drop_bit 4 v AND 0x0f), ucast (drop_bit 8 v AND 0x0f),
                ucast (drop_bit 12 v AND 0x0f), ucast (drop_bit 8 word AND 0x0f)],
       range = False, base = 0\<rparr>, ucast u)"

definition args_range :: "u16 \<Rightarrow> u16 \<Rightarrow> args" where
  "args_range word v = \<lparr>count = a8 word, regs5 = [0, 0, 0, 0, 0], range = True, base = v\<rparr>"

text \<open>
  The inline payloads. Every unit of a switch table is read with the one error the source
  gives, whatever unit is missing; a switch target is relative to the switch instruction.
\<close>

definition switch_unit :: "code \<Rightarrow> nat \<Rightarrow> nat \<Rightarrow> u16 dex" where
  "switch_unit insns payload i =
     ok_or (dex_err (payload * 2) ''switch oob'') (nth_opt insns i)"

definition switch_int :: "code \<Rightarrow> nat \<Rightarrow> nat \<Rightarrow> i32 dex" where
  "switch_int insns payload i =
     obind (switch_unit insns payload i) (\<lambda>lo.
     obind (switch_unit insns payload (i + 1)) (\<lambda>hi. Ok (join32 lo hi)))"

definition decode_packed_switch :: "code \<Rightarrow> nat \<Rightarrow> u16 \<Rightarrow> decoded1" where
  "decode_packed_switch insns pc w =
     obind (w1 insns pc) (\<lambda>u. obind (w2 insns pc) (\<lambda>v.
     let payload = unat (tgt pc (join32 u v)) in
     obind (guard (nth_opt insns payload = Some 0x0100)
              (dex_err (payload * 2) ''bad packed-switch payload'')) (\<lambda>_.
     obind (switch_unit insns payload (payload + 1)) (\<lambda>size.
     obind (switch_int insns payload (payload + 2)) (\<lambda>first_key.
     obind (omap (\<lambda>i. obind (switch_int insns payload (payload + 4 + i * 2)) (\<lambda>t. Ok (tgt pc t)))
              [0..<unat size]) (\<lambda>targets.
     Ok (PackedSwitch (a8 w) (of_nat payload) first_key targets, pc + 3)))))))"

definition decode_sparse_switch :: "code \<Rightarrow> nat \<Rightarrow> u16 \<Rightarrow> decoded1" where
  "decode_sparse_switch insns pc w =
     obind (w1 insns pc) (\<lambda>u. obind (w2 insns pc) (\<lambda>v.
     let payload = unat (tgt pc (join32 u v)) in
     obind (guard (nth_opt insns payload = Some 0x0200)
              (dex_err (payload * 2) ''bad sparse-switch payload'')) (\<lambda>_.
     obind (switch_unit insns payload (payload + 1)) (\<lambda>sz.
     let size = unat sz in
     obind (omap (\<lambda>i.
              obind (switch_int insns payload (payload + 2 + i * 2)) (\<lambda>k.
              obind (switch_int insns payload (payload + 2 + (size + i) * 2)) (\<lambda>t.
              Ok (k, tgt pc t)))) [0..<size]) (\<lambda>kts.
     Ok (SparseSwitch (a8 w) (of_nat payload) (map fst kts) (map snd kts), pc + 3))))))"

definition fill_byte :: "code \<Rightarrow> nat \<Rightarrow> nat \<Rightarrow> u8 dex" where
  "fill_byte insns start i =
     obind (ok_or (dex_err ((start + i div 2) * 2) ''fill-array oob'')
              (nth_opt insns (start + i div 2))) (\<lambda>w.
     Ok (if i mod 2 = 0 then lo8 w else hi8 w))"

definition decode_fill_array_data :: "code \<Rightarrow> nat \<Rightarrow> fill_array dex" where
  "decode_fill_array_data insns payload =
     obind (guard (nth_opt insns payload = Some 0x0300)
              (dex_err (payload * 2) ''bad fill-array-data payload'')) (\<lambda>_.
     let fetch = (\<lambda>i. ok_or (dex_err (payload * 2) ''fill-array oob'') (nth_opt insns i)) in
     obind (fetch (payload + 1)) (\<lambda>wd.
     obind (fetch (payload + 2)) (\<lambda>lo. obind (fetch (payload + 3)) (\<lambda>hi.
     let width = unat wd; size = unat (join32 lo hi); start = payload + 4 in
     obind (omap (fill_byte insns start) [0..<size * width]) (\<lambda>raw.
     if width = 1 then Ok (FA_Byte raw)
     else if width = 2 then
       Ok (FA_Short (map (\<lambda>i. u16_le (raw ! (i * 2)) (raw ! (i * 2 + 1))) [0..<size]))
     else if width = 4 then
       Ok (FA_Int (map (\<lambda>i. u32_le (raw ! (i * 4)) (raw ! (i * 4 + 1)) (raw ! (i * 4 + 2))
                              (raw ! (i * 4 + 3))) [0..<size]))
     else if width = 8 then
       Ok (FA_Wide (map (\<lambda>i. u64_le (sub raw (i * 8) (i * 8 + 8))) [0..<size]))
     else Err (dex_err (payload * 2) (''bad fill-array-data width '' @ show_nat width)))))))"

definition decode_ref :: "code \<Rightarrow> nat \<Rightarrow> u16 \<Rightarrow> nat \<Rightarrow> decoded1" where
  "decode_ref insns pc w op =
     (if op = 0x1d then Ok (MonitorEnter (a8 w), pc + 1)
      else if op = 0x1e then Ok (MonitorExit (a8 w), pc + 1)
      else if op = 0x1f then with1 insns pc (\<lambda>u. CheckCast (a8 w) (ucast u))
      else if op = 0x20 then with1 insns pc (\<lambda>u. InstanceOf (a4 w) (b4 w) (ucast (u AND 0xff)))
      else if op = 0x21 then Ok (ArrayLength (a4 w) (b4 w), pc + 1)
      else if op = 0x22 then with1 insns pc (\<lambda>u. NewInstance (a8 w) (ucast u))
      else if op = 0x23 then with1 insns pc (\<lambda>u. NewArray (a4 w) (b4 w) (ucast u))
      else if op = 0x24 then
        with2 insns pc (\<lambda>u v. case args_35c w u v of (a, type_idx) \<Rightarrow> FilledNewArray a type_idx)
      else if op = 0x25 then with21 insns pc (\<lambda>u v. FilledNewArray (args_range w v) (ucast u))
      else if op = 0x26 then
        obind (w1 insns pc) (\<lambda>u. obind (w2 insns pc) (\<lambda>v.
        let payload = unat (tgt pc (join32 u v)) in
        obind (decode_fill_array_data insns payload) (\<lambda>d.
        Ok (FillArrayData (a8 w) (of_nat payload) d, pc + 3))))
      else Ok (Throw (a8 w), pc + 1))"

definition decode_branch :: "code \<Rightarrow> nat \<Rightarrow> u16 \<Rightarrow> nat \<Rightarrow> decoded1" where
  "decode_branch insns pc w op =
     (if op = 0x28 then Ok (Goto (tgt pc (scast (hi8 w))), pc + 1)
      else if op = 0x29 then with1 insns pc (\<lambda>u. Goto (tgt pc (scast u)))
      else if op = 0x2a then with2 insns pc (\<lambda>u v. Goto (tgt pc (join32 u v)))
      else if op = 0x2b then decode_packed_switch insns pc w
      else if op = 0x2c then decode_sparse_switch insns pc w
      else if op \<le> 0x31 then
        with1 insns pc (\<lambda>u. Cmp (if op = 0x2d then CmplFloat else if op = 0x2e then CmpgFloat
                                 else if op = 0x2f then CmplDouble else if op = 0x30 then CmpgDouble
                                 else CmpLong) (a8 w) (lo8 u) (hi8 u))
      else if op \<le> 0x37 then
        with1 insns pc (\<lambda>u. If (if op = 0x32 then If_Eq else if op = 0x33 then If_Ne
                                else if op = 0x34 then If_Lt else if op = 0x35 then If_Ge
                                else if op = 0x36 then If_Gt else If_Le)
                               (a4 w) (b4 w) (tgt pc (scast u)))
      else
        with1 insns pc (\<lambda>u. IfZ (if op = 0x38 then If_Ez else if op = 0x39 then If_Nz
                                 else if op = 0x3a then If_Ltz else if op = 0x3b then If_Gez
                                 else if op = 0x3c then If_Gtz else If_Lez)
                                (a8 w) (tgt pc (scast u))))"

definition array_elem_of :: "nat \<Rightarrow> array_elem" where
  "array_elem_of k =
     (if k = 0 then AE_Int else if k = 1 then AE_Wide else if k = 2 then AE_Obj
      else if k = 3 then AE_Bool else if k = 4 then AE_Byte else if k = 5 then AE_Char
      else AE_Short)"

definition decode_array_op :: "code \<Rightarrow> nat \<Rightarrow> u16 \<Rightarrow> nat \<Rightarrow> decoded1" where
  "decode_array_op insns pc w op =
     (if op \<le> 0x4a then with1 insns pc (\<lambda>u. AGet (array_elem_of (op - 0x44)) (a8 w) (lo8 u) (hi8 u))
      else with1 insns pc (\<lambda>u. APut (array_elem_of (op - 0x4b)) (a8 w) (lo8 u) (hi8 u)))"

definition decode_field_op :: "code \<Rightarrow> nat \<Rightarrow> u16 \<Rightarrow> nat \<Rightarrow> decoded1" where
  "decode_field_op insns pc w op =
     (if op = 0x52 then with1 insns pc (\<lambda>u. IGet (a4 w) (b4 w) (ucast u))
      else if op = 0x53 then with1 insns pc (\<lambda>u. IGetWide (a4 w) (b4 w) (ucast u))
      else if op = 0x54 then with1 insns pc (\<lambda>u. IGetObj (a4 w) (b4 w) (ucast u))
      else if op \<le> 0x58 then with1 insns pc (\<lambda>u. IGet (a4 w) (b4 w) (ucast u))
      else if op = 0x59 then with1 insns pc (\<lambda>u. IPut (a4 w) (b4 w) (ucast u))
      else if op = 0x5a then with1 insns pc (\<lambda>u. IPutWide (a4 w) (b4 w) (ucast u))
      else if op = 0x5b then with1 insns pc (\<lambda>u. IPutObj (a4 w) (b4 w) (ucast u))
      else if op \<le> 0x5f then with1 insns pc (\<lambda>u. IPut (a4 w) (b4 w) (ucast u))
      else if op = 0x60 then with1 insns pc (\<lambda>u. SGet (a8 w) (ucast u))
      else if op = 0x61 then with1 insns pc (\<lambda>u. SGetWide (a8 w) (ucast u))
      else if op = 0x62 then with1 insns pc (\<lambda>u. SGetObj (a8 w) (ucast u))
      else if op \<le> 0x66 then with1 insns pc (\<lambda>u. SGet (a8 w) (ucast u))
      else if op = 0x67 then with1 insns pc (\<lambda>u. SPut (a8 w) (ucast u))
      else if op = 0x68 then with1 insns pc (\<lambda>u. SPutWide (a8 w) (ucast u))
      else if op = 0x69 then with1 insns pc (\<lambda>u. SPutObj (a8 w) (ucast u))
      else with1 insns pc (\<lambda>u. SPut (a8 w) (ucast u)))"

definition invoke_kind_of :: "nat \<Rightarrow> invoke_kind" where
  "invoke_kind_of k =
     (if k = 0 then Virtual else if k = 1 then Super else if k = 2 then Direct
      else if k = 3 then Static else Interface)"

definition decode_invoke :: "code \<Rightarrow> nat \<Rightarrow> u16 \<Rightarrow> nat \<Rightarrow> decoded1" where
  "decode_invoke insns pc w op =
     (if op \<le> 0x72 then
        with2 insns pc (\<lambda>u v. case args_35c w u v of (a, method_idx) \<Rightarrow>
          Invoke (invoke_kind_of (op - 0x6e)) method_idx a)
      else
        with21 insns pc (\<lambda>u v. Invoke (invoke_kind_of (op - 0x74)) (ucast u) (args_range w v)))"

definition unop_table :: "unop list" where
  "unop_table = [NegInt, NotInt, NegLong, NotLong, NegFloat, NegDouble,
     IntToLong, IntToFloat, IntToDouble, LongToInt, LongToFloat, LongToDouble,
     FloatToInt, FloatToLong, FloatToDouble, DoubleToInt, DoubleToLong, DoubleToFloat,
     IntToByte, IntToChar, IntToShort]"

definition decode_unop :: "nat \<Rightarrow> u16 \<Rightarrow> nat \<Rightarrow> decoded1" where
  "decode_unop pc w op = Ok (Unop (unop_table ! (op - 0x7b)) (a4 w) (b4 w), pc + 1)"

text \<open>Both binary groups list int 0-10, long 11-21, float 22-26, double 27-31 from their first opcode.\<close>

definition binop_of :: "nat \<Rightarrow> binop" where
  "binop_of k =
     (if k \<in> {0, 11, 22, 27} then Add else if k \<in> {1, 12, 23, 28} then Sub
      else if k \<in> {2, 13, 24, 29} then Mul else if k \<in> {3, 14, 25, 30} then Div
      else if k \<in> {4, 15, 26, 31} then Rem else if k \<in> {5, 16} then And
      else if k \<in> {6, 17} then Or else if k \<in> {7, 18} then Xor
      else if k \<in> {8, 19} then Shl else if k \<in> {9, 20} then Shr else Ushr)"

definition lit_op_of :: "nat \<Rightarrow> lit_op" where
  "lit_op_of k =
     (if k = 0 then Bin Add else if k = 1 then Rsub else if k = 2 then Bin Mul
      else if k = 3 then Bin Div else if k = 4 then Bin Rem else if k = 5 then Bin And
      else if k = 6 then Bin Or else if k = 7 then Bin Xor else if k = 8 then Bin Shl
      else if k = 9 then Bin Shr else Bin Ushr)"

text \<open>\<open>i32::from(w1()? >> 8) as i8 as i32\<close> sign-extends the high byte of the second unit.\<close>

definition decode_binop :: "code \<Rightarrow> nat \<Rightarrow> u16 \<Rightarrow> nat \<Rightarrow> decoded1" where
  "decode_binop insns pc w op =
     (if op \<le> 0xaf then with1 insns pc (\<lambda>u. Binop (binop_of (op - 0x90)) (a8 w) (lo8 u) (hi8 u))
      else if op \<le> 0xcf then Ok (Binop (binop_of (op - 0xb0)) (a4 w) (a4 w) (b4 w), pc + 1)
      else if op \<le> 0xd7 then
        with1 insns pc (\<lambda>u. BinopLit (lit_op_of (op - 0xd0)) (a4 w) (b4 w) (scast u))
      else
        with1 insns pc (\<lambda>u. BinopLit (lit_op_of (op - 0xd8)) (a8 w) (lo8 u) (scast (hi8 u))))"

section \<open>Decoding one instruction\<close>

definition unknown_opcode :: "nat \<Rightarrow> nat \<Rightarrow> decoded1" where
  "unknown_opcode pc op = Err (dex_err (pc * 2) (''unknown opcode '' @ show_hex_04 op))"

definition decode_insn :: "code \<Rightarrow> nat \<Rightarrow> decoded1" where
  "decode_insn insns pc =
     obind (ok_or (dex_err (pc * 2) ''instruction past end of code'') (nth_opt insns pc)) (\<lambda>w.
     let op = op_of w in
     if op \<le> 0x11 then decode_move insns pc w op
     else if op \<le> 0x1c then decode_const insns pc w op
     else if op \<le> 0x27 then decode_ref insns pc w op
     else if op \<le> 0x3d then decode_branch insns pc w op
     else if op < 0x44 then unknown_opcode pc op
     else if op \<le> 0x51 then decode_array_op insns pc w op
     else if op \<le> 0x6d then decode_field_op insns pc w op
     else if op \<le> 0x72 then decode_invoke insns pc w op
     else if op < 0x74 then unknown_opcode pc op
     else if op \<le> 0x78 then decode_invoke insns pc w op
     else if op < 0x7b then unknown_opcode pc op
     else if op \<le> 0x8f then decode_unop pc w op
     else if op \<le> 0xe2 then decode_binop insns pc w op
     else if op = 0xfb \<or> op = 0xfc then Err (dex_err (pc * 2) ''invoke-polymorphic not supported'')
     else if op = 0xfd \<or> op = 0xfe then Err (dex_err (pc * 2) ''invoke-custom not supported'')
     else if op = 0xff then with1 insns pc (\<lambda>u. ConstMethodHandle (a8 w) (ucast u))
     else unknown_opcode pc op)"

section \<open>The linear sweep\<close>

text \<open>The payload spans are \<open>u32\<close> in the source; sums wrap as in a release build.\<close>

definition payload_span :: "insn \<Rightarrow> (u32 \<times> u32) option" where
  "payload_span i =
     (case i of
        PackedSwitch r payload k targets \<Rightarrow> Some (payload, payload + 4 + 2 * of_nat (length targets))
      | SparseSwitch r payload ks targets \<Rightarrow> Some (payload, payload + 2 + 4 * of_nat (length ks))
      | FillArrayData r payload d \<Rightarrow>
          Some (payload, payload + 4 +
            (case d of
               FA_Byte v \<Rightarrow> of_nat ((length v + 1) div 2)
             | FA_Short v \<Rightarrow> of_nat (length v)
             | FA_Char v \<Rightarrow> of_nat (length v)
             | FA_Int v \<Rightarrow> 2 * of_nat (length v)
             | FA_Wide v \<Rightarrow> 4 * of_nat (length v)))
      | _ \<Rightarrow> None)"

record decoded =
  insns :: "insn list"
  units :: "u32 list"
  sizes :: "u32 list"
  words :: u32

text \<open>
  The \<open>while\<close> loop of \<open>decode_all\<close>, with the three tables as the entries it pushes and the
  list of spans to skip (oldest first, as \<open>push\<close> leaves it). The fuel bounds the number of
  rounds; \<open>decode_all\<close> gives one round per code unit, which is shown to be enough.
\<close>

fun sweep :: "nat \<Rightarrow> code \<Rightarrow> (u32 \<times> u32) list \<Rightarrow> nat \<Rightarrow> (insn \<times> u32 \<times> u32) list dex" where
  "sweep 0 code skips pc = (if pc < length code then Diverge else Ok [])"
| "sweep (Suc fuel) code skips pc =
     (if pc < length code then
        (case List.find (\<lambda>(start, e). unat start = pc) skips of
           Some (start, e) \<Rightarrow> sweep fuel code skips (unat e)
         | None \<Rightarrow>
             obind (decode_insn code pc) (\<lambda>(i, next_pc).
             let skips' = (case payload_span i of Some s \<Rightarrow> skips @ [s] | None \<Rightarrow> skips) in
             obind (sweep fuel code skips' next_pc) (\<lambda>rest.
             Ok ((i, of_nat pc, of_nat (next_pc - pc)) # rest))))
      else Ok [])"

definition decode_all :: "code \<Rightarrow> decoded dex" where
  "decode_all code =
     obind (sweep (length code) code [] 0) (\<lambda>rows.
     Ok \<lparr>insns = map fst rows, units = map (fst \<circ> snd) rows, sizes = map (snd \<circ> snd) rows,
         words = of_nat (length code)\<rparr>)"

section \<open>One instruction: progress and payload bounds\<close>

text \<open>A decoded instruction ends behind its start, inside the code, at most five units on.\<close>

definition fits :: "code \<Rightarrow> nat \<Rightarrow> nat \<Rightarrow> bool" where
  "fits code pc n \<longleftrightarrow> pc < n \<and> n \<le> length code \<and> n \<le> pc + 5"

lemma unit_at_Ok [simp]: "unit_at code pc k = Ok u \<longleftrightarrow> pc + k < length code \<and> u = code ! (pc + k)"
  by (auto simp: unit_at_def)

lemma unit_at_total [simp]: "unit_at code pc k \<noteq> Panic" "unit_at code pc k \<noteq> Diverge"
  by (simp_all add: unit_at_def)

lemma with1_Ok: "with1 code pc f = Ok (i, n) \<longleftrightarrow> pc + 1 < length code \<and> i = f (code ! (pc + 1)) \<and> n = pc + 2"
  by (auto simp: with1_def obind_Ok_iff)

lemma with2_Ok: "with2 code pc f = Ok (i, n) \<longleftrightarrow>
    pc + 2 < length code \<and> i = f (code ! (pc + 1)) (code ! (pc + 2)) \<and> n = pc + 3"
  by (auto simp: with2_def obind_Ok_iff)

lemma with21_Ok: "with21 code pc f = Ok (i, n) \<longleftrightarrow>
    pc + 2 < length code \<and> i = f (code ! (pc + 1)) (code ! (pc + 2)) \<and> n = pc + 3"
  by (auto simp: with21_def obind_Ok_iff)

lemma with_total [simp]:
  "with1 code pc f \<noteq> Panic" "with1 code pc f \<noteq> Diverge"
  "with2 code pc g \<noteq> Panic" "with2 code pc g \<noteq> Diverge"
  "with21 code pc g \<noteq> Panic" "with21 code pc g \<noteq> Diverge"
  by (auto simp: with1_def with2_def with21_def obind_iffs)

lemmas with_Ok = with1_Ok with2_Ok with21_Ok

text \<open>A decoded payload lies inside the code.\<close>

definition span_ok :: "code \<Rightarrow> insn \<Rightarrow> bool" where
  "span_ok code i \<longleftrightarrow>
     (case payload_span i of None \<Rightarrow> True | Some (s, e) \<Rightarrow> unat s < unat e \<and> unat e \<le> length code)"

lemma switch_int_Ok: "switch_int code p i = Ok k \<longleftrightarrow>
    i + 1 < length code \<and> k = join32 (code ! i) (code ! (i + 1))"
  by (auto simp: switch_int_def switch_unit_def obind_Ok_iff)

lemma switch_total [simp]:
  "switch_int code p i \<noteq> Panic" "switch_int code p i \<noteq> Diverge"
  "switch_unit code p i \<noteq> Panic" "switch_unit code p i \<noteq> Diverge"
  by (auto simp: switch_int_def switch_unit_def obind_iffs)

lemma span_okI:
  assumes span: "payload_span i = Some (of_nat p, of_nat (p + k))"
    and len: "length code < 2 ^ 32" and k: "0 < k" and le: "p + k \<le> length code"
  shows "span_ok code i"
proof -
  have "unat (of_nat p :: u32) = p" and "unat (of_nat (p + k) :: u32) = p + k"
    using len le by (simp_all only: unat_of_nat) simp_all
  with span k le show ?thesis by (simp add: span_ok_def del: of_nat_add)
qed

lemma packed_fits:
  assumes "decode_packed_switch code pc w = Ok (i, n)" and "length code < 2 ^ 32"
  shows "fits code pc n \<and> span_ok code i"
proof -
  from assms(1) obtain p size fk targets where *: "pc + 2 < length code"
    and fk: "switch_int code p (p + 2) = Ok fk"
    and ts: "omap (\<lambda>i. obind (switch_int code p (p + 4 + i * 2)) (\<lambda>t. Ok (tgt pc t)))
               [0..<unat (size :: u16)] = Ok targets"
    and i: "i = PackedSwitch (a8 w) (of_nat p) fk targets" and n: "n = pc + 3"
    by (fastforce simp: decode_packed_switch_def obind_Ok_iff Let_def)
  have len: "length targets = unat size" using ts by (auto dest: omap_Ok_length)
  have "p + (4 + 2 * unat size) \<le> length code"
  proof (cases "unat size")
    case 0
    with fk show ?thesis by (simp add: switch_int_Ok)
  next
    case (Suc k)
    with omap_Ok_nth [OF ts, of k] show ?thesis
      by (auto simp: obind_Ok_iff switch_int_Ok simp del: upt_Suc)
  qed
  then have "span_ok code i"
    by (intro span_okI [where p = p and k = "4 + 2 * unat size", OF _ assms(2)])
       (simp_all add: payload_span_def i len add.assoc)
  with * n show ?thesis by (simp add: fits_def)
qed

lemma sparse_fits:
  assumes "decode_sparse_switch code pc w = Ok (i, n)" and "length code < 2 ^ 32"
  shows "fits code pc n \<and> span_ok code i"
proof -
  from assms(1) obtain p sz kts where *: "pc + 2 < length code" and sz: "p + 1 < length code"
    and ts: "omap (\<lambda>i. obind (switch_int code p (p + 2 + i * 2)) (\<lambda>k.
               obind (switch_int code p (p + 2 + (unat sz + i) * 2)) (\<lambda>t. Ok (k, tgt pc t))))
               [0..<unat (sz :: u16)] = Ok kts"
    and i: "i = SparseSwitch (a8 w) (of_nat p) (map fst kts) (map snd kts)" and n: "n = pc + 3"
    by (fastforce simp: decode_sparse_switch_def switch_unit_def obind_Ok_iff Let_def)
  have len: "length kts = unat sz" using ts by (auto dest: omap_Ok_length)
  have "p + (2 + 4 * unat sz) \<le> length code"
  proof (cases "unat sz")
    case 0
    with sz show ?thesis by simp
  next
    case (Suc k)
    with omap_Ok_nth [OF ts, of k] show ?thesis
      by (auto simp: obind_Ok_iff switch_int_Ok simp del: upt_Suc)
  qed
  then have "span_ok code i"
    by (intro span_okI [where p = p and k = "2 + 4 * unat sz", OF _ assms(2)])
       (simp_all add: payload_span_def i len add.assoc)
  with * n show ?thesis by (simp add: fits_def)
qed

text \<open>A fill-array payload of \<open>b\<close> bytes occupies four units and the units its bytes fill.\<close>

lemma fill_array_bytes:
  assumes "decode_fill_array_data code p = Ok d"
  shows "\<exists>b. p + (4 + (b + 1) div 2) \<le> length code \<and>
    (case d of FA_Byte v \<Rightarrow> b = length v | FA_Short v \<Rightarrow> b = 2 * length v
     | FA_Char v \<Rightarrow> b = 2 * length v | FA_Int v \<Rightarrow> b = 4 * length v | FA_Wide v \<Rightarrow> b = 8 * length v)"
proof -
  from assms obtain wd lo hi raw where p: "p + 3 < length code"
    and raw: "omap (fill_byte code (p + 4)) [0..<unat (join32 lo hi) * unat (wd :: u16)] = Ok raw"
    and r: "(if unat wd = 1 then Ok (FA_Byte raw)
     else if unat wd = 2 then
       Ok (FA_Short (map (\<lambda>i. u16_le (raw ! (i * 2)) (raw ! (i * 2 + 1))) [0..<unat (join32 lo hi)]))
     else if unat wd = 4 then
       Ok (FA_Int (map (\<lambda>i. u32_le (raw ! (i * 4)) (raw ! (i * 4 + 1)) (raw ! (i * 4 + 2))
                              (raw ! (i * 4 + 3))) [0..<unat (join32 lo hi)]))
     else if unat wd = 8 then
       Ok (FA_Wide (map (\<lambda>i. u64_le (sub raw (i * 8) (i * 8 + 8))) [0..<unat (join32 lo hi)]))
     else Err (dex_err (p * 2) (''bad fill-array-data width '' @ show_nat (unat wd)))) = Ok d"
    unfolding decode_fill_array_data_def Let_def obind_Ok_iff ok_or_Ok_iff nth_opt_Some_iff guard_simps
    by blast
  define sz where "sz = unat (join32 lo hi)"
  have d: "unat wd = 1 \<and> d = FA_Byte raw \<or> unat wd = 2 \<and> (\<exists>v. d = FA_Short v \<and> length v = sz) \<or>
       unat wd = 4 \<and> (\<exists>v. d = FA_Int v \<and> length v = sz) \<or>
       unat wd = 8 \<and> (\<exists>v. d = FA_Wide v \<and> length v = sz)"
    using r by (auto simp: sz_def split: if_splits)
  define b where "b = sz * unat wd"
  have "p + (4 + (b + 1) div 2) \<le> length code"
  proof (cases b)
    case 0
    with p show ?thesis by simp
  next
    case (Suc k)
    have "fill_byte code (p + 4) k = Ok (raw ! k)"
      using omap_Ok_nth [OF raw, of k] Suc by (simp add: b_def sz_def del: upt_Suc)
    then have "p + 4 + k div 2 < length code" by (auto simp: fill_byte_def obind_Ok_iff)
    with Suc show ?thesis by simp
  qed
  moreover have "length raw = b" using raw by (auto simp: b_def sz_def dest: omap_Ok_length)
  ultimately show ?thesis using d by (auto simp: b_def mult.commute)
qed

lemma fill_fits:
  assumes "decode_fill_array_data code p = Ok d" and "length code < 2 ^ 32"
  shows "span_ok code (FillArrayData r (of_nat p) d)"
proof -
  from fill_array_bytes [OF assms(1)] obtain b where b: "p + (4 + (b + 1) div 2) \<le> length code"
    and d: "case d of FA_Byte v \<Rightarrow> b = length v | FA_Short v \<Rightarrow> b = 2 * length v
     | FA_Char v \<Rightarrow> b = 2 * length v | FA_Int v \<Rightarrow> b = 4 * length v | FA_Wide v \<Rightarrow> b = 8 * length v"
    by blast
  have "payload_span (FillArrayData r (of_nat p) d) = Some (of_nat p, of_nat (p + (4 + (b + 1) div 2)))"
    using d by (cases d) (simp_all add: payload_span_def add.assoc)
  from span_okI [OF this assms(2) _ b] show ?thesis by simp
qed

lemma fill_fits_at:
  "decode_fill_array_data code (unat t) = Ok d \<Longrightarrow> length code < 2 ^ 32 \<Longrightarrow>
     span_ok code (FillArrayData r t d)"
  using fill_fits [of code "unat t" d r] by simp

lemma no_span [simp]: "payload_span i = None \<Longrightarrow> span_ok code i"
  by (simp add: span_ok_def)

lemma decode_insn_fits:
  assumes "decode_insn code pc = Ok (i, n)" and "length code < 2 ^ 32"
  shows "fits code pc n \<and> span_ok code i"
proof -
  from assms(1) have pc: "pc < length code" by (auto simp: decode_insn_def obind_Ok_iff)
  have move: "decode_move code pc w op = Ok (i, n) \<Longrightarrow> fits code pc n \<and> span_ok code i" for w op
    using pc by (auto simp: decode_move_def with_Ok fits_def payload_span_def split: if_splits)
  have const: "decode_const code pc w op = Ok (i, n) \<Longrightarrow> fits code pc n \<and> span_ok code i" for w op
    using pc by (auto simp: decode_const_def with_Ok fits_def obind_Ok_iff w3_def w4_def payload_span_def
        split: if_splits)
  have "ref": "decode_ref code pc w op = Ok (i, n) \<Longrightarrow> fits code pc n \<and> span_ok code i" for w op
    using pc fill_fits_at [OF _ assms(2)]
    by (auto simp: decode_ref_def with_Ok fits_def obind_Ok_iff Let_def args_35c_def payload_span_def
        split: if_splits)
  have branch: "decode_branch code pc w op = Ok (i, n) \<Longrightarrow> fits code pc n \<and> span_ok code i" for w op
    using pc packed_fits [OF _ assms(2), of pc w i n] sparse_fits [OF _ assms(2), of pc w i n]
    by (auto simp: decode_branch_def with_Ok fits_def payload_span_def split: if_splits)
  have arr: "decode_array_op code pc w op = Ok (i, n) \<Longrightarrow> fits code pc n \<and> span_ok code i" for w op
    by (auto simp: decode_array_op_def with_Ok fits_def payload_span_def split: if_splits)
  have fld: "decode_field_op code pc w op = Ok (i, n) \<Longrightarrow> fits code pc n \<and> span_ok code i" for w op
    by (auto simp: decode_field_op_def with_Ok fits_def payload_span_def split: if_splits)
  have inv: "decode_invoke code pc w op = Ok (i, n) \<Longrightarrow> fits code pc n \<and> span_ok code i" for w op
    by (auto simp: decode_invoke_def with_Ok fits_def args_35c_def payload_span_def split: if_splits)
  have un: "decode_unop pc w op = Ok (i, n) \<Longrightarrow> fits code pc n \<and> span_ok code i" for w op
    using pc by (auto simp: decode_unop_def fits_def payload_span_def)
  have bin: "decode_binop code pc w op = Ok (i, n) \<Longrightarrow> fits code pc n \<and> span_ok code i" for w op
    using pc by (auto simp: decode_binop_def with_Ok fits_def payload_span_def split: if_splits)
  have mh: "with1 code pc (\<lambda>u. ConstMethodHandle (a8 w) (ucast u)) = Ok (i, n) \<Longrightarrow>
      fits code pc n \<and> span_ok code i" for w
    by (auto simp: with_Ok fits_def payload_span_def)
  show ?thesis
    using assms(1) move const "ref" branch arr fld inv un bin mh
    by (auto simp: decode_insn_def obind_Ok_iff Let_def unknown_opcode_def simp del: One_nat_def split: if_splits)
qed

section \<open>Never a panic, always a return\<close>

lemma payload_total [simp]:
  "decode_packed_switch code pc w \<noteq> Panic" "decode_packed_switch code pc w \<noteq> Diverge"
  "decode_sparse_switch code pc w \<noteq> Panic" "decode_sparse_switch code pc w \<noteq> Diverge"
  "decode_fill_array_data code p \<noteq> Panic" "decode_fill_array_data code p \<noteq> Diverge"
  by (auto simp: decode_packed_switch_def decode_sparse_switch_def decode_fill_array_data_def
      fill_byte_def obind_iffs Let_def dest!: omap_total [THEN conjunct1, THEN notE, rotated] omap_total [THEN conjunct2, THEN notE, rotated] split: if_splits)

lemma decode_insn_total [simp]:
  "decode_insn code pc \<noteq> Panic" "decode_insn code pc \<noteq> Diverge"
  by (auto simp: decode_insn_def obind_iffs Let_def unknown_opcode_def decode_move_def decode_const_def
    decode_ref_def decode_branch_def decode_array_op_def decode_field_op_def decode_invoke_def
    decode_unop_def decode_binop_def w3_def w4_def split: if_splits)

text \<open>Every span the sweep has collected so far lies inside the code and is not empty.\<close>

definition skips_ok :: "code \<Rightarrow> (u32 \<times> u32) list \<Rightarrow> bool" where
  "skips_ok code skips \<longleftrightarrow> (\<forall>(s, e) \<in> set skips. unat s < unat e \<and> unat e \<le> length code)"

lemma skips_ok_step:
  "skips_ok code skips \<Longrightarrow> span_ok code i \<Longrightarrow>
     skips_ok code (case payload_span i of Some s \<Rightarrow> skips @ [s] | None \<Rightarrow> skips)"
  by (auto simp: skips_ok_def span_ok_def split: option.splits)

lemma skips_ok_find:
  "skips_ok code skips \<Longrightarrow> List.find (\<lambda>(s, e). unat s = pc) skips = Some (s, e) \<Longrightarrow>
     pc < unat e \<and> unat e \<le> length code"
  by (auto simp: skips_ok_def find_Some_iff all_set_conv_all_nth)

lemma sweep_returns:
  "length code < 2 ^ 32 \<Longrightarrow> skips_ok code skips \<Longrightarrow> length code \<le> pc + fuel \<Longrightarrow>
     sweep fuel code skips pc \<noteq> Diverge \<and> sweep fuel code skips pc \<noteq> Panic"
proof (induction fuel code skips pc rule: sweep.induct)
  case (2 fuel code skips pc)
  show ?case
  proof (cases "List.find (\<lambda>(s, e). unat s = pc) skips")
    case None
    have "sweep fuel code (case payload_span i of Some s \<Rightarrow> skips @ [s] | None \<Rightarrow> skips) n \<noteq> Diverge \<and>
          sweep fuel code (case payload_span i of Some s \<Rightarrow> skips @ [s] | None \<Rightarrow> skips) n \<noteq> Panic"
      if d: "decode_insn code pc = Ok (i, n)" and pc: "pc < length code" for i n
      using decode_insn_fits [OF d "2.prems"(1)] "2.prems" skips_ok_step
      by (intro "2.IH"(1) [OF pc None d refl refl]) (auto simp: fits_def)
    then show ?thesis using None by (auto simp: obind_iffs Let_def)
  next
    case (Some se)
    then show ?thesis
      using "2.prems" "2.IH"(2) [OF _ Some] skips_ok_find [OF "2.prems"(2)]
      by (cases se) fastforce
  qed
qed simp

text \<open>What the rows of the sweep say, from a starting position on.\<close>

fun rows_ok :: "code \<Rightarrow> nat \<Rightarrow> (insn \<times> u32 \<times> u32) list \<Rightarrow> bool" where
  "rows_ok code pc [] \<longleftrightarrow> True"
| "rows_ok code pc ((i, u, s) # rows) \<longleftrightarrow>
     pc \<le> unat u \<and> 0 < unat s \<and> unat u + unat s \<le> length code \<and>
     decode_insn code (unat u) = Ok (i, unat u + unat s) \<and> rows_ok code (unat u + unat s) rows"

lemma rows_ok_mono: "rows_ok code pc rows \<Longrightarrow> pc' \<le> pc \<Longrightarrow> rows_ok code pc' rows"
  by (induction code pc rows rule: rows_ok.induct) auto

lemma sweep_rows:
  "sweep fuel code skips pc = Ok rows \<Longrightarrow> length code < 2 ^ 32 \<Longrightarrow> skips_ok code skips \<Longrightarrow>
     rows_ok code pc rows"
proof (induction fuel code skips pc arbitrary: rows rule: sweep.induct)
  case (1 code skips pc)
  then show ?case by (auto split: if_splits)
next
  case (2 fuel code skips pc)
  show ?case
  proof (cases "pc < length code")
    case False
    then show ?thesis using "2.prems" by simp
  next
    case pc: True
    show ?thesis
    proof (cases "List.find (\<lambda>(s, e). unat s = pc) skips")
      case None
      with "2.prems" pc obtain i n rest where d: "decode_insn code pc = Ok (i, n)"
        and r: "sweep fuel code (case payload_span i of Some s \<Rightarrow> skips @ [s] | None \<Rightarrow> skips) n = Ok rest"
        and rows: "rows = (i, of_nat pc, of_nat (n - pc)) # rest"
        by (auto simp: obind_Ok_iff Let_def)
      have f: "fits code pc n" "span_ok code i" using decode_insn_fits [OF d "2.prems"(2)] by auto
      have "rows_ok code n rest"
        using "2.prems" skips_ok_step [OF _ f(2)] by (intro "2.IH"(1) [OF pc None d refl refl r]) auto
      moreover have "unat (of_nat pc :: u32) = pc" "unat (of_nat (n - pc) :: u32) = n - pc"
        using f "2.prems"(2) pc by (simp_all only: unat_of_nat) (auto simp: fits_def intro!: mod_less)
      ultimately show ?thesis using f d by (simp add: rows fits_def)
    next
      case (Some se)
      obtain s e where se: "se = (s, e)" by (cases se)
      have "rows_ok code (unat e) rows"
        using "2.prems" pc Some se by (intro "2.IH"(2) [OF pc Some se[symmetric]]) auto
      then show ?thesis
        using skips_ok_find [OF "2.prems"(3)] Some se by (auto elim!: rows_ok_mono dest: less_imp_le)
    qed
  qed
qed

lemma rows_ok_nth:
  "rows_ok code pc rows \<Longrightarrow> k < length rows \<Longrightarrow> rows ! k = (i, u, s) \<Longrightarrow>
     pc \<le> unat u \<and> 0 < unat s \<and> unat u + unat s \<le> length code \<and>
     decode_insn code (unat u) = Ok (i, unat u + unat s) \<and>
     (\<forall>j i' u' s'. k < j \<longrightarrow> j < length rows \<longrightarrow> rows ! j = (i', u', s') \<longrightarrow> unat u + unat s \<le> unat u')"
proof (induction code pc rows arbitrary: k i u s rule: rows_ok.induct)
  case (2 code pc i0 u0 s0 rows)
  have later: "unat u0 + unat s0 \<le> unat u'"
    if "j < length rows" "rows ! j = (i', u', s')" for j i' u' s'
    using "2.IH" "2.prems"(1) that by simp
  show ?case
  proof (cases k)
    case 0
    with "2.prems" later show ?thesis
      by (auto simp: nth_Cons split: nat.splits)
  next
    case (Suc m)
    from "2.IH" [of m] "2.prems" Suc show ?thesis
      by (auto simp: nth_Cons split: nat.splits)
  qed
qed simp

lemma decode_all_Ok:
  assumes "decode_all code = Ok d" and "length code < 2 ^ 32"
  obtains rows where "rows_ok code 0 rows" and "insns d = map fst rows"
    and "units d = map (fst \<circ> snd) rows" and "sizes d = map (snd \<circ> snd) rows"
    and "unat (words d) = length code"
proof -
  from assms(1) obtain rows where r: "sweep (length code) code [] 0 = Ok rows"
    and d: "d = \<lparr>insns = map fst rows, units = map (fst \<circ> snd) rows, sizes = map (snd \<circ> snd) rows,
         words = of_nat (length code)\<rparr>"
    by (auto simp: decode_all_def obind_Ok_iff)
  have "rows_ok code 0 rows" using r assms(2) by (intro sweep_rows) (auto simp: skips_ok_def)
  moreover have "unat (of_nat (length code) :: u32) = length code"
    using assms(2) by (simp add: unat_of_nat)
  ultimately show thesis using d by (intro that [of rows]) simp_all
qed

section \<open>Properties\<close>

text \<open>
  Decoding one instruction always makes progress and never runs off the code: a success
  consumes between one and five code units, all of them present, and the inline payload of a
  switch or a fill-array-data instruction lies inside the code. No input makes the decoder
  panic, a truncated payload included.
\<close>

theorem decode_insn_progress:
  assumes "length code < 2 ^ 32"
  shows "case decode_insn code pc of
      Ok (i, n) \<Rightarrow> pc < n \<and> n \<le> pc + 5 \<and> n \<le> length code \<and>
        (case payload_span i of Some (s, e) \<Rightarrow> unat s < unat e \<and> unat e \<le> length code | None \<Rightarrow> True)
    | Err _ \<Rightarrow> True
    | Panic \<Rightarrow> False
    | Diverge \<Rightarrow> False"
proof (cases "decode_insn code pc")
  case (Ok x)
  obtain i n where x: "x = (i, n)" by (cases x)
  from decode_insn_fits [of code pc i n] Ok x assms show ?thesis
    by (auto simp: fits_def span_ok_def split: option.splits)
qed auto

theorem decode_insn_progress_witness:
  "case decode_insn [0x002b, 3, 0, 0x0100, 1, 5, 0, 2, 0] 0 of
      Ok (i, n) \<Rightarrow> 0 < n \<and> n \<le> 0 + 5 \<and> n \<le> length [0x002b, 3, 0, 0x0100, 1, 5, 0, 2, 0 :: u16] \<and>
        (case payload_span i of
           Some (s, e) \<Rightarrow> unat s < unat e \<and> unat e \<le> length [0x002b, 3, 0, 0x0100, 1, 5, 0, 2, 0 :: u16]
         | None \<Rightarrow> True)
    | Err _ \<Rightarrow> True | Panic \<Rightarrow> False | Diverge \<Rightarrow> False"
  by (rule decode_insn_progress) simp

text \<open>
  C4: Pre-decoding a method terminates: the sweep over any code array (a DEX code item holds
  less than 2^32 units) reaches its end or a decode error in at most one round per code unit,
  jumping over the payloads it has met, and never panics.
\<close>

theorem decode_all_terminates:
  assumes "length code < 2 ^ 32"
  shows "(\<exists>d. decode_all code = Ok d) \<or> (\<exists>e. decode_all code = Err e)"
proof -
  have "sweep (length code) code [] 0 \<noteq> Diverge \<and> sweep (length code) code [] 0 \<noteq> Panic"
    using assms by (intro sweep_returns) (simp_all add: skips_ok_def)
  then show ?thesis by (cases "sweep (length code) code [] 0") (auto simp: decode_all_def)
qed

theorem decode_all_terminates_witness:
  "(\<exists>d. decode_all [0x0012, 0x000f] = Ok d) \<or> (\<exists>e. decode_all [0x0012, 0x000f] = Err e)"
  by (rule decode_all_terminates) simp

text \<open>The side tables, row by row.\<close>

lemma decode_all_rows:
  assumes "decode_all code = Ok d" and "length code < 2 ^ 32"
  shows "length (units d) = length (insns d) \<and> length (sizes d) = length (insns d) \<and>
    unat (words d) = length code \<and>
    (\<forall>k < length (insns d).
       decode_insn code (unat (units d ! k)) = Ok (insns d ! k, unat (units d ! k) + unat (sizes d ! k)) \<and>
       0 < unat (sizes d ! k) \<and> unat (units d ! k) + unat (sizes d ! k) \<le> length code \<and>
       (\<forall>j < k. unat (units d ! j) + unat (sizes d ! j) \<le> unat (units d ! k)))"
proof -
  obtain rows where r: "rows_ok code 0 rows" and d: "insns d = map fst rows"
    "units d = map (fst \<circ> snd) rows" "sizes d = map (snd \<circ> snd) rows" "unat (words d) = length code"
    using decode_all_Ok [OF assms] by metis
  have row: "decode_insn code (unat (units d ! k)) = Ok (insns d ! k, unat (units d ! k) + unat (sizes d ! k)) \<and>
      0 < unat (sizes d ! k) \<and> unat (units d ! k) + unat (sizes d ! k) \<le> length code"
    if "k < length (insns d)" for k
    using rows_ok_nth [OF r, of k] that by (cases "rows ! k") (auto simp: d)
  have "unat (units d ! j) + unat (sizes d ! j) \<le> unat (units d ! k)"
    if "j < k" "k < length (insns d)" for j k
    using rows_ok_nth [OF r, of j] that by (cases "rows ! j"; cases "rows ! k") (auto simp: d)
  with row show ?thesis by (simp add: d)
qed

text \<open>
  C5: The side tables of \<open>decode_all\<close> describe the code: they have one row per instruction,
  row \<open>k\<close> is what decoding at its unit offset gives, with its size, every row lies inside the
  code, and the rows are in order and do not overlap. The interpreter relies on this to turn
  branch targets (unit offsets) into instruction indices.
\<close>

theorem decode_all_tables:
  assumes "decode_all code = Ok d" and "length code < 2 ^ 32"
  shows "length (units d) = length (insns d) \<and> length (sizes d) = length (insns d) \<and>
    unat (words d) = length code \<and>
    (\<forall>k < length (insns d).
       decode_insn code (unat (units d ! k)) = Ok (insns d ! k, unat (units d ! k) + unat (sizes d ! k)) \<and>
       0 < unat (sizes d ! k) \<and> unat (units d ! k) + unat (sizes d ! k) \<le> length code \<and>
       (\<forall>j < k. unat (units d ! j) + unat (sizes d ! j) \<le> unat (units d ! k)))"
  by (rule decode_all_rows [OF assms])

theorem decode_all_tables_witness:
  "\<exists>d. decode_all [0x1012, 0x000f] = Ok d \<and> length (insns d) = 2 \<and>
     decode_insn [0x1012, 0x000f] (unat (units d ! 1)) = Ok (insns d ! 1, unat (units d ! 1) + unat (sizes d ! 1)) \<and>
     unat (units d ! 0) + unat (sizes d ! 0) \<le> unat (units d ! 1)"
proof -
  let ?d = "\<lparr>insns = [Const4 0 1, Return 0], units = [0, 1], sizes = [1, 1], words = 2\<rparr>"
  have "decode_all [0x1012, 0x000f] = Ok ?d" by code_simp
  with decode_all_tables [OF this] show ?thesis by (intro exI [of _ ?d]) auto
qed

text \<open>
  The three moves of format 32x (\<open>move/16\<close>, \<open>move-wide/16\<close>, \<open>move-object/16\<close>) decode with
  their operands swapped. The format stores the destination in the first extra unit and the
  source in the second, as the comment of the source says; the decoder takes the destination
  from the second (cut to eight bits) and the source from the first.
\<close>

theorem move16_operands_swapped:
  "decode_insn [0x0003, dst, src] 0 = Ok (Move (ucast src) dst, 3) \<and>
   decode_insn [0x0006, dst, src] 0 = Ok (MoveWide (ucast src) dst, 3) \<and>
   decode_insn [0x0009, dst, src] 0 = Ok (Move (ucast src) dst, 3)"
  by (simp add: decode_insn_def op_of_def decode_move_def with21_def unit_at_def nth_opt_def)

end
