(* ===== verification/DexFile.thy ===== *)
theory DexFile
  imports DexInsn
begin

text \<open>
  \<open>src/src/dex/mod.rs\<close>: the tables of a parsed DEX file and the parser that fills them
  (encoded values, class data, code items with their try lists, the runtime generic
  signature, \<open>DexFile::parse\<close>) and the lookups by descriptor. Offsets are \<open>u32\<close> values of
  the file turned into \<open>usize\<close>; floats are kept as their bit patterns, which is how the file
  stores them. Running out of memory on a huge table size, and overflowing the native stack
  on a deeply nested value, are not modelled.
\<close>

section \<open>The tables\<close>

datatype encoded_value =
    EV_Byte i8 | EV_Short i16 | EV_Char u16 | EV_Int i32 | EV_Long i64 | EV_Float u32
  | EV_Double u64 | EV_MethodType u32 | EV_MethodHandle u32 | EV_String u32 | EV_Type u32
  | EV_Field u32 | EV_Method u32 | EV_Enum u32 | EV_Array "encoded_value list"
  | EV_Annotation annotation | EV_Null | EV_Bool bool
and annotation = Annotation u32 "(u32 \<times> encoded_value) list"

record proto_id =
  shorty :: u32
  return_type :: u32
  params :: "u32 list"

record field_id =
  fid_class :: u32
  fid_type :: u32
  fid_name :: u32

record method_id =
  mid_class :: u32
  mid_proto :: u32
  mid_name :: u32

record try_item =
  start_addr :: u32
  insn_count :: u16
  handlers :: "(u32 \<times> u32) list"
  catch_all :: "u32 option"

record code_item =
  registers_size :: u16
  ins_size :: u16
  outs_size :: u16
  code_insns :: "u16 list"
  tries :: "try_item list"

definition is_wide_pair :: "code_item \<Rightarrow> nat \<Rightarrow> bool" where
  "is_wide_pair ci pc \<longleftrightarrow> pc + 1 < length (code_insns ci)"

record encoded_field =
  field_idx :: u32
  ef_access_flags :: u32

record encoded_method =
  method_idx :: u32
  em_access_flags :: u32
  code :: "code_item option"

record class_data =
  static_fields :: "encoded_field list"
  instance_fields :: "encoded_field list"
  direct_methods :: "encoded_method list"
  virtual_methods :: "encoded_method list"

record class_def =
  class_idx :: u32
  cd_access_flags :: u32
  superclass_idx :: u32
  interfaces :: "u32 list"
  source_file_idx :: u32
  class_data_of :: "class_data option"
  static_values :: "encoded_value list"
  generic_signature :: "string option"

record dex_file =
  dex_data :: "u8 list"
  strings :: "string list"
  types :: "u32 list"
  protos :: "proto_id list"
  dex_fields :: "field_id list"
  methods :: "method_id list"
  classes :: "class_def list"

section \<open>Encoded values\<close>

text \<open>\<open>n\<close> little-endian payload bytes as a \<open>u64\<close>; sign extension of the low \<open>8 n\<close> bits.\<close>

definition read_le :: "nat \<Rightarrow> cursor \<Rightarrow> (u64 \<times> cursor) dex" where
  "read_le n c = obind (orep n read_u8 c) (\<lambda>(bs, c). Ok (u64_le bs, c))"

definition read_signed :: "nat \<Rightarrow> cursor \<Rightarrow> (i64 \<times> cursor) dex" where
  "read_signed n c = obind (read_le n c) (\<lambda>(v, c).
     let shift = 64 - 8 * n in Ok (signed_drop_bit shift (push_bit shift v), c))"

definition invalid_arg :: "cursor \<Rightarrow> nat \<Rightarrow> nat \<Rightarrow> dex_error" where
  "invalid_arg c value_arg value_type = dex_err (pos c - 1)
     (''invalid value_arg '' @ show_nat value_arg @ '' for encoded value type '' @ show_hex value_type)"

definition index_value :: "nat \<Rightarrow> u32 \<Rightarrow> encoded_value" where
  "index_value value_type i =
     (if value_type = 0x15 then EV_MethodType i else if value_type = 0x16 then EV_MethodHandle i
      else if value_type = 0x17 then EV_String i else if value_type = 0x18 then EV_Type i
      else if value_type = 0x19 then EV_Field i else if value_type = 0x1a then EV_Method i
      else EV_Enum i)"

text \<open>The values without nesting, by their type and argument.\<close>

definition decode_scalar :: "nat \<Rightarrow> nat \<Rightarrow> cursor \<Rightarrow> (encoded_value \<times> cursor) dex" where
  "decode_scalar value_type value_arg c =
     (let size = value_arg + 1 in
      if value_type = 0x00 \<and> value_arg = 0 then
        obind (read_signed size c) (\<lambda>(v, c). Ok (EV_Byte (ucast v), c))
      else if value_type = 0x02 \<and> value_arg \<le> 1 then
        obind (read_signed size c) (\<lambda>(v, c). Ok (EV_Short (ucast v), c))
      else if value_type = 0x03 then
        (if value_arg > 1 then Err (invalid_arg c value_arg value_type)
         else obind (read_le size c) (\<lambda>(v, c). Ok (EV_Char (ucast v), c)))
      else if value_type = 0x04 \<and> value_arg \<le> 3 then
        obind (read_signed size c) (\<lambda>(v, c). Ok (EV_Int (ucast v), c))
      else if value_type = 0x06 \<and> value_arg \<le> 7 then
        obind (read_signed size c) (\<lambda>(v, c). Ok (EV_Long v, c))
      else if value_type = 0x10 \<and> value_arg \<le> 3 then
        obind (read_le size c) (\<lambda>(v, c). Ok (EV_Float (ucast (push_bit (32 - 8 * size) v)), c))
      else if value_type = 0x11 \<and> value_arg \<le> 7 then
        obind (read_le size c) (\<lambda>(v, c). Ok (EV_Double (push_bit (64 - 8 * size) v), c))
      else if 0x15 \<le> value_type \<and> value_type \<le> 0x1b \<and> value_arg \<le> 3 then
        obind (read_le size c) (\<lambda>(v, c). Ok (index_value value_type (ucast v), c))
      else if value_type = 0x1e \<and> value_arg = 0 then Ok (EV_Null, c)
      else if value_type = 0x1f \<and> value_arg \<le> 1 then Ok (EV_Bool (value_arg \<noteq> 0), c)
      else if value_type = 0x00 \<or> 0x02 \<le> value_type \<and> value_type \<le> 0x04 \<or> value_type = 0x06
           \<or> 0x10 \<le> value_type \<and> value_type \<le> 0x11 \<or> 0x15 \<le> value_type \<and> value_type \<le> 0x1f
        then Err (invalid_arg c value_arg value_type)
      else Err (dex_err (pos c - 1) (''unknown encoded value type '' @ show_hex value_type)))"

text \<open>
  The recursion is on the nesting depth: \<open>decode_depth d\<close> reads values nested less than \<open>d\<close>
  deep. \<open>decode\<close> allows one level per remaining byte, more than the input can hold.
\<close>

definition named_value ::
  "(cursor \<Rightarrow> (encoded_value \<times> cursor) dex) \<Rightarrow> cursor \<Rightarrow> ((u32 \<times> encoded_value) \<times> cursor) dex" where
  "named_value dec c =
     obind (uleb128 c) (\<lambda>(name_idx, c). obind (dec c) (\<lambda>(v, c). Ok ((name_idx, v), c)))"

primrec decode_depth :: "nat \<Rightarrow> cursor \<Rightarrow> (encoded_value \<times> cursor) dex" where
  "decode_depth 0 c = Diverge"
| "decode_depth (Suc d) c =
     obind (read_u8 c) (\<lambda>(b, c).
     let value_type = unat (b AND 0x1f); value_arg = unat (drop_bit 5 b) in
     if value_type = 0x1c \<and> value_arg = 0 then
       obind (uleb128 c) (\<lambda>(n, c).
       obind (orep (unat n) (decode_depth d) c) (\<lambda>(items, c). Ok (EV_Array items, c)))
     else if value_type = 0x1d \<and> value_arg = 0 then
       obind (uleb128 c) (\<lambda>(type_idx, c). obind (uleb128 c) (\<lambda>(n, c).
       obind (orep (unat n) (named_value (decode_depth d)) c) (\<lambda>(elements, c).
       Ok (EV_Annotation (Annotation type_idx elements), c))))
     else decode_scalar value_type value_arg c)"

definition decode :: "cursor \<Rightarrow> (encoded_value \<times> cursor) dex" where
  "decode c = decode_depth (Suc (remaining c)) c"

section \<open>Type lists, class data and code items\<close>

definition read_type_list :: "cursor \<Rightarrow> nat \<Rightarrow> u32 list dex" where
  "read_type_list c off' =
     (if off' = 0 then Ok []
      else obind (u32_at c off') (\<lambda>n.
           omap (\<lambda>j. obind (u16_at c (off' + 4 + j * 2)) (\<lambda>t. Ok (ucast t))) [0..<unat n]))"

definition handler_pair :: "cursor \<Rightarrow> ((u32 \<times> u32) \<times> cursor) dex" where
  "handler_pair c =
     obind (uleb128 c) (\<lambda>(type_idx, c). obind (uleb128 c) (\<lambda>(addr, c). Ok ((type_idx, addr), c)))"

text \<open>
  A positive size is the number of typed handlers; otherwise its absolute value is, and a
  catch-all address follows. \<open>-n\<close> wraps, so \<open>i32::MIN\<close> gives an empty range.
\<close>

definition parse_handlers :: "cursor \<Rightarrow> ((u32 \<times> u32) list \<times> u32 option) dex" where
  "parse_handlers c =
     obind (sleb128 c) (\<lambda>(n, c).
     if 0 < sint n then
       obind (orep (nat (sint n)) handler_pair c) (\<lambda>(hs, c). Ok (hs, None))
     else
       obind (orep (nat (sint (- n))) handler_pair c) (\<lambda>(hs, c).
       obind (uleb128 c) (\<lambda>(addr, c). Ok (hs, Some addr))))"

text \<open>One try item; the cursor is moved to the handler list and back.\<close>

definition parse_try :: "nat \<Rightarrow> nat \<Rightarrow> cursor \<Rightarrow> (try_item \<times> cursor) dex" where
  "parse_try tries_start tries_size c =
     obind (read_u32 c) (\<lambda>(start, c).
     obind (read_u16 c) (\<lambda>(cnt, c).
     obind (read_u16 c) (\<lambda>(handler_off, c).
     let list_pos = tries_start + tries_size * 8 + unat handler_off; saved = pos c in
     obind (seek list_pos c) (\<lambda>hc.
     obind (parse_handlers hc) (\<lambda>(hs, ca).
     obind (seek saved c) (\<lambda>c.
     Ok (\<lparr>start_addr = start, insn_count = cnt, handlers = hs, catch_all = ca\<rparr>, c)))))))"

definition parse_code_item :: "u8 list \<Rightarrow> nat \<Rightarrow> code_item dex" where
  "parse_code_item d off' =
     obind (seek off' (cursor_new d)) (\<lambda>c.
     obind (read_u16 c) (\<lambda>(regs, c). obind (read_u16 c) (\<lambda>(ins, c).
     obind (read_u16 c) (\<lambda>(outs, c). obind (read_u16 c) (\<lambda>(tries_size, c).
     obind (read_u32 c) (\<lambda>(debug_info_off, c). obind (read_u32 c) (\<lambda>(insns_size, c).
     obind (read_bytes (unat insns_size * 2) c) (\<lambda>(bs, c).
     let units = map (\<lambda>i. u16_le (bs ! (i * 2)) (bs ! (i * 2 + 1))) [0..<unat insns_size] in
     obind (if 0 < tries_size \<and> unat insns_size mod 2 = 1
            then obind (read_u16 c) (\<lambda>(padding, c). Ok c) else Ok c) (\<lambda>c.
     obind (orep (unat tries_size) (parse_try (pos c) (unat tries_size)) c) (\<lambda>(ts, c).
     Ok \<lparr>registers_size = regs, ins_size = ins, outs_size = outs, code_insns = units,
         tries = ts\<rparr>))))))))))"

text \<open>The delta-coded member lists; \<open>idx +=\<close> wraps in a release build.\<close>

definition parse_field :: "u32 \<times> cursor \<Rightarrow> (encoded_field \<times> u32 \<times> cursor) dex" where
  "parse_field = (\<lambda>(idx, c).
     obind (uleb128 c) (\<lambda>(d, c). obind (uleb128 c) (\<lambda>(fl, c).
     Ok (\<lparr>field_idx = idx + d, ef_access_flags = fl\<rparr>, idx + d, c))))"

definition parse_method :: "u32 \<times> cursor \<Rightarrow> (encoded_method \<times> u32 \<times> cursor) dex" where
  "parse_method = (\<lambda>(idx, c).
     obind (uleb128 c) (\<lambda>(d, c). obind (uleb128 c) (\<lambda>(fl, c). obind (uleb128 c) (\<lambda>(code_off, c).
     obind (if code_off = 0 then Ok None
            else obind (parse_code_item (data c) (unat code_off)) (\<lambda>ci. Ok (Some ci))) (\<lambda>ci.
     Ok (\<lparr>method_idx = idx + d, em_access_flags = fl, code = ci\<rparr>, idx + d, c))))))"

definition parse_class_data :: "u8 list \<Rightarrow> nat \<Rightarrow> class_data dex" where
  "parse_class_data d off' =
     obind (seek off' (cursor_new d)) (\<lambda>c.
     obind (uleb128 c) (\<lambda>(static_fields_size, c). obind (uleb128 c) (\<lambda>(instance_fields_size, c).
     obind (uleb128 c) (\<lambda>(direct_methods_size, c). obind (uleb128 c) (\<lambda>(virtual_methods_size, c).
     obind (orep (unat static_fields_size) parse_field (0, c)) (\<lambda>(sfs, _, c).
     obind (orep (unat instance_fields_size) parse_field (0, c)) (\<lambda>(ifs, _, c).
     obind (orep (unat direct_methods_size) parse_method (0, c)) (\<lambda>(dms, _, c).
     obind (orep (unat virtual_methods_size) parse_method (0, c)) (\<lambda>(vms, _, c).
     Ok \<lparr>static_fields = sfs, instance_fields = ifs, direct_methods = dms,
         virtual_methods = vms\<rparr>)))))))))"

section \<open>The runtime generic signature\<close>

text \<open>\<open>sig.push_str(&strings[s])\<close> panics when the string index is out of range.\<close>

fun signature_text :: "string list \<Rightarrow> encoded_value list \<Rightarrow> string dex" where
  "signature_text strs [] = Ok []"
| "signature_text strs (v # vs) =
     (case v of
        EV_String s \<Rightarrow>
          (if unat s < length strs then
             obind (signature_text strs vs) (\<lambda>r. Ok (strs ! unat s @ r))
           else Panic)
      | _ \<Rightarrow> signature_text strs vs)"

fun signature_of :: "string list \<Rightarrow> (u32 \<times> encoded_value) list \<Rightarrow> string option dex" where
  "signature_of strs [] = Ok None"
| "signature_of strs ((name_idx, v) # es) =
     (case v of
        EV_Array items \<Rightarrow>
          obind (signature_text strs items) (\<lambda>sig.
          if sig \<noteq> [] then Ok (Some sig) else signature_of strs es)
      | _ \<Rightarrow> signature_of strs es)"

definition parse_annotation :: "cursor \<Rightarrow> annotation dex" where
  "parse_annotation ac =
     obind (uleb128 ac) (\<lambda>(type_idx, ac). obind (uleb128 ac) (\<lambda>(sz, ac).
     obind (orep (unat sz) (named_value decode) ac) (\<lambda>(elements, ac).
     Ok (Annotation type_idx elements))))"

primrec signature_loop :: "nat \<Rightarrow> string list \<Rightarrow> u32 \<Rightarrow> cursor \<Rightarrow> string option dex" where
  "signature_loop 0 strs sig_type_idx c = Ok None"
| "signature_loop (Suc n) strs sig_type_idx c =
     obind (uleb128 c) (\<lambda>(ann_off, c).
     obind (seek (unat ann_off) (cursor_new (data c))) (\<lambda>ac.
     obind (parse_annotation ac) (\<lambda>a. case a of Annotation type_idx elements \<Rightarrow>
     obind (if type_idx = sig_type_idx then signature_of strs elements else Ok None) (\<lambda>r.
     case r of Some sig \<Rightarrow> Ok (Some sig) | None \<Rightarrow> signature_loop n strs sig_type_idx c))))"

definition parse_runtime_signature ::
  "u8 list \<Rightarrow> nat \<Rightarrow> string list \<Rightarrow> u32 option \<Rightarrow> string option dex" where
  "parse_runtime_signature d annotations_off strs signature_type_idx =
     (case signature_type_idx of
        None \<Rightarrow> Ok None
      | Some sig_type_idx \<Rightarrow>
          obind (seek annotations_off (cursor_new d)) (\<lambda>c.
          obind (read_u32 c) (\<lambda>(class_annotations_off, c).
          if class_annotations_off = 0 then Ok None
          else
            obind (seek (unat class_annotations_off) c) (\<lambda>c.
            obind (read_u8 c) (\<lambda>(visibility, c).
            obind (uleb128 c) (\<lambda>(n, c).
            signature_loop (unat n) strs sig_type_idx c))))))"

section \<open>The file\<close>

record header =
  map_off :: nat
  string_ids :: "nat \<times> nat"
  type_ids :: "nat \<times> nat"
  proto_ids :: "nat \<times> nat"
  field_ids :: "nat \<times> nat"
  method_ids :: "nat \<times> nat"
  class_defs :: "nat \<times> nat"

text \<open>
  The header, with a table as its size and its offset. The seventeen words behind the endian
  tag are read in order: \<open>link\<close> (2), \<open>map_off\<close>, six tables (12), \<open>data\<close> (2). The version bytes of
  the magic, the checksum and the signature are read and not used.
\<close>

definition parse_header :: "u8 list \<Rightarrow> header dex" where
  "parse_header d =
     obind (read_bytes 8 (cursor_new d)) (\<lambda>(magic, c).
     obind (guard (map byte_char (take 4 magic) = ''dex'' @ [CHR 0x0A])
              (dex_err 0 ''not a dex file (bad magic)'')) (\<lambda>_.
     obind (read_u32 c) (\<lambda>(checksum, c). obind (read_bytes 20 c) (\<lambda>(signature, c).
     obind (read_u32 c) (\<lambda>(file_size, c).
     obind (guard (unat file_size = length d)
              (dex_err 12 (''file_size mismatch: '' @ show_nat (unat file_size) @ '' != ''
                           @ show_nat (length d)))) (\<lambda>_.
     obind (read_u32 c) (\<lambda>(header_size, c).
     obind (guard (header_size = 0x70)
              (dex_err 16 (''unexpected header size '' @ show_hex (unat header_size)))) (\<lambda>_.
     obind (read_u32 c) (\<lambda>(endian, c).
     obind (guard (endian = 0x12345678)
              (dex_err 20 ''unexpected endian tag (reversed-endian dex not supported)'')) (\<lambda>_.
     obind (orep 17 read_u32 c) (\<lambda>(ws, c).
     let w = (\<lambda>i. unat (ws ! i)) in
     Ok \<lparr>map_off = w 2, string_ids = (w 3, w 4), type_ids = (w 5, w 6), proto_ids = (w 7, w 8),
         field_ids = (w 9, w 10), method_ids = (w 11, w 12), class_defs = (w 13, w 14)\<rparr>)))))))))))"

definition parse_string :: "cursor \<Rightarrow> nat \<Rightarrow> nat \<Rightarrow> string dex" where
  "parse_string c string_ids_off i =
     obind (u32_at c (string_ids_off + i * 4)) (\<lambda>o'.
     obind (seek (unat o') (cursor_new (data c))) (\<lambda>sc.
     obind (uleb128 sc) (\<lambda>(utf16_len, sc).
     let e = pos sc + length (takeWhile (\<lambda>b. b \<noteq> 0) (drop (pos sc) (data c))) in
     obind (guard (e < length (data c)) (dex_err (unat o') ''unterminated string'')) (\<lambda>_.
     decode_mutf8 (sub (data c) (pos sc) e)))))"

definition parse_proto :: "cursor \<Rightarrow> nat \<Rightarrow> nat \<Rightarrow> proto_id dex" where
  "parse_proto c proto_ids_off i =
     (let o' = proto_ids_off + i * 12 in
      obind (u32_at c o') (\<lambda>sh. obind (u32_at c (o' + 4)) (\<lambda>rt.
      obind (u32_at c (o' + 8)) (\<lambda>parameters_off.
      obind (read_type_list c (unat parameters_off)) (\<lambda>ps.
      Ok \<lparr>shorty = sh, return_type = rt, params = ps\<rparr>)))))"

definition parse_field_id :: "cursor \<Rightarrow> nat \<Rightarrow> nat \<Rightarrow> field_id dex" where
  "parse_field_id c field_ids_off i =
     (let o' = field_ids_off + i * 8 in
      obind (u16_at c o') (\<lambda>cl. obind (u16_at c (o' + 2)) (\<lambda>ty. obind (u32_at c (o' + 4)) (\<lambda>nm.
      Ok \<lparr>fid_class = ucast cl, fid_type = ucast ty, fid_name = nm\<rparr>))))"

definition parse_method_id :: "cursor \<Rightarrow> nat \<Rightarrow> nat \<Rightarrow> method_id dex" where
  "parse_method_id c method_ids_off i =
     (let o' = method_ids_off + i * 8 in
      obind (u16_at c o') (\<lambda>cl. obind (u16_at c (o' + 2)) (\<lambda>pr. obind (u32_at c (o' + 4)) (\<lambda>nm.
      Ok \<lparr>mid_class = ucast cl, mid_proto = ucast pr, mid_name = nm\<rparr>))))"

definition parse_static_values :: "cursor \<Rightarrow> nat \<Rightarrow> encoded_value list dex" where
  "parse_static_values c static_values_off =
     (if static_values_off = 0 then Ok []
      else obind (seek static_values_off (cursor_new (data c))) (\<lambda>sc.
           obind (uleb128 sc) (\<lambda>(n, sc).
           obind (orep (unat n) decode sc) (\<lambda>(vs, sc). Ok vs))))"

definition parse_class_def ::
  "cursor \<Rightarrow> string list \<Rightarrow> u32 option \<Rightarrow> nat \<Rightarrow> nat \<Rightarrow> class_def dex" where
  "parse_class_def c strs signature_type_idx class_defs_off i =
     (let o' = class_defs_off + i * 32 in
      obind (u32_at c o') (\<lambda>cls. obind (u32_at c (o' + 4)) (\<lambda>flags.
      obind (u32_at c (o' + 8)) (\<lambda>super. obind (u32_at c (o' + 12)) (\<lambda>interfaces_off.
      obind (u32_at c (o' + 16)) (\<lambda>source. obind (u32_at c (o' + 20)) (\<lambda>annotations_off.
      obind (u32_at c (o' + 24)) (\<lambda>class_data_off. obind (u32_at c (o' + 28)) (\<lambda>static_values_off.
      obind (if annotations_off = 0 then Ok None
             else parse_runtime_signature (data c) (unat annotations_off) strs signature_type_idx)
        (\<lambda>sig.
      obind (read_type_list c (unat interfaces_off)) (\<lambda>ifs.
      obind (if class_data_off = 0 then Ok None
             else obind (parse_class_data (data c) (unat class_data_off)) (\<lambda>cd. Ok (Some cd))) (\<lambda>cd.
      obind (parse_static_values c (unat static_values_off)) (\<lambda>svs.
      Ok \<lparr>class_idx = cls, cd_access_flags = flags, superclass_idx = super, interfaces = ifs,
          source_file_idx = source, class_data_of = cd, static_values = svs,
          generic_signature = sig\<rparr>)))))))))))))"

definition check_map_list :: "cursor \<Rightarrow> nat \<Rightarrow> unit dex" where
  "check_map_list c moff =
     obind (guard (moff \<noteq> 0) (dex_err 52 ''missing map_list'')) (\<lambda>_.
     obind (u32_at c moff) (\<lambda>n.
     guard (\<not> (unat n > 128 \<or> moff + 4 + unat n * 12 > length (data c)))
       (dex_err moff ''invalid map_list'')))"

definition parse :: "u8 list \<Rightarrow> dex_file dex" where
  "parse d =
     obind (parse_header d) (\<lambda>h.
     let c = cursor_new d in
     obind (omap (parse_string c (snd (string_ids h))) [0..<fst (string_ids h)]) (\<lambda>strs.
     obind (omap (\<lambda>i. u32_at c (snd (type_ids h) + i * 4)) [0..<fst (type_ids h)]) (\<lambda>tys.
     obind (omap (parse_proto c (snd (proto_ids h))) [0..<fst (proto_ids h)]) (\<lambda>prs.
     obind (omap (parse_field_id c (snd (field_ids h))) [0..<fst (field_ids h)]) (\<lambda>fds.
     obind (omap (parse_method_id c (snd (method_ids h))) [0..<fst (method_ids h)]) (\<lambda>mds.
     let sig_idx = map_option of_nat (position (\<lambda>s. s = ''Ldalvik/annotation/Signature;'') strs) in
     obind (omap (parse_class_def c strs sig_idx (snd (class_defs h))) [0..<fst (class_defs h)])
       (\<lambda>cls.
     obind (check_map_list c (map_off h)) (\<lambda>_.
     Ok \<lparr>dex_data = d, strings = strs, types = tys, protos = prs, dex_fields = fds, methods = mds,
         classes = cls\<rparr>))))))))"

section \<open>Lookups\<close>

definition type_descriptor :: "dex_file \<Rightarrow> u32 \<Rightarrow> string" where
  "type_descriptor f type_idx =
     (let s = (case nth_opt (types f) (unat type_idx) of Some s \<Rightarrow> unat s | None \<Rightarrow> 0) in
      case nth_opt (strings f) s of Some str \<Rightarrow> str | None \<Rightarrow> ''<invalid-type>'')"

definition method_key :: "dex_file \<Rightarrow> u32 \<Rightarrow> (u32 \<times> u32 \<times> u32) option" where
  "method_key f m_idx =
     map_option (\<lambda>m. (mid_class m, mid_proto m, mid_name m)) (nth_opt (methods f) (unat m_idx))"

definition type_id_of :: "dex_file \<Rightarrow> string \<Rightarrow> u32 option" where
  "type_id_of f desc =
     (case position (\<lambda>s. s = desc) (strings f) of
        None \<Rightarrow> None
      | Some sid \<Rightarrow> map_option of_nat (position (\<lambda>t. t = of_nat sid) (types f)))"

definition class_by_descriptor :: "dex_file \<Rightarrow> string \<Rightarrow> nat option" where
  "class_by_descriptor f desc =
     (case position (\<lambda>s. s = desc) (strings f) of
        None \<Rightarrow> None
      | Some sid \<Rightarrow>
          (case position (\<lambda>t. t = of_nat sid) (types f) of
             None \<Rightarrow> None
           | Some tid \<Rightarrow> position (\<lambda>cd. class_idx cd = of_nat tid) (classes f)))"

section \<open>Encoded values always parse to a result\<close>

lemma weak_read_le [reader_intros]: "weak_reader (read_le n)" and
  weak_read_signed [reader_intros]: "weak_reader (read_signed n)"
  unfolding read_le_def [abs_def] read_signed_def [abs_def] Let_def by (intro reader_intros)+

lemma read_le_total [simp]:
  "read_le n c \<noteq> Panic" "read_le n c \<noteq> Diverge" "read_signed n c \<noteq> Panic" "read_signed n c \<noteq> Diverge"
  by (auto simp: read_le_def read_signed_def obind_iffs r_u8.rep_no_panic r_u8.rep_returns Let_def)

lemma weak_decode_scalar [reader_intros]: "weak_reader (decode_scalar t a)"
  unfolding decode_scalar_def [abs_def] Let_def by (intro reader_intros)

lemma decode_scalar_settles: "settles (decode_scalar t a c)"
  unfolding decode_scalar_def Let_def
  by (intro settles_intros settles_simps) (simp_all add: settles_def)

lemma named_value_reader: "byte_reader p \<Longrightarrow> byte_reader (named_value p)"
  unfolding named_value_def [abs_def]
  by (intro reader_bind reader_intros r_uleb.byte_reader_axioms weak_byte_reader)

lemma decode_depth_reader: "byte_reader (decode_depth d)"
proof (induction d)
  case (Suc d)
  note w = weak_byte_reader [OF Suc] weak_byte_reader [OF named_value_reader [OF Suc]]
  show ?case
    unfolding decode_depth.simps(2) [abs_def] Let_def
    by (intro reader_bind r_u8.byte_reader_axioms reader_intros w)
qed (simp add: byte_reader_def)

lemma decode_depth_safe:
  "remaining c < d \<Longrightarrow> decode_depth d c \<noteq> Panic \<and> decode_depth d c \<noteq> Diverge"
proof (induction d arbitrary: c)
  case (Suc d)
  have item: "orep n (decode_depth d) b \<noteq> Panic \<and> orep n (decode_depth d) b \<noteq> Diverge"
    and named: "orep n (named_value (decode_depth d)) b \<noteq> Panic \<and>
                orep n (named_value (decode_depth d)) b \<noteq> Diverge"
    if b: "data b = data c" "pos c < pos b" "pos b \<le> length (data c)" for n and b :: cursor
  proof -
    have lt: "remaining b' < d" if "data b' = data b" "pos b \<le> pos b'" for b' :: cursor
      using that b Suc.prems by (simp add: remaining_def)
    show "orep n (decode_depth d) b \<noteq> Panic \<and> orep n (decode_depth d) b \<noteq> Diverge"
      by (intro rep_safe [OF decode_depth_reader] Suc.IH lt)
    show "orep n (named_value (decode_depth d)) b \<noteq> Panic \<and>
          orep n (named_value (decode_depth d)) b \<noteq> Diverge"
    proof (intro rep_safe [OF named_value_reader [OF decode_depth_reader]])
      fix b' :: cursor assume b': "data b' = data b" "pos b \<le> pos b'"
      have "decode_depth d c' \<noteq> Panic \<and> decode_depth d c' \<noteq> Diverge" if "uleb128 b' = Ok (x, c')" for x c'
        using r_uleb.moves [OF that] b' by (intro Suc.IH lt) auto
      then show "named_value (decode_depth d) b' \<noteq> Panic \<and> named_value (decode_depth d) b' \<noteq> Diverge"
        by (auto simp: named_value_def obind_iffs r_uleb.no_panic r_uleb.returns)
    qed
  qed
  have ul: "settles (uleb128 b)" and u: "settles (read_u8 b)" for b
    by (simp_all add: settles_def r_uleb.no_panic r_uleb.returns r_u8.no_panic r_u8.returns)
  have "settles (decode_depth (Suc d) c)"
    unfolding decode_depth.simps Let_def
  proof (intro settles_intros u ul decode_scalar_settles settles_simps)
    fix h c1 n c2 assume 1: "read_u8 c = Ok (h, c1)" and 2: "uleb128 c1 = Ok (n, c2)"
    note m = r_u8.moves [OF 1] r_uleb.moves [OF 2]
    show "settles (orep (unat n) (decode_depth d) c2)"
      using item [of c2 "unat n"] m by (simp add: settles_def)
    fix k c3 assume "uleb128 c2 = Ok (k, c3)"
    with m r_uleb.moves [OF this] show "settles (orep (unat k) (named_value (decode_depth d)) c3)"
      using named [of c3 "unat k"] by (simp add: settles_def)
  qed
  then show ?case by (simp add: settles_def del: decode_depth.simps)
qed simp

lemma decode_safe: "decode c \<noteq> Panic" "decode c \<noteq> Diverge"
  using decode_depth_safe [of c "Suc (remaining c)"] unfolding decode_def by simp_all

lemma decode_moves:
  "decode c = Ok (x, c') \<Longrightarrow> data c' = data c \<and> pos c < pos c' \<and> pos c' \<le> length (data c)"
  unfolding decode_def by (rule byte_reader.moves [OF decode_depth_reader])

interpretation r_value: total_reader decode
  by unfold_locales (fact decode_moves decode_safe)+

section \<open>Encoded values: the format and its round trip\<close>

definition le_bytes :: "nat \<Rightarrow> int \<Rightarrow> u8 list" where
  "le_bytes n i = map (\<lambda>k. word_of_int (i div 256 ^ k)) [0..<n]"

lemma le_bytes_Suc: "le_bytes (Suc n) i = word_of_int i # le_bytes n (i div 256)"
  unfolding le_bytes_def upt_conv_Cons [OF zero_less_Suc] list.map
  by (simp add: map_Suc_upt [symmetric] o_def zdiv_zmult2_eq [symmetric] del: upt_Suc)

lemma length_le_bytes [simp]: "length (le_bytes n i) = n"
  by (simp add: le_bytes_def)

lemma bit_u64_le: "bit (u64_le bs) k \<longleftrightarrow> k < 64 \<and> k div 8 < length bs \<and> bit (bs ! (k div 8)) (k mod 8)"
proof (induction bs arbitrary: k)
  case (Cons b bs)
  show ?case
  proof (cases "k < 8")
    case True
    then show ?thesis by (simp add: bit_or_iff bit_push_bit_iff bit_ucast_iff)
  next
    case False
    then obtain j where k: "k = j + 8" using le_Suc_ex [of 8 k] by (auto simp: not_less add.commute)
    have "(j + 8) div 8 = Suc (j div 8)" by simp
    then show ?thesis by (auto simp: k bit_or_iff bit_push_bit_iff bit_ucast_iff Cons.IH bit_imp_le_length
      dest: bit_imp_le_length)
  qed
qed simp

lemma u64_le_bytes: "u64_le (le_bytes n i) = take_bit (8 * n) (word_of_int i)"
proof (rule bit_word_eqI)
  fix k :: nat assume "k < LENGTH(64)"
  have *: "bit (i div 256 ^ (k div 8)) (k mod 8) = bit i k"
    using bit_drop_bit_eq [of "8 * (k div 8)" i]
    by (simp add: drop_bit_eq_div power_mult fun_eq_iff)
  show "bit (u64_le (le_bytes n i)) k = bit (take_bit (8 * n) (word_of_int i :: u64)) k"
    using \<open>k < _\<close> * by (auto simp: bit_u64_le bit_take_bit_iff bit_word_of_int_iff le_bytes_def less_mult_imp_div_less mult.commute)
qed

lemma sign_extend:
  assumes "1 \<le> n" "n \<le> 8" and "- (2 ^ (8 * n - 1)) \<le> i" "i < 2 ^ (8 * n - 1)"
  shows "signed_drop_bit (64 - 8 * n) (push_bit (64 - 8 * n) (take_bit (8 * n) (word_of_int i) :: i64)) = word_of_int i"
proof (rule bit_word_eqI)
  fix k :: nat assume k: "k < LENGTH(64)"
  have i: "signed_take_bit (8 * n - 1) i = i"
    using assms by (simp add: signed_take_bit_int_eq_self)
  have "8 * n - 1 \<le> k \<Longrightarrow> bit i k = bit i (8 * n - 1)"
    using arg_cong [OF i, of "\<lambda>i. bit i k"] by (simp add: bit_signed_take_bit_iff min_def)
  then show "bit (signed_drop_bit (64 - 8 * n) (push_bit (64 - 8 * n) (take_bit (8 * n) (word_of_int i) :: i64))) k
     = bit (word_of_int i :: i64) k"
    using k assms
    by (auto simp: bit_signed_drop_bit_iff bit_push_bit_iff bit_take_bit_iff bit_word_of_int_iff min_def not_less)
qed

lemma reads_le: "reads (read_le n) (le_bytes n i) (take_bit (8 * n) (word_of_int i))"
proof -
  have "read_le (length (le_bytes n i)) = (\<lambda>c. obind (orep (length (le_bytes n i)) read_u8 c) (\<lambda>(bs, c). Ok (u64_le bs, c)))"
    by (rule ext) (simp add: read_le_def)
  with reads_map [OF reads_bytes, of "le_bytes n i" u64_le] show ?thesis
    by (simp add: u64_le_bytes)
qed

lemma reads_signed:
  assumes "1 \<le> n" "n \<le> 8" and "- (2 ^ (8 * n - 1)) \<le> i" "i < 2 ^ (8 * n - 1)"
  shows "reads (read_signed n) (le_bytes n i) (word_of_int i)"
proof -
  have "read_signed n = (\<lambda>c. obind (read_le n c) (\<lambda>(v, c). Ok (signed_drop_bit (64 - 8 * n) (push_bit (64 - 8 * n) v), c)))"
    by (rule ext) (simp add: read_signed_def Let_def)
  with reads_map [OF reads_le [of n i], where f = "\<lambda>v. signed_drop_bit (64 - 8 * n) (push_bit (64 - 8 * n) v)"]
  show ?thesis by (simp add: sign_extend [OF assms])
qed

definition value_header :: "nat \<Rightarrow> nat \<Rightarrow> u8" where
  "value_header t a = of_nat (32 * a + t)"

lemma value_header:
  assumes "t < 32" "a < 8"
  shows "unat (value_header t a AND 0x1f) = t" and "unat (drop_bit 5 (value_header t a)) = a"
proof -
  have u: "unat (value_header t a) = 32 * a + t"
    using assms by (simp add: value_header_def unat_of_nat del: of_nat_add of_nat_mult)
  have "unat (value_header t a AND 0x1f) = take_bit 5 (unat (value_header t a))"
    by (simp add: unsigned_and_eq take_bit_eq_mask mask_eq_exp_minus_1)
  then show "unat (value_header t a AND 0x1f) = t"
    using assms by (simp add: u take_bit_eq_mod)
  show "unat (drop_bit 5 (value_header t a)) = a"
    using assms by (simp only: unsigned_drop_bit_eq u) (simp add: drop_bit_eq_div take_bit_eq_mod)
qed

text \<open>
  The format of an encoded value, as the DEX specification gives it: a header byte (type and
  argument), then the payload. An integer may take any number of bytes that holds it, a float
  drops low zero bytes, the elements of an array and of an annotation follow their number.
\<close>

abbreviation signed_fits :: "nat \<Rightarrow> 'a::len word \<Rightarrow> bool" where
  "signed_fits n v \<equiv> - (2 ^ (8 * n - 1)) \<le> sint v \<and> sint v < 2 ^ (8 * n - 1)"

inductive encodes :: "encoded_value \<Rightarrow> u8 list \<Rightarrow> bool" where
  byte: "encodes (EV_Byte b) (value_header 0x00 0 # le_bytes 1 (sint b))"
| short: "n \<in> {1..2} \<Longrightarrow> signed_fits n v \<Longrightarrow>
    encodes (EV_Short v) (value_header 0x02 (n - 1) # le_bytes n (sint v))"
| char: "n \<in> {1..2} \<Longrightarrow> uint v < 256 ^ n \<Longrightarrow>
    encodes (EV_Char v) (value_header 0x03 (n - 1) # le_bytes n (uint v))"
| int: "n \<in> {1..4} \<Longrightarrow> signed_fits n v \<Longrightarrow>
    encodes (EV_Int v) (value_header 0x04 (n - 1) # le_bytes n (sint v))"
| long: "n \<in> {1..8} \<Longrightarrow> signed_fits n v \<Longrightarrow>
    encodes (EV_Long v) (value_header 0x06 (n - 1) # le_bytes n (sint v))"
| float: "n \<in> {1..4} \<Longrightarrow> uint v = m * 256 ^ (4 - n) \<Longrightarrow>
    encodes (EV_Float v) (value_header 0x10 (n - 1) # le_bytes n m)"
| double: "n \<in> {1..8} \<Longrightarrow> uint v = m * 256 ^ (8 - n) \<Longrightarrow>
    encodes (EV_Double v) (value_header 0x11 (n - 1) # le_bytes n m)"
| index: "n \<in> {1..4} \<Longrightarrow> t \<in> {0x15..0x1b} \<Longrightarrow> uint i < 256 ^ n \<Longrightarrow>
    encodes (index_value t i) (value_header t (n - 1) # le_bytes n (uint i))"
| array: "length vs < 2 ^ 32 \<Longrightarrow> list_all2 encodes vs bss \<Longrightarrow>
    encodes (EV_Array vs) (value_header 0x1c 0 # uleb_encode (int (length vs)) @ concat bss)"
| annotation: "length es < 2 ^ 32 \<Longrightarrow>
    list_all2 (\<lambda>e bs. \<exists>b. encodes (snd e) b \<and> bs = uleb_encode (uint (fst e)) @ b) es bss \<Longrightarrow>
    encodes (EV_Annotation (Annotation ty es))
      (value_header 0x1d 0 # uleb_encode (uint ty) @ uleb_encode (int (length es)) @ concat bss)"
| null: "encodes EV_Null [value_header 0x1e 0]"
| bool: "encodes (EV_Bool b) [value_header 0x1f (if b then 1 else 0)]"

text \<open>A header byte followed by what the branch of its type reads.\<close>

lemma reads_header:
  assumes "t < 32" "a < 8" and "t \<noteq> 0x1c \<or> a \<noteq> 0" and "t \<noteq> 0x1d \<or> a \<noteq> 0"
    and "reads (decode_scalar t a) bs v"
  shows "reads (decode_depth (Suc d)) (value_header t a # bs) v"
proof -
  have *: "\<not> (t = 28 \<and> a = 0)" "\<not> (t = 29 \<and> a = 0)" using assms(3,4) by auto
  have "reads (\<lambda>c. obind (read_u8 c) (\<lambda>(b, c).
     let value_type = unat (b AND 0x1f); value_arg = unat (drop_bit 5 b) in
     if value_type = 0x1c \<and> value_arg = 0 then
       obind (uleb128 c) (\<lambda>(n, c).
       obind (orep (unat n) (decode_depth d) c) (\<lambda>(items, c). Ok (EV_Array items, c)))
     else if value_type = 0x1d \<and> value_arg = 0 then
       obind (uleb128 c) (\<lambda>(type_idx, c). obind (uleb128 c) (\<lambda>(n, c).
       obind (orep (unat n) (named_value (decode_depth d)) c) (\<lambda>(elements, c).
       Ok (EV_Annotation (Annotation type_idx elements), c))))
     else decode_scalar value_type value_arg c)) ([value_header t a] @ bs) v"
    using assms(5)
    by (intro reads_bind [OF reads_byte]) (simp only: value_header [OF assms(1,2)] Let_def * if_False)
  then show ?thesis by (simp add: reads_def)
qed

lemma take_bit_word64: "m \<le> 64 \<Longrightarrow> take_bit m (word_of_int i :: u64) = word_of_int (take_bit m i)"
  by (rule bit_word_eqI) (auto simp: bit_take_bit_iff bit_word_of_int_iff)

lemma ucast_word64:
  "LENGTH('a) \<le> 64 \<Longrightarrow> ucast (word_of_int i :: u64) = (word_of_int i :: 'a::len word)"
  by (rule bit_word_eqI) (auto simp: bit_ucast_iff bit_word_of_int_iff)

lemma sint_back: "word_of_int (sint v) = v"
  by simp

lemma reads_signed_word:
  fixes v :: "'a::len word"
  assumes "1 \<le> n" "n \<le> 8" "signed_fits n v" "LENGTH('a) \<le> 64"
  shows "reads (\<lambda>c. obind (read_signed n c) (\<lambda>(x, c). Ok (C (ucast x), c))) (le_bytes n (sint v)) (C v)"
proof -
  have "ucast (word_of_int (sint v) :: i64) = v"
    by (simp only: ucast_word64 [OF assms(4)] sint_back)
  with reads_map [OF reads_signed [OF assms(1,2) conjunct1 [OF assms(3)] conjunct2 [OF assms(3)]],
      where f = "\<lambda>x. C (ucast x)"]
  show ?thesis by (simp only:)
qed

lemma reads_unsigned_word:
  fixes v :: "'a::len word"
  assumes "n \<le> 8" "uint v < 256 ^ n" "LENGTH('a) \<le> 64"
  shows "reads (\<lambda>c. obind (read_le n c) (\<lambda>(x, c). Ok (C (ucast x), c))) (le_bytes n (uint v)) (C v)"
proof -
  have "take_bit (8 * n) (uint v) = uint v"
    using assms(2) by (simp add: take_bit_int_eq_self_iff power_mult)
  moreover have "8 * n \<le> 64" using assms(1) by simp
  ultimately have "ucast (take_bit (8 * n) (word_of_int (uint v) :: u64)) = v"
    by (simp only: take_bit_word64 ucast_word64 [OF assms(3)] word_of_int_uint)
  with reads_map [OF reads_le [of n "uint v"], where f = "\<lambda>x. C (ucast x)"]
  show ?thesis by (simp only:)
qed

lemma reads_shifted:
  fixes v :: "'a::len word"
  assumes "n \<le> m" "m \<le> 8" "uint v = i * 256 ^ (m - n)" "LENGTH('a) = 8 * m"
  shows "reads (\<lambda>c. obind (read_le n c) (\<lambda>(x, c). Ok (C (ucast (push_bit (8 * m - 8 * n) x)), c)))
    (le_bytes n i) (C v)"
proof -
  have "ucast (push_bit (8 * m - 8 * n) (take_bit (8 * n) (word_of_int i) :: u64)) = v"
  proof (rule bit_word_eqI)
    fix k assume k: "k < LENGTH('a)"
    have "uint v = push_bit (8 * m - 8 * n) i"
      using assms(1) by (simp add: assms(3) push_bit_eq_mult power_mult flip: diff_mult_distrib2)
    then have "bit (uint v) k = (8 * m - 8 * n \<le> k \<and> bit i (k - (8 * m - 8 * n)))"
      by (simp add: bit_push_bit_iff)
    moreover have "bit v k = bit (uint v) k" using k by (simp add: bit_uint_iff)
    ultimately show "bit (ucast (push_bit (8 * m - 8 * n) (take_bit (8 * n) (word_of_int i) :: u64)) :: 'a word) k = bit v k"
      using k assms(1,2,4) by (auto simp: bit_ucast_iff bit_push_bit_iff bit_take_bit_iff bit_word_of_int_iff)
  qed
  with reads_map [OF reads_le [of n i], where f = "\<lambda>x. C (ucast (push_bit (8 * m - 8 * n) x))"]
  show ?thesis by (simp only:)
qed



lemma decode_scalar_simps:
  "decode_scalar 0 0 = (\<lambda>c. obind (read_signed 1 c) (\<lambda>(v, c). Ok (EV_Byte (ucast v), c)))"
  "n \<in> {1..2} \<Longrightarrow> decode_scalar 2 (n - 1) = (\<lambda>c. obind (read_signed n c) (\<lambda>(v, c). Ok (EV_Short (ucast v), c)))"
  "n \<in> {1..2} \<Longrightarrow> decode_scalar 3 (n - 1) = (\<lambda>c. obind (read_le n c) (\<lambda>(v, c). Ok (EV_Char (ucast v), c)))"
  "n \<in> {1..4} \<Longrightarrow> decode_scalar 4 (n - 1) = (\<lambda>c. obind (read_signed n c) (\<lambda>(v, c). Ok (EV_Int (ucast v), c)))"
  "n \<in> {1..8} \<Longrightarrow> decode_scalar 6 (n - 1) = (\<lambda>c. obind (read_signed n c) (\<lambda>(v, c). Ok (EV_Long (ucast v), c)))"
  "n \<in> {1..4} \<Longrightarrow> decode_scalar 16 (n - 1) =
     (\<lambda>c. obind (read_le n c) (\<lambda>(v, c). Ok (EV_Float (ucast (push_bit (8 * 4 - 8 * n) v)), c)))"
  "n \<in> {1..8} \<Longrightarrow> decode_scalar 17 (n - 1) =
     (\<lambda>c. obind (read_le n c) (\<lambda>(v, c). Ok (EV_Double (ucast (push_bit (8 * 8 - 8 * n) v)), c)))"
  "n \<in> {1..4} \<Longrightarrow> t \<in> {0x15..0x1b} \<Longrightarrow> decode_scalar t (n - 1) =
     (\<lambda>c. obind (read_le n c) (\<lambda>(v, c). Ok (index_value t (ucast v), c)))"
  "decode_scalar 0x1e 0 = (\<lambda>c. Ok (EV_Null, c))"
  "decode_scalar 0x1f 0 = (\<lambda>c. Ok (EV_Bool False, c))"
  "decode_scalar 0x1f 1 = (\<lambda>c. Ok (EV_Bool True, c))"
  by (auto simp: decode_scalar_def Let_def fun_eq_iff)

lemma reads_array:
  assumes "length vs < 2 ^ 32" and "list_all2 (\<lambda>v bs. reads (decode_depth d) bs v) vs bss"
  shows "reads (decode_depth (Suc d)) (value_header 0x1c 0 # uleb_encode (int (length vs)) @ concat bss)
    (EV_Array vs)"
proof -
  have n: "unat (of_nat (length vs) :: u32) = length vs" and i: "uint (of_nat (length vs) :: u32) = int (length vs)"
    using assms(1) by (simp_all add: unat_of_nat uint_nat)
  have "reads (\<lambda>c. obind (uleb128 c) (\<lambda>(n, c).
       obind (orep (unat n) (decode_depth d) c) (\<lambda>(items, c). Ok (EV_Array items, c))))
     (uleb_encode (uint (of_nat (length vs) :: u32)) @ concat bss) (EV_Array vs)"
    by (rule reads_bind [OF reads_uleb]) (simp only: n reads_map [OF reads_orep [OF assms(2)]])
  from reads_bind [OF reads_byte [of "value_header 0x1c 0"], where f = "\<lambda>_ c. obind (uleb128 c) (\<lambda>(n, c).
       obind (orep (unat n) (decode_depth d) c) (\<lambda>(items, c). Ok (EV_Array items, c)))", OF this]
  show ?thesis
    unfolding decode_depth.simps(2) [abs_def]
    by (simp add: reads_def read_u8_def i value_header Let_def)
qed


lemma reads_annotation:
  assumes "length es < 2 ^ 32"
    and "list_all2 (\<lambda>e bs. \<exists>b. reads (decode_depth d) b (snd e) \<and> bs = uleb_encode (uint (fst e)) @ b) es bss"
  shows "reads (decode_depth (Suc d))
    (value_header 0x1d 0 # uleb_encode (uint ty) @ uleb_encode (int (length es)) @ concat bss)
    (EV_Annotation (Annotation ty es))"
proof -
  have n: "unat (of_nat (length es) :: u32) = length es" and i: "uint (of_nat (length es) :: u32) = int (length es)"
    using assms(1) by (simp_all add: unat_of_nat uint_nat)
  have named: "reads (named_value (decode_depth d)) (uleb_encode (uint (fst e)) @ b) e"
    if "reads (decode_depth d) b (snd e)" for e b
    unfolding named_value_def [abs_def]
    by (rule reads_bind [OF reads_uleb]) (use reads_map [OF that, where f = "\<lambda>v. (fst e, v)"] in simp)
  have "list_all2 (\<lambda>e bs. reads (named_value (decode_depth d)) bs e) es bss"
    using assms(2) by (rule list.rel_mono_strong) (auto intro: named [of _ "(_, _)", simplified])
  note items = reads_map [OF reads_orep [OF this], where f = "\<lambda>es. EV_Annotation (Annotation ty es)"]
  have "reads (\<lambda>c. obind (uleb128 c) (\<lambda>(type_idx, c). obind (uleb128 c) (\<lambda>(n, c).
       obind (orep (unat n) (named_value (decode_depth d)) c) (\<lambda>(elements, c).
       Ok (EV_Annotation (Annotation type_idx elements), c)))))
     (uleb_encode (uint ty) @ uleb_encode (uint (of_nat (length es) :: u32)) @ concat bss)
     (EV_Annotation (Annotation ty es))"
    by (intro reads_bind [OF reads_uleb]) (simp only: n items)
  from reads_bind [OF reads_byte [of "value_header 0x1d 0"], where f = "\<lambda>_ c.
       obind (uleb128 c) (\<lambda>(type_idx, c). obind (uleb128 c) (\<lambda>(n, c).
       obind (orep (unat n) (named_value (decode_depth d)) c) (\<lambda>(elements, c).
       Ok (EV_Annotation (Annotation type_idx elements), c))))", OF this]
  show ?thesis
    unfolding decode_depth.simps(2) [abs_def]
    by (simp add: reads_def read_u8_def i value_header Let_def)
qed

declare decode_depth.simps(2) [simp del]

lemma decode_depth_reads:
  "encodes v bs \<Longrightarrow> length bs \<le> Suc d \<Longrightarrow> reads (decode_depth (Suc d)) bs v"
proof (induction arbitrary: d rule: encodes.induct)
  case (byte b)
  have "signed_fits 1 b" using sint_range_size [of b] by (simp add: word_size)
  then show ?case
    using reads_signed_word [of 1 b EV_Byte] by (intro reads_header) (simp_all add: decode_scalar_simps(1))
next
  case (short n v)
  have "reads (decode_scalar 2 (n - 1)) (le_bytes n (sint v)) (EV_Short v)"
    unfolding decode_scalar_simps(2) [OF short(1)] using short by (intro reads_signed_word) auto
  then show ?case using short by (intro reads_header) auto
next
  case (char n v)
  have "reads (decode_scalar 3 (n - 1)) (le_bytes n (uint v)) (EV_Char v)"
    unfolding decode_scalar_simps(3) [OF char(1)] using char by (intro reads_unsigned_word) auto
  then show ?case using char by (intro reads_header) auto
next
  case (int n v)
  have "reads (decode_scalar 4 (n - 1)) (le_bytes n (sint v)) (EV_Int v)"
    unfolding decode_scalar_simps(4) [OF int(1)] using int by (intro reads_signed_word) auto
  then show ?case using int by (intro reads_header) auto
next
  case (long n v)
  have "reads (decode_scalar 6 (n - 1)) (le_bytes n (sint v)) (EV_Long v)"
    unfolding decode_scalar_simps(5) [OF long(1)] using long by (intro reads_signed_word) auto
  then show ?case using long by (intro reads_header) auto
next
  case (float n v m)
  have "reads (decode_scalar 16 (n - 1)) (le_bytes n m) (EV_Float v)"
    unfolding decode_scalar_simps(6) [OF float(1)] using float by (intro reads_shifted) auto
  then show ?case using float by (intro reads_header) auto
next
  case (double n v m)
  have "reads (decode_scalar 17 (n - 1)) (le_bytes n m) (EV_Double v)"
    unfolding decode_scalar_simps(7) [OF double(1)] using double by (intro reads_shifted) auto
  then show ?case using double by (intro reads_header) auto
next
  case (index n t i)
  have "reads (decode_scalar t (n - 1)) (le_bytes n (uint i)) (index_value t i)"
    unfolding decode_scalar_simps(8) [OF index(1) index(2)] using index by (intro reads_unsigned_word) auto
  then show ?case using index by (intro reads_header) auto
next
  case (array vs bss)
  note len = length_concat_mem [of _ bss]
  from array obtain d' where d: "d = Suc d'"
    by (cases d) (auto simp: uleb_encode.simps [of "int (length vs)"] split: if_splits)
  have "list_all2 (\<lambda>v bs. reads (decode_depth d) bs v) vs bss"
    using array(2) by (rule list.rel_mono_strong) (use array(3) len d in fastforce)
  then show ?case by (rule reads_array [OF array(1)])
next
  case (annotation es bss ty)
  note len = length_concat_mem [of _ bss]
  from annotation obtain d' where d: "d = Suc d'"
    by (cases d) (auto simp: uleb_encode.simps [of "int (length es)"] split: if_splits)
  have "list_all2 (\<lambda>e bs. \<exists>b. reads (decode_depth d) b (snd e) \<and> bs = uleb_encode (uint (fst e)) @ b) es bss"
    using annotation(2) by (rule list.rel_mono_strong) (use annotation(3) len d in fastforce)
  then show ?case by (rule reads_annotation [OF annotation(1)])
next
  case null
  show ?case
    by (rule reads_header) (simp_all add: decode_scalar_simps(9) reads_ret)
next
  case (bool b)
  show ?case
    by (rule reads_header) (simp_all add: decode_scalar_simps(10) decode_scalar_simps(11) [simplified] reads_ret)
qed

lemma encodes_length: "encodes v bs \<Longrightarrow> bs \<noteq> []"
  by (cases rule: encodes.cases) auto

lemma decode_reads:
  assumes "encodes v bs"
  shows "reads decode bs v"
proof (rule readsI)
  fix c :: cursor and pre rest assume d: "data c = pre @ bs @ rest" "pos c = length pre"
  then have "length bs \<le> Suc (remaining c)" by (simp add: remaining_def)
  from readsD [OF decode_depth_reads [OF assms this] d]
  show "decode c = Ok (v, c\<lparr>pos := length pre + length bs\<rparr>)" by (simp add: decode_def)
qed

section \<open>Handler lists\<close>

definition pair_bytes :: "u32 \<times> u32 \<Rightarrow> u8 list" where
  "pair_bytes p = uleb_encode (uint (fst p)) @ uleb_encode (uint (snd p))"

text \<open>The \<open>encoded_catch_handler\<close> of the format.\<close>

definition handlers_encode :: "(u32 \<times> u32) list \<Rightarrow> u32 option \<Rightarrow> u8 list" where
  "handlers_encode hs ca =
     (case ca of
        None \<Rightarrow> sleb_encode (int (length hs)) @ concat (map pair_bytes hs)
      | Some addr \<Rightarrow>
          sleb_encode (- int (length hs)) @ concat (map pair_bytes hs) @ uleb_encode (uint addr))"

lemma reads_handler_pair: "reads handler_pair (pair_bytes p) p"
  unfolding handler_pair_def [abs_def] pair_bytes_def
  by (rule reads_bind [OF reads_uleb]) (use reads_map [OF reads_uleb [of "snd p"], where f = "\<lambda>a. (fst p, a)"] in simp)

lemma reads_handler_pairs: "reads (orep (length hs) handler_pair) (concat (map pair_bytes hs)) hs"
  by (rule reads_orep) (simp add: list_all2_conv_all_nth reads_handler_pair)

lemma sint_len: "n < 2 ^ 31 \<Longrightarrow> sint (of_nat n :: i32) = int n"
  by (simp add: signed_of_nat signed_take_bit_int_eq_self)

lemma sint_neg_len: "n < 2 ^ 31 \<Longrightarrow> sint (- of_nat n :: i32) = - int n"
  using signed_of_int [of "- int n", where 'a = int and 'b = 32] by (simp add: signed_take_bit_int_eq_self)

lemma parse_handlers_encode:
  assumes "data c = pre @ handlers_encode hs ca @ rest" and "pos c = length pre"
    and "length hs < 2 ^ 31" and "ca = None \<Longrightarrow> hs \<noteq> []"
  shows "parse_handlers c = Ok (hs, ca)"
proof (cases ca)
  case None
  let ?c = "c\<lparr>pos := length pre + length (sleb_encode (int (length hs)))\<rparr>"
  have "sleb128 c = Ok (of_nat (length hs), ?c)"
    using readsD [OF reads_sleb [of "of_nat (length hs)"]] assms None
    by (simp add: sint_len handlers_encode_def)
  moreover have "\<exists>c'. orep (length hs) handler_pair ?c = Ok (hs, c')"
    using readsD [OF reads_handler_pairs [of hs], where c = ?c and pre = "pre @ sleb_encode (int (length hs))" and rest = rest] assms None
    by (simp add: handlers_encode_def)
  ultimately show ?thesis using assms None by (auto simp: parse_handlers_def sint_len)
next
  case (Some addr)
  let ?e = "sleb_encode (- int (length hs))"
  let ?c = "c\<lparr>pos := length pre + length ?e\<rparr>"
  let ?b = "c\<lparr>pos := length pre + length ?e + length (concat (map pair_bytes hs))\<rparr>"
  have "sleb128 c = Ok (- of_nat (length hs), ?c)"
    using readsD [OF reads_sleb [of "- of_nat (length hs)"]] assms Some
    by (simp add: sint_neg_len handlers_encode_def)
  moreover have "orep (length hs) handler_pair ?c = Ok (hs, ?b)"
    using readsD [OF reads_handler_pairs [of hs], where c = ?c and pre = "pre @ ?e" and rest = "uleb_encode (uint addr) @ rest"] assms Some
    by (simp add: handlers_encode_def)
  moreover have "\<exists>c'. uleb128 ?b = Ok (addr, c')"
    using readsD [OF reads_uleb [of addr], where c = ?b and pre = "pre @ ?e @ concat (map pair_bytes hs)" and rest = rest] assms Some
    by (simp add: handlers_encode_def add.assoc)
  ultimately show ?thesis using assms Some by (auto simp: parse_handlers_def sint_neg_len sint_len)
qed

section \<open>Every part of the parser returns\<close>

lemma settles_readers [settles_intros]:
  "settles (read_u8 c)" "settles (read_u16 c)" "settles (read_u32 c)" "settles (uleb128 c)"
  "settles (sleb128 c)" "settles (decode c)" "settles (seek p c)" "settles (read_bytes n c)"
  "settles (u32_at c p)" "settles (u16_at c p)"
  by (simp_all add: settles_def r_u8.no_panic r_u8.returns r_u16.no_panic r_u16.returns
      r_u32.no_panic r_u32.returns r_uleb.no_panic r_uleb.returns r_sleb.no_panic r_sleb.returns
      r_value.no_panic r_value.returns seek_def read_bytes_def u32_at_def u16_at_def)

lemma settles_orep [settles_intros]: "(\<And>c. settles (p c)) \<Longrightarrow> settles (orep n p c)"
  by (induction n arbitrary: c) (auto intro!: settles_obind)

lemma settles_type_list [settles_intros]: "settles (read_type_list c p)"
  unfolding read_type_list_def
  by (intro settles_intros settles_obind settles_omap settles_map settles_simps)

lemma settles_handler_pair [settles_intros]: "settles (handler_pair c)"
  unfolding handler_pair_def by (intro settles_intros settles_simps)

lemma settles_parse_handlers [settles_intros]: "settles (parse_handlers c)"
  unfolding parse_handlers_def by (intro settles_intros settles_simps)

lemma settles_parse_try [settles_intros]: "settles (parse_try s n c)"
  unfolding parse_try_def Let_def by (intro settles_intros settles_obind settles_simps)

lemma settles_parse_code_item [settles_intros]: "settles (parse_code_item d p)"
  unfolding parse_code_item_def Let_def by (intro settles_intros settles_obind settles_simps)

lemma settles_parse_field [settles_intros]: "settles (parse_field s)"
  unfolding parse_field_def by (cases s) (auto intro!: settles_intros)

lemma settles_parse_method [settles_intros]: "settles (parse_method s)"
  unfolding parse_method_def by (cases s) (auto intro!: settles_intros settles_obind)

lemma settles_parse_class_data [settles_intros]: "settles (parse_class_data d p)"
  unfolding parse_class_data_def
  by (rule settles_obind) (auto intro!: settles_intros)

lemma settles_mutf8_scan: "settles (mutf8_scan i bs)"
  by (induction i bs rule: mutf8_scan.induct) (auto simp: mutf8_scan.simps intro!: settles_map settles_intros)

lemma settles_parse_string: "settles (parse_string c p i)"
  unfolding parse_string_def Let_def decode_mutf8_def
  by (intro settles_intros settles_obind settles_mutf8_scan settles_simps)

lemma settles_static_values [settles_intros]: "settles (parse_static_values c p)"
  unfolding parse_static_values_def by (intro settles_intros settles_obind settles_simps)

lemma settles_header: "settles (parse_header d)"
  unfolding parse_header_def Let_def by (intro settles_intros settles_obind settles_simps)

text \<open>The one exception is the text of a generic signature.\<close>

lemma signature_text_returns [simp]: "signature_text strs vs \<noteq> Diverge"
  by (induction vs) (auto simp: obind_iffs split: encoded_value.split)

lemma signature_of_returns [simp]: "signature_of strs es \<noteq> Diverge"
  by (induction strs es rule: signature_of.induct) (auto simp: obind_iffs split: encoded_value.split)

lemma settles_annotation [settles_intros]: "settles (parse_annotation c)"
  unfolding parse_annotation_def named_value_def [abs_def] by (intro settles_intros settles_simps)

lemmas settles_parts = settles_readers settles_annotation settles_type_list settles_static_values
  settles_parse_class_data settles_header settles_parse_string

lemmas settled [simp] = settles_parts [THEN settlesD(1)] settles_parts [THEN settlesD(2)]

lemma signature_loop_returns [simp]: "signature_loop n strs k c \<noteq> Diverge"
  by (induction n arbitrary: c) (auto simp: obind_iffs split: annotation.splits if_splits option.splits)

lemma parse_runtime_signature_returns [simp]: "parse_runtime_signature d p strs k \<noteq> Diverge"
  by (auto simp: parse_runtime_signature_def obind_iffs split: option.splits)

lemma parse_class_def_bad:
  "parse_class_def c strs k p i \<noteq> Diverge"
  "parse_class_def c strs k p i = Panic \<Longrightarrow> \<exists>a. parse_runtime_signature (data c) a strs k = Panic"
  by (auto simp: parse_class_def_def Let_def obind_iffs split: if_splits)

lemma parse_bad:
  "parse d \<noteq> Diverge"
  "parse d = Panic \<Longrightarrow> \<exists>a strs k. parse_runtime_signature d a strs k = Panic"
  by (auto simp: parse_def Let_def obind_iffs parse_proto_def parse_field_id_def parse_method_id_def
      check_map_list_def cursor_new_def parse_class_def_bad dest!: omap_Diverge omap_Panic parse_class_def_bad(2)) blast+

section \<open>What a parsed file satisfies\<close>

text \<open>The little-endian word at a byte offset.\<close>

definition word_at :: "u8 list \<Rightarrow> nat \<Rightarrow> u32" where
  "word_at d p = u32_le (d ! p) (d ! (p + 1)) (d ! (p + 2)) (d ! (p + 3))"

lemma u32_at_Ok: "u32_at c p = Ok w \<longleftrightarrow> p + 4 \<le> length (data c) \<and> w = word_at (data c) p"
  by (auto simp: u32_at_def word_at_def)

lemma read_u32_Ok:
  "read_u32 c = Ok (w, c') \<longleftrightarrow> pos c + 4 \<le> length (data c) \<and> w = word_at (data c) (pos c) \<and>
     c' = c\<lparr>pos := pos c + 4\<rparr>"
  by (auto simp: read_u32_def word_at_def)

lemma orep_read_u32:
  "orep n read_u32 c = Ok (ws, c') \<Longrightarrow>
     ws = map (\<lambda>i. word_at (data c) (pos c + 4 * i)) [0..<n] \<and> (0 < n \<longrightarrow> pos c + 4 * n \<le> length (data c))"
proof (induction n arbitrary: c ws)
  case (Suc n)
  then obtain ws' where 1: "pos c + 4 \<le> length (data c)" "ws = word_at (data c) (pos c) # ws'"
    and 2: "orep n read_u32 (c\<lparr>pos := pos c + 4\<rparr>) = Ok (ws', c')"
    by (auto simp: obind_Ok_iff read_u32_Ok)
  from Suc.IH [OF 2] 1 show ?case
    by (auto simp: upt_conv_Cons [OF zero_less_Suc] map_Suc_upt [symmetric] ac_simps simp del: upt_Suc)
qed simp

lemma parse_header_Ok:
  assumes "parse_header d = Ok h"
  shows "112 \<le> length d" and "map byte_char (take 4 d) = ''dex'' @ [CHR 0x0A]"
    and "unat (word_at d 32) = length d" and "word_at d 36 = 0x70" and "word_at d 40 = 0x12345678"
    and "h = \<lparr>map_off = unat (word_at d 52),
      string_ids = (unat (word_at d 56), unat (word_at d 60)), type_ids = (unat (word_at d 64), unat (word_at d 68)),
      proto_ids = (unat (word_at d 72), unat (word_at d 76)), field_ids = (unat (word_at d 80), unat (word_at d 84)),
      method_ids = (unat (word_at d 88), unat (word_at d 92)), class_defs = (unat (word_at d 96), unat (word_at d 100))\<rparr>"
  using assms
  by (auto simp: parse_header_def obind_Ok_iff read_bytes_def cursor_new_def sub_def read_u32_Ok Let_def
      dest!: orep_read_u32 split: if_splits)

lemma parse_OkE:
  assumes "parse d = Ok f"
  obtains h where "parse_header d = Ok h" and "dex_data f = d"
    and "omap (parse_string (cursor_new d) (snd (string_ids h))) [0..<fst (string_ids h)] = Ok (strings f)"
    and "omap (\<lambda>i. u32_at (cursor_new d) (snd (type_ids h) + i * 4)) [0..<fst (type_ids h)] = Ok (types f)"
    and "omap (parse_proto (cursor_new d) (snd (proto_ids h))) [0..<fst (proto_ids h)] = Ok (protos f)"
    and "omap (parse_field_id (cursor_new d) (snd (field_ids h))) [0..<fst (field_ids h)] = Ok (dex_fields f)"
    and "omap (parse_method_id (cursor_new d) (snd (method_ids h))) [0..<fst (method_ids h)] = Ok (methods f)"
    and "omap (parse_class_def (cursor_new d) (strings f)
           (map_option of_nat (position (\<lambda>s. s = ''Ldalvik/annotation/Signature;'') (strings f)))
           (snd (class_defs h))) [0..<fst (class_defs h)] = Ok (classes f)"
  using assms by (auto simp: parse_def obind_Ok_iff Let_def)

lemma table_fits:
  assumes "omap g [0..<n] = Ok xs" and "\<And>i x. g i = Ok x \<Longrightarrow> p + i * k + k \<le> len"
  shows "k * length xs \<le> len"
proof (cases n)
  case (Suc m)
  have "\<exists>x. g m = Ok x" using omap_Ok_nth [OF assms(1), of m] Suc by (auto simp del: upt_Suc)
  then have "p + m * k + k \<le> len" using assms(2) by blast
  with omap_Ok_length [OF assms(1)] Suc show ?thesis by (simp add: algebra_simps)
qed (use assms(1) in simp)

lemma u16_at_Ok: "u16_at c p = Ok w \<Longrightarrow> p + 2 \<le> length (data c)"
  by (auto simp: u16_at_def split: if_splits)

lemma entry_bounds:
  "parse_string c p i = Ok s \<Longrightarrow> p + i * 4 + 4 \<le> length (data c)"
  "parse_proto c p i = Ok pr \<Longrightarrow> p + i * 12 + 12 \<le> length (data c)"
  "parse_field_id c p i = Ok fi \<Longrightarrow> p + i * 8 + 8 \<le> length (data c)"
  "parse_method_id c p i = Ok mi \<Longrightarrow> p + i * 8 + 8 \<le> length (data c)"
  "parse_class_def c strs k p i = Ok cls \<Longrightarrow> p + i * 32 + 32 \<le> length (data c)"
  by (auto simp: parse_string_def parse_proto_def parse_field_id_def parse_method_id_def parse_class_def_def
      Let_def obind_Ok_iff u32_at_Ok)

text \<open>Lookups: a string index found by \<open>position\<close> survives the cast to \<open>u32\<close>.\<close>

lemma type_descriptor_eq:
  "unat t < length (types f) \<Longrightarrow> unat (types f ! unat t) < length (strings f) \<Longrightarrow>
     type_descriptor f t = strings f ! unat (types f ! unat t)"
  by (simp add: type_descriptor_def nth_opt_def)

lemma type_id_of_Some:
  assumes "type_id_of f desc = Some t" and "length (strings f) < 2 ^ 32" and "length (types f) < 2 ^ 32"
  shows "unat t < length (types f) \<and> type_descriptor f t = desc"
proof -
  from assms(1) obtain sid k where s: "position (\<lambda>s. s = desc) (strings f) = Some sid"
    and k: "position (\<lambda>t. t = of_nat sid) (types f) = Some k" and t: "t = of_nat k"
    by (auto simp: type_id_of_def split: option.splits)
  have "unat t = k" using k assms(3) by (simp add: t position_Some_iff unat_of_nat)
  moreover have "unat (of_nat sid :: u32) = sid" using s assms(2) by (simp add: position_Some_iff unat_of_nat)
  ultimately show ?thesis using s k by (simp add: type_descriptor_eq position_Some_iff)
qed

lemma small_word_bytes: "u32_le a b c d < 256 \<Longrightarrow> b = 0"
proof (rule bit_word_eqI)
  fix n assume "u32_le a b c d < 256" and n: "n < LENGTH(8)"
  then have "unat (u32_le a b c d) < 256" by (simp add: word_less_nat_alt)
  then have "unat (drop_bit 8 (u32_le a b c d)) = 0"
    by (simp only: unsigned_drop_bit_eq) (simp add: drop_bit_eq_div take_bit_eq_mod)
  then have "drop_bit 8 (u32_le a b c d) = 0" by (simp only: unat_eq_0)
  moreover have "bit (u32_le a b c d) (n + 8) = bit (drop_bit 8 (u32_le a b c d)) n"
    by (simp add: bit_drop_bit_eq add.commute)
  ultimately have "\<not> bit (u32_le a b c d) (n + 8)" by simp
  then show "bit b n = bit (0 :: u8) n" using n
    by (auto simp: u32_le_def bit_or_iff bit_push_bit_iff bit_ucast_iff)
qed

lemma entry_words:
  "parse_field_id c p i = Ok fi \<Longrightarrow> fid_name fi = word_at (data c) (p + 8 * i + 4)"
  "parse_method_id c p i = Ok mi \<Longrightarrow> mid_name mi = word_at (data c) (p + 8 * i + 4)"
  "parse_class_def c strs k p i = Ok cls \<Longrightarrow> class_idx cls = word_at (data c) (p + 32 * i) \<and>
     superclass_idx cls = word_at (data c) (p + 32 * i + 8)"
  by (auto simp: parse_field_id_def parse_method_id_def parse_class_def_def Let_def obind_Ok_iff
      u32_at_Ok mult.commute)

section \<open>Properties\<close>

text \<open>
  C6: An encoded value (a static field's initial value, an annotation member) decodes to
  itself: whatever bytes surround it, reading the format's encoding of any value, nested
  arrays and annotations and every permitted width included, gives the value back and leaves
  the cursor right behind it.
\<close>

theorem encoded_value_roundtrip:
  assumes "encodes v bs" and "data c = before @ bs @ after" and "pos c = length before"
  shows "decode c = Ok (v, c\<lparr>pos := length before + length bs\<rparr>)"
  by (rule readsD [OF decode_reads [OF assms(1)] assms(2,3)])

theorem encoded_value_roundtrip_witness:
  "decode \<lparr>data = [9] @ [0x1c, 2, 0x04, 0x7f, 0x3f] @ [7], pos = 1\<rparr>
     = Ok (EV_Array [EV_Int 127, EV_Bool True],
          \<lparr>data = [9] @ [0x1c, 2, 0x04, 0x7f, 0x3f] @ [7], pos = 1\<rparr>
            \<lparr>pos := length [9 :: u8] + length [0x1c, 2, 0x04, 0x7f, 0x3f :: u8]\<rparr>)"
proof -
  have "encodes (EV_Int 127) [0x04, 0x7f]"
    using encodes.int [of 1 127] by (simp add: value_header_def le_bytes_def)
  moreover have "encodes (EV_Bool True) [0x3f]"
    using encodes.bool [of True] by (simp add: value_header_def)
  ultimately have "encodes (EV_Array [EV_Int 127, EV_Bool True]) [0x1c, 2, 0x04, 0x7f, 0x3f]"
    using encodes.array [of "[EV_Int 127, EV_Bool True]" "[[0x04, 0x7f], [0x3f]]"]
    by (simp add: value_header_def uleb_encode.simps)
  then show ?thesis by (rule encoded_value_roundtrip [where after = "[7]"]) simp_all
qed

text \<open>
  C7: The exception handlers of a try block are read as the format writes them: a positive
  size for typed handlers alone, a negative one (or zero) when a catch-all address follows.
  The parser gives back every type and address in order, and a catch-all exactly when there is one.
\<close>

theorem handlers_roundtrip:
  assumes "data c = before @ handlers_encode hs ca @ after" and "pos c = length before"
    and "length hs < 2 ^ 31" and "ca = None \<Longrightarrow> hs \<noteq> []"
  shows "parse_handlers c = Ok (hs, ca)"
  by (rule parse_handlers_encode [OF assms])

theorem handlers_roundtrip_witness:
  "parse_handlers \<lparr>data = [] @ handlers_encode [(3, 300)] (Some 7) @ [], pos = 0\<rparr> = Ok ([(3, 300)], Some 7)"
  by (rule handlers_roundtrip) simp_all

text \<open>
  C1: Parsing a DEX file always returns, on any bytes at all: with a file or an error. The
  only panic it can end in is the unchecked string index of a runtime generic signature.
\<close>

theorem parse_returns:
  "(\<exists>f. parse d = Ok f) \<or> (\<exists>e. parse d = Err e) \<or>
   parse d = Panic \<and> (\<exists>off' strs k. parse_runtime_signature d off' strs k = Panic)"
  using parse_bad [of d] by (cases "parse d") auto

text \<open>
  That panic is real: the string index of a Signature annotation is used unchecked, so
  fourteen bytes of annotation data with a string index out of range stop the parser instead
  of giving the error every other malformed table gives.
\<close>

theorem parse_signature_panics:
  "parse_runtime_signature [4, 0, 0, 0, 0, 1, 7, 0, 1, 0, 0x1c, 1, 0x17, 200] 0 [''a''] (Some 0) = Panic"
  by code_simp

text \<open>
  The generic signature of a class is never found in a well-formed file. The format's
  \<open>annotation_set_item\<close> starts with its size as a 32-bit word; the code reads a one-byte
  visibility and then a LEB128 size there, so for every set of less than 256 annotations it
  reads the zero second byte of that word as the size and looks at no annotation at all.
\<close>

theorem signature_set_layout:
  assumes "u32_at (cursor_new d) directory = Ok set_off" and "u32_at (cursor_new d) (unat set_off) = Ok n"
    and "n < 256"
  shows "parse_runtime_signature d directory strs k = Ok None"
proof -
  have d: "directory + 4 \<le> length d" "set_off = word_at d directory" "unat set_off + 4 \<le> length d"
    "n = word_at d (unat set_off)"
    using assms(1,2) by (simp_all add: u32_at_Ok cursor_new_def)
  have "d ! (unat set_off + 1) = 0"
    using assms(3) d(4) small_word_bytes by (simp add: word_at_def)
  then have "uleb128 \<lparr>data = d, pos = unat set_off + 1\<rparr> = Ok (0, \<lparr>data = d, pos = unat set_off + 2\<rparr>)"
    using d(3) by (simp add: uleb128_def uleb128_loop.simps read_u8_def)
  moreover have "read_u32 \<lparr>data = d, pos = directory\<rparr> = Ok (set_off, \<lparr>data = d, pos = directory + 4\<rparr>)"
    using d(1,2) by (simp add: read_u32_Ok)
  ultimately show ?thesis
    using d(1,3) by (cases k) (simp_all add: parse_runtime_signature_def seek_def cursor_new_def read_u8_def)
qed

theorem signature_set_layout_witness:
  "parse_runtime_signature [4, 0, 0, 0, 1, 0, 0, 0, 12, 0, 0, 0, 0, 0, 0] 0 [] (Some 0) = Ok None"
  by (rule signature_set_layout [where set_off = 4 and n = 1]) code_simp+

text \<open>
  C2: The tables of a parsed file are the ones its header announces: the magic, the file
  size, the header size and the endian tag are checked, every table has the announced number
  of entries and lies inside the file, and the type list and the field, method and class
  tables hold the words the format stores at each entry.
\<close>

theorem parse_tables:
  assumes "parse d = Ok f"
  shows "map byte_char (take 4 d) = ''dex'' @ [CHR 0x0A] \<and> unat (word_at d 32) = length d \<and>
    word_at d 36 = 0x70 \<and> word_at d 40 = 0x12345678 \<and> dex_data f = d \<and>
    length (strings f) = unat (word_at d 56) \<and> 4 * length (strings f) \<le> length d \<and>
    length (types f) = unat (word_at d 64) \<and> 4 * length (types f) \<le> length d \<and>
    length (protos f) = unat (word_at d 72) \<and> 12 * length (protos f) \<le> length d \<and>
    length (dex_fields f) = unat (word_at d 80) \<and> 8 * length (dex_fields f) \<le> length d \<and>
    length (methods f) = unat (word_at d 88) \<and> 8 * length (methods f) \<le> length d \<and>
    length (classes f) = unat (word_at d 96) \<and> 32 * length (classes f) \<le> length d \<and>
    (\<forall>k < length (types f). types f ! k = word_at d (unat (word_at d 68) + 4 * k)) \<and>
    (\<forall>k < length (dex_fields f). fid_name (dex_fields f ! k) = word_at d (unat (word_at d 84) + 8 * k + 4)) \<and>
    (\<forall>k < length (methods f). mid_name (methods f ! k) = word_at d (unat (word_at d 92) + 8 * k + 4)) \<and>
    (\<forall>k < length (classes f).
       class_idx (classes f ! k) = word_at d (unat (word_at d 100) + 32 * k) \<and>
       superclass_idx (classes f ! k) = word_at d (unat (word_at d 100) + 32 * k + 8))"
proof -
  from parse_OkE [OF assms] obtain h where h: "parse_header d = Ok h" "dex_data f = d"
    and s: "omap (parse_string (cursor_new d) (snd (string_ids h))) [0..<fst (string_ids h)] = Ok (strings f)"
    and t: "omap (\<lambda>i. u32_at (cursor_new d) (snd (type_ids h) + i * 4)) [0..<fst (type_ids h)] = Ok (types f)"
    and p: "omap (parse_proto (cursor_new d) (snd (proto_ids h))) [0..<fst (proto_ids h)] = Ok (protos f)"
    and fl: "omap (parse_field_id (cursor_new d) (snd (field_ids h))) [0..<fst (field_ids h)] = Ok (dex_fields f)"
    and m: "omap (parse_method_id (cursor_new d) (snd (method_ids h))) [0..<fst (method_ids h)] = Ok (methods f)"
    and c: "omap (parse_class_def (cursor_new d) (strings f)
           (map_option of_nat (position (\<lambda>s. s = ''Ldalvik/annotation/Signature;'') (strings f)))
           (snd (class_defs h))) [0..<fst (class_defs h)] = Ok (classes f)"
    by blast
  note len = s [THEN omap_Ok_length] t [THEN omap_Ok_length] p [THEN omap_Ok_length]
    fl [THEN omap_Ok_length] m [THEN omap_Ok_length] c [THEN omap_Ok_length]
  have d: "data (cursor_new d) = d" by (simp add: cursor_new_def)
  have le: "4 * length (strings f) \<le> length d" "4 * length (types f) \<le> length d" "12 * length (protos f) \<le> length d"
     "8 * length (dex_fields f) \<le> length d" "8 * length (methods f) \<le> length d" "32 * length (classes f) \<le> length d"
    by (rule table_fits [OF s entry_bounds(1) [of "cursor_new d", unfolded d]], assumption)
       (rule table_fits [OF t], simp add: u32_at_Ok d,
        rule table_fits [OF p entry_bounds(2) [of "cursor_new d", unfolded d]], assumption,
        rule table_fits [OF fl entry_bounds(3) [of "cursor_new d", unfolded d]], assumption,
        rule table_fits [OF m entry_bounds(4) [of "cursor_new d", unfolded d]], assumption,
        rule table_fits [OF c entry_bounds(5) [of "cursor_new d", unfolded d]], assumption)
  have ty: "types f ! k = word_at d (unat (word_at d 68) + 4 * k)" if "k < length (types f)" for k
    using omap_at [OF t, of k] that len parse_header_Ok [OF h(1)] by (simp add: u32_at_Ok d mult.commute)
  have fi: "fid_name (dex_fields f ! k) = word_at d (unat (word_at d 84) + 8 * k + 4)" if "k < length (dex_fields f)" for k
    using entry_words(1) [OF omap_at [OF fl, of k]] that len parse_header_Ok [OF h(1)] by (simp add: d)
  have mi: "mid_name (methods f ! k) = word_at d (unat (word_at d 92) + 8 * k + 4)" if "k < length (methods f)" for k
    using entry_words(2) [OF omap_at [OF m, of k]] that len parse_header_Ok [OF h(1)] by (simp add: d)
  have cl: "class_idx (classes f ! k) = word_at d (unat (word_at d 100) + 32 * k) \<and>
       superclass_idx (classes f ! k) = word_at d (unat (word_at d 100) + 32 * k + 8)" if "k < length (classes f)" for k
    using entry_words(3) [OF omap_at [OF c, of k]] that len parse_header_Ok [OF h(1)] by (simp add: d)
  show ?thesis
    using parse_header_Ok [OF h(1)] len h(2) le ty fi mi cl by simp
qed

text \<open>The smallest file: a header, one string \<open>hi\<close>, empty tables and a map list.\<close>

definition minimal_dex :: "u8 list" where
  "minimal_dex =
     [0x64, 0x65, 0x78, 0x0a, 0x30, 0x33, 0x35, 0] @ replicate 24 0 @
     [0x88, 0, 0, 0, 0x70, 0, 0, 0, 0x78, 0x56, 0x34, 0x12] @ replicate 8 0 @
     [0x78, 0, 0, 0, 1, 0, 0, 0, 0x70, 0, 0, 0] @ replicate 48 0 @
     [0x74, 0, 0, 0, 2, 0x68, 0x69, 0] @ [1, 0, 0, 0] @ replicate 4 0 @ [1, 0, 0, 0] @ replicate 4 0"

lemma minimal_dex_parses:
  "parse minimal_dex = Ok \<lparr>dex_data = minimal_dex, strings = [''hi''], types = [], protos = [],
     dex_fields = [], methods = [], classes = []\<rparr>"
  by code_simp

theorem parse_tables_witness:
  "length [''hi''] = unat (word_at minimal_dex 56) \<and> 4 * length [''hi''] \<le> length minimal_dex"
  using parse_tables [OF minimal_dex_parses] by simp

text \<open>
  Looking a type up by its descriptor and reading the descriptor of the type found are
  inverse: a found id is in the table and has the descriptor that was asked for, and a type
  whose descriptor is in the string table is found, when the string table has no duplicates
  (the format sorts it) and both tables have less than 2^32 entries (their sizes are words).
\<close>

theorem type_id_of_correct:
  assumes "length (strings f) < 2 ^ 32" and "length (types f) < 2 ^ 32"
  shows "(type_id_of f desc = Some t \<longrightarrow> unat t < length (types f) \<and> type_descriptor f t = desc) \<and>
    (distinct (strings f) \<and> unat t < length (types f) \<and> unat (types f ! unat t) < length (strings f) \<and>
       type_descriptor f t = desc \<longrightarrow> type_id_of f desc \<noteq> None)"
proof (intro conjI impI)
  assume "type_id_of f desc = Some t"
  with type_id_of_Some assms show "unat t < length (types f)" "type_descriptor f t = desc" by auto
next
  assume a: "distinct (strings f) \<and> unat t < length (types f) \<and> unat (types f ! unat t) < length (strings f) \<and>
       type_descriptor f t = desc"
  let ?s = "unat (types f ! unat t)"
  have s: "strings f ! ?s = desc" using a type_descriptor_eq [of t f] by simp
  have "position (\<lambda>s. s = desc) (strings f) = Some ?s"
    using a s by (auto simp: position_Some_iff distinct_conv_nth)
  moreover have "position (\<lambda>x. x = of_nat ?s) (types f) \<noteq> None"
    using a by (auto simp: position_None_iff)
  ultimately show "type_id_of f desc \<noteq> None" by (auto simp: type_id_of_def)
qed

definition two_type_file :: dex_file where
  "two_type_file = \<lparr>dex_data = [], strings = [''I'', ''LA;'', ''x''], types = [0, 1], protos = [],
     dex_fields = [], methods = [],
     classes = [\<lparr>class_idx = 1, cd_access_flags = 1, superclass_idx = 0xffffffff, interfaces = [],
       source_file_idx = 0, class_data_of = None, static_values = [], generic_signature = None\<rparr>]\<rparr>"

theorem type_id_of_correct_witness:
  "type_id_of two_type_file ''LA;'' = Some 1 \<and> type_descriptor two_type_file 1 = ''LA;'' \<and>
   type_id_of two_type_file ''I'' \<noteq> None"
proof -
  have 1: "type_id_of two_type_file ''LA;'' = Some 1" by code_simp
  have 2: "distinct (strings two_type_file)" "unat (0 :: u32) < length (types two_type_file)"
    "unat (types two_type_file ! unat (0 :: u32)) < length (strings two_type_file)"
    "type_descriptor two_type_file 0 = ''I''"
    by code_simp+
  show ?thesis
    using type_id_of_correct [of two_type_file "''LA;''" 1] type_id_of_correct [of two_type_file "''I''" 0] 1 2
    by (simp add: two_type_file_def)
qed

text \<open>
  A class found by its descriptor is the class of that descriptor: the index is in the
  class table and the type of the class there has the descriptor that was asked for.
\<close>

theorem class_by_descriptor_sound:
  assumes "class_by_descriptor f desc = Some i" and "length (strings f) < 2 ^ 32" and "length (types f) < 2 ^ 32"
  shows "i < length (classes f) \<and> type_descriptor f (class_idx (classes f ! i)) = desc"
proof -
  from assms(1) obtain tid where "type_id_of f desc = Some (of_nat tid)"
    and "position (\<lambda>cd. class_idx cd = of_nat tid) (classes f) = Some i"
    by (auto simp: class_by_descriptor_def type_id_of_def split: option.splits)
  with type_id_of_Some [OF _ assms(2,3)] show ?thesis by (auto simp: position_Some_iff)
qed

theorem class_by_descriptor_sound_witness:
  "0 < length (classes two_type_file) \<and>
   type_descriptor two_type_file (class_idx (classes two_type_file ! 0)) = ''LA;''"
  by (rule class_by_descriptor_sound) (code_simp, simp_all add: two_type_file_def)

end
