(* ===== verification/Object.thy ===== *)
theory Object
  imports SoftFloat
begin

text \<open>
  The values and heap objects of the VM: \<open>src/src/vm/value.rs\<close> (\<open>JValue\<close> and the descriptor
  helpers) and \<open>src/src/vm/object.rs\<close> (\<open>ArrayData\<close>, the native payloads with \<open>collect_refs\<close>,
  and the object arena with its free list). A float is its bit pattern. \<open>None\<close> as the result
  of an accessor is the panic of the source.
\<close>

section \<open>Values\<close>

datatype jvalue = VInt i32 | VLong i64 | VFloat u32 | VDouble u64 | VObj u32 | VNull

fun is_null :: "jvalue \<Rightarrow> bool" where
  "is_null VNull = True"
| "is_null _ = False"

text \<open>A null reference, or the untyped zero a \<open>const 0\<close> leaves in a reference register.\<close>

fun is_null_ref :: "jvalue \<Rightarrow> bool" where
  "is_null_ref VNull = True"
| "is_null_ref (VInt i) = (i = 0)"
| "is_null_ref _ = False"

fun is_wide :: "jvalue \<Rightarrow> bool" where
  "is_wide (VLong _) = True"
| "is_wide (VDouble _) = True"
| "is_wide _ = False"

fun truthy :: "jvalue \<Rightarrow> bool" where
  "truthy (VInt v) = (v \<noteq> 0)"
| "truthy _ = False"

definition f32_of :: "u32 \<Rightarrow> fp" where "f32_of w = unpack binary32 (unat w)"

definition f64_of :: "u64 \<Rightarrow> fp" where "f64_of w = unpack binary64 (unat w)"

text \<open>\<open>v == 0.0\<close> holds for both zeros.\<close>

definition f32_is_zero :: "u32 \<Rightarrow> bool" where
  "f32_is_zero w \<longleftrightarrow> fcompare (f32_of w) (Fin False 0 0) = Some 0"

definition f64_is_zero :: "u64 \<Rightarrow> bool" where
  "f64_is_zero w \<longleftrightarrow> fcompare (f64_of w) (Fin False 0 0) = Some 0"

fun is_zero :: "jvalue \<Rightarrow> bool" where
  "is_zero (VInt v) = (v = 0)"
| "is_zero (VLong v) = (v = 0)"
| "is_zero (VFloat v) = f32_is_zero v"
| "is_zero (VDouble v) = f64_is_zero v"
| "is_zero VNull = True"
| "is_zero (VObj _) = False"

fun as_int :: "jvalue \<Rightarrow> i32 option" where
  "as_int (VInt v) = Some v"
| "as_int VNull = Some 0"
| "as_int _ = None"

fun as_long :: "jvalue \<Rightarrow> i64 option" where
  "as_long (VLong v) = Some v"
| "as_long _ = None"

fun as_obj :: "jvalue \<Rightarrow> u32 option" where
  "as_obj (VObj o') = Some o'"
| "as_obj _ = None"

fun ty_tag :: "jvalue \<Rightarrow> string" where
  "ty_tag (VInt _) = ''int''"
| "ty_tag (VLong _) = ''long''"
| "ty_tag (VFloat _) = ''float''"
| "ty_tag (VDouble _) = ''double''"
| "ty_tag (VObj _) = ''object''"
| "ty_tag VNull = ''null''"

section \<open>Type descriptors\<close>

text \<open>
  \<open>Prim\<close> holds the first character of the text, which is its first byte and the UTF-8
  continuation bytes behind it.
\<close>

datatype type_kind = Prim string | ClassName string | ArrayOf string

definition utf8_cont :: "char \<Rightarrow> bool" where
  "utf8_cont c \<longleftrightarrow> 0x80 \<le> char_byte c \<and> char_byte c < 0xC0"

fun first_char :: "string \<Rightarrow> string" where
  "first_char [] = ''V''"
| "first_char (c # cs) = c # takeWhile utf8_cont cs"

definition trim_end :: "char \<Rightarrow> string \<Rightarrow> string" where
  "trim_end c s = rev (dropWhile (\<lambda>x. x = c) (rev s))"

fun parse_desc :: "string \<Rightarrow> type_kind" where
  "parse_desc (CHR ''L'' # rest) = ClassName (trim_end CHR '';'' rest)"
| "parse_desc (CHR ''['' # rest) = ArrayOf rest"
| "parse_desc desc = Prim (first_char desc)"

definition is_primitive_desc :: "string \<Rightarrow> bool" where
  "is_primitive_desc d \<longleftrightarrow>
     d \<in> {''B'', ''C'', ''D'', ''F'', ''I'', ''J'', ''S'', ''Z'', ''V''}"

definition is_wide_desc :: "string \<Rightarrow> bool" where
  "is_wide_desc d \<longleftrightarrow> d = ''J'' \<or> d = ''D''"

definition default_of :: "string \<Rightarrow> jvalue" where
  "default_of d =
     (if d = ''J'' then VLong 0 else if d = ''D'' then VDouble 0 else if d = ''F'' then VFloat 0
      else if d \<in> {''Z'', ''B'', ''C'', ''S'', ''I'', ''V''} then VInt 0 else VNull)"

definition prim_name :: "string \<Rightarrow> string" where
  "prim_name p =
     (if p = ''B'' then ''byte'' else if p = ''C'' then ''char'' else if p = ''D'' then ''double''
      else if p = ''F'' then ''float'' else if p = ''I'' then ''int'' else if p = ''J'' then ''long''
      else if p = ''S'' then ''short'' else if p = ''Z'' then ''boolean''
      else if p = ''V'' then ''void'' else p)"

function dotted_name :: "string \<Rightarrow> string" where
  "dotted_name desc =
     (case parse_desc desc of
        ClassName c \<Rightarrow> map (\<lambda>x. if x = CHR ''/'' then CHR ''.'' else x) c
      | ArrayOf e \<Rightarrow> dotted_name e @ ''[]''
      | Prim p \<Rightarrow> prim_name p)"
  by pat_completeness auto

lemma parse_desc_array: "parse_desc d = ArrayOf e \<Longrightarrow> length e < length d"
  by (cases d rule: parse_desc.cases) auto

termination dotted_name
  by (relation "measure length") (auto dest: parse_desc_array)

declare dotted_name.simps [simp del]

section \<open>Arrays\<close>

datatype array_data =
    ByteArr "i8 list" | CharArr "u16 list" | ShortArr "i16 list" | IntArr "i32 list"
  | LongArr "i64 list" | FloatArr "u32 list" | DoubleArr "u64 list" | BoolArr "bool list"
  | ObjArr "jvalue list"

definition array_new :: "string \<Rightarrow> nat \<Rightarrow> array_data" where
  "array_new d n =
     (if d = ''B'' then ByteArr (replicate n 0) else if d = ''C'' then CharArr (replicate n 0)
      else if d = ''S'' then ShortArr (replicate n 0) else if d = ''I'' then IntArr (replicate n 0)
      else if d = ''J'' then LongArr (replicate n 0) else if d = ''F'' then FloatArr (replicate n 0)
      else if d = ''D'' then DoubleArr (replicate n 0) else if d = ''Z'' then BoolArr (replicate n False)
      else ObjArr (replicate n VNull))"

fun elem_desc :: "array_data \<Rightarrow> string" where
  "elem_desc (ByteArr _) = ''B''"
| "elem_desc (CharArr _) = ''C''"
| "elem_desc (ShortArr _) = ''S''"
| "elem_desc (IntArr _) = ''I''"
| "elem_desc (LongArr _) = ''J''"
| "elem_desc (FloatArr _) = ''F''"
| "elem_desc (DoubleArr _) = ''D''"
| "elem_desc (BoolArr _) = ''Z''"
| "elem_desc (ObjArr _) = ''Ljava/lang/Object;''"

fun array_len :: "array_data \<Rightarrow> nat" where
  "array_len (ByteArr v) = length v"
| "array_len (CharArr v) = length v"
| "array_len (ShortArr v) = length v"
| "array_len (IntArr v) = length v"
| "array_len (LongArr v) = length v"
| "array_len (FloatArr v) = length v"
| "array_len (DoubleArr v) = length v"
| "array_len (BoolArr v) = length v"
| "array_len (ObjArr v) = length v"

definition array_is_empty :: "array_data \<Rightarrow> bool" where
  "array_is_empty a \<longleftrightarrow> array_len a = 0"

definition int_of_bool :: "bool \<Rightarrow> i32" where
  "int_of_bool b = (if b then 1 else 0)"

fun array_get :: "array_data \<Rightarrow> nat \<Rightarrow> jvalue option" where
  "array_get (ByteArr v) i = map_option (\<lambda>x. VInt (scast x)) (nth_opt v i)"
| "array_get (CharArr v) i = map_option (\<lambda>x. VInt (ucast x)) (nth_opt v i)"
| "array_get (ShortArr v) i = map_option (\<lambda>x. VInt (scast x)) (nth_opt v i)"
| "array_get (IntArr v) i = map_option VInt (nth_opt v i)"
| "array_get (LongArr v) i = map_option VLong (nth_opt v i)"
| "array_get (FloatArr v) i = map_option VFloat (nth_opt v i)"
| "array_get (DoubleArr v) i = map_option VDouble (nth_opt v i)"
| "array_get (BoolArr v) i = map_option (\<lambda>b. VInt (int_of_bool b)) (nth_opt v i)"
| "array_get (ObjArr v) i = nth_opt v i"

text \<open>The numeric \<open>as\<close> casts into a float.\<close>

definition i32_to_f32 :: "i32 \<Rightarrow> u32" where "i32_to_f32 i = of_nat (of_int_fp binary32 (sint i))"

definition i32_to_f64 :: "i32 \<Rightarrow> u64" where "i32_to_f64 i = of_nat (of_int_fp binary64 (sint i))"

definition i64_to_f32 :: "i64 \<Rightarrow> u32" where "i64_to_f32 i = of_nat (of_int_fp binary32 (sint i))"

definition i64_to_f64 :: "i64 \<Rightarrow> u64" where "i64_to_f64 i = of_nat (of_int_fp binary64 (sint i))"

definition f32_to_f64 :: "u32 \<Rightarrow> u64" where "f32_to_f64 w = of_nat (pack binary64 (f32_of w))"

definition f64_to_f32 :: "u64 \<Rightarrow> u32" where "f64_to_f32 w = of_nat (pack binary32 (f64_of w))"

fun float_elem :: "jvalue \<Rightarrow> u32 option" where
  "float_elem (VFloat f) = Some f"
| "float_elem (VInt i) = Some (i32_to_f32 i)"
| "float_elem _ = None"

fun double_elem :: "jvalue \<Rightarrow> u64 option" where
  "double_elem (VDouble f) = Some f"
| "double_elem (VFloat f) = Some (f32_to_f64 f)"
| "double_elem (VLong l) = Some (i64_to_f64 l)"
| "double_elem (VInt i) = Some (i32_to_f64 i)"
| "double_elem _ = None"

text \<open>The element is converted first, then the index is checked; both can panic.\<close>

definition put_elem :: "'a list \<Rightarrow> nat \<Rightarrow> 'a option \<Rightarrow> 'a list option" where
  "put_elem xs i m = (case m of None \<Rightarrow> None | Some x \<Rightarrow> if i < length xs then Some (xs[i := x]) else None)"

fun array_set :: "array_data \<Rightarrow> nat \<Rightarrow> jvalue \<Rightarrow> array_data option" where
  "array_set (ByteArr d) i v = map_option ByteArr (put_elem d i (map_option ucast (as_int v)))"
| "array_set (CharArr d) i v = map_option CharArr (put_elem d i (map_option ucast (as_int v)))"
| "array_set (ShortArr d) i v = map_option ShortArr (put_elem d i (map_option ucast (as_int v)))"
| "array_set (IntArr d) i v = map_option IntArr (put_elem d i (as_int v))"
| "array_set (LongArr d) i v = map_option LongArr (put_elem d i (as_long v))"
| "array_set (FloatArr d) i v = map_option FloatArr (put_elem d i (float_elem v))"
| "array_set (DoubleArr d) i v = map_option DoubleArr (put_elem d i (double_elem v))"
| "array_set (BoolArr d) i v = map_option BoolArr (put_elem d i (Some (truthy v)))"
| "array_set (ObjArr d) i v = map_option ObjArr (put_elem d i (Some v))"


section \<open>Native payloads\<close>

datatype class_or_prim = Class u32 | Primitive u8

datatype json_val =
    JObject "(string \<times> json_val) list" | JArray "json_val list" | JStr string | JInt i64
  | JDouble u64 | JBool bool | JNull

datatype rx_operator =
    RxMap jvalue | RxFlatMap jvalue | RxDoOnNext jvalue | RxToList | RxOnErrorReturn jvalue
  | RxOnErrorResumeNext jvalue | RxDoOnTerminate jvalue

datatype iter_kind =
    IterList u32 nat | IterMapEntries u32 nat | IterMapKeys u32 nat | IterMapValues u32 nat
  | IterSet u32 nat | IterJsoup "nat list" nat

type_synonym polymorphic_registration = "jvalue \<times> (jvalue \<times> jvalue) list \<times> jvalue option"

text \<open>
  Every variant of the source that holds a reference to another heap object, with its fields
  in order, the variants the interpreter itself reads or makes, and those of the modelled shims.
  \<open>Leaf\<close> stands for the other variants, by name: their payload (text, numbers, host handles)
  holds no heap reference and only shims outside the model look at it.
\<close>

datatype (plugins only: code) native =
    Str string | Arr array_data | ClassObj class_or_prim
  | Throwable "string option" jvalue
  | IntBox i32 | LongBox i64 | FloatBox u32 | DoubleBox u64 | CharBox u16 | BoolBox bool
  | ShortBox i16 | ByteBox i8
  | Random u64 | AtomicBool bool | AtomicInt i32 | JsoupElements "nat list"
  | IntRange i32 i32 | IntProgression i32 i32 i32 | CharRange i32 i32 | LongRange i64 i64
  | JList "jvalue list" | JMap "(jvalue \<times> jvalue) list" | JSet "jvalue list" | Iter iter_kind
  | MapEntry u32 nat | OkioOutputStream u32
  | OkHttpClient "jvalue list" "jvalue list" | OkHttpBuilder "jvalue list" "jvalue list"
  | Call jvalue jvalue bool | Chain "jvalue list" nat jvalue jvalue
  | ResponseBuilder i32 string "(string \<times> string) list" "jvalue option" "jvalue option" "jvalue option"
  | Thread string bool bool bool bool jvalue
  | Intent "string option" "string option" "(string \<times> jvalue) list"
  | Activity jvalue bool
  | Preference "jvalue option" "jvalue option" "jvalue option" jvalue bool bool "jvalue list" "jvalue list"
  | PreferenceScreen "jvalue list" "jvalue option"
  | Canvas u32 "u32 list" "u32 list list"
  | JsonObj "(string \<times> jvalue) list" | JsonArr "jvalue list" | ArrayDeque "jvalue list"
  | Request string string "(string \<times> string) list" "jvalue option"
  | RequestBuilder string string "(string \<times> string) list" "jvalue option"
  | Response i32 string "(string \<times> string) list" "u8 list option" jvalue jvalue
  | ResultFailure jvalue | Deferred jvalue jvalue
  | RxObservable "jvalue list" jvalue jvalue "rx_operator list"
  | SManga string "string option" "string option" "string option" "string option" i32 string string
      jvalue jvalue
  | SChapter string string i64 string u32 jvalue
  | SMangasPage "jvalue list" bool | SMangaUpdate jvalue jvalue
  | SFilter string i32 bool "jvalue list" "jvalue list" string
  | SFilterList "jvalue list" | Lazy jvalue | Pair jvalue jvalue | Triple jvalue jvalue jvalue
  | HexFormatBytesBuilder jvalue | ArrayDesc array_data
  | JsonDecoder jvalue "(string \<times> jvalue) list option" i32 "jvalue option"
  | KotlinLazy jvalue "jvalue option" bool | Polymorphic jvalue
  | SerializersModule "polymorphic_registration list" | JsonWithModule jvalue
  | SerialDescriptor string "string list" "jvalue list list"
  | EnumSerializer "jvalue list" "string list" | ArrayListSerializer jvalue
  | LinkedHashMapSerializer jvalue jvalue
  | Leaf string

record jobject =
  obj_class :: u32
  obj_fields :: "jvalue list"
  obj_native :: "native option"

text \<open>The closures \<open>push\<close> and \<open>push_all\<close>.\<close>

fun push_ref :: "jvalue option \<Rightarrow> u32 list" where
  "push_ref (Some (VObj o')) = [o']"
| "push_ref _ = []"

definition push_all :: "jvalue list \<Rightarrow> u32 list" where
  "push_all vs = concat (map (\<lambda>v. push_ref (Some v)) vs)"

fun rx_refs :: "rx_operator \<Rightarrow> u32 list" where
  "rx_refs (RxMap c) = push_ref (Some c)"
| "rx_refs (RxFlatMap c) = push_ref (Some c)"
| "rx_refs (RxDoOnNext c) = push_ref (Some c)"
| "rx_refs (RxOnErrorReturn c) = push_ref (Some c)"
| "rx_refs (RxOnErrorResumeNext c) = push_ref (Some c)"
| "rx_refs (RxDoOnTerminate c) = push_ref (Some c)"
| "rx_refs RxToList = []"

fun iter_refs :: "iter_kind \<Rightarrow> u32 list" where
  "iter_refs (IterList l _) = [l]"
| "iter_refs (IterMapEntries m _) = [m]"
| "iter_refs (IterMapKeys m _) = [m]"
| "iter_refs (IterMapValues m _) = [m]"
| "iter_refs (IterSet s _) = [s]"
| "iter_refs (IterJsoup _ _) = []"

text \<open>The references a payload reports to the collector, in the order the source pushes them.\<close>

definition native_refs :: "native \<Rightarrow> u32 list" where
  "native_refs n =
     (case n of
        Arr (ObjArr v) \<Rightarrow> push_all v
      | Throwable _ cause \<Rightarrow> push_ref (Some cause)
      | ResultFailure t \<Rightarrow> push_ref (Some t)
      | Deferred v e \<Rightarrow> push_all [v, e]
      | RxObservable vs e c ops \<Rightarrow> push_all vs @ push_all [e, c] @ concat (map rx_refs ops)
      | JList v \<Rightarrow> push_all v
      | JSet v \<Rightarrow> push_all v
      | ArrayDeque v \<Rightarrow> push_all v
      | JMap kvs \<Rightarrow> concat (map (\<lambda>(k, v). push_all [k, v]) kvs)
      | Iter k \<Rightarrow> iter_refs k
      | MapEntry m _ \<Rightarrow> [m]
      | OkioOutputStream b \<Rightarrow> [b]
      | Lazy v \<Rightarrow> push_ref (Some v)
      | KotlinLazy f v _ \<Rightarrow> push_ref (Some f) @ push_ref v
      | Thread _ _ _ _ _ r \<Rightarrow> push_ref (Some r)
      | Pair a b \<Rightarrow> push_all [a, b]
      | HexFormatBytesBuilder p \<Rightarrow> push_ref (Some p)
      | Triple a b c \<Rightarrow> push_all [a, b, c]
      | OkHttpBuilder is nis \<Rightarrow> push_all is @ push_all nis
      | OkHttpClient is nis \<Rightarrow> push_all is @ push_all nis
      | Call r c _ \<Rightarrow> push_all [r, c]
      | Chain is _ r c \<Rightarrow> push_all is @ push_all [r, c]
      | ResponseBuilder _ _ _ body req _ \<Rightarrow> push_ref body @ push_ref req
      | Request _ _ _ body \<Rightarrow> push_ref body
      | RequestBuilder _ _ _ body \<Rightarrow> push_ref body
      | Response _ _ _ _ req _ \<Rightarrow> push_ref (Some req)
      | SManga _ _ _ _ _ _ _ _ us memo \<Rightarrow> push_all [us, memo]
      | SChapter _ _ _ _ _ memo \<Rightarrow> push_ref (Some memo)
      | SMangasPage ms _ \<Rightarrow> push_all ms
      | SMangaUpdate m cs \<Rightarrow> push_all [m, cs]
      | SFilter _ _ _ children _ _ \<Rightarrow> push_all children
      | SFilterList v \<Rightarrow> push_all v
      | Polymorphic b \<Rightarrow> push_ref (Some b)
      | SerializersModule polys \<Rightarrow>
          concat (map (\<lambda>(b, subs, d). push_ref (Some b) @ push_all (map snd subs) @ push_ref d) polys)
      | JsonWithModule m \<Rightarrow> push_ref (Some m)
      | EnumSerializer vs _ \<Rightarrow> push_all vs
      | JsonDecoder el ms _ _ \<Rightarrow>
          push_ref (Some el) @ (case ms of Some m \<Rightarrow> push_all (map snd m) | None \<Rightarrow> [])
      | ArrayListSerializer c \<Rightarrow> push_ref (Some c)
      | LinkedHashMapSerializer k v \<Rightarrow> push_all [k, v]
      | Intent _ _ extras \<Rightarrow> push_all (map snd extras)
      | Activity i _ \<Rightarrow> push_ref (Some i)
      | Preference k t s d _ _ es vs \<Rightarrow>
          push_ref k @ push_ref t @ push_ref s @ push_ref (Some d) @ push_all es @ push_all vs
      | PreferenceScreen cs t \<Rightarrow> push_all cs @ push_ref t
      | Canvas b _ _ \<Rightarrow> [b]
      | JsonObj ps \<Rightarrow> push_all (map snd ps)
      | JsonArr is \<Rightarrow> push_all is
      | ArrayDesc (ObjArr v) \<Rightarrow> push_all v
      | _ \<Rightarrow> [])"

definition collect_refs :: "jobject \<Rightarrow> u32 list" where
  "collect_refs ob =
     push_all (obj_fields ob) @ (case obj_native ob of Some n \<Rightarrow> native_refs n | None \<Rightarrow> [])"

section \<open>The arena\<close>

text \<open>Both vectors in their Rust order: the free list is pushed and popped at its end.\<close>

record arena =
  objects :: "jobject list"
  free_ids :: "u32 list"

definition arena_empty :: arena where
  "arena_empty = \<lparr>objects = [], free_ids = []\<rparr>"

text \<open>\<open>None\<close> is the panic of a free id that is no slot; \<open>len() as u32\<close> wraps.\<close>

definition alloc :: "u32 \<Rightarrow> jvalue list \<Rightarrow> native option \<Rightarrow> arena \<Rightarrow> (u32 \<times> arena) option" where
  "alloc cls fs n a =
     (let ob = \<lparr>obj_class = cls, obj_fields = fs, obj_native = n\<rparr> in
      if free_ids a \<noteq> [] then
        let f = last (free_ids a) in
        if unat f < length (objects a) then
          Some (f, \<lparr>objects = (objects a)[unat f := ob], free_ids = butlast (free_ids a)\<rparr>)
        else None
      else Some (of_nat (length (objects a)), \<lparr>objects = objects a @ [ob], free_ids = []\<rparr>))"

definition arena_get :: "arena \<Rightarrow> u32 \<Rightarrow> jobject option" where
  "arena_get a i = nth_opt (objects a) (unat i)"

definition reclaim :: "u32 \<Rightarrow> arena \<Rightarrow> arena" where
  "reclaim i a = a\<lparr>free_ids := free_ids a @ [i]\<rparr>"

text \<open>\<open>objects.len() - free.len()\<close> in \<open>usize\<close>, with the wrap-around of a release build.\<close>

definition live_count :: "arena \<Rightarrow> u64" where
  "live_count a = of_nat (length (objects a)) - of_nat (length (free_ids a))"

section \<open>Marking\<close>

text \<open>
  The closure \<open>seed\<close> on the mark bits and the stack (pushed and popped at its end), the seeding
  of a list of roots, and the mark loop. Each round pops an id that was unmarked when it was
  pushed, so one round per slot is enough; \<open>None\<close> is a loop that needs more, and the panic of
  \<open>objects[id]\<close> cannot happen since only ids of slots are pushed.
\<close>

definition seed :: "u32 \<Rightarrow> bool list \<times> u32 list \<Rightarrow> bool list \<times> u32 list" where
  "seed i ms = (case ms of (marks, stack) \<Rightarrow>
     if unat i < length marks \<and> \<not> marks ! unat i then (marks[unat i := True], stack @ [i])
     else (marks, stack))"

fun mark_loop :: "nat \<Rightarrow> jobject list \<Rightarrow> bool list \<times> u32 list \<Rightarrow> bool list option" where
  "mark_loop 0 obs (marks, stack) = (if stack = [] then Some marks else None)"
| "mark_loop (Suc fuel) obs (marks, stack) =
     (if stack = [] then Some marks
      else mark_loop fuel obs
             (fold seed (collect_refs (obs ! unat (last stack))) (marks, butlast stack)))"

definition mark :: "jobject list \<Rightarrow> u32 list \<Rightarrow> bool list option" where
  "mark obs roots =
     mark_loop (length obs) obs (fold seed roots (replicate (length obs) False, []))"

text \<open>The sweep over the unmarked slots, in order.\<close>

definition sweep_ids :: "bool list \<Rightarrow> u32 list" where
  "sweep_ids marks = map of_nat (filter (\<lambda>i. \<not> marks ! i) [0..<length marks])"

definition sweep_arena :: "bool list \<Rightarrow> arena \<Rightarrow> arena" where
  "sweep_arena marks a = fold reclaim (sweep_ids marks) a"

end
