(* ===== verification/Heap.thy ===== *)
theory Heap
  imports Object
begin

text \<open>
  The collector's mark phase is reachability, and the arena never hands out a live slot.
\<close>

section \<open>Reachability\<close>

inductive reach :: "jobject list \<Rightarrow> u32 list \<Rightarrow> nat \<Rightarrow> bool" for obs roots where
  root: "r \<in> set roots \<Longrightarrow> unat r < length obs \<Longrightarrow> reach obs roots (unat r)"
| step: "reach obs roots i \<Longrightarrow> r \<in> set (collect_refs (obs ! i)) \<Longrightarrow> unat r < length obs \<Longrightarrow>
    reach obs roots (unat r)"

definition unmarked :: "bool list \<Rightarrow> nat" where
  "unmarked marks = length (filter Not marks)"

lemma unmarked_set:
  "i < length marks \<Longrightarrow> \<not> marks ! i \<Longrightarrow> Suc (unmarked (marks[i := True])) = unmarked marks"
proof (induction marks arbitrary: i)
  case (Cons m ms)
  then show ?case by (cases i) (auto simp: unmarked_def)
qed simp

text \<open>What seeding a list of ids does.\<close>

definition seeded :: "u32 list \<Rightarrow> bool list \<times> u32 list \<Rightarrow> bool list \<times> u32 list \<Rightarrow> bool" where
  "seeded refs st st' \<longleftrightarrow>
     length (fst st') = length (fst st) \<and>
     (\<forall>i < length (fst st). fst st' ! i \<longleftrightarrow> fst st ! i \<or> i \<in> unat ` set refs) \<and>
     (\<forall>s. s \<in> set (snd st') \<longleftrightarrow> s \<in> set (snd st) \<or>
        (s \<in> set refs \<and> unat s < length (fst st) \<and> \<not> fst st ! unat s)) \<and>
     unmarked (fst st') + length (snd st') = unmarked (fst st) + length (snd st)"

lemma seeded_seed: "seeded [r] st (seed r st)"
proof (cases st)
  case (Pair marks stack)
  show ?thesis
  proof (cases "unat r < length marks \<and> \<not> marks ! unat r")
    case True
    with unmarked_set [of "unat r" marks] show ?thesis
      by (auto simp: Pair seeded_def seed_def nth_list_update)
  qed (auto simp: Pair seeded_def seed_def)
qed

lemma unat_inj: "unat a = unat b \<Longrightarrow> a = b"
  by (simp add: word_unat_eq_iff)

lemma seeded_trans:
  assumes "seeded rs st st1" and "seeded rs' st1 st2"
  shows "seeded (rs @ rs') st st2"
  using assms unfolding seeded_def by (auto simp: image_Un dest: unat_inj)

lemma seeded_fold: "seeded rs st (fold seed rs st)"
proof (induction rs arbitrary: st)
  case Nil
  show ?case by (simp add: seeded_def)
next
  case (Cons r rs)
  from seeded_trans [OF seeded_seed Cons] show ?case by simp
qed

text \<open>The invariant of the mark loop.\<close>

definition mark_inv :: "jobject list \<Rightarrow> u32 list \<Rightarrow> bool list \<times> u32 list \<Rightarrow> bool" where
  "mark_inv obs roots st \<longleftrightarrow>
     length (fst st) = length obs \<and>
     (\<forall>s \<in> set (snd st). unat s < length obs \<and> fst st ! unat s) \<and>
     (\<forall>i < length obs. fst st ! i \<longrightarrow> reach obs roots i) \<and>
     (\<forall>r \<in> set roots. unat r < length obs \<longrightarrow> fst st ! unat r) \<and>
     (\<forall>i < length obs. fst st ! i \<longrightarrow> i \<notin> unat ` set (snd st) \<longrightarrow>
        (\<forall>r \<in> set (collect_refs (obs ! i)). unat r < length obs \<longrightarrow> fst st ! unat r))"

lemma mark_inv_start: "mark_inv obs roots (fold seed roots (replicate (length obs) False, []))"
  using seeded_fold [of roots "(replicate (length obs) False, [])"]
  unfolding mark_inv_def seeded_def by (auto intro: reach.root)

lemma mark_inv_step:
  assumes inv: "mark_inv obs roots (marks, stack)" and ne: "stack \<noteq> []"
  shows "mark_inv obs roots (fold seed (collect_refs (obs ! unat (last stack))) (marks, butlast stack))"
    (is "mark_inv _ _ ?st")
proof -
  let ?t = "last stack"
  have s: "seeded (collect_refs (obs ! unat ?t)) (marks, butlast stack) ?st" by (rule seeded_fold)
  have mem: "set stack = insert ?t (set (butlast stack))"
    using arg_cong [OF append_butlast_last_id [OF ne], of set] by auto
  have t: "unat ?t < length obs" "marks ! unat ?t" "reach obs roots (unat ?t)"
    using inv ne by (auto simp: mark_inv_def)
  have b: "\<forall>s \<in> set (butlast stack). unat s < length obs \<and> marks ! unat s"
    using inv mem by (auto simp: mark_inv_def)
  have len: "length marks = length obs" using inv by (simp add: mark_inv_def)
  have "(\<forall>i < length obs. fst ?st ! i \<longrightarrow> i \<notin> unat ` set (snd ?st) \<longrightarrow>
        (\<forall>r \<in> set (collect_refs (obs ! i)). unat r < length obs \<longrightarrow> fst ?st ! unat r))"
  proof (intro allI impI ballI)
    fix i r assume i: "i < length obs" "fst ?st ! i" "i \<notin> unat ` set (snd ?st)"
      and r: "r \<in> set (collect_refs (obs ! i))" "unat r < length obs"
    show "fst ?st ! unat r"
    proof (cases "i = unat ?t")
      case True
      with r s len show ?thesis by (auto simp: seeded_def)
    next
      case False
      have "marks ! i"
        using s i len by (auto simp: seeded_def)
      moreover have "i \<notin> unat ` set stack" using False s i mem by (auto simp: seeded_def)
      ultimately have "marks ! unat r" using inv i r by (auto simp: mark_inv_def)
      with s r len show ?thesis by (auto simp: seeded_def)
    qed
  qed
  moreover have "\<forall>i < length obs. fst ?st ! i \<longrightarrow> reach obs roots i"
    using s inv t len by (auto simp: seeded_def mark_inv_def intro: reach.step)
  moreover have "length (fst ?st) = length obs" using s len by (simp add: seeded_def)
  moreover have keep: "fst ?st ! i" if "marks ! i" "i < length obs" for i
    using s that len by (simp add: seeded_def)
  moreover have "\<forall>r \<in> set roots. unat r < length obs \<longrightarrow> fst ?st ! unat r"
    using inv keep by (simp add: mark_inv_def)
  moreover have "\<forall>x \<in> set (snd ?st). unat x < length obs \<and> fst ?st ! unat x"
    using s b len by (auto simp: seeded_def)
  ultimately show ?thesis unfolding mark_inv_def by blast
qed

lemma mark_loop_correct:
  "mark_inv obs roots (marks, stack) \<Longrightarrow> unmarked marks + length stack \<le> fuel \<Longrightarrow>
     \<exists>marks'. mark_loop fuel obs (marks, stack) = Some marks' \<and> mark_inv obs roots (marks', [])"
proof (induction fuel arbitrary: marks stack)
  case (Suc fuel)
  show ?case
  proof (cases "stack = []")
    case False
    let ?st = "fold seed (collect_refs (obs ! unat (last stack))) (marks, butlast stack)"
    have "unmarked (fst ?st) + length (snd ?st) = unmarked marks + length (butlast stack)"
      using seeded_fold [of "collect_refs (obs ! unat (last stack))" "(marks, butlast stack)"]
      by (simp add: seeded_def)
    then have "unmarked (fst ?st) + length (snd ?st) \<le> fuel"
      using Suc.prems(2) False by (cases stack) auto
    with Suc.IH [of "fst ?st" "snd ?st"] mark_inv_step [OF Suc.prems(1) False] False
    show ?thesis by simp
  qed (use Suc.prems in auto)
qed auto

lemma mark_inv_reach:
  assumes "mark_inv obs roots (marks, [])" and "reach obs roots i"
  shows "i < length obs \<and> marks ! i"
  using assms(2,1) by (induction) (auto simp: mark_inv_def)

lemma mark_correct:
  "\<exists>marks. mark obs roots = Some marks \<and> length marks = length obs \<and>
     (\<forall>i < length obs. marks ! i \<longleftrightarrow> reach obs roots i)"
proof -
  let ?st = "fold seed roots (replicate (length obs) False, [])"
  have "unmarked (fst ?st) + length (snd ?st) \<le> length obs"
    using seeded_fold [of roots "(replicate (length obs) False, [])"]
    by (simp add: seeded_def unmarked_def)
  then obtain marks where m: "mark obs roots = Some marks" "mark_inv obs roots (marks, [])"
    using mark_loop_correct [of obs roots "fst ?st" "snd ?st" "length obs"] mark_inv_start [of obs roots]
    by (auto simp: mark_def)
  moreover have "\<forall>i < length obs. marks ! i \<longleftrightarrow> reach obs roots i"
    using m(2) mark_inv_reach [OF m(2)] by (auto simp: mark_inv_def)
  ultimately show ?thesis by (auto simp: mark_inv_def)
qed

end
