(* ===== verification/VmState.thy ===== *)
theory VmState
  imports Monad DexFile Heap "HOL-Library.AList"
begin

text \<open>
  The state of the VM and the operations on it that load no class: \<open>src/src/vm/error.rs\<close>, the
  runtime class and method of \<open>src/src/vm/class.rs\<close>, and from \<open>src/src/vm/mod.rs\<close> the \<open>Vm\<close>
  struct, interning, dex lookups, string objects, field offsets, instance fields, the
  collector and signature parsing. Class, method and string ids are \<open>u32\<close> indices.

  A hash map is a HOL map, or an association list where the program iterates over it or asks
  for its size. A function pointer is a number: \<open>NativeFn\<close> and \<open>ShimLazy\<close> values are compared
  and stored but their bodies, the shims, are an environment that the interpreter takes as
  an argument. Pre-decoded instructions are not cached: \<open>decode_all\<close> is a function, so the
  cache of the source holds the value it would compute again.
\<close>

section \<open>Errors\<close>

datatype jvm_error =
    Uncaught u32 | Resolution string | DecodeErr string | BudgetExceeded | StackOverflow
  | Exit i32 | Fatal string

definition jvm_error_text :: "jvm_error \<Rightarrow> string" where
  "jvm_error_text e =
     (case e of
        Uncaught _ \<Rightarrow> ''uncaught java exception''
      | Resolution m \<Rightarrow> ''resolution error: '' @ m
      | DecodeErr m \<Rightarrow> ''decode error: '' @ m
      | BudgetExceeded \<Rightarrow> ''instruction budget exceeded''
      | StackOverflow \<Rightarrow> ''stack overflow''
      | Exit c \<Rightarrow> ''System.exit('' @ show_int (sint c) @ '')''
      | Fatal m \<Rightarrow> ''fatal: '' @ m)"

definition dex_error_text :: "dex_error \<Rightarrow> string" where
  "dex_error_text e = ''dex error at '' @ show_hex (off e) @ '': '' @ msg e"

definition from_dex_error :: "dex_error \<Rightarrow> jvm_error" where
  "from_dex_error e = DecodeErr (dex_error_text e)"

datatype nat_err = NThrow u32 | NFatal jvm_error

fun from_nat_err :: "nat_err \<Rightarrow> jvm_error" where
  "from_nat_err (NThrow t) = Uncaught t"
| "from_nat_err (NFatal j) = j"

section \<open>Classes and methods\<close>

definition ACC_PUBLIC :: u32 where "ACC_PUBLIC = 0x0001"
definition ACC_STATIC :: u32 where "ACC_STATIC = 0x0008"
definition ACC_NATIVE :: u32 where "ACC_NATIVE = 0x0100"
definition ACC_INTERFACE :: u32 where "ACC_INTERFACE = 0x0200"
definition ACC_ABSTRACT :: u32 where "ACC_ABSTRACT = 0x0400"

type_synonym key2 = "u32 \<times> u32"
type_synonym key3 = "u32 \<times> u32 \<times> u32"

record method_rec =
  m_slot :: u32
  m_class :: u32
  m_name :: u32
  m_sig :: u32
  m_ret :: u32
  m_args :: "u32 list"
  m_access_flags :: u32
  static_method :: bool
  m_dex_idx :: u32
  native_key :: "key3 option"
  native_decl :: bool
  m_code :: "code_item option"

definition is_native :: "method_rec \<Rightarrow> bool" where
  "is_native m \<longleftrightarrow> native_key m \<noteq> None"

record jclass =
  cls_id :: u32
  descriptor :: u32
  superclass :: "u32 option"
  cls_interfaces :: "u32 list"
  cls_access_flags :: u32
  is_interface :: bool
  is_abstract :: bool
  array_elem :: "key2 option"
  inst_fields :: "(u32 \<times> u32 \<times> u32) list"
  field_offsets :: "(key2 \<times> u32) list"
  static_field_map :: "key2 \<rightharpoonup> key2"
  statics :: "jvalue list"
  statics_lazy :: "nat option list"
  clinit_state :: nat
  class_object :: "u32 option"
  cls_methods :: "method_rec list"
  dispatch :: "key2 \<rightharpoonup> u32"

text \<open>\<open>Class { id, descriptor, superclass, interfaces, ..Default::default() }\<close>.\<close>

definition class_new :: "u32 \<Rightarrow> u32 \<Rightarrow> u32 option \<Rightarrow> u32 list \<Rightarrow> u32 \<Rightarrow> key2 option \<Rightarrow> jclass" where
  "class_new i d sc ifs flags elem =
     \<lparr>cls_id = i, descriptor = d, superclass = sc, cls_interfaces = ifs, cls_access_flags = flags,
      is_interface = (flags AND ACC_INTERFACE \<noteq> 0), is_abstract = (flags AND ACC_ABSTRACT \<noteq> 0),
      array_elem = elem, inst_fields = [], field_offsets = [], static_field_map = Map.empty,
      statics = [], statics_lazy = [], clinit_state = 0, class_object = None, cls_methods = [],
      dispatch = Map.empty\<rparr>"

definition clinit_slot :: "jclass \<Rightarrow> u32 \<Rightarrow> u32 option" where
  "clinit_slot c clinit_name =
     map_option m_slot (List.find (\<lambda>m. static_method m \<and> m_name m = clinit_name) (cls_methods c))"

record native_entry =
  ne_class :: string
  ne_name :: string
  ne_sig :: string
  ne_instance :: bool
  ne_fn :: nat

datatype shim_value = ShimConst jvalue | ShimLazy nat

record shim_def =
  sh_desc :: string
  sh_super :: "string option"
  sh_interfaces :: "string list"
  sh_flags :: u32
  sh_statics :: "(string \<times> string \<times> shim_value) list"
  sh_fields :: "(string \<times> string) list"

text \<open>
  The static tables: \<open>SHIM_CLASSES\<close>, and \<open>native_tables()\<close> followed by the process-wide
  entries. They are data of the shims, any tables will do.
\<close>

record tables =
  shim_classes :: "shim_def list"
  native_entries :: "native_entry list"

section \<open>The VM\<close>

record hot =
  hot_clinit :: u32
  hot_init :: u32
  hot_object :: u32
  hot_string :: u32
  hot_throwable :: u32
  hot_npe :: u32
  hot_arithmetic :: u32
  hot_aioobe :: u32
  hot_ioobe :: u32
  hot_cce :: u32
  hot_nas :: u32
  hot_uoe :: u32
  hot_iae :: u32
  hot_string_builder :: u32
  hot_class :: u32
  hot_default_ctor_marker :: u32

record method_ref =
  mr_name :: u32
  mr_sig :: u32
  mr_ret :: u32
  mr_args :: "u32 list"
  mr_class_desc :: u32

record field_ref =
  fr_name :: u32
  fr_ty :: u32
  fr_class_desc :: u32

record frame =
  f_class :: u32
  f_slot :: u32
  f_dex :: u32
  f_decoded :: decoded
  f_tries :: "try_item list"
  regs :: "jvalue list"
  pc :: nat
  err_pc :: nat
  result :: jvalue
  pending_exc :: "jvalue option"

text \<open>
  The fields of \<open>Vm\<close> the modelled code uses. Not here: package resources, the output sink,
  HTTP and header callbacks, the cache directory, shared preferences, and the Injekt scan.
\<close>

record vm =
  dexes :: "dex_file list"
  intern_tab :: "string list"
  intern_map :: "string \<rightharpoonup> u32"
  vm_classes :: "jclass list"
  class_by_desc :: "u32 \<rightharpoonup> u32"
  class_by_type :: "key2 \<rightharpoonup> u32"
  heap :: arena
  string_objs :: "(key2 \<times> u32) list"
  runtime_strings :: "(string \<times> u32) list"
  natives :: "key3 \<rightharpoonup> nat"
  monitors :: "(u32 \<times> nat) list"
  method_refs :: "key2 \<rightharpoonup> method_ref"
  field_refs :: "key2 \<rightharpoonup> field_ref"
  budget :: int
  depth_limit :: nat
  recursion_depth :: nat
  trace_ring :: "string list"
  hot_ids :: hot
  frames :: "frame list"
  host_natives :: "native_entry list"
  array_classes :: "key2 \<rightharpoonup> u32"
  loading :: "(u32 \<times> nat) list"

type_synonym 'a vm_act = "(vm, jvm_error, 'a) act"

section \<open>Interning and lookups\<close>

definition intern :: "string \<Rightarrow> u32 vm_act" where
  "intern str = (\<lambda>s. case intern_map s str of
     Some i \<Rightarrow> (Ok i, s)
   | None \<Rightarrow>
       let i = of_nat (length (intern_tab s)) in
       (Ok i, s\<lparr>intern_map := (intern_map s)(str \<mapsto> i), intern_tab := intern_tab s @ [str]\<rparr>))"

definition str_of :: "u32 \<Rightarrow> string vm_act" where
  "str_of i = bnd (asks intern_tab) (\<lambda>t. unwrap (nth_opt t (unat i)))"

definition the_class :: "u32 \<Rightarrow> jclass vm_act" where
  "the_class c = bnd (asks vm_classes) (\<lambda>cs. unwrap (nth_opt cs (unat c)))"

definition upd_class :: "u32 \<Rightarrow> (jclass \<Rightarrow> jclass) \<Rightarrow> unit vm_act" where
  "upd_class c f = modify (\<lambda>s. s\<lparr>vm_classes := (vm_classes s)[unat c := f (vm_classes s ! unat c)]\<rparr>)"

definition the_method :: "u32 \<Rightarrow> u32 \<Rightarrow> method_rec vm_act" where
  "the_method c slot = bnd (the_class c) (\<lambda>cl. unwrap (nth_opt (cls_methods cl) (unat slot)))"

definition class_desc_str :: "u32 \<Rightarrow> string vm_act" where
  "class_desc_str c = bnd (the_class c) (\<lambda>cl. bnd (str_of (descriptor cl)) (\<lambda>d. ret (dotted_name d)))"

definition method_desc_str :: "u32 \<Rightarrow> u32 \<Rightarrow> string vm_act" where
  "method_desc_str c slot =
     bnd (class_desc_str c) (\<lambda>d. bnd (the_method c slot) (\<lambda>m.
     bnd (str_of (m_name m)) (\<lambda>n. bnd (str_of (m_sig m)) (\<lambda>sg. ret (d @ ''.'' @ n @ sg)))))"

definition dex_at :: "u32 \<Rightarrow> dex_file vm_act" where
  "dex_at i = bnd (asks dexes) (\<lambda>ds. unwrap (nth_opt ds (unat i)))"

text \<open>Earlier dex files win.\<close>

fun location_from :: "u32 \<Rightarrow> string \<Rightarrow> dex_file list \<Rightarrow> (u32 \<times> nat) option" where
  "location_from i desc [] = None"
| "location_from i desc (d # ds) =
     (case class_by_descriptor d desc of Some k \<Rightarrow> Some (i, k) | None \<Rightarrow> location_from (i + 1) desc ds)"

definition class_location :: "string \<Rightarrow> (u32 \<times> nat) option vm_act" where
  "class_location desc = asks (\<lambda>s. location_from 0 desc (dexes s))"

definition get_generic_signature :: "u32 \<Rightarrow> string option vm_act" where
  "get_generic_signature c =
     bnd (the_class c) (\<lambda>cl. bnd (str_of (descriptor cl)) (\<lambda>d. bnd (class_location d) (\<lambda>l.
     case l of
       None \<Rightarrow> ret None
     | Some (dx, k) \<Rightarrow>
         bnd (dex_at dx) (\<lambda>df. bnd (unwrap (nth_opt (classes df) k)) (\<lambda>cd.
         ret (generic_signature cd))))))"

section \<open>Prototypes and signatures\<close>

definition proto_sig :: "dex_file \<Rightarrow> u32 \<Rightarrow> string vm_act" where
  "proto_sig d proto_id =
     bnd (unwrap (nth_opt (protos d) (unat proto_id))) (\<lambda>p.
     ret (''('' @ concat (map (type_descriptor d) (params p)) @ '')''
          @ type_descriptor d (return_type p)))"

text \<open>
  \<open>parse_sig\<close>: \<open>None\<close> is a slice out of range, or one that cuts a multi-byte character. The loop
  takes the arguments one descriptor at a time.
\<close>

definition after_semi :: "string \<Rightarrow> nat" where
  "after_semi s = (case position (\<lambda>c. c = CHR '';'') s of Some p \<Rightarrow> p + 1 | None \<Rightarrow> length s)"

definition one_desc :: "string \<Rightarrow> nat option" where
  "one_desc s =
     (case s of
        [] \<Rightarrow> None
      | c # cs \<Rightarrow>
          if c = CHR ''L'' then Some (after_semi s)
          else if c = CHR ''['' then
            (let j = length (takeWhile (\<lambda>x. x = CHR ''['') s) in
             case nth_opt s j of
               None \<Rightarrow> None
             | Some e \<Rightarrow>
                 if e = CHR ''L'' then Some (j + after_semi (drop j s))
                 else if char_byte e < 0x80 then Some (j + 1) else None)
          else if char_byte c < 0x80 then Some 1 else None)"

function split_args :: "string \<Rightarrow> string list option" where
  "split_args s =
     (if s = [] then Some []
      else case one_desc s of
        None \<Rightarrow> None
      | Some n \<Rightarrow>
          if n = 0 then None
          else map_option (\<lambda>r. take n s # r) (split_args (drop n s)))"
  by pat_completeness auto
termination by (relation "measure length") auto

declare split_args.simps [simp del]

definition parse_sig :: "string \<Rightarrow> (string list \<times> string) option" where
  "parse_sig sg =
     (let op = (case position (\<lambda>c. c = CHR ''('') sg of Some p \<Rightarrow> p | None \<Rightarrow> 0);
          cl = (case position (\<lambda>c. c = CHR '')'') sg of Some p \<Rightarrow> p | None \<Rightarrow> length sg) in
      if op + 1 \<le> cl \<and> cl + 1 \<le> length sg then
        map_option (\<lambda>args. (args, drop (cl + 1) sg)) (split_args (sub sg (op + 1) cl))
      else None)"

section \<open>Objects\<close>

definition alloc_obj :: "u32 \<Rightarrow> jvalue list \<Rightarrow> native option \<Rightarrow> u32 vm_act" where
  "alloc_obj c fs n = (\<lambda>s. case alloc c fs n (heap s) of
     Some (i, h) \<Rightarrow> (Ok i, s\<lparr>heap := h\<rparr>)
   | None \<Rightarrow> (Panic, s))"

definition the_object :: "u32 \<Rightarrow> jobject vm_act" where
  "the_object i = bnd (asks heap) (\<lambda>h. unwrap (arena_get h i))"

definition upd_object :: "u32 \<Rightarrow> (jobject \<Rightarrow> jobject) \<Rightarrow> unit vm_act" where
  "upd_object i f = modify (\<lambda>s. s\<lparr>heap := (heap s)\<lparr>objects :=
     (objects (heap s))[unat i := f (objects (heap s) ! unat i)]\<rparr>\<rparr>)"

definition alloc_instance :: "u32 \<Rightarrow> u32 vm_act" where
  "alloc_instance c =
     bnd (the_class c) (\<lambda>cl.
     bnd (amap (\<lambda>(n, ty, acc). bnd (str_of ty) (\<lambda>d. ret (default_of d))) (inst_fields cl)) (\<lambda>fs.
     alloc_obj c fs None))"

definition alloc_string :: "string \<Rightarrow> jvalue vm_act" where
  "alloc_string str =
     bnd (asks (\<lambda>s. map_of (runtime_strings s) str)) (\<lambda>m. case m of
       Some i \<Rightarrow> ret (VObj i)
     | None \<Rightarrow>
         bnd (asks (\<lambda>s. hot_string (hot_ids s))) (\<lambda>c.
         bnd (alloc_obj c [] (Some (Str str))) (\<lambda>i.
         bnd (modify (\<lambda>s. s\<lparr>runtime_strings := AList.update str i (runtime_strings s)\<rparr>)) (\<lambda>_.
         ret (VObj i)))))"

definition dex_string :: "u32 \<Rightarrow> u32 \<Rightarrow> jvalue vm_act" where
  "dex_string dx sid =
     bnd (asks (\<lambda>s. map_of (string_objs s) (dx, sid))) (\<lambda>m. case m of
       Some i \<Rightarrow> ret (VObj i)
     | None \<Rightarrow>
         bnd (dex_at dx) (\<lambda>d.
         bnd (lift (ok_or (Resolution (''bad string idx '' @ show_nat (unat sid)))
                      (nth_opt (strings d) (unat sid)))) (\<lambda>str.
         bnd (asks (\<lambda>s. hot_string (hot_ids s))) (\<lambda>c.
         bnd (alloc_obj c [] (Some (Str str))) (\<lambda>i.
         bnd (modify (\<lambda>s. s\<lparr>string_objs := AList.update (dx, sid) i (string_objs s)\<rparr>)) (\<lambda>_.
         ret (VObj i)))))))"

text \<open>Readers of a value's payload and class; \<open>as_obj\<close> panics on a number.\<close>

definition payload_of :: "jvalue \<Rightarrow> native option vm_act" where
  "payload_of v =
     (if is_null v then ret None
      else bnd (unwrap (as_obj v)) (\<lambda>i. bnd (the_object i) (\<lambda>ob. ret (obj_native ob))))"

definition str_of_jvalue :: "jvalue \<Rightarrow> string option vm_act" where
  "str_of_jvalue v =
     bnd (payload_of v) (\<lambda>n. ret (case n of Some (Str t) \<Rightarrow> Some t | _ \<Rightarrow> None))"

definition object_class :: "jvalue \<Rightarrow> u32 option vm_act" where
  "object_class v =
     (if is_null v then ret None
      else bnd (unwrap (as_obj v)) (\<lambda>i. bnd (the_object i) (\<lambda>ob. ret (Some (obj_class ob)))))"

section \<open>Instance fields by name\<close>

definition name_is :: "vm \<Rightarrow> string \<Rightarrow> u32 \<times> u32 \<times> u32 \<Rightarrow> bool" where
  "name_is s name f = (nth_opt (intern_tab s) (unat (fst f)) = Some name)"

definition instance_field_id :: "u32 \<Rightarrow> string \<Rightarrow> vm \<Rightarrow> (nat \<times> jvalue) option" where
  "instance_field_id ob name s =
     (case arena_get (heap s) ob of
        None \<Rightarrow> None
      | Some b \<Rightarrow>
          (case nth_opt (vm_classes s) (unat (obj_class b)) of
             None \<Rightarrow> None
           | Some c \<Rightarrow>
               map_option (\<lambda>i. (i, case nth_opt (obj_fields b) i of Some v \<Rightarrow> v | None \<Rightarrow> VNull))
                 (position (name_is s name) (inst_fields c))))"

definition instance_field :: "u32 \<Rightarrow> string \<Rightarrow> vm \<Rightarrow> jvalue option" where
  "instance_field ob name s =
     (case arena_get (heap s) ob of
        None \<Rightarrow> None
      | Some b \<Rightarrow>
          (case nth_opt (vm_classes s) (unat (obj_class b)) of
             None \<Rightarrow> None
           | Some c \<Rightarrow>
               (case position (name_is s name) (inst_fields c) of
                  None \<Rightarrow> None
                | Some i \<Rightarrow> nth_opt (obj_fields b) i)))"

definition class_has_instance_fields :: "u32 \<Rightarrow> vm \<Rightarrow> bool" where
  "class_has_instance_fields c s =
     (case nth_opt (vm_classes s) (unat c) of None \<Rightarrow> False | Some cl \<Rightarrow> inst_fields cl \<noteq> [])"

definition class_field_offset :: "u32 \<Rightarrow> string \<Rightarrow> vm \<Rightarrow> u32 option" where
  "class_field_offset c name s =
     (case nth_opt (vm_classes s) (unat c) of
        None \<Rightarrow> None
      | Some cl \<Rightarrow> map_option of_nat (position (name_is s name) (inst_fields cl)))"

definition instance_field_set :: "u32 \<Rightarrow> string \<Rightarrow> jvalue \<Rightarrow> vm \<Rightarrow> bool \<times> vm" where
  "instance_field_set ob name v s =
     (case arena_get (heap s) ob of
        None \<Rightarrow> (False, s)
      | Some b \<Rightarrow>
          (case nth_opt (vm_classes s) (unat (obj_class b)) of
             None \<Rightarrow> (False, s)
           | Some c \<Rightarrow>
               (case position (name_is s name) (inst_fields c) of
                  None \<Rightarrow> (False, s)
                | Some i \<Rightarrow>
                    if i < length (obj_fields b) then
                      (True, s\<lparr>heap := (heap s)\<lparr>objects := (objects (heap s))
                         [unat ob := b\<lparr>obj_fields := (obj_fields b)[i := v]\<rparr>]\<rparr>\<rparr>)
                    else (False, s))))"

section \<open>The collector\<close>

definition static_refs :: "jclass list \<Rightarrow> u32 list" where
  "static_refs cs = concat (map (\<lambda>c. push_all (statics c)) cs)"

definition gc_roots :: "vm \<Rightarrow> u32 list \<Rightarrow> u32 list" where
  "gc_roots s extra =
     map snd (string_objs s) @ map snd (runtime_strings s) @ static_refs (vm_classes s)
     @ map fst (monitors s) @ extra"

text \<open>\<open>monitors.retain\<close> indexes the marks with every key.\<close>

definition gc :: "u32 list \<Rightarrow> nat vm_act" where
  "gc extra = (\<lambda>s.
     if objects (heap s) = [] then (Ok 0, s)
     else case mark (objects (heap s)) (gc_roots s extra) of
       None \<Rightarrow> (Diverge, s)
     | Some marks \<Rightarrow>
         let s' = s\<lparr>heap := sweep_arena marks (heap s)\<rparr> in
         if \<forall>k \<in> set (map fst (monitors s)). unat k < length marks then
           (Ok (length (sweep_ids marks)),
            s'\<lparr>monitors := filter (\<lambda>(k, n). marks ! unat k) (monitors s)\<rparr>)
         else (Panic, s'))"

end
