(* ===== verification/Collector.thy ===== *)
theory Collector
  imports VmState
begin

text \<open>
  What the collector of \<open>src/src/vm/mod.rs\<close> does to the heap: \<open>gc\<close> against reachability from
  its roots, and the allocations after it. The first properties say what a collection frees
  and keeps, the others where that goes wrong: a second collection frees the same slots again,
  and some payloads do not report all their references.
\<close>

section \<open>Sweeping\<close>

text \<open>The ids of the slots that are not reachable, in order.\<close>

definition unreachable :: "jobject list \<Rightarrow> u32 list \<Rightarrow> nat list \<Rightarrow> bool" where
  "unreachable obs roots is \<longleftrightarrow>
     sorted is \<and> distinct is \<and> set is = {i. i < length obs \<and> \<not> reach obs roots i}"

lemma fold_reclaim: "fold reclaim ids a = a\<lparr>free_ids := free_ids a @ ids\<rparr>"
  by (induction ids arbitrary: a) (simp_all add: reclaim_def)

lemma sweep_arena_eq: "sweep_arena marks a = a\<lparr>free_ids := free_ids a @ sweep_ids marks\<rparr>"
  by (simp add: sweep_arena_def fold_reclaim)

lemma sweep_ids_unreachable:
  assumes "length marks = length obs" "\<forall>i < length obs. marks ! i \<longleftrightarrow> reach obs roots i"
  shows "\<exists>is. sweep_ids marks = map of_nat is \<and> unreachable obs roots is"
proof (intro exI conjI)
  show "sweep_ids marks = map of_nat (filter (\<lambda>i. \<not> marks ! i) [0..<length marks])"
    by (simp add: sweep_ids_def)
  show "unreachable obs roots (filter (\<lambda>i. \<not> marks ! i) [0..<length marks])"
    using assms by (auto simp: unreachable_def intro!: sorted_wrt_filter)
qed

lemma reach_less: "reach obs roots i \<Longrightarrow> i < length obs"
  by (induction rule: reach.induct) auto

lemma reach_root: "r \<in> set roots \<Longrightarrow> unat r < length obs \<Longrightarrow> reach obs roots (unat r)"
  by (rule reach.intros)

lemma unat_of_small: "n < 2 ^ 32 \<Longrightarrow> unat (of_nat n :: u32) = n"
  by (simp add: unsigned_of_nat take_bit_nat_eq_self)

text \<open>The whole effect of a collection, on a state whose monitors are all objects of the heap.\<close>

definition monitors_ok :: "vm \<Rightarrow> bool" where
  "monitors_ok s \<longleftrightarrow> (\<forall>k \<in> fst ` set (monitors s). unat k < length (objects (heap s)))"

lemma gc_run:
  assumes "monitors_ok s"
  shows "\<exists>is. unreachable (objects (heap s)) (gc_roots s extra) is \<and>
    gc extra s = (Ok (length is), s\<lparr>heap := (heap s)\<lparr>free_ids := free_ids (heap s) @ map of_nat is\<rparr>\<rparr>)"
proof (cases "objects (heap s) = []")
  case True
  then have "\<not> reach (objects (heap s)) (gc_roots s extra) i" for i using reach_less by fastforce
  with True show ?thesis
    by (intro exI [of _ "[]"]) (auto simp: gc_def unreachable_def)
next
  case False
  let ?obs = "objects (heap s)" and ?roots = "gc_roots s extra"
  obtain marks where m: "mark ?obs ?roots = Some marks" "length marks = length ?obs"
      "\<forall>i < length ?obs. marks ! i \<longleftrightarrow> reach ?obs ?roots i"
    using mark_correct by blast
  obtain ids where i: "sweep_ids marks = map of_nat ids" "unreachable ?obs ?roots ids"
    using sweep_ids_unreachable [OF m(2,3)] by blast
  have k: "unat k < length marks" "marks ! unat k" if "(k, n) \<in> set (monitors s)" for k n
  proof -
    have "k \<in> set ?roots" using that by (force simp: gc_roots_def)
    then show "unat k < length marks" "marks ! unat k"
      using assms that m(2,3) reach_root [of k ?roots ?obs] by (force simp: monitors_ok_def)+
  qed
  then have "filter (\<lambda>(k, n). marks ! unat k) (monitors s) = monitors s"
    by (intro filter_True) auto
  moreover have "\<forall>k \<in> set (map fst (monitors s)). unat k < length marks" using k(1) by auto
  ultimately show ?thesis using False m(1) i
    by (intro exI [of _ ids]) (simp add: gc_def sweep_arena_eq Let_def)
qed

section \<open>Properties\<close>


definition sample_obj :: "jvalue list \<Rightarrow> jobject" where
  "sample_obj vs = \<lparr>obj_class = 0, obj_fields = vs, obj_native = None\<rparr>"

text \<open>A machine with no classes, strings or frames and the given objects.\<close>

definition sample_vm :: "jobject list \<Rightarrow> vm" where
  "sample_vm obs = \<lparr>dexes = [], intern_tab = [], intern_map = Map.empty, vm_classes = [],
     class_by_desc = Map.empty, class_by_type = Map.empty, heap = \<lparr>objects = obs, free_ids = []\<rparr>,
     string_objs = [], runtime_strings = [], natives = Map.empty, monitors = [],
     method_refs = Map.empty, field_refs = Map.empty, budget = 100, depth_limit = 700,
     recursion_depth = 0, trace_ring = [],
     hot_ids = \<lparr>hot_clinit = 0, hot_init = 0, hot_object = 0, hot_string = 0, hot_throwable = 0,
       hot_npe = 0, hot_arithmetic = 0, hot_aioobe = 0, hot_ioobe = 0, hot_cce = 0, hot_nas = 0,
       hot_uoe = 0, hot_iae = 0, hot_string_builder = 0, hot_class = 0, hot_default_ctor_marker = 0\<rparr>,
     frames = [], host_natives = [], array_classes = Map.empty, loading = []\<rparr>"

lemma sample_monitors: "monitors_ok (sample_vm obs)"
  by (simp add: monitors_ok_def sample_vm_def)


text \<open>
  Nothing reachable is lost by the next allocation. If the free list was empty before a
  collection, then an allocation right after it either opens a new slot or takes one that was
  unreachable, and every reachable object is still there, unchanged.
\<close>

theorem alloc_after_gc:
  assumes "monitors_ok s" and "free_ids (heap s) = []" and "length (objects (heap s)) < 2 ^ 32"
    and "gc extra s = (Ok n, s1)" and "alloc_obj c fs nat' s1 = (Ok i, s2)"
    and "reach (objects (heap s)) (gc_roots s extra) j"
  shows "unat i \<noteq> j \<and> objects (heap s2) ! j = objects (heap s) ! j"
proof -
  let ?obs = "objects (heap s)"
  obtain ids where ids: "unreachable ?obs (gc_roots s extra) ids"
      "s1 = s\<lparr>heap := (heap s)\<lparr>free_ids := map of_nat ids\<rparr>\<rparr>"
    using gc_run [OF assms(1), of extra] assms(2,4) by auto
  have j: "j < length ?obs" using assms(6) by (rule reach_less)
  show ?thesis
  proof (cases "ids = []")
    case True
    with assms(5) ids(2) j assms(3) show ?thesis
      by (auto simp: alloc_obj_def alloc_def unat_of_small nth_append)
  next
    case False
    then have l: "last ids \<in> set ids" by simp
    with ids(1) have u: "last ids < length ?obs" "\<not> reach ?obs (gc_roots s extra) (last ids)"
      by (auto simp: unreachable_def)
    then have "unat (of_nat (last ids) :: u32) = last ids"
      using assms(3) by (simp add: unat_of_small)
    moreover have "last ids \<noteq> j" using u(2) assms(6) by blast
    ultimately show ?thesis
      using assms(5) ids(2) False by (auto simp: alloc_obj_def alloc_def last_map Let_def split: if_splits)
  qed
qed

text \<open>Three objects: 0 is a root and refers to 1; 2 is garbage.\<close>

abbreviation three :: vm where
  "three \<equiv> sample_vm [sample_obj [VObj 1], sample_obj [], sample_obj []]"

lemma mark_three:
  "mark [sample_obj [VObj 1], sample_obj [], sample_obj []] [0] = Some [True, True, False]"
  by code_simp

lemma gc_three:
  "gc [0] three = (Ok 1, three\<lparr>heap := (heap three)\<lparr>free_ids := [2]\<rparr>\<rparr>)"
proof -
  have "sweep_ids [True, True, False] = [2]" by code_simp
  then show ?thesis
    by (simp add: gc_def sample_vm_def gc_roots_def static_refs_def mark_three sweep_arena_eq)
qed

lemma reach_three: "reach (objects (heap three)) (gc_roots three [0]) 1"
proof -
  have "reach (objects (heap three)) (gc_roots three [0]) (unat (0 :: u32))"
    by (rule reach_root) (simp_all add: gc_roots_def sample_vm_def)
  then have "reach (objects (heap three)) (gc_roots three [0]) (unat (1 :: u32))"
    by (rule reach.intros) (simp_all add: sample_vm_def sample_obj_def collect_refs_def push_all_def)
  then show ?thesis by simp
qed

theorem alloc_after_gc_witness:
  "unat (2 :: u32) \<noteq> 1 \<and>
   objects (heap (snd (alloc_obj 0 [] None (three\<lparr>heap := (heap three)\<lparr>free_ids := [2]\<rparr>\<rparr>)))) ! 1
     = objects (heap three) ! 1"
  by (rule alloc_after_gc [OF sample_monitors _ _ gc_three _ reach_three])
    (simp_all add: sample_vm_def alloc_obj_def alloc_def)

text \<open>
  Two collections in a row corrupt the heap. A slot stays in the object table when it is
  freed, so the next collection finds it unreachable again and pushes its id a second time:
  from then on the free list names each garbage slot twice, and two later allocations get the
  same id. Here one garbage object is collected twice and two new objects are one.
\<close>

theorem gc_twice_aliases:
  "(case bnd (gc []) (\<lambda>_. bnd (gc []) (\<lambda>_.
      bnd (alloc_obj 1 [VInt 1] None) (\<lambda>a. bnd (alloc_obj 2 [VInt 2] None) (\<lambda>b.
      bnd (the_object a) (\<lambda>ob. ret (a, b, ob))))))
      (sample_vm [sample_obj []]) of
    (r, s) \<Rightarrow> r = Ok (0, 0, \<lparr>obj_class = 2, obj_fields = [VInt 2], obj_native = None\<rparr>))"
proof -
  have m: "mark [sample_obj []] [] = Some [False]" "sweep_ids [False] = [0]" by code_simp+
  show ?thesis
    by (simp add: bnd_def gc_def sample_vm_def gc_roots_def static_refs_def m sweep_arena_eq
        alloc_obj_def alloc_def the_object_def asks_def unwrap_def ret_def
        arena_get_def nth_opt_def)
qed

lemma count_list_mem: "x \<in> set xs \<Longrightarrow> Suc 0 \<le> count_list xs x"
  by (induction xs) auto

text \<open>
  That is the general rule, not an accident of the example: after two collections with
  nothing in between, every unreachable slot is on the free list at least twice.
\<close>

theorem gc_twice_duplicates:
  assumes "monitors_ok s" and "gc extra s = (Ok n, s1)" and "gc extra s1 = (Ok m, s2)"
    and "i < length (objects (heap s))" and "\<not> reach (objects (heap s)) (gc_roots s extra) i"
  shows "2 \<le> count_list (free_ids (heap s2)) (of_nat i)"
proof -
  obtain ids where ids: "unreachable (objects (heap s)) (gc_roots s extra) ids"
      "s1 = s\<lparr>heap := (heap s)\<lparr>free_ids := free_ids (heap s) @ map of_nat ids\<rparr>\<rparr>"
    using gc_run [OF assms(1), of extra] assms(2) by auto
  have "monitors_ok s1" "gc_roots s1 extra = gc_roots s extra"
    using assms(1) ids(2) by (simp_all add: monitors_ok_def gc_roots_def)
  then obtain ids' where ids': "unreachable (objects (heap s)) (gc_roots s extra) ids'"
      "s2 = s1\<lparr>heap := (heap s1)\<lparr>free_ids := free_ids (heap s1) @ map of_nat ids'\<rparr>\<rparr>"
    using gc_run [of s1 extra] assms(3) ids(2) by auto
  have "i \<in> set ids" "i \<in> set ids'" using ids(1) ids'(1) assms(4,5) by (auto simp: unreachable_def)
  then have "Suc 0 \<le> count_list (map of_nat ids) (of_nat i :: u32)"
      "Suc 0 \<le> count_list (map of_nat ids') (of_nat i :: u32)"
    by (auto intro!: count_list_mem)
  then show ?thesis using ids(2) ids'(2) by simp
qed

lemma gc_one:
  "gc [] (sample_vm [sample_obj []]) =
     (Ok 1, (sample_vm [sample_obj []])\<lparr>heap := \<lparr>objects = [sample_obj []], free_ids = [0]\<rparr>\<rparr>)"
  "gc [] ((sample_vm [sample_obj []])\<lparr>heap := \<lparr>objects = [sample_obj []], free_ids = [0]\<rparr>\<rparr>) =
     (Ok 1, (sample_vm [sample_obj []])\<lparr>heap := \<lparr>objects = [sample_obj []], free_ids = [0, 0]\<rparr>\<rparr>)"
proof -
  have m: "mark [sample_obj []] [] = Some [False]" "sweep_ids [False] = [0]" by code_simp+
  show "gc [] (sample_vm [sample_obj []]) =
      (Ok 1, (sample_vm [sample_obj []])\<lparr>heap := \<lparr>objects = [sample_obj []], free_ids = [0]\<rparr>\<rparr>)"
    "gc [] ((sample_vm [sample_obj []])\<lparr>heap := \<lparr>objects = [sample_obj []], free_ids = [0]\<rparr>\<rparr>) =
      (Ok 1, (sample_vm [sample_obj []])\<lparr>heap := \<lparr>objects = [sample_obj []], free_ids = [0, 0]\<rparr>\<rparr>)"
    by (simp_all add: gc_def sample_vm_def gc_roots_def static_refs_def m sweep_arena_eq)
qed

lemma not_reach_nil: "\<not> reach (objects (heap (sample_vm obs))) (gc_roots (sample_vm obs) []) i"
proof
  assume "reach (objects (heap (sample_vm obs))) (gc_roots (sample_vm obs) []) i"
  then show False by (induction) (simp_all add: gc_roots_def sample_vm_def static_refs_def)
qed

theorem gc_twice_duplicates_witness:
  "2 \<le> count_list (free_ids (heap ((sample_vm [sample_obj []])\<lparr>heap :=
     \<lparr>objects = [sample_obj []], free_ids = [0, 0]\<rparr>\<rparr>))) (of_nat 0)"
  by (rule gc_twice_duplicates [OF sample_monitors gc_one])
    (simp_all add: not_reach_nil, simp add: sample_vm_def)

text \<open>
  Some payloads hide references from the collector: the earlier response of a response (or
  of its builder), the serializers module of a JSON decoder and the option list of a filter
  are never reported, so an object only they hold is freed under them.
\<close>

theorem payload_refs_missed:
  "native_refs (Response 200 u hs b VNull (VObj r)) = [] \<and>
   native_refs (ResponseBuilder 200 u hs None None (Some (VObj r))) = [] \<and>
   native_refs (JsonDecoder VNull None k (Some (VObj r))) = [] \<and>
   native_refs (SFilter nm st sel [] [VObj r] extra) = [] \<and>
   native_refs (SerialDescriptor nm names [[VObj r]]) = []"
  by (simp add: native_refs_def push_all_def)

end
