(* ===== verification/Linker.thy ===== *)
theory Linker
  imports VmState
begin

text \<open>
  The linker of \<open>src/src/vm/mod.rs\<close>: loading a class from its DEX definition or from the shim
  tables, array classes, field and method references, static fields and class
  initialisation, call-target resolution, assignability, encoded values, throwables, and the
  registration of natives. Loading a class loads the classes it extends and implements and
  those its static values name, so the functions are mutually recursive: each takes the
  recursive call \<open>ens\<close> as an argument, and \<open>ensure\<close> ties the knot with a depth that counts
  nested loads. Running code (\<open><clinit>\<close>, natives, lazy statics) is an argument too.
\<close>

section \<open>Loading classes\<close>

text \<open>The two recursive entry points: a type of a DEX file, an interned descriptor.\<close>

datatype load = ByType u32 u32 | ByDesc u32

type_synonym loader = "load \<Rightarrow> u32 vm_act"

definition ensure_by_name :: "loader \<Rightarrow> string \<Rightarrow> u32 vm_act" where
  "ensure_by_name ens desc = bnd (intern desc) (\<lambda>i. ens (ByDesc i))"

definition class_count :: "u32 vm_act" where
  "class_count = asks (\<lambda>s. of_nat (length (vm_classes s)))"

definition push_class :: "jclass \<Rightarrow> unit vm_act" where
  "push_class c = modify (\<lambda>s. s\<lparr>vm_classes := vm_classes s @ [c]\<rparr>)"

definition set_by_desc :: "u32 \<Rightarrow> u32 \<Rightarrow> unit vm_act" where
  "set_by_desc d c = modify (\<lambda>s. s\<lparr>class_by_desc := (class_by_desc s)(d \<mapsto> c)\<rparr>)"

definition set_by_type :: "u32 \<Rightarrow> u32 \<Rightarrow> u32 \<Rightarrow> unit vm_act" where
  "set_by_type dx t c = modify (\<lambda>s. s\<lparr>class_by_type := (class_by_type s)((dx, t) \<mapsto> c)\<rparr>)"

definition object_id :: "u32 vm_act" where
  "object_id = asks (\<lambda>s. hot_object (hot_ids s))"

text \<open>The common part of \<open>array_class\<close> and \<open>synth_array_class\<close>: a class pushed under a descriptor.\<close>

definition push_array_class :: "loader \<Rightarrow> u32 \<Rightarrow> key2 option \<Rightarrow> u32 vm_act" where
  "push_array_class ens desc_id elem =
     bnd object_id (\<lambda>o'. bnd (ens (ByDesc o')) (\<lambda>object.
     bnd (ensure_by_name ens ''Ljava/lang/Cloneable;'') (\<lambda>cloneable.
     bnd (ensure_by_name ens ''Ljava/io/Serializable;'') (\<lambda>serializable.
     bnd class_count (\<lambda>i.
     bnd (push_class (class_new i desc_id (Some object) [cloneable, serializable] 0 elem)) (\<lambda>_.
     bnd (set_by_desc desc_id i) (\<lambda>_. ret i)))))))"

definition array_class :: "loader \<Rightarrow> u32 \<Rightarrow> u32 \<Rightarrow> u32 vm_act" where
  "array_class ens dx elem_type =
     bnd (asks (\<lambda>s. array_classes s (dx, elem_type))) (\<lambda>m. case m of
       Some c \<Rightarrow> ret c
     | None \<Rightarrow>
         bnd (dex_at dx) (\<lambda>d.
         bnd (intern (''['' @ type_descriptor d elem_type)) (\<lambda>desc_id.
         bnd (push_array_class ens desc_id (Some (dx, elem_type))) (\<lambda>i.
         bnd (modify (\<lambda>s. s\<lparr>array_classes := (array_classes s)((dx, elem_type) \<mapsto> i)\<rparr>)) (\<lambda>_.
         ret i)))))"

definition synth_array_class :: "loader \<Rightarrow> u32 \<Rightarrow> u32 vm_act" where
  "synth_array_class ens desc_id =
     bnd (asks (\<lambda>s. class_by_desc s desc_id)) (\<lambda>m. case m of
       Some c \<Rightarrow> ret c
     | None \<Rightarrow> push_array_class ens desc_id None)"

text \<open>\<open>class_obj\<close>: the cached \<open>java.lang.Class\<close> instance.\<close>

definition class_obj :: "loader \<Rightarrow> u32 \<Rightarrow> jvalue vm_act" where
  "class_obj ens c =
     bnd (the_class c) (\<lambda>cl. case class_object cl of
       Some i \<Rightarrow> ret (VObj i)
     | None \<Rightarrow>
         bnd (ensure_by_name ens ''Ljava/lang/Class;'') (\<lambda>cc.
         bnd (alloc_obj cc [] (Some (ClassObj (Class c)))) (\<lambda>i.
         bnd (upd_class c (\<lambda>k. k\<lparr>class_object := Some i\<rparr>)) (\<lambda>_. ret (VObj i)))))"

definition enc_to_value :: "loader \<Rightarrow> u32 \<Rightarrow> encoded_value \<Rightarrow> jvalue vm_act" where
  "enc_to_value ens dx ev =
     (case ev of
        EV_Byte v \<Rightarrow> ret (VInt (scast v))
      | EV_Short v \<Rightarrow> ret (VInt (scast v))
      | EV_Char v \<Rightarrow> ret (VInt (ucast v))
      | EV_Int v \<Rightarrow> ret (VInt v)
      | EV_Long v \<Rightarrow> ret (VLong v)
      | EV_Float v \<Rightarrow> ret (VFloat v)
      | EV_Double v \<Rightarrow> ret (VDouble v)
      | EV_Bool v \<Rightarrow> ret (VInt (int_of_bool v))
      | EV_Null \<Rightarrow> ret VNull
      | EV_String str \<Rightarrow> dex_string dx str
      | EV_Type t \<Rightarrow> bnd (ens (ByType dx t)) (\<lambda>c. class_obj ens c)
      | _ \<Rightarrow> ret VNull)"

section \<open>The members of a DEX class\<close>

definition superclass_data :: "u32 option \<Rightarrow>
  ((u32 \<times> u32 \<times> u32) list \<times> (key2 \<times> u32) list \<times> (key2 \<rightharpoonup> key2)) vm_act" where
  "superclass_data sc = (case sc of
     None \<Rightarrow> ret ([], [], Map.empty)
   | Some c \<Rightarrow> bnd (the_class c) (\<lambda>cl. ret (inst_fields cl, field_offsets cl, static_field_map cl)))"

text \<open>The interned name and type of a field id; each index panics when it is out of range.\<close>

definition field_name_ty :: "u32 \<Rightarrow> u32 \<Rightarrow> (u32 \<times> u32) vm_act" where
  "field_name_ty dx fidx =
     bnd (dex_at dx) (\<lambda>d.
     bnd (unwrap (nth_opt (dex_fields d) (unat fidx))) (\<lambda>f.
     bnd (unwrap (nth_opt (strings d) (unat (fid_name f)))) (\<lambda>nm.
     bnd (intern nm) (\<lambda>name.
     bnd (intern (type_descriptor d (fid_type f))) (\<lambda>ty. ret (name, ty))))))"

definition add_static :: "u32 \<Rightarrow> u32 \<Rightarrow> jvalue list \<times> (key2 \<rightharpoonup> key2) \<Rightarrow> encoded_field \<Rightarrow>
  (jvalue list \<times> (key2 \<rightharpoonup> key2)) vm_act" where
  "add_static dx c acc ef = (case acc of (vals, m) \<Rightarrow>
     bnd (field_name_ty dx (field_idx ef)) (\<lambda>k.
     ret (vals @ [VNull], m(k \<mapsto> (c, of_nat (length vals))))))"

definition add_instance :: "u32 \<Rightarrow> (u32 \<times> u32 \<times> u32) list \<times> (key2 \<times> u32) list \<Rightarrow> encoded_field \<Rightarrow>
  ((u32 \<times> u32 \<times> u32) list \<times> (key2 \<times> u32) list) vm_act" where
  "add_instance dx acc ef = (case acc of (fs, offs) \<Rightarrow>
     bnd (field_name_ty dx (field_idx ef)) (\<lambda>(name, ty).
     ret (fs @ [(name, ty, ef_access_flags ef)], AList.update (name, ty) (of_nat (length fs)) offs)))"

text \<open>Static values, in declaration order: value \<open>i\<close> belongs to static field \<open>i\<close> of the class data.\<close>

definition set_static_value :: "loader \<Rightarrow> u32 \<Rightarrow> encoded_field list \<Rightarrow> jvalue list \<Rightarrow>
  nat \<times> encoded_value \<Rightarrow> jvalue list vm_act" where
  "set_static_value ens dx sfs vals iev = (case iev of (i, ev) \<Rightarrow>
     bnd (unwrap (nth_opt sfs i)) (\<lambda>ef.
     bnd (dex_at dx) (\<lambda>d.
     bnd (unwrap (nth_opt (dex_fields d) (unat (field_idx ef)))) (\<lambda>f.
     bnd (intern (type_descriptor d (fid_type f))) (\<lambda>ty.
     bnd (enc_to_value ens dx ev) (\<lambda>v.
     if i < length vals then ret (vals[i := v]) else panic))))))"

definition add_method :: "u32 \<Rightarrow> u32 \<Rightarrow> method_rec list \<times> (key2 \<rightharpoonup> u32) \<Rightarrow> encoded_method \<Rightarrow>
  (method_rec list \<times> (key2 \<rightharpoonup> u32)) vm_act" where
  "add_method dx c acc em = (case acc of (ms, disp) \<Rightarrow>
     bnd (dex_at dx) (\<lambda>d.
     bnd (unwrap (nth_opt (methods d) (unat (method_idx em)))) (\<lambda>m.
     bnd (unwrap (nth_opt (strings d) (unat (mid_name m)))) (\<lambda>nm.
     bnd (intern nm) (\<lambda>name.
     bnd (proto_sig d (mid_proto m)) (\<lambda>sg. bnd (intern sg) (\<lambda>sig.
     bnd (unwrap (nth_opt (protos d) (unat (mid_proto m)))) (\<lambda>p.
     bnd (intern (type_descriptor d (return_type p))) (\<lambda>rt.
     bnd (amap (\<lambda>t. intern (type_descriptor d t)) (params p)) (\<lambda>args.
     let slot = of_nat (length ms) in
     ret (ms @ [\<lparr>m_slot = slot, m_class = c, m_name = name, m_sig = sig, m_ret = rt, m_args = args,
                 m_access_flags = em_access_flags em,
                 static_method = (em_access_flags em AND ACC_STATIC \<noteq> 0), m_dex_idx = dx,
                 native_key = None, native_decl = (em_access_flags em AND ACC_NATIVE \<noteq> 0),
                 m_code = code em\<rparr>],
          disp((name, sig) \<mapsto> slot))))))))))))"

text \<open>A method made from a native entry.\<close>

definition native_method :: "u32 \<Rightarrow> u32 \<Rightarrow> u32 \<Rightarrow> u32 \<Rightarrow> u32 \<Rightarrow> native_entry \<Rightarrow> u32 \<Rightarrow> u32 list \<Rightarrow> method_rec" where
  "native_method slot c desc_id name sig ne rt args =
     \<lparr>m_slot = slot, m_class = c, m_name = name, m_sig = sig, m_ret = rt, m_args = args,
      m_access_flags = (if ne_instance ne then ACC_PUBLIC else ACC_PUBLIC OR ACC_STATIC),
      static_method = (\<not> ne_instance ne), m_dex_idx = 0, native_key = Some (desc_id, name, sig),
      native_decl = False, m_code = None\<rparr>"

text \<open>
  The native entries of a class: built-in and global ones, then host ones; a later entry with
  the name and signature of an earlier one takes its place.
\<close>

fun put_entry :: "native_entry \<Rightarrow> native_entry list \<Rightarrow> native_entry list" where
  "put_entry e [] = [e]"
| "put_entry e (x # xs) =
     (if ne_name x = ne_name e \<and> ne_sig x = ne_sig e then e # xs else x # put_entry e xs)"

definition native_fallbacks :: "tables \<Rightarrow> string \<Rightarrow> native_entry list \<Rightarrow> native_entry list" where
  "native_fallbacks T desc host =
     fold put_entry (filter (\<lambda>e. ne_class e = desc) (native_entries T @ host)) []"

definition add_native :: "u32 \<Rightarrow> u32 \<Rightarrow> method_rec list \<times> (key2 \<rightharpoonup> u32) \<Rightarrow> native_entry \<Rightarrow>
  (method_rec list \<times> (key2 \<rightharpoonup> u32)) vm_act" where
  "add_native c desc_id acc ne = (case acc of (ms, disp) \<Rightarrow>
     bnd (intern (ne_name ne)) (\<lambda>name. bnd (intern (ne_sig ne)) (\<lambda>sig.
     case disp (name, sig) of
       Some slot \<Rightarrow>
         bnd (unwrap (nth_opt ms (unat slot))) (\<lambda>m.
         if native_decl m \<and> static_method m = (\<not> ne_instance ne) then
           ret (ms[unat slot := m\<lparr>native_key := Some (desc_id, name, sig), native_decl := False\<rparr>], disp)
         else ret (ms, disp))
     | None \<Rightarrow>
         bnd (unwrap (parse_sig (ne_sig ne))) (\<lambda>(argds, retd).
         bnd (intern retd) (\<lambda>rt. bnd (amap intern argds) (\<lambda>args.
         let slot = of_nat (length ms) in
         ret (ms @ [native_method slot c desc_id name sig ne rt args],
              disp((name, sig) \<mapsto> slot))))))))"


definition load_members :: "tables \<Rightarrow> loader \<Rightarrow> u32 \<Rightarrow> class_def \<Rightarrow> u32 \<Rightarrow> u32 \<Rightarrow> string \<Rightarrow> u32 option \<Rightarrow>
  (jclass \<Rightarrow> jclass) vm_act" where
  "load_members T ens dx def c desc_id desc sc =
     bnd (superclass_data sc) (\<lambda>(ifs0, offs0, stats0).
     bnd (case class_data_of def of
            None \<Rightarrow> ret ([], stats0, ifs0, offs0, [], Map.empty)
          | Some cd \<Rightarrow>
              bnd (afold (add_static dx c) ([], stats0) (static_fields cd)) (\<lambda>(vals, stats).
              bnd (afold (add_instance dx) (ifs0, offs0) (instance_fields cd)) (\<lambda>(ifs, offs).
              bnd (afold (set_static_value ens dx (static_fields cd)) vals
                     (enumerate 0 (static_values def))) (\<lambda>vals.
              bnd (afold (add_method dx c) ([], Map.empty) (direct_methods cd)) (\<lambda>acc.
              bnd (afold (add_method dx c) acc (virtual_methods cd)) (\<lambda>(ms, disp).
              ret (vals, stats, ifs, offs, ms, disp)))))))
       (\<lambda>(vals, stats, ifs, offs, ms, disp).
     bnd (asks host_natives) (\<lambda>host.
     bnd (afold (add_native c desc_id) (ms, disp) (native_fallbacks T desc host)) (\<lambda>(ms, disp).
     ret (\<lambda>k. k\<lparr>inst_fields := ifs, field_offsets := offs, static_field_map := stats, statics := vals,
       statics_lazy := replicate (length vals) None, cls_methods := ms, dispatch := disp\<rparr>)))))"

text \<open>
  \<open>load_dex_class\<close>. The class is entered in the tables before its members are read, and a
  failure on the way leaves it there, and its entry on the stack of loads in progress.
\<close>

definition load_dex_class :: "tables \<Rightarrow> loader \<Rightarrow> u32 \<Rightarrow> nat \<Rightarrow> u32 vm_act" where
  "load_dex_class T ens dx k =
     bnd (dex_at dx) (\<lambda>d.
     bnd (unwrap (nth_opt (classes d) k)) (\<lambda>def.
     bnd (asks (\<lambda>s. class_by_type s (dx, class_idx def))) (\<lambda>m. case m of
       Some c \<Rightarrow> ret c
     | None \<Rightarrow>
         let desc = type_descriptor d (class_idx def) in
         bnd (intern desc) (\<lambda>desc_id.
         bnd (asks (\<lambda>s. class_by_desc s desc_id)) (\<lambda>m. case m of
           Some c \<Rightarrow> bnd (set_by_type dx (class_idx def) c) (\<lambda>_. ret c)
         | None \<Rightarrow>
             bnd (asks loading) (\<lambda>ld.
             bnd (check ((dx, k) \<notin> set ld) (Resolution ''cyclic class hierarchy'')) (\<lambda>_.
             bnd (modify (\<lambda>s. s\<lparr>loading := loading s @ [(dx, k)]\<rparr>)) (\<lambda>_.
             bnd object_id (\<lambda>o'.
             bnd (if superclass_idx def = - 1 then
                    (if desc_id = o' then ret None
                     else bnd (ens (ByDesc o')) (\<lambda>c. ret (Some c)))
                  else bnd (ens (ByType dx (superclass_idx def))) (\<lambda>c. ret (Some c))) (\<lambda>sc.
             bnd (amap (\<lambda>t. ens (ByType dx t)) (interfaces def)) (\<lambda>ifaces.
             bnd class_count (\<lambda>c.
             bnd (push_class (class_new c desc_id sc ifaces (cd_access_flags def) None)) (\<lambda>_.
             bnd (set_by_desc desc_id c) (\<lambda>_.
             bnd (set_by_type dx (class_idx def) c) (\<lambda>_.
             bnd (load_members T ens dx def c desc_id desc sc) (\<lambda>g.
             bnd (upd_class c g) (\<lambda>_.
             bnd (modify (\<lambda>s. s\<lparr>loading := butlast (loading s)\<rparr>)) (\<lambda>_.
             ret c))))))))))))))))))"

section \<open>Shim classes\<close>

definition shim_or_native :: "tables \<Rightarrow> string \<Rightarrow> bool vm_act" where
  "shim_or_native T desc = asks (\<lambda>s.
     (\<exists>d \<in> set (shim_classes T). sh_desc d = desc) \<or>
     (\<exists>e \<in> set (host_natives s). ne_class e = desc) \<or>
     (\<exists>e \<in> set (native_entries T). ne_class e = desc))"

definition shim_for :: "tables \<Rightarrow> string \<Rightarrow> shim_def" where
  "shim_for T desc =
     (case List.find (\<lambda>d. sh_desc d = desc) (shim_classes T) of
        Some d \<Rightarrow> d
      | None \<Rightarrow> \<lparr>sh_desc = [], sh_super = Some ''Ljava/lang/Object;'', sh_interfaces = [],
                 sh_flags = ACC_PUBLIC, sh_statics = [], sh_fields = []\<rparr>)"

definition add_shim_method :: "u32 \<Rightarrow> u32 \<Rightarrow> method_rec list \<times> (key2 \<rightharpoonup> u32) \<Rightarrow> native_entry \<Rightarrow>
  (method_rec list \<times> (key2 \<rightharpoonup> u32)) vm_act" where
  "add_shim_method c desc_id acc ne = (case acc of (ms, disp) \<Rightarrow>
     bnd (intern (ne_name ne)) (\<lambda>name. bnd (intern (ne_sig ne)) (\<lambda>sig.
     bnd (unwrap (parse_sig (ne_sig ne))) (\<lambda>(argds, retd).
     bnd (intern retd) (\<lambda>rt. bnd (amap intern argds) (\<lambda>args.
     let slot = of_nat (length ms) in
     ret (ms @ [native_method slot c desc_id name sig ne rt args], disp((name, sig) \<mapsto> slot))))))))"

definition add_shim_static :: "u32 \<Rightarrow> jvalue list \<times> nat option list \<times> (key2 \<rightharpoonup> key2) \<Rightarrow>
  string \<times> string \<times> shim_value \<Rightarrow> (jvalue list \<times> nat option list \<times> (key2 \<rightharpoonup> key2)) vm_act" where
  "add_shim_static c acc sd = (case acc of (vals, lazies, m) \<Rightarrow> case sd of (nm, tyd, v) \<Rightarrow>
     bnd (intern nm) (\<lambda>name. bnd (intern tyd) (\<lambda>ty.
     let m' = m((name, ty) \<mapsto> (c, of_nat (length vals))) in
     case v of
       ShimConst x \<Rightarrow> ret (vals @ [x], lazies @ [None], m')
     | ShimLazy f \<Rightarrow> ret (vals @ [VNull], lazies @ [Some f], m'))))"

definition add_shim_field :: "(u32 \<times> u32 \<times> u32) list \<times> (key2 \<times> u32) list \<Rightarrow> string \<times> string \<Rightarrow>
  ((u32 \<times> u32 \<times> u32) list \<times> (key2 \<times> u32) list) vm_act" where
  "add_shim_field acc sf = (case acc of (fs, offs) \<Rightarrow> case sf of (nm, tyd) \<Rightarrow>
     bnd (intern nm) (\<lambda>name. bnd (intern tyd) (\<lambda>ty.
     ret (fs @ [(name, ty, ACC_PUBLIC)], AList.update (name, ty) (of_nat (length fs)) offs))))"

definition load_shim_class :: "tables \<Rightarrow> loader \<Rightarrow> u32 \<Rightarrow> u32 vm_act" where
  "load_shim_class T ens desc_id =
     bnd (str_of desc_id) (\<lambda>desc.
     let sd = shim_for T desc in
     bnd (case sh_super sd of None \<Rightarrow> ret None
          | Some n \<Rightarrow> bnd (ensure_by_name ens n) (\<lambda>c. ret (Some c))) (\<lambda>sc.
     bnd (amap (ensure_by_name ens) (sh_interfaces sd)) (\<lambda>ifaces.
     bnd class_count (\<lambda>c.
     bnd (push_class (class_new c desc_id sc ifaces (sh_flags sd) None)) (\<lambda>_.
     bnd (set_by_desc desc_id c) (\<lambda>_.
     bnd (asks host_natives) (\<lambda>host.
     bnd (afold (add_shim_method c desc_id) ([], Map.empty)
            (filter (\<lambda>e. ne_class e = desc) (native_entries T @ host))) (\<lambda>(ms, disp).
     bnd (afold (add_shim_static c) ([], [], Map.empty) (sh_statics sd)) (\<lambda>(vals, lazies, stats).
     bnd (superclass_data sc) (\<lambda>(ifs0, offs0, _).
     bnd (afold add_shim_field (ifs0, offs0) (sh_fields sd)) (\<lambda>(ifs, offs).
     bnd (upd_class c (\<lambda>k. k\<lparr>cls_methods := ms, dispatch := disp, statics := vals,
            statics_lazy := lazies, static_field_map := stats, field_offsets := offs,
            inst_fields := ifs\<rparr>)) (\<lambda>_.
     ret c))))))))))))"

section \<open>The recursion\<close>

text \<open>\<open>ensure_class_by_type\<close>.\<close>

definition ensure_by_type :: "tables \<Rightarrow> loader \<Rightarrow> u32 \<Rightarrow> u32 \<Rightarrow> u32 vm_act" where
  "ensure_by_type T ens dx t =
     bnd (asks (\<lambda>s. class_by_type s (dx, t))) (\<lambda>m. case m of
       Some c \<Rightarrow> ret c
     | None \<Rightarrow>
         bnd (dex_at dx) (\<lambda>d.
         let desc = type_descriptor d t in
         bnd (intern desc) (\<lambda>desc_id.
         bnd (asks (\<lambda>s. class_by_desc s desc_id)) (\<lambda>m. case m of
           Some c \<Rightarrow> bnd (set_by_type dx t c) (\<lambda>_. ret c)
         | None \<Rightarrow>
             (case desc of
                CHR ''['' # inner \<Rightarrow>
                  (case type_id_of d inner of
                     Some inner_tid \<Rightarrow> array_class ens dx inner_tid
                   | None \<Rightarrow> synth_array_class ens desc_id)
              | _ \<Rightarrow>
                  bnd (class_location desc) (\<lambda>loc. case loc of
                    Some (dx', k) \<Rightarrow>
                      bnd (load_dex_class T ens dx' k) (\<lambda>c. bnd (set_by_type dx t c) (\<lambda>_. ret c))
                  | None \<Rightarrow>
                      bnd (shim_or_native T desc) (\<lambda>b.
                      if b then
                        bnd (load_shim_class T ens desc_id) (\<lambda>c.
                        bnd (set_by_type dx t c) (\<lambda>_. ret c))
                      else fail (Resolution (''class not found: '' @ desc)))))))))"

text \<open>The first DEX file that has a type id for the descriptor.\<close>

fun type_owner :: "u32 \<Rightarrow> string \<Rightarrow> dex_file list \<Rightarrow> (u32 \<times> u32) option" where
  "type_owner i desc [] = None"
| "type_owner i desc (d # ds) =
     (case type_id_of d desc of Some t \<Rightarrow> Some (i, t) | None \<Rightarrow> type_owner (i + 1) desc ds)"

text \<open>\<open>ensure_class_by_desc_id\<close>.\<close>

definition ensure_by_desc :: "tables \<Rightarrow> loader \<Rightarrow> u32 \<Rightarrow> u32 vm_act" where
  "ensure_by_desc T ens desc_id =
     bnd (asks (\<lambda>s. class_by_desc s desc_id)) (\<lambda>m. case m of
       Some c \<Rightarrow> ret c
     | None \<Rightarrow>
         bnd (str_of desc_id) (\<lambda>desc.
         (case desc of
            CHR ''['' # inner \<Rightarrow>
              bnd (asks (\<lambda>s. type_owner 0 inner (dexes s))) (\<lambda>ow. case ow of
                Some (dx, t) \<Rightarrow> array_class ens dx t
              | None \<Rightarrow> synth_array_class ens desc_id)
          | _ \<Rightarrow>
              bnd (class_location desc) (\<lambda>loc. case loc of
                Some (dx, k) \<Rightarrow> load_dex_class T ens dx k
              | None \<Rightarrow>
                  bnd (shim_or_native T desc) (\<lambda>b.
                  if b then load_shim_class T ens desc_id
                  else fail (Resolution (''class not found: '' @ desc)))))))"

primrec ensure_depth :: "nat \<Rightarrow> tables \<Rightarrow> loader" where
  "ensure_depth 0 T req = (\<lambda>s. (Diverge, s))"
| "ensure_depth (Suc n) T req =
     (case req of
        ByType dx t \<Rightarrow> ensure_by_type T (ensure_depth n T) dx t
      | ByDesc d \<Rightarrow> ensure_by_desc T (ensure_depth n T) d)"

text \<open>
  The depth allowed: every DEX class can be on the stack of loads once, and between two of
  them lies at most one chain of shim classes and an array class.
\<close>

definition load_depth :: "tables \<Rightarrow> vm \<Rightarrow> nat" where
  "load_depth T s =
     (sum_list (map (\<lambda>d. length (classes d)) (dexes s)) + 1) * (length (shim_classes T) + 4)"

definition ensure :: "tables \<Rightarrow> loader" where
  "ensure T req = (\<lambda>s. ensure_depth (load_depth T s) T req s)"

definition ensure_class_by_desc :: "tables \<Rightarrow> string \<Rightarrow> u32 vm_act" where
  "ensure_class_by_desc T desc = ensure_by_name (ensure T) desc"

end
