(* ===== verification/Resolve.thy ===== *)
theory Resolve
  imports Linker
begin

text \<open>
  What the interpreter asks of the linker, from \<open>src/src/vm/mod.rs\<close>: field and method
  references, static fields and class initialisation, call targets, assignability, thrown
  errors, the invocation helpers, the scans for an extension's entry class, and the
  registration of natives with the construction of the VM.
\<close>

section \<open>The environment\<close>

text \<open>The bodies of the shims: natives by function number, lazy static values.\<close>

record host = tables +
  call_fn :: "nat \<Rightarrow> jvalue list \<Rightarrow> vm \<Rightarrow> (nat_err, jvalue) outcome \<times> vm"
  lazy_fn :: "nat \<Rightarrow> jvalue vm_act"

text \<open>Running a method of a class, which is the interpreter's business.\<close>

type_synonym runner = "u32 \<Rightarrow> u32 \<Rightarrow> jvalue list \<Rightarrow> jvalue vm_act"

definition tabs :: "host \<Rightarrow> tables" where
  "tabs H = \<lparr>shim_classes = shim_classes H, native_entries = native_entries H\<rparr>"

text \<open>The call of a native through its function pointer, with the error mapping of the VM.\<close>

definition run_native :: "host \<Rightarrow> nat \<Rightarrow> jvalue list \<Rightarrow> jvalue vm_act" where
  "run_native H f args = (\<lambda>s. case call_fn H f args s of (r, s') \<Rightarrow> (omap_err from_nat_err r, s'))"

definition show_key :: "key3 \<Rightarrow> string" where
  "show_key k = (case k of (a, b, c) \<Rightarrow>
     ''('' @ show_nat (unat a) @ '', '' @ show_nat (unat b) @ '', '' @ show_nat (unat c) @ '')'')"

definition native_fn :: "key3 \<Rightarrow> nat vm_act" where
  "native_fn k = bnd (asks (\<lambda>s. natives s k)) (\<lambda>m.
     lift (ok_or (Fatal (''no native for '' @ show_key k)) m))"

section \<open>Walking up the superclasses\<close>

text \<open>
  The first class from \<open>c\<close> upwards where \<open>f\<close> finds something. The fuel is one more than the
  number of classes, enough when the superclass relation has no cycle.
\<close>

fun up_chain :: "nat \<Rightarrow> jclass list \<Rightarrow> (jclass \<Rightarrow> 'b option) \<Rightarrow> u32 option \<Rightarrow> (jvm_error, 'b option) outcome" where
  "up_chain n cs f None = Ok None"
| "up_chain 0 cs f (Some c) = Diverge"
| "up_chain (Suc n) cs f (Some c) =
     (case nth_opt cs (unat c) of
        None \<Rightarrow> Panic
      | Some cl \<Rightarrow> (case f cl of Some x \<Rightarrow> Ok (Some x) | None \<Rightarrow> up_chain n cs f (superclass cl)))"

definition climb :: "(jclass \<Rightarrow> 'b option) \<Rightarrow> u32 \<Rightarrow> 'b option vm_act" where
  "climb f c = bnd (asks vm_classes) (\<lambda>cs. lift (up_chain (Suc (length cs)) cs f (Some c)))"

section \<open>Fields\<close>

definition resolve_field_ref :: "u32 \<Rightarrow> u32 \<Rightarrow> field_ref vm_act" where
  "resolve_field_ref dx fidx =
     bnd (asks (\<lambda>s. field_refs s (dx, fidx))) (\<lambda>m. case m of
       Some fr \<Rightarrow> ret fr
     | None \<Rightarrow>
         bnd (dex_at dx) (\<lambda>d.
         bnd (lift (ok_or (Resolution (''bad field idx '' @ show_nat (unat fidx)))
                      (nth_opt (dex_fields d) (unat fidx)))) (\<lambda>f.
         bnd (unwrap (nth_opt (strings d) (unat (fid_name f)))) (\<lambda>nm.
         bnd (intern nm) (\<lambda>name.
         bnd (intern (type_descriptor d (fid_type f))) (\<lambda>ty.
         bnd (intern (type_descriptor d (fid_class f))) (\<lambda>cd.
         let fr = \<lparr>fr_name = name, fr_ty = ty, fr_class_desc = cd\<rparr> in
         bnd (modify (\<lambda>s. s\<lparr>field_refs := (field_refs s)((dx, fidx) \<mapsto> fr)\<rparr>)) (\<lambda>_. ret fr))))))))"

definition field_offset :: "u32 \<Rightarrow> u32 \<Rightarrow> u32 \<Rightarrow> u32 option vm_act" where
  "field_offset c name ty = climb (\<lambda>cl. map_of (field_offsets cl) (name, ty)) c"

definition static_field_owner :: "u32 \<Rightarrow> field_ref \<Rightarrow> key2 vm_act" where
  "static_field_owner start fr =
     bnd (climb (\<lambda>cl. static_field_map cl (fr_name fr, fr_ty fr)) start) (\<lambda>m. case m of
       Some ow \<Rightarrow> ret ow
     | None \<Rightarrow>
         bnd (str_of (fr_name fr)) (\<lambda>n. bnd (str_of (fr_ty fr)) (\<lambda>t.
         bnd (the_class start) (\<lambda>cl. bnd (str_of (descriptor cl)) (\<lambda>d.
         fail (Resolution (''no static field '' @ n @ '' '' @ t @ '' in '' @ d)))))))"

text \<open>A failed \<open><clinit>\<close> leaves the class uninitialised, so that the next access runs it again.\<close>

definition set_clinit :: "u32 \<Rightarrow> nat \<Rightarrow> unit vm_act" where
  "set_clinit c n = upd_class c (\<lambda>k. k\<lparr>clinit_state := n\<rparr>)"

definition ensure_class_initialized :: "runner \<Rightarrow> u32 \<Rightarrow> unit vm_act" where
  "ensure_class_initialized run c =
     bnd (the_class c) (\<lambda>cl.
     if clinit_state cl \<noteq> 0 then ret ()
     else
       bnd (asks (\<lambda>s. hot_clinit (hot_ids s))) (\<lambda>cn.
       case clinit_slot cl cn of
         Some slot \<Rightarrow>
           bnd (set_clinit c 1) (\<lambda>_.
           bnd (catch (bnd (run c slot []) (\<lambda>_. ret ()))
                  (\<lambda>e. bnd (set_clinit c 0) (\<lambda>_. fail e))) (\<lambda>_.
           set_clinit c 2))
       | None \<Rightarrow> set_clinit c 2))"

definition static_slot :: "u32 \<Rightarrow> u32 \<Rightarrow> jvalue vm_act" where
  "static_slot c off' = bnd (the_class c) (\<lambda>cl. unwrap (nth_opt (statics cl) (unat off')))"

definition put_static :: "u32 \<Rightarrow> u32 \<Rightarrow> jvalue \<Rightarrow> unit vm_act" where
  "put_static c off' v =
     bnd (static_slot c off') (\<lambda>_. upd_class c (\<lambda>k. k\<lparr>statics := (statics k)[unat off' := v]\<rparr>))"

definition clear_lazy :: "u32 \<Rightarrow> u32 \<Rightarrow> unit vm_act" where
  "clear_lazy c off' = upd_class c (\<lambda>k. k\<lparr>statics_lazy := (statics_lazy k)[unat off' := None]\<rparr>)"

definition lazy_of :: "u32 \<Rightarrow> u32 \<Rightarrow> nat option vm_act" where
  "lazy_of c off' = bnd (the_class c) (\<lambda>cl. unwrap (nth_opt (statics_lazy cl) (unat off')))"

definition static_field_get :: "host \<Rightarrow> runner \<Rightarrow> field_ref \<Rightarrow> jvalue vm_act" where
  "static_field_get H run fr =
     bnd (ensure (tabs H) (ByDesc (fr_class_desc fr))) (\<lambda>start.
     bnd (static_field_owner start fr) (\<lambda>(ow, off').
     bnd (ensure_class_initialized run ow) (\<lambda>_.
     bnd (lazy_of ow off') (\<lambda>lz.
     bnd (case lz of None \<Rightarrow> ret ()
          | Some f \<Rightarrow>
              bnd (lazy_fn H f) (\<lambda>v. bnd (put_static ow off' v) (\<lambda>_. clear_lazy ow off'))) (\<lambda>_.
     static_slot ow off')))))"

definition static_field_put :: "host \<Rightarrow> runner \<Rightarrow> field_ref \<Rightarrow> jvalue \<Rightarrow> unit vm_act" where
  "static_field_put H run fr v =
     bnd (ensure (tabs H) (ByDesc (fr_class_desc fr))) (\<lambda>start.
     bnd (static_field_owner start fr) (\<lambda>(ow, off').
     bnd (ensure_class_initialized run ow) (\<lambda>_.
     bnd (lazy_of ow off') (\<lambda>lz.
     bnd (if lz \<noteq> None then clear_lazy ow off' else ret ()) (\<lambda>_.
     put_static ow off' v)))))"

section \<open>Methods\<close>

definition resolve_method_ref :: "u32 \<Rightarrow> u32 \<Rightarrow> method_ref vm_act" where
  "resolve_method_ref dx midx =
     bnd (asks (\<lambda>s. method_refs s (dx, midx))) (\<lambda>m. case m of
       Some mr \<Rightarrow> ret mr
     | None \<Rightarrow>
         bnd (dex_at dx) (\<lambda>d.
         bnd (lift (ok_or (Resolution (''bad method idx '' @ show_nat (unat midx)))
                      (nth_opt (methods d) (unat midx)))) (\<lambda>m.
         bnd (unwrap (nth_opt (strings d) (unat (mid_name m)))) (\<lambda>nm.
         bnd (intern nm) (\<lambda>name.
         bnd (proto_sig d (mid_proto m)) (\<lambda>sg. bnd (intern sg) (\<lambda>sig.
         bnd (unwrap (nth_opt (protos d) (unat (mid_proto m)))) (\<lambda>p.
         bnd (intern (type_descriptor d (return_type p))) (\<lambda>rt.
         bnd (amap (\<lambda>t. intern (type_descriptor d t)) (params p)) (\<lambda>args.
         bnd (intern (type_descriptor d (mid_class m))) (\<lambda>cd.
         let mr = \<lparr>mr_name = name, mr_sig = sig, mr_ret = rt, mr_args = args, mr_class_desc = cd\<rparr> in
         bnd (modify (\<lambda>s. s\<lparr>method_refs := (method_refs s)((dx, midx) \<mapsto> mr)\<rparr>)) (\<lambda>_.
         ret mr))))))))))))"

datatype target =
    TNative key3
  | TBytecode u32 u32 decoded "code_item option" u16 u16 u32 "u32 list" bool

text \<open>The chain part of the dispatch loop: the class and slot found, or the class the chain ends at.\<close>

fun dispatch_chain :: "nat \<Rightarrow> jclass list \<Rightarrow> key2 \<Rightarrow> u32 \<Rightarrow> (jvm_error, key2 option \<times> u32) outcome" where
  "dispatch_chain 0 cs key c = Diverge"
| "dispatch_chain (Suc n) cs key c =
     (case nth_opt cs (unat c) of
        None \<Rightarrow> Err (Resolution (''missing class id '' @ show_nat (unat c)))
      | Some cl \<Rightarrow>
          (case dispatch cl key of
             Some slot \<Rightarrow> Ok (Some (c, slot), c)
           | None \<Rightarrow>
               (case superclass cl of
                  Some sc \<Rightarrow> dispatch_chain n cs key sc
                | None \<Rightarrow> Ok (None, c))))"

text \<open>
  A chain that ends at an interface goes on at \<open>Object\<close>. One such turn is all there can be:
  if the chain of \<open>Object\<close> ended at an interface again, the loop of the source would go round
  for ever.
\<close>

primrec dispatch_walk :: "nat \<Rightarrow> tables \<Rightarrow> key2 \<Rightarrow> u32 \<Rightarrow> (key2 option \<times> u32) vm_act" where
  "dispatch_walk 0 T key c = (\<lambda>s. (Diverge, s))"
| "dispatch_walk (Suc n) T key c =
     bnd (asks vm_classes) (\<lambda>cs.
     bnd (lift (dispatch_chain (Suc (length cs)) cs key c)) (\<lambda>(found, c').
     case found of
       Some k \<Rightarrow> ret (found, c')
     | None \<Rightarrow>
         bnd (the_class c') (\<lambda>cl.
         if is_interface cl then
           bnd object_id (\<lambda>o'. bnd (ensure T (ByDesc o')) (\<lambda>oc. dispatch_walk n T key oc))
         else ret (None, c'))))"

text \<open>
  The search for a default method over the interfaces, popped from the end of the queue. Every
  round takes one entry off the queue, and a class adds its interfaces once.
\<close>

fun search_loop :: "nat \<Rightarrow> jclass list \<Rightarrow> key2 \<Rightarrow> u32 list \<Rightarrow> u32 list \<Rightarrow> (jvm_error, key2 option) outcome" where
  "search_loop fuel cs key [] seen = Ok None"
| "search_loop 0 cs key (q # qs) seen = Diverge"
| "search_loop (Suc fuel) cs key (q # qs) seen =
     (let i = last (q # qs); rest = butlast (q # qs) in
      if i \<in> set seen then search_loop fuel cs key rest seen
      else case nth_opt cs (unat i) of
        None \<Rightarrow> Panic
      | Some cl \<Rightarrow>
          (case dispatch cl key of
             Some slot \<Rightarrow> Ok (Some (i, slot))
           | None \<Rightarrow> search_loop fuel cs key (rest @ cls_interfaces cl) (seen @ [i])))"

definition search_interfaces :: "u32 \<Rightarrow> key2 \<Rightarrow> key2 option vm_act" where
  "search_interfaces c key =
     bnd (the_class c) (\<lambda>cl. bnd (asks vm_classes) (\<lambda>cs.
     lift (search_loop (length (cls_interfaces cl) + sum_list (map (\<lambda>k. length (cls_interfaces k)) cs))
             cs key (cls_interfaces cl) [])))"

definition target_start :: "tables \<Rightarrow> invoke_kind \<Rightarrow> method_ref \<Rightarrow> u32 option \<Rightarrow> u32 \<Rightarrow> u32 vm_act" where
  "target_start T kind mref receiver current =
     (if kind = Virtual \<or> kind = Interface then
        bnd (asks heap) (\<lambda>h.
        lift (ok_or (Resolution ''null receiver for virtual call'')
          (case receiver of None \<Rightarrow> None | Some i \<Rightarrow> map_option obj_class (arena_get h i))))
      else if kind = Super then
        bnd (asks vm_classes) (\<lambda>cs.
        case (case nth_opt cs (unat current) of None \<Rightarrow> None | Some cl \<Rightarrow> superclass cl) of
          Some sc \<Rightarrow> ret sc
        | None \<Rightarrow> bnd object_id (\<lambda>o'. ensure T (ByDesc o')))
      else ensure T (ByDesc (mr_class_desc mref)))"

definition no_jni :: "method_rec \<Rightarrow> jvm_error vm_act" where
  "no_jni m = bnd (str_of (m_name m)) (\<lambda>n. bnd (str_of (m_sig m)) (\<lambda>sg.
     ret (Resolution (''native method '' @ n @ '' '' @ sg @ '' has no JNI bridge (JNI unsupported)''))))"

definition method_target :: "u32 \<Rightarrow> u32 \<Rightarrow> target vm_act" where
  "method_target c slot =
     bnd (the_method c slot) (\<lambda>m.
     if native_decl m then bnd (no_jni m) fail
     else case native_key m of
       Some k \<Rightarrow> ret (TNative k)
     | None \<Rightarrow>
         bnd (lift (ok_or (Resolution ''method has no code'') (m_code m))) (\<lambda>ci.
         bnd (lift (omap_err from_dex_error (decode_all (code_insns ci)))) (\<lambda>d.
         ret (TBytecode c slot d (Some ci) (ins_size ci) (registers_size ci) (m_ret m) (m_args m)
                (static_method m)))))"

definition resolve_target :: "tables \<Rightarrow> invoke_kind \<Rightarrow> method_ref \<Rightarrow> u32 option \<Rightarrow> u32 \<Rightarrow> target vm_act" where
  "resolve_target T kind mref receiver current =
     (let key = (mr_name mref, mr_sig mref) in
      bnd (target_start T kind mref receiver current) (\<lambda>c0.
      bnd (dispatch_walk 2 T key c0) (\<lambda>(found, c).
      bnd (case found of Some k \<Rightarrow> ret (Some k) | None \<Rightarrow> search_interfaces c0 key) (\<lambda>found.
      case found of
        Some (fc, slot) \<Rightarrow> method_target fc slot
      | None \<Rightarrow>
          bnd (str_of (mr_name mref)) (\<lambda>n. bnd (str_of (mr_sig mref)) (\<lambda>sg.
          bnd (the_class c0) (\<lambda>k0. bnd (str_of (descriptor k0)) (\<lambda>d0.
          bnd (the_class c) (\<lambda>k. bnd (str_of (descriptor k)) (\<lambda>d.
          fail (Resolution (''no method '' @ n @ '' '' @ sg @ '' found (on '' @ d0
                            @ '' starting from '' @ d @ '')''))))))))))))"


section \<open>Assignability\<close>

text \<open>
  \<open>is_assignable_inner\<close>: \<open>rec\<close> is the call one level deeper; the first argument of \<open>assign_walk\<close>
  counts the superclasses still allowed (65, then an error).
\<close>

fun starts_array :: "string \<Rightarrow> bool" where
  "starts_array (CHR ''['' # _) = True"
| "starts_array _ = False"

definition assign_arrays :: "tables \<Rightarrow> (u32 \<Rightarrow> u32 \<Rightarrow> bool vm_act) \<Rightarrow> key2 \<Rightarrow> key2 \<Rightarrow> bool vm_act" where
  "assign_arrays T rec e t = (case e of (edx, elem) \<Rightarrow> case t of (tdx, t_elem) \<Rightarrow>
     bnd (dex_at edx) (\<lambda>ed. bnd (dex_at tdx) (\<lambda>td.
     let e_desc = type_descriptor ed elem; t_desc = type_descriptor td t_elem in
     if e_desc = t_desc then ret True
     else if \<not> starts_array e_desc \<and> length e_desc = 1 \<and> starts_array t_desc then ret False
     else if length e_desc = 1 \<or> length t_desc = 1 then ret False
     else
       bnd (ensure T (ByType edx elem)) (\<lambda>ec. bnd (ensure T (ByType tdx t_elem)) (\<lambda>tc.
       rec ec tc)))))"

fun any_interface :: "(u32 \<Rightarrow> u32 \<Rightarrow> bool vm_act) \<Rightarrow> u32 \<Rightarrow> u32 list \<Rightarrow> bool vm_act" where
  "any_interface rec target [] = ret False"
| "any_interface rec target (i # is) =
     (if i = target then ret True
      else bnd (rec i target) (\<lambda>b. if b then ret True else any_interface rec target is))"

primrec assign_walk :: "nat \<Rightarrow> tables \<Rightarrow> (u32 \<Rightarrow> u32 \<Rightarrow> bool vm_act) \<Rightarrow> u32 \<Rightarrow> key2 option \<Rightarrow>
  u32 option \<Rightarrow> bool vm_act" where
  "assign_walk 0 T rec target t_elem c =
     (case c of None \<Rightarrow> ret False | Some _ \<Rightarrow> fail (Resolution ''class hierarchy too deep''))"
| "assign_walk (Suc n) T rec target t_elem c =
     (case c of
        None \<Rightarrow> ret False
      | Some cc \<Rightarrow>
          bnd (the_class cc) (\<lambda>cl.
          if cc = target then ret True
          else case array_elem cl of
            Some e \<Rightarrow>
              (case t_elem of
                 Some t \<Rightarrow> assign_arrays T rec e t
               | None \<Rightarrow> ret (target \<in> set (cls_interfaces cl)))
          | None \<Rightarrow>
              bnd (any_interface rec target (cls_interfaces cl)) (\<lambda>b.
              if b then ret True else assign_walk n T rec target t_elem (superclass cl))))"

text \<open>The argument is the number of levels left: the error comes at depth 65.\<close>

primrec assignable :: "nat \<Rightarrow> tables \<Rightarrow> u32 \<Rightarrow> u32 \<Rightarrow> bool vm_act" where
  "assignable 0 T obj_cls target =
     (if obj_cls = target then ret True
      else fail (Resolution (''type graph cycle or too deep in assignability check (class ''
             @ show_nat (unat obj_cls) @ '' -> '' @ show_nat (unat target) @ '')'')))"
| "assignable (Suc n) T obj_cls target =
     (if obj_cls = target then ret True
      else
        bnd (the_class target) (\<lambda>tc.
        assign_walk 65 T (assignable n T) target (array_elem tc) (Some obj_cls)))"

definition is_assignable :: "tables \<Rightarrow> u32 \<Rightarrow> u32 \<Rightarrow> bool vm_act" where
  "is_assignable T obj_cls target = assignable 65 T obj_cls target"

section \<open>Throwables\<close>

text \<open>A class that does not load becomes class 0.\<close>

definition throwable_of :: "tables \<Rightarrow> string \<Rightarrow> string \<Rightarrow> u32 vm_act" where
  "throwable_of T desc m =
     bnd (catch (ensure_class_by_desc T desc) (\<lambda>_. ret 0)) (\<lambda>c.
     alloc_obj c [] (Some (Throwable (Some m) VNull)))"

definition err_npe :: "tables \<Rightarrow> u32 vm_act" where
  "err_npe T = throwable_of T ''Ljava/lang/NullPointerException;'' []"

definition err_arithmetic :: "tables \<Rightarrow> string \<Rightarrow> u32 vm_act" where
  "err_arithmetic T m = throwable_of T ''Ljava/lang/ArithmeticException;'' m"

definition err_aioobe :: "tables \<Rightarrow> i32 \<Rightarrow> i32 \<Rightarrow> u32 vm_act" where
  "err_aioobe T idx len = throwable_of T ''Ljava/lang/ArrayIndexOutOfBoundsException;''
     (''Index '' @ show_int (sint idx) @ '' out of bounds for length '' @ show_int (sint len))"

definition err_cce :: "tables \<Rightarrow> string \<Rightarrow> u32 vm_act" where
  "err_cce T m = throwable_of T ''Ljava/lang/ClassCastException;'' m"

definition err_neg_arr_size :: "tables \<Rightarrow> u32 vm_act" where
  "err_neg_arr_size T = throwable_of T ''Ljava/lang/NegativeArraySizeException;'' []"

section \<open>Invocation helpers\<close>

definition call_target :: "host \<Rightarrow> runner \<Rightarrow> target \<Rightarrow> jvalue list \<Rightarrow> jvalue vm_act" where
  "call_target H run t args =
     (case t of
        TNative k \<Rightarrow> bnd (native_fn k) (\<lambda>f. run_native H f args)
      | TBytecode c slot _ _ _ _ _ _ _ \<Rightarrow> run c slot args)"

definition name_ref :: "string \<Rightarrow> string \<Rightarrow> u32 \<Rightarrow> method_ref vm_act" where
  "name_ref name sg cd =
     bnd (intern name) (\<lambda>n. bnd (intern sg) (\<lambda>sig.
     ret \<lparr>mr_name = n, mr_sig = sig, mr_ret = 0, mr_args = [], mr_class_desc = cd\<rparr>))"

definition invoke_virtual_args :: "host \<Rightarrow> runner \<Rightarrow> jvalue \<Rightarrow> string \<Rightarrow> string \<Rightarrow> jvalue list \<Rightarrow> jvalue vm_act" where
  "invoke_virtual_args H run receiver name sg args =
     bnd (name_ref name sg 0) (\<lambda>mref.
     if is_null receiver then fail (Fatal ''invoke_virtual on null'')
     else
       bnd (unwrap (as_obj receiver)) (\<lambda>r.
       bnd (resolve_target (tabs H) Virtual mref (Some r) 0) (\<lambda>t.
       call_target H run t (receiver # args))))"

definition invoke_virtual :: "host \<Rightarrow> runner \<Rightarrow> jvalue \<Rightarrow> string \<Rightarrow> string \<Rightarrow> jvalue vm_act" where
  "invoke_virtual H run receiver name sg = invoke_virtual_args H run receiver name sg []"

definition invoke_static :: "host \<Rightarrow> runner \<Rightarrow> string \<Rightarrow> string \<Rightarrow> string \<Rightarrow> jvalue list \<Rightarrow> jvalue vm_act" where
  "invoke_static H run class_desc name sg args =
     bnd (name_ref name sg 0) (\<lambda>mref.
     bnd (intern class_desc) (\<lambda>cd.
     bnd (resolve_target (tabs H) Static (mref\<lparr>mr_class_desc := cd\<rparr>) None 0) (\<lambda>t.
     call_target H run t args)))"

text \<open>\<open>alloc_native\<close>, and \<open>boxed\<close> of the native module, which is the same allocation.\<close>

definition alloc_native :: "tables \<Rightarrow> string \<Rightarrow> native \<Rightarrow> jvalue vm_act" where
  "alloc_native T desc n =
     bnd (ensure_class_by_desc T desc) (\<lambda>c. bnd (alloc_obj c [] (Some n)) (\<lambda>i. ret (VObj i)))"

section \<open>Finding the entry class of an extension\<close>

text \<open>The first loaded class with a method of the name.\<close>

definition has_method_named :: "vm \<Rightarrow> string \<Rightarrow> jclass \<Rightarrow> bool" where
  "has_method_named s name c =
     (\<exists>m \<in> set (cls_methods c). nth_opt (intern_tab s) (unat (m_name m)) = Some name)"

definition find_class_with_method :: "string \<Rightarrow> string option vm_act" where
  "find_class_with_method name =
     bnd (asks (\<lambda>s. List.find (has_method_named s name) (vm_classes s))) (\<lambda>m. case m of
       None \<Rightarrow> ret None
     | Some c \<Rightarrow> bnd (str_of (descriptor c)) (\<lambda>d. ret (Some d)))"

text \<open>The descriptor of a type id, with the empty text for a bad index.\<close>

definition type_str :: "dex_file \<Rightarrow> u32 \<Rightarrow> string option" where
  "type_str d t =
     (case nth_opt (types d) (unat t) of None \<Rightarrow> None | Some i \<Rightarrow> nth_opt (strings d) (unat i))"

definition declares_method :: "dex_file \<Rightarrow> class_def \<Rightarrow> string \<Rightarrow> bool option" where
  "declares_method d cd name =
     (case class_data_of cd of
        None \<Rightarrow> Some False
      | Some k \<Rightarrow>
          (let ms = direct_methods k @ virtual_methods k;
               hit = (\<lambda>m. case nth_opt (methods d) (unat (method_idx m)) of
                        None \<Rightarrow> None
                      | Some mi \<Rightarrow> Some (nth_opt (strings d) (unat (mid_name mi)) = Some name)) in
           (case List.find (\<lambda>m. hit m \<noteq> Some False) ms of None \<Rightarrow> Some False | Some m \<Rightarrow> hit m)))"

fun first_factory :: "dex_file \<Rightarrow> string \<Rightarrow> class_def list \<Rightarrow> class_def option option" where
  "first_factory d name [] = Some None"
| "first_factory d name (cd # cds) =
     (case declares_method d cd name of
        None \<Rightarrow> None
      | Some True \<Rightarrow> Some (Some cd)
      | Some False \<Rightarrow> first_factory d name cds)"

fun factory_from :: "string \<Rightarrow> dex_file list \<Rightarrow> string option option" where
  "factory_from name [] = Some None"
| "factory_from name (d # ds) =
     (case first_factory d name (classes d) of
        None \<Rightarrow> None
      | Some (Some cd) \<Rightarrow>
          Some (Some (case type_str d (class_idx cd) of Some t \<Rightarrow> t | None \<Rightarrow> []))
      | Some None \<Rightarrow> factory_from name ds)"

definition loaded_name :: "tables \<Rightarrow> string \<Rightarrow> string vm_act" where
  "loaded_name T t =
     bnd (ensure_class_by_desc T t) (\<lambda>c. bnd (the_class c) (\<lambda>cl. str_of (descriptor cl)))"

definition find_factory_class :: "tables \<Rightarrow> string \<Rightarrow> string vm_act" where
  "find_factory_class T name =
     bnd (asks dexes) (\<lambda>ds. bnd (unwrap (factory_from name ds)) (\<lambda>m. case m of
       Some t \<Rightarrow> loaded_name T t
     | None \<Rightarrow> fail (Resolution (''no class with method '' @ name @ '' in dex''))))"

text \<open>A concrete subclass of \<open>HttpSource\<close>, at most four superclasses below it.\<close>

abbreviation http_source :: string where
  "http_source \<equiv> ''Leu/kanade/tachiyomi/source/online/HttpSource;''"

definition super_desc :: "dex_file \<Rightarrow> class_def \<Rightarrow> string option" where
  "super_desc d cd = (if superclass_idx cd = - 1 then None else type_str d (superclass_idx cd))"

primrec reaches_http :: "nat \<Rightarrow> dex_file list \<Rightarrow> string option \<Rightarrow> bool" where
  "reaches_http 0 ds sc = False"
| "reaches_http (Suc n) ds sc =
     (case sc of
        None \<Rightarrow> False
      | Some t \<Rightarrow>
          t = http_source \<or>
          reaches_http n ds
            (case location_from 0 t ds of
               None \<Rightarrow> None
             | Some (di, k) \<Rightarrow>
                 (let d = ds ! unat di in super_desc d (classes d ! k))))"

definition http_candidate :: "dex_file list \<Rightarrow> dex_file \<Rightarrow> class_def \<Rightarrow> string option" where
  "http_candidate ds d cd =
     (let t = (case type_str d (class_idx cd) of Some t \<Rightarrow> t | None \<Rightarrow> []) in
      if t \<noteq> http_source \<and> reaches_http 4 ds (super_desc d cd)
         \<and> cd_access_flags cd AND ACC_ABSTRACT = 0
      then Some t else None)"

text \<open>\<open>sort_by_key\<close> is stable: the entry classes come first, in order.\<close>

definition is_entry :: "string \<Rightarrow> bool" where
  "is_entry t \<longleftrightarrow> drop (length t - 19) t = ''ExtensionGenerated;''"

definition http_candidates :: "dex_file list \<Rightarrow> string list" where
  "http_candidates ds =
     (let cs = concat (map (\<lambda>d. List.map_filter (http_candidate ds d) (classes d)) ds) in
      filter is_entry cs @ filter (\<lambda>t. \<not> is_entry t) cs)"

definition find_http_source_subclass :: "tables \<Rightarrow> string vm_act" where
  "find_http_source_subclass T =
     bnd (asks (\<lambda>s. http_candidates (dexes s))) (\<lambda>cs. case cs of
       t # _ \<Rightarrow> loaded_name T t
     | [] \<Rightarrow> fail (Resolution ''no HttpSource subclass in dex''))"

section \<open>Registering natives and making a VM\<close>

definition put_native :: "native_entry \<Rightarrow> key3 vm_act" where
  "put_native e =
     bnd (intern (ne_class e)) (\<lambda>c. bnd (intern (ne_name e)) (\<lambda>n. bnd (intern (ne_sig e)) (\<lambda>sig.
     bnd (modify (\<lambda>s. s\<lparr>natives := (natives s)((c, n, sig) \<mapsto> ne_fn e)\<rparr>)) (\<lambda>_.
     ret (c, n, sig)))))"

definition register_natives :: "tables \<Rightarrow> unit vm_act" where
  "register_natives T = bnd (amap put_native (native_entries T)) (\<lambda>_. ret ())"

text \<open>A host native; the method table of a class already loaded is patched.\<close>

definition register_native :: "native_entry \<Rightarrow> unit vm_act" where
  "register_native e =
     bnd (put_native e) (\<lambda>(c, n, sig).
     bnd (modify (\<lambda>s. s\<lparr>host_natives := host_natives s @ [e]\<rparr>)) (\<lambda>_.
     bnd (asks (\<lambda>s. class_by_desc s c)) (\<lambda>m. case m of
       None \<Rightarrow> ret ()
     | Some cid \<Rightarrow>
         bnd (the_class cid) (\<lambda>cl.
         let slot = of_nat (length (cls_methods cl)) in
         bnd (unwrap (parse_sig (ne_sig e))) (\<lambda>(argds, retd).
         bnd (intern retd) (\<lambda>rt. bnd (amap intern argds) (\<lambda>args.
         upd_class cid (\<lambda>k. k\<lparr>cls_methods := cls_methods k @ [native_method slot cid c n sig e rt args],
                              dispatch := (dispatch k)((n, sig) \<mapsto> slot)\<rparr>))))))))"

definition hot_zero :: hot where
  "hot_zero = \<lparr>hot_clinit = 0, hot_init = 0, hot_object = 0, hot_string = 0, hot_throwable = 0,
     hot_npe = 0, hot_arithmetic = 0, hot_aioobe = 0, hot_ioobe = 0, hot_cce = 0, hot_nas = 0,
     hot_uoe = 0, hot_iae = 0, hot_string_builder = 0, hot_class = 0, hot_default_ctor_marker = 0\<rparr>"

definition vm_empty :: "dex_file list \<Rightarrow> vm" where
  "vm_empty ds = \<lparr>dexes = ds, intern_tab = [], intern_map = Map.empty, vm_classes = [],
     class_by_desc = Map.empty, class_by_type = Map.empty, heap = arena_empty, string_objs = [],
     runtime_strings = [], natives = Map.empty, monitors = [], method_refs = Map.empty,
     field_refs = Map.empty, budget = 50000000, depth_limit = 700, recursion_depth = 0,
     trace_ring = [], hot_ids = hot_zero, frames = [], host_natives = [],
     array_classes = Map.empty, loading = []\<rparr>"

definition set_hot :: "(u32 \<Rightarrow> hot \<Rightarrow> hot) \<Rightarrow> u32 \<Rightarrow> unit vm_act" where
  "set_hot g i = modify (\<lambda>s. s\<lparr>hot_ids := g i (hot_ids s)\<rparr>)"

definition hot_intern :: "string \<Rightarrow> (u32 \<Rightarrow> hot \<Rightarrow> hot) \<Rightarrow> unit vm_act" where
  "hot_intern str g = bnd (intern str) (set_hot g)"

definition boot :: "tables \<Rightarrow> unit vm_act" where
  "boot T =
     bnd (hot_intern ''<clinit>'' (\<lambda>i h. h\<lparr>hot_clinit := i\<rparr>)) (\<lambda>_.
     bnd (hot_intern ''<init>'' (\<lambda>i h. h\<lparr>hot_init := i\<rparr>)) (\<lambda>_.
     bnd (hot_intern ''Ljava/lang/Object;'' (\<lambda>i h. h\<lparr>hot_object := i\<rparr>)) (\<lambda>_.
     bnd (intern ''Ljava/lang/String;'') (\<lambda>d.
     bnd (ensure T (ByDesc d)) (\<lambda>c.
     bnd (set_hot (\<lambda>i h. h\<lparr>hot_string := i\<rparr>) c) (\<lambda>_.
     bnd (hot_intern ''Ljava/lang/Throwable;'' (\<lambda>i h. h\<lparr>hot_throwable := i\<rparr>)) (\<lambda>_.
     bnd (hot_intern ''Ljava/lang/NullPointerException;'' (\<lambda>i h. h\<lparr>hot_npe := i\<rparr>)) (\<lambda>_.
     bnd (hot_intern ''Ljava/lang/ArithmeticException;'' (\<lambda>i h. h\<lparr>hot_arithmetic := i\<rparr>)) (\<lambda>_.
     bnd (hot_intern ''Ljava/lang/ArrayIndexOutOfBoundsException;'' (\<lambda>i h. h\<lparr>hot_aioobe := i\<rparr>)) (\<lambda>_.
     bnd (hot_intern ''Ljava/lang/IndexOutOfBoundsException;'' (\<lambda>i h. h\<lparr>hot_ioobe := i\<rparr>)) (\<lambda>_.
     bnd (hot_intern ''Ljava/lang/ClassCastException;'' (\<lambda>i h. h\<lparr>hot_cce := i\<rparr>)) (\<lambda>_.
     bnd (hot_intern ''Ljava/lang/NegativeArraySizeException;'' (\<lambda>i h. h\<lparr>hot_nas := i\<rparr>)) (\<lambda>_.
     bnd (hot_intern ''Ljava/lang/UnsupportedOperationException;'' (\<lambda>i h. h\<lparr>hot_uoe := i\<rparr>)) (\<lambda>_.
     bnd (hot_intern ''Ljava/lang/IllegalArgumentException;'' (\<lambda>i h. h\<lparr>hot_iae := i\<rparr>)) (\<lambda>_.
     bnd (hot_intern ''Ljava/lang/StringBuilder;'' (\<lambda>i h. h\<lparr>hot_string_builder := i\<rparr>)) (\<lambda>_.
     bnd (hot_intern ''Ljava/lang/Class;'' (\<lambda>i h. h\<lparr>hot_class := i\<rparr>)) (\<lambda>_.
     bnd (hot_intern ''Lkotlin/jvm/internal/DefaultConstructorMarker;''
            (\<lambda>i h. h\<lparr>hot_default_ctor_marker := i\<rparr>)) (\<lambda>_.
     bnd object_id (\<lambda>o'. bnd (ensure T (ByDesc o')) (\<lambda>_.
     register_natives T))))))))))))))))))))"

definition vm_new :: "tables \<Rightarrow> dex_file list \<Rightarrow> (jvm_error, vm) outcome" where
  "vm_new T ds = (case boot T (vm_empty ds) of (r, s) \<Rightarrow> obind r (\<lambda>_. Ok s))"

end
