(* ===== verification/LinkInv.thy ===== *)
theory LinkInv
  imports Resolve
begin

text \<open>
  Invariants of the linker. The locale \<open>link_inv\<close> is the interface between the primitive writes
  of the linker and its operations: a predicate on the machine that every primitive write keeps
  is kept by loading, resolution, dispatch and assignability as a whole. Its interpretations
  give what linking never touches, and what only grows.
\<close>

section \<open>The interface\<close>

locale intern_inv =
  fixes I :: "vm \<Rightarrow> bool"
  assumes I_intern: "keeps I (intern str)"

locale object_inv = intern_inv +
  assumes I_alloc_obj: "keeps I (alloc_obj i fs n)"
    and I_strings: "I s \<Longrightarrow> I (s\<lparr>runtime_strings := a\<rparr>)" "I s \<Longrightarrow> I (s\<lparr>string_objs := b\<rparr>)"

locale link_inv = object_inv +
  assumes I_push_class: "keeps I (push_class c)"
    and I_upd_class: "keeps I (upd_class i f)"
    and I_set_by_desc: "keeps I (set_by_desc d i)"
    and I_set_by_type: "keeps I (set_by_type dx t i)"
    and I_tables: "I s \<Longrightarrow> I (s\<lparr>array_classes := g\<rparr>)" "I s \<Longrightarrow> I (s\<lparr>loading := ld\<rparr>)"
      "I s \<Longrightarrow> I (s\<lparr>method_refs := h\<rparr>)" "I s \<Longrightarrow> I (s\<lparr>field_refs := k\<rparr>)"

text \<open>A case distinction on a leading bracket.\<close>

lemma keeps_bracket [keeps_intros]:
  "(\<And>e. keeps I (p e)) \<Longrightarrow> keeps I q \<Longrightarrow> keeps I (case d of CHR ''['' # e \<Rightarrow> p e | _ \<Rightarrow> q)"
  by (auto split: list.splits char.splits bool.splits)

lemma keeps_Let [keeps_intros]: "keeps I (f x) \<Longrightarrow> keeps I (Let x f)"
  by simp

lemma keeps_modifyI [keeps_intros]: "(\<And>s. I s \<Longrightarrow> I (g s)) \<Longrightarrow> keeps I (modify g)"
  by (rule keeps_modify)

context intern_inv
begin

lemmas intern_kept [keeps_intros] = I_intern

lemma reads [keeps_intros]:
  "keeps I (str_of i)" "keeps I (the_class c)" "keeps I (dex_at dx)" "keeps I (the_object i)"
  "keeps I (the_method c slot)" "keeps I object_id" "keeps I class_count"
  "keeps I (class_location desc)" "keeps I (proto_sig d p)" "keeps I (shim_or_native T desc)"
  "keeps I (class_desc_str c)" "keeps I (payload_of v)" "keeps I (object_class v)"
  unfolding str_of_def the_class_def dex_at_def the_object_def the_method_def object_id_def
    class_count_def class_location_def proto_sig_def shim_or_native_def class_desc_str_def
    payload_of_def object_class_def
  by (intro keeps_intros)+

lemma members_kept [keeps_intros]:
  "keeps I (superclass_data sc)" "keeps I (field_name_ty dx fidx)" "keeps I (add_static dx c acc ef)"
  "keeps I (add_instance dx acc2 ef')" "keeps I (add_method dx c acc' em)"
  "keeps I (add_native c desc_id acc' ne)" "keeps I (add_shim_method c desc_id acc' ne)"
  "keeps I (add_shim_static c acc'' sd)" "keeps I (add_shim_field acc3 sf)"
proof -
  show "keeps I (superclass_data sc)"
    unfolding superclass_data_def by (intro keeps_intros)
  show f: "keeps I (field_name_ty dx fidx)" for dx fidx
    unfolding field_name_ty_def by (intro keeps_intros)
  show "keeps I (add_static dx c acc ef)"
    unfolding add_static_def by (intro keeps_intros f)
  show "keeps I (add_instance dx acc2 ef')"
    unfolding add_instance_def by (intro keeps_intros f)
  show "keeps I (add_method dx c acc' em)"
    unfolding add_method_def by (intro keeps_intros)
  show "keeps I (add_native c desc_id acc' ne)"
    unfolding add_native_def by (intro keeps_intros)
  show "keeps I (add_shim_method c desc_id acc' ne)"
    unfolding add_shim_method_def by (intro keeps_intros)
  show "keeps I (add_shim_static c acc'' sd)"
    unfolding add_shim_static_def by (cases "snd (snd sd)") (auto intro!: keeps_intros split: prod.splits)
  show "keeps I (add_shim_field acc3 sf)"
    unfolding add_shim_field_def by (intro keeps_intros)
qed

end

context object_inv
begin

lemmas object_prims [keeps_intros] = I_alloc_obj I_strings

lemma strings_kept [keeps_intros]: "keeps I (alloc_string str)" "keeps I (dex_string dx sid)"
  unfolding alloc_string_def dex_string_def by (intro keeps_intros; assumption)+

end

context link_inv
begin

lemmas link_prims [keeps_intros] =
  I_push_class I_upd_class I_set_by_desc I_set_by_type I_tables

text \<open>The loader, for any recursive call \<open>ens\<close> that keeps the invariant.\<close>

lemma by_name_kept: "(\<And>req. keeps I (ens req)) \<Longrightarrow> keeps I (ensure_by_name ens desc)"
  unfolding ensure_by_name_def by (intro keeps_intros) auto

lemma array_kept:
  assumes "\<And>req. keeps I (ens req)"
  shows "keeps I (push_array_class ens d e)" "keeps I (array_class ens dx t)"
    "keeps I (synth_array_class ens d)"
proof -
  show p: "keeps I (push_array_class ens d e)" for d e
    unfolding push_array_class_def by (intro keeps_intros by_name_kept assms)
  show "keeps I (array_class ens dx t)"
    unfolding array_class_def by (intro keeps_intros p; assumption)
  show "keeps I (synth_array_class ens d)"
    unfolding synth_array_class_def by (intro keeps_intros p)
qed

lemma class_obj_kept:
  assumes "\<And>req. keeps I (ens req)"
  shows "keeps I (class_obj ens c)"
  unfolding class_obj_def by (intro keeps_intros by_name_kept assms)

lemma enc_kept:
  assumes "\<And>req. keeps I (ens req)"
  shows "keeps I (enc_to_value ens dx ev)"
  by (cases ev) (simp_all add: enc_to_value_def, (intro keeps_intros class_obj_kept assms)+)

lemma load_members_kept:
  assumes "\<And>req. keeps I (ens req)"
  shows "keeps I (load_members T ens dx df c desc_id desc sc)"
  unfolding load_members_def set_static_value_def
  by (intro keeps_intros enc_kept assms)

lemma load_dex_class_kept:
  assumes "\<And>req. keeps I (ens req)"
  shows "keeps I (load_dex_class T ens dx k)"
  unfolding load_dex_class_def
  by (intro keeps_intros load_members_kept assms; assumption)

lemma load_shim_class_kept:
  assumes "\<And>req. keeps I (ens req)"
  shows "keeps I (load_shim_class T ens d)"
  unfolding load_shim_class_def by (intro keeps_intros by_name_kept assms)

lemma ensure_depth_kept: "keeps I (ensure_depth n T req)"
proof (induction n arbitrary: req)
  case 0
  show ?case by (simp add: keeps_def)
next
  case (Suc n)
  show ?case
    by (cases req) (simp_all add: ensure_by_type_def ensure_by_desc_def,
      (intro keeps_intros array_kept load_dex_class_kept load_shim_class_kept Suc.IH)+)
qed

lemma ensure_kept [keeps_intros]: "keeps I (ensure T req)"
  using ensure_depth_kept by (simp add: ensure_def keeps_def)

lemmas ensure_rules = by_name_kept array_kept class_obj_kept enc_kept

lemma ensure_more [keeps_intros]:
  "keeps I (ensure_class_by_desc T desc)" "keeps I (array_class (ensure T) dx t)"
  "keeps I (class_obj (ensure T) c)"
  unfolding ensure_class_by_desc_def by (intro ensure_rules keeps_intros)+

end

text \<open>
  What resolution and execution need of the linker: loads as a whole, the caches of references,
  and updates of a class that leave its place in the hierarchy and its methods alone.
\<close>

definition keeps_links :: "(jclass \<Rightarrow> jclass) \<Rightarrow> bool" where
  "keeps_links f \<longleftrightarrow> (\<forall>k. superclass (f k) = superclass k \<and> cls_interfaces (f k) = cls_interfaces k
     \<and> is_interface (f k) = is_interface k)"

definition keeps_members :: "(jclass \<Rightarrow> jclass) \<Rightarrow> bool" where
  "keeps_members f \<longleftrightarrow> keeps_links f \<and> (\<forall>k. cls_methods (f k) = cls_methods k)"

locale resolve_inv = object_inv +
  assumes I_ensure: "keeps I (ensure T req)"
    and I_array_class: "keeps I (array_class (ensure T) dx t)"
    and I_class_obj: "keeps I (class_obj (ensure T) c)"
    and I_links: "keeps_members f \<Longrightarrow> keeps I (upd_class c f)"
    and I_refs: "I s \<Longrightarrow> I (s\<lparr>method_refs := h\<rparr>)" "I s \<Longrightarrow> I (s\<lparr>field_refs := k\<rparr>)"

sublocale link_inv \<subseteq> resolve_inv
  by unfold_locales (rule ensure_kept ensure_more I_upd_class | erule I_tables)+

context resolve_inv
begin

lemmas ensures_kept [keeps_intros] = I_ensure I_array_class I_class_obj I_refs

lemma by_desc_kept [keeps_intros]: "keeps I (ensure_class_by_desc T desc)"
  unfolding ensure_class_by_desc_def ensure_by_name_def by (intro keeps_intros)

lemma climb_kept [keeps_intros]: "keeps I (climb f c)"
  unfolding climb_def by (intro keeps_intros)

lemma refs_kept [keeps_intros]:
  "keeps I (resolve_field_ref dx fidx)" "keeps I (field_offset c nm ty)"
  "keeps I (static_field_owner c fr)" "keeps I (resolve_method_ref dx midx)"
  unfolding resolve_field_ref_def field_offset_def static_field_owner_def resolve_method_ref_def
  by (intro keeps_intros; assumption)+

lemma dispatch_walk_kept [keeps_intros]: "keeps I (dispatch_walk n T key c)"
proof (induction n arbitrary: c)
  case 0
  show ?case by (simp add: keeps_def)
next
  case (Suc n)
  show ?case by simp (intro keeps_intros Suc.IH)
qed

lemma target_kept [keeps_intros]:
  "keeps I (target_start T kind mref r cur)" "keeps I (method_target c slot)"
  "keeps I (search_interfaces c key)"
  unfolding target_start_def method_target_def search_interfaces_def no_jni_def
  by (intro keeps_intros)+

lemma resolve_target_kept [keeps_intros]: "keeps I (resolve_target T kind mref r cur)"
  unfolding resolve_target_def by (intro keeps_intros)

lemma any_interface_kept: "(\<And>i t. keeps I (rec i t)) \<Longrightarrow> keeps I (any_interface rec t is)"
  by (induction "is") (auto intro!: keeps_intros)

lemma assign_walk_kept:
  "(\<And>i t. keeps I (rec i t)) \<Longrightarrow> keeps I (assign_walk n T rec t te c)"
proof (induction n arbitrary: c)
  case 0
  show ?case by (auto intro!: keeps_intros)
next
  case (Suc n)
  show ?case
    unfolding assign_walk.simps assign_arrays_def
    by (intro keeps_intros any_interface_kept Suc)
qed

lemma assignable_kept: "keeps I (assignable n T c t)"
proof (induction n arbitrary: c t)
  case 0
  show ?case by (auto intro!: keeps_intros)
next
  case (Suc n)
  show ?case unfolding assignable.simps by (intro keeps_intros assign_walk_kept Suc.IH)
qed

lemma is_assignable_kept [keeps_intros]: "keeps I (is_assignable T c t)"
  unfolding is_assignable_def by (rule assignable_kept)

lemma throwable_kept [keeps_intros]:
  "keeps I (throwable_of T d m)" "keeps I (err_npe T)" "keeps I (err_arithmetic T m)"
  "keeps I (err_aioobe T i n)" "keeps I (err_cce T m)" "keeps I (err_neg_arr_size T)"
  "keeps I (alloc_native T d p)"
proof -
  show t: "keeps I (throwable_of T d m)" for d m
    unfolding throwable_of_def by (intro keeps_intros)
  show "keeps I (err_npe T)" "keeps I (err_arithmetic T m)" "keeps I (err_aioobe T i n)"
      "keeps I (err_cce T m)" "keeps I (err_neg_arr_size T)"
    unfolding err_npe_def err_arithmetic_def err_aioobe_def err_cce_def err_neg_arr_size_def
    by (rule t)+
  show "keeps I (alloc_native T d p)" unfolding alloc_native_def by (intro keeps_intros)
qed

end

section \<open>What linking never touches and what only grows\<close>

text \<open>The part of the machine that belongs to the run, not to the linker.\<close>

definition run_part :: "vm \<Rightarrow> frame list \<times> int \<times> nat \<times> nat \<times> string list \<times> (u32 \<times> nat) list" where
  "run_part s = (frames s, budget s, recursion_depth s, depth_limit s, trace_ring s, monitors s)"

definition env_part :: "vm \<Rightarrow> dex_file list \<times> hot \<times> (key3 \<rightharpoonup> nat) \<times> native_entry list" where
  "env_part s = (dexes s, hot_ids s, natives s, host_natives s)"

lemmas prim_defs = push_class_def upd_class_def set_by_desc_def set_by_type_def

lemma keeps_alloc_obj:
  "(\<And>s h. I s \<Longrightarrow> I (s\<lparr>heap := h\<rparr>)) \<Longrightarrow> keeps I (alloc_obj i fs n)"
  by (auto simp: keeps_def alloc_obj_def split: option.split)

lemma keeps_intern:
  "(\<And>s m t. I s \<Longrightarrow> I (s\<lparr>intern_map := m, intern_tab := t\<rparr>)) \<Longrightarrow> keeps I (intern str)"
  by (auto simp: keeps_def intern_def Let_def split: option.split)

interpretation runp: link_inv "\<lambda>s. run_part s = x" for x
  by unfold_locales
    (auto simp: prim_defs run_part_def intro!: keeps_modify keeps_alloc_obj keeps_intern)

interpretation envp: link_inv "\<lambda>s. env_part s = x" for x
  by unfold_locales
    (auto simp: prim_defs env_part_def intro!: keeps_modify keeps_alloc_obj keeps_intern)

text \<open>The class table only grows.\<close>

interpretation grow: link_inv "\<lambda>s. n \<le> length (vm_classes s)" for n
  by unfold_locales
    (auto simp: prim_defs intro!: keeps_modify keeps_alloc_obj keeps_intern)

text \<open>A string keeps its id, and an id its string.\<close>

definition interned :: "string \<Rightarrow> u32 \<Rightarrow> vm \<Rightarrow> bool" where
  "interned str i s \<longleftrightarrow> intern_map s str = Some i"

definition spelled :: "nat \<Rightarrow> string \<Rightarrow> vm \<Rightarrow> bool" where
  "spelled i str s \<longleftrightarrow> nth_opt (intern_tab s) i = Some str"

interpretation ids: link_inv "interned str i" for str i
  by unfold_locales
    (auto simp: prim_defs interned_def intern_def Let_def keeps_def alloc_obj_def modify_def
      split: option.split)

interpretation texts: link_inv "spelled i str" for i str
  by unfold_locales
    (auto simp: prim_defs spelled_def intern_def Let_def keeps_def alloc_obj_def modify_def
      nth_append split: option.split)

end
