(* ===== verification/Arith.thy ===== *)
theory Arith
  imports DexInsn Object "HOL-Library.Signed_Division"
begin

text \<open>
  The arithmetic of the interpreter, \<open>src/src/vm/interpret.rs\<close> from \<open>fcmp\<close> to \<open>binop\<close>, with
  the comparisons, conversions and unary operations its \<open>step\<close> writes inline. A register
  value decides the width of an operation; \<open>binop\<close> returns what the program throws as a
  case of \<open>arith_err\<close>. The properties compare with the arithmetic of the Java language
  (truncating division, wrapping integers, masked shift counts).
\<close>

unbundle bit_operations_syntax

section \<open>Comparisons\<close>

definition flt :: "fp \<Rightarrow> fp \<Rightarrow> bool" where
  "flt a b \<longleftrightarrow> fcompare a b = Some (- 1)"

definition feq :: "fp \<Rightarrow> fp \<Rightarrow> bool" where
  "feq a b \<longleftrightarrow> fcompare a b = Some 0"

definition fcmp :: "fp \<Rightarrow> fp \<Rightarrow> bool \<Rightarrow> i32" where
  "fcmp a b nan_is_gt =
     (if flt a b then - 1 else if flt b a then 1 else if feq a b then 0
      else if nan_is_gt then 1 else - 1)"

fun jval_eq :: "jvalue \<Rightarrow> jvalue \<Rightarrow> bool" where
  "jval_eq (VInt x) (VInt y) = (x = y)"
| "jval_eq (VLong x) (VLong y) = (x = y)"
| "jval_eq (VFloat x) (VFloat y) = (x = y)"
| "jval_eq (VDouble x) (VDouble y) = (x = y)"
| "jval_eq (VObj x) (VObj y) = (x = y)"
| "jval_eq VNull VNull = True"
| "jval_eq _ _ = False"

text \<open>The three-way \<open>cmp\<close> instructions; operands of other types compare equal.\<close>

definition cmp_long :: "i64 \<Rightarrow> i64 \<Rightarrow> i32" where
  "cmp_long x y = (if sint x < sint y then - 1 else if sint x = sint y then 0 else 1)"

definition cmp_vals :: "cmp_op \<Rightarrow> jvalue \<Rightarrow> jvalue \<Rightarrow> i32" where
  "cmp_vals op a b =
     (case (a, b) of
        (VLong x, VLong y) \<Rightarrow> if op = CmpLong then cmp_long x y else 0
      | (VFloat x, VFloat y) \<Rightarrow>
          if op = CmpgFloat then fcmp (f32_of x) (f32_of y) True
          else if op = CmplFloat then fcmp (f32_of x) (f32_of y) False else 0
      | (VDouble x, VDouble y) \<Rightarrow>
          if op = CmpgDouble then fcmp (f64_of x) (f64_of y) True
          else if op = CmplDouble then fcmp (f64_of x) (f64_of y) False else 0
      | _ \<Rightarrow> 0)"

text \<open>The order tests of \<open>if-lt\<close> to \<open>if-le\<close>, on two ints, floats or doubles.\<close>

fun val_less :: "jvalue \<Rightarrow> jvalue \<Rightarrow> bool" where
  "val_less (VInt x) (VInt y) = (sint x < sint y)"
| "val_less (VFloat x) (VFloat y) = flt (f32_of x) (f32_of y)"
| "val_less (VDouble x) (VDouble y) = flt (f64_of x) (f64_of y)"
| "val_less _ _ = False"

fun val_le :: "jvalue \<Rightarrow> jvalue \<Rightarrow> bool" where
  "val_le (VInt x) (VInt y) = (sint x \<le> sint y)"
| "val_le (VFloat x) (VFloat y) = (flt (f32_of x) (f32_of y) \<or> feq (f32_of x) (f32_of y))"
| "val_le (VDouble x) (VDouble y) = (flt (f64_of x) (f64_of y) \<or> feq (f64_of x) (f64_of y))"
| "val_le _ _ = False"

definition if_cond :: "if_op \<Rightarrow> jvalue \<Rightarrow> jvalue \<Rightarrow> bool" where
  "if_cond op a b =
     (case op of
        If_Eq \<Rightarrow> jval_eq a b
      | If_Ne \<Rightarrow> \<not> jval_eq a b
      | If_Lt \<Rightarrow> val_less a b
      | If_Ge \<Rightarrow> val_le b a
      | If_Gt \<Rightarrow> val_less b a
      | If_Le \<Rightarrow> val_le a b
      | _ \<Rightarrow> False)"

text \<open>A value against the zero of its own type.\<close>

fun zero_of :: "jvalue \<Rightarrow> jvalue" where
  "zero_of (VFloat _) = VFloat 0"
| "zero_of (VDouble _) = VDouble 0"
| "zero_of _ = VInt 0"

definition ifz_cond :: "if_op \<Rightarrow> jvalue \<Rightarrow> bool" where
  "ifz_cond op a =
     (case op of
        If_Ez \<Rightarrow> is_zero a
      | If_Nz \<Rightarrow> \<not> is_zero a
      | If_Ltz \<Rightarrow> val_less a (zero_of a)
      | If_Gez \<Rightarrow> val_le (zero_of a) a
      | If_Gtz \<Rightarrow> val_less (zero_of a) a
      | If_Lez \<Rightarrow> val_le a (zero_of a)
      | _ \<Rightarrow> False)"

section \<open>Conversions\<close>

text \<open>\<open>f2i\<close> and \<open>f2l\<close>; \<open>Fin False 1 31\<close> is \<open>2147483648.0\<close>.\<close>

definition trunc_word :: "fp \<Rightarrow> int" where
  "trunc_word x = (case ftrunc x of Some i \<Rightarrow> i | None \<Rightarrow> 0)"

definition f2i :: "fp \<Rightarrow> i32" where
  "f2i x =
     (if x = NaN then 0
      else if flt (Fin False 1 31) x \<or> feq (Fin False 1 31) x then 0x7fffffff
      else if flt x (Fin True 1 31) then 0x80000000
      else word_of_int (trunc_word x))"

definition f2l :: "fp \<Rightarrow> i64" where
  "f2l x =
     (if x = NaN then 0
      else if flt (Fin False 1 63) x \<or> feq (Fin False 1 63) x then 0x7fffffffffffffff
      else if flt x (Fin True 1 63) then 0x8000000000000000
      else word_of_int (trunc_word x))"

text \<open>An operand of another type than the operation's gives the int 0.\<close>

definition on_int :: "(i32 \<Rightarrow> jvalue) \<Rightarrow> jvalue \<Rightarrow> jvalue" where
  "on_int f v = (case v of VInt x \<Rightarrow> f x | _ \<Rightarrow> VInt 0)"

definition on_long :: "(i64 \<Rightarrow> jvalue) \<Rightarrow> jvalue \<Rightarrow> jvalue" where
  "on_long f v = (case v of VLong x \<Rightarrow> f x | _ \<Rightarrow> VInt 0)"

definition on_float :: "(u32 \<Rightarrow> jvalue) \<Rightarrow> jvalue \<Rightarrow> jvalue" where
  "on_float f v = (case v of VFloat x \<Rightarrow> f x | _ \<Rightarrow> VInt 0)"

definition on_double :: "(u64 \<Rightarrow> jvalue) \<Rightarrow> jvalue \<Rightarrow> jvalue" where
  "on_double f v = (case v of VDouble x \<Rightarrow> f x | _ \<Rightarrow> VInt 0)"

definition unop_val :: "unop \<Rightarrow> jvalue \<Rightarrow> jvalue" where
  "unop_val op v =
     (case op of
        NegInt \<Rightarrow> on_int (\<lambda>x. VInt (- x)) v
      | NotInt \<Rightarrow> on_int (\<lambda>x. VInt (NOT x)) v
      | NegLong \<Rightarrow> on_long (\<lambda>x. VLong (- x)) v
      | NotLong \<Rightarrow> on_long (\<lambda>x. VLong (NOT x)) v
      | NegFloat \<Rightarrow> on_float (\<lambda>x. VFloat (x XOR 0x80000000)) v
      | NegDouble \<Rightarrow> on_double (\<lambda>x. VDouble (x XOR 0x8000000000000000)) v
      | IntToLong \<Rightarrow> on_int (\<lambda>x. VLong (scast x)) v
      | IntToFloat \<Rightarrow> on_int (\<lambda>x. VFloat (i32_to_f32 x)) v
      | IntToDouble \<Rightarrow> on_int (\<lambda>x. VDouble (i32_to_f64 x)) v
      | LongToInt \<Rightarrow> on_long (\<lambda>x. VInt (ucast x)) v
      | LongToFloat \<Rightarrow> on_long (\<lambda>x. VFloat (i64_to_f32 x)) v
      | LongToDouble \<Rightarrow> on_long (\<lambda>x. VDouble (i64_to_f64 x)) v
      | FloatToInt \<Rightarrow> on_float (\<lambda>x. VInt (f2i (f32_of x))) v
      | FloatToLong \<Rightarrow> on_float (\<lambda>x. VLong (f2l (f32_of x))) v
      | FloatToDouble \<Rightarrow> on_float (\<lambda>x. VDouble (f32_to_f64 x)) v
      | DoubleToInt \<Rightarrow> on_double (\<lambda>x. VInt (f2i (f64_of x))) v
      | DoubleToLong \<Rightarrow> on_double (\<lambda>x. VLong (f2l (f64_of x))) v
      | DoubleToFloat \<Rightarrow> on_double (\<lambda>x. VFloat (f64_to_f32 x)) v
      | IntToByte \<Rightarrow> on_int (\<lambda>x. VInt (scast (ucast x :: i8))) v
      | IntToChar \<Rightarrow> on_int (\<lambda>x. VInt (ucast (ucast x :: u16))) v
      | IntToShort \<Rightarrow> on_int (\<lambda>x. VInt (scast (ucast x :: i16))) v)"

section \<open>Binary operations\<close>

datatype arith_err = DivZero | BadOperands

definition arith_msg :: "arith_err \<Rightarrow> string" where
  "arith_msg e = (case e of DivZero \<Rightarrow> ''/ by zero'' | BadOperands \<Rightarrow> ''bad binop operands'')"

text \<open>
  \<open>wrapping_div\<close> and \<open>wrapping_rem\<close> truncate towards zero; \<open>MIN / -1\<close> wraps to \<open>MIN\<close>. A shift
  count is masked to the width of the shifted value.
\<close>

definition sdiv_word :: "'a::len word \<Rightarrow> 'a word \<Rightarrow> 'a word" where
  "sdiv_word x y = word_of_int (sint x sdiv sint y)"

definition smod_word :: "'a::len word \<Rightarrow> 'a word \<Rightarrow> 'a word" where
  "smod_word x y = word_of_int (sint x smod sint y)"

definition binop_int :: "binop \<Rightarrow> i32 \<Rightarrow> i32 \<Rightarrow> (arith_err, i32) outcome" where
  "binop_int op x y =
     (let k = unat (y AND 31) in
      case op of
        Add \<Rightarrow> Ok (x + y) | Sub \<Rightarrow> Ok (x - y) | Mul \<Rightarrow> Ok (x * y)
      | Div \<Rightarrow> if y = 0 then Err DivZero else Ok (sdiv_word x y)
      | Rem \<Rightarrow> if y = 0 then Err DivZero else Ok (smod_word x y)
      | And \<Rightarrow> Ok (x AND y) | Or \<Rightarrow> Ok (x OR y) | Xor \<Rightarrow> Ok (x XOR y)
      | Shl \<Rightarrow> Ok (push_bit k x) | Shr \<Rightarrow> Ok (signed_drop_bit k x) | Ushr \<Rightarrow> Ok (drop_bit k x))"

definition binop_long :: "binop \<Rightarrow> i64 \<Rightarrow> i64 \<Rightarrow> (arith_err, i64) outcome" where
  "binop_long op x y =
     (let k = unat ((ucast y :: u32) AND 63) in
      case op of
        Add \<Rightarrow> Ok (x + y) | Sub \<Rightarrow> Ok (x - y) | Mul \<Rightarrow> Ok (x * y)
      | Div \<Rightarrow> if y = 0 then Err DivZero else Ok (sdiv_word x y)
      | Rem \<Rightarrow> if y = 0 then Err DivZero else Ok (smod_word x y)
      | And \<Rightarrow> Ok (x AND y) | Or \<Rightarrow> Ok (x OR y) | Xor \<Rightarrow> Ok (x XOR y)
      | Shl \<Rightarrow> Ok (push_bit k x) | Shr \<Rightarrow> Ok (signed_drop_bit k x) | Ushr \<Rightarrow> Ok (drop_bit k x))"

text \<open>The five float operations on unpacked numbers, as the bits of the result.\<close>

definition binop_float :: "fmt \<Rightarrow> binop \<Rightarrow> fp \<Rightarrow> fp \<Rightarrow> nat option" where
  "binop_float F op x y =
     (case op of
        Add \<Rightarrow> Some (fadd F x y) | Sub \<Rightarrow> Some (fadd F x (fneg y)) | Mul \<Rightarrow> Some (fmul F x y)
      | Div \<Rightarrow> Some (fdiv F x y) | Rem \<Rightarrow> Some (frem F x y) | _ \<Rightarrow> None)"

fun binop_val :: "binop \<Rightarrow> jvalue \<Rightarrow> jvalue \<Rightarrow> (arith_err, jvalue) outcome" where
  "binop_val op (VInt x) (VInt y) = obind (binop_int op x y) (\<lambda>r. Ok (VInt r))"
| "binop_val op (VLong x) (VLong y) = obind (binop_long op x y) (\<lambda>r. Ok (VLong r))"
| "binop_val op (VFloat x) (VFloat y) =
     ok_or BadOperands (map_option (\<lambda>r. VFloat (of_nat r)) (binop_float binary32 op (f32_of x) (f32_of y)))"
| "binop_val op (VDouble x) (VDouble y) =
     ok_or BadOperands (map_option (\<lambda>r. VDouble (of_nat r)) (binop_float binary64 op (f64_of x) (f64_of y)))"
| "binop_val _ _ _ = Err BadOperands"

section \<open>Binary search\<close>

text \<open>\<open>slice::binary_search\<close>: the index of the key, or the place where it would go.\<close>

fun bsearch_base :: "('a \<Rightarrow> 'a \<Rightarrow> bool) \<Rightarrow> 'a list \<Rightarrow> 'a \<Rightarrow> nat \<Rightarrow> nat \<Rightarrow> nat" where
  "bsearch_base gt xs k lo n =
     (if n \<le> 1 then lo
      else
        let half = n div 2; mid = lo + half in
        bsearch_base gt xs k (if gt (xs ! mid) k then lo else mid) (n - half))"

declare bsearch_base.simps [simp del]

definition binary_search :: "('a \<Rightarrow> 'a \<Rightarrow> bool) \<Rightarrow> 'a list \<Rightarrow> 'a \<Rightarrow> nat + nat" where
  "binary_search gt xs k =
     (if xs = [] then Inr 0
      else
        let b = bsearch_base gt xs k 0 (length xs) in
        if xs ! b = k then Inl b else Inr (if gt (xs ! b) k then b else b + 1))"

section \<open>Lemmas\<close>

lemma bsearch_base_correct:
  assumes sorted: "sorted_wrt (\<lambda>a b. \<not> gt a b \<and> gt b a) xs"
    and trans: "\<And>a b. gt a b \<Longrightarrow> \<not> gt b a" "\<And>a. \<not> gt a a"
    and "lo + n \<le> length xs" "0 < n" "j < length xs" "xs ! j = k" "lo \<le> j" "j < lo + n"
  shows "bsearch_base gt xs k lo n = j"
  using assms(4-9)
proof (induction n arbitrary: lo rule: less_induct)
  case (less n)
  show ?case
  proof (cases "n \<le> 1")
    case True
    with less.prems show ?thesis by (simp add: bsearch_base.simps)
  next
    case False
    let ?mid = "lo + n div 2"
    have m: "?mid < length xs" "0 < n div 2" "n div 2 < n" using False less.prems by auto
    have gt: "gt (xs ! ?mid) k \<longleftrightarrow> j < ?mid"
    proof
      assume "j < ?mid"
      then show "gt (xs ! ?mid) k"
        using sorted_wrt_nth_less [OF sorted _ m(1)] less.prems by auto
    next
      assume g: "gt (xs ! ?mid) k"
      show "j < ?mid"
      proof (rule ccontr)
        assume "\<not> j < ?mid"
        then have "j = ?mid \<or> ?mid < j" by auto
        then show False
          using g trans(2) less.prems sorted_wrt_nth_less [OF sorted, of ?mid j] by auto
      qed
    qed
    show ?thesis
    proof (cases "j < ?mid")
      case True
      have "bsearch_base gt xs k lo (n - n div 2) = j"
        using less.prems m True by (intro less.IH) auto
      with True gt False show ?thesis by (simp add: bsearch_base.simps [of gt xs k lo n] Let_def)
    next
      case nlt: False
      have "bsearch_base gt xs k ?mid (n - n div 2) = j"
        using less.prems m nlt by (intro less.IH) auto
      with nlt gt False show ?thesis by (simp add: bsearch_base.simps [of gt xs k lo n] Let_def)
    qed
  qed
qed

lemma bsearch_base_less:
  "0 < n \<Longrightarrow> lo + n \<le> length xs \<Longrightarrow> bsearch_base gt xs k lo n < length xs"
proof (induction n arbitrary: lo rule: less_induct)
  case (less n)
  show ?case
  proof (cases "n \<le> 1")
    case True
    with less.prems show ?thesis by (simp add: bsearch_base.simps)
  next
    case False
    with less.prems show ?thesis
      by (subst bsearch_base.simps) (auto simp: Let_def intro!: less.IH)
  qed
qed

section \<open>The arithmetic of the language\<close>

text \<open>
  The Java operation on mathematical integers at width \<open>w\<close>, before the result wraps: division
  truncates, the sign of a remainder is the dividend's, a shift count is taken modulo \<open>w\<close>.
\<close>

definition java_op :: "nat \<Rightarrow> binop \<Rightarrow> int \<Rightarrow> int \<Rightarrow> int option" where
  "java_op w op x y =
     (let k = nat (y mod int w) in
      case op of
        Add \<Rightarrow> Some (x + y) | Sub \<Rightarrow> Some (x - y) | Mul \<Rightarrow> Some (x * y)
      | Div \<Rightarrow> if y = 0 then None else Some (sgn x * sgn y * (\<bar>x\<bar> div \<bar>y\<bar>))
      | Rem \<Rightarrow> if y = 0 then None else Some (sgn x * (\<bar>x\<bar> mod \<bar>y\<bar>))
      | And \<Rightarrow> Some (x AND y) | Or \<Rightarrow> Some (x OR y) | Xor \<Rightarrow> Some (x XOR y)
      | Shl \<Rightarrow> Some (x * 2 ^ k) | Shr \<Rightarrow> Some (x div 2 ^ k)
      | Ushr \<Rightarrow> Some (x mod 2 ^ w div 2 ^ k))"

lemma sint_low: "n \<le> LENGTH('a) \<Longrightarrow> take_bit n (sint y) = take_bit n (uint y)" for y :: "'a::len word"
  by (simp add: sint_uint take_bit_signed_take_bit)

lemma unat_low: "n \<le> LENGTH('a) \<Longrightarrow> unat (take_bit n y) = nat (sint y mod 2 ^ n)" for y :: "'a::len word"
  using sint_low [of n y]
  by (simp flip: take_bit_eq_mod add: unat_eq_nat_uint unsigned_take_bit_eq)

lemma and_mask:
  "y AND 31 = take_bit 5 y" "y AND 63 = take_bit 6 y" for y :: "'a::len word"
  by (simp_all add: take_bit_eq_mask mask_eq_exp_minus_1)

lemma shift_count32: "unat (y AND 31) = nat (sint y mod 32)" for y :: "32 word"
  using unat_low [of 5 y] by (simp add: and_mask)

lemma shift_count64: "unat ((ucast y :: 32 word) AND 63) = nat (sint y mod 64)" for y :: "64 word"
proof -
  have "unat ((ucast y :: 32 word) AND 63) = unat (take_bit 6 y)"
    by (simp add: and_mask unsigned_take_bit_eq unsigned_ucast_eq)
  then show ?thesis using unat_low [of 6 y] by simp
qed

lemma word_of_sint_ops:
  fixes x y :: "'a::len word"
  shows "word_of_int (sint x AND sint y) = x AND y" "word_of_int (sint x OR sint y) = x OR y"
    "word_of_int (sint x XOR sint y) = x XOR y"
  by (simp_all add: of_int_and_eq of_int_or_eq of_int_xor_eq)

lemma shifts_of_sint:
  fixes x :: "'a::len word"
  shows "word_of_int (sint x * 2 ^ k) = push_bit k x"
    "word_of_int (sint x div 2 ^ k) = signed_drop_bit k x"
    "word_of_int (sint x mod 2 ^ LENGTH('a) div 2 ^ k) = drop_bit k x"
proof -
  show "word_of_int (sint x * 2 ^ k) = push_bit k x" by (simp add: push_bit_eq_mult)
  have "sint (signed_drop_bit k x) = sint x div 2 ^ k"
    by (simp add: sint_signed_drop_bit_eq drop_bit_eq_div)
  then show "word_of_int (sint x div 2 ^ k) = signed_drop_bit k x"
    by (metis of_int_sint scast_id)
  have tb: "take_bit LENGTH('a) (uint x) = uint x" by (rule take_bit_int_eq_self) simp_all
  have low: "uint x = sint x mod 2 ^ LENGTH('a)"
    using sint_low [of "LENGTH('a)" x] tb by (simp only: take_bit_eq_mod)
  have "uint (drop_bit k x) = drop_bit k (uint x)" by (simp only: unsigned_drop_bit_eq tb)
  then have "uint (drop_bit k x) = sint x mod 2 ^ LENGTH('a) div 2 ^ k"
    by (simp only: low drop_bit_eq_div)
  then show "word_of_int (sint x mod 2 ^ LENGTH('a) div 2 ^ k) = drop_bit k x"
    by (metis word_of_int_uint)
qed

lemmas java_simps = java_op_def sdiv_word_def smod_word_def signed_modulo_int_def signed_divide_int_def signed_eq_0_iff
  word_of_sint_ops shift_count32 shift_count64

section \<open>Properties\<close>

text \<open>
  C11: Integer arithmetic is Java's. Every binary operation on two int registers throws the
  division-by-zero error exactly when the operation has no value, and otherwise puts the
  mathematical result, wrapped to 32 bits, in the register; \<open>MIN_VALUE / -1\<close> wraps too.
\<close>

theorem binop_int_java:
  "binop_val op (VInt x) (VInt y) =
     (case java_op 32 op (sint x) (sint y) of
        None \<Rightarrow> Err DivZero
      | Some r \<Rightarrow> Ok (VInt (word_of_int r)))"
  using shifts_of_sint [of x]
  by (cases op) (simp_all add: binop_int_def java_simps Let_def)

text \<open>Whether an operation shifts: its count is then an int, at both widths.\<close>

definition is_shift :: "binop \<Rightarrow> bool" where
  "is_shift op \<longleftrightarrow> op \<in> {Shl, Shr, Ushr}"

text \<open>
  C12: Long arithmetic is Java's at 64 bits, except that no shift works. Every operation other
  than a shift takes two long registers; it throws the division-by-zero error exactly when it has
  no value, and otherwise gives the mathematical result wrapped to 64 bits. A shift takes a long
  register and, as in all bytecode, an int register with the count (\<open>shl-long\<close>, \<open>shr-long\<close> and
  \<open>ushr-long\<close>, opcodes 0xa3 to 0xa5 and their two-address forms, decode to the same three
  operations): whatever the values, the outcome is not Java's but an \<open>ArithmeticException\<close> with
  the text \<open>bad binop operands\<close>.
\<close>

theorem binop_long_java:
  "if is_shift op then binop_val op (VLong x) (VInt k) = Err BadOperands
   else binop_val op (VLong x) (VLong y) =
     (case java_op 64 op (sint x) (sint y) of
        None \<Rightarrow> Err DivZero
      | Some r \<Rightarrow> Ok (VLong (word_of_int r)))"
  using shifts_of_sint [of x]
  by (cases op) (simp_all add: is_shift_def binop_long_def java_simps Let_def)

text \<open>The long shifts of bytecode always fail: the code has them for two longs only.\<close>

theorem long_shift_throws:
  "op \<in> {Shl, Shr, Ushr} \<Longrightarrow> binop_val op (VLong x) (VInt k) = Err BadOperands"
  by auto

theorem long_shift_throws_witness: "binop_val Shl (VLong 1) (VInt 3) = Err BadOperands"
  by (rule long_shift_throws) simp

text \<open>
  Comparing a reference with a null constant is wrong. The null constant is the int 0
  (\<open>const/4 v, 0\<close>), an uninitialised field or a returned null is \<open>Null\<close>: both are null to
  \<open>is_null_ref\<close> and \<open>if-eqz\<close> takes the branch for both, but \<open>if-eq\<close> finds them different.
\<close>

theorem null_zero_differ:
  "is_null_ref VNull \<and> is_null_ref (VInt 0) \<and>
   ifz_cond If_Ez VNull \<and> ifz_cond If_Ez (VInt 0) \<and>
   \<not> if_cond If_Eq VNull (VInt 0) \<and> if_cond If_Ne VNull (VInt 0)"
  by (simp add: ifz_cond_def if_cond_def)

end
