(* ===== verification/Interp.thy ===== *)
theory Interp
  imports Resolve Arith
begin

text \<open>
  The interpreter core, \<open>src/src/vm/interpret.rs\<close>: registers, one step per instruction group,
  the search for an exception handler, the frame stack, the loop and the entry point \<open>run\<close>.
  A step takes the frame and returns it updated. The entry point is an argument of a step
  (class initialisation and natives come back to it), and \<open>interp\<close> ties the knot with one unit
  of fuel per loop iteration and per entry. The trace and debug output is not modelled.
\<close>

section \<open>Registers\<close>

text \<open>A register out of range is a panic.\<close>

definition reg :: "frame \<Rightarrow> nat \<Rightarrow> jvalue vm_act" where
  "reg f i = unwrap (nth_opt (regs f) i)"

definition set_reg :: "frame \<Rightarrow> nat \<Rightarrow> jvalue \<Rightarrow> frame vm_act" where
  "set_reg f i v =
     (if i < length (regs f) then ret (f\<lparr>regs := (regs f)[i := v]\<rparr>) else panic)"

definition arg_reg :: "frame \<Rightarrow> args \<Rightarrow> u8 \<Rightarrow> jvalue vm_act" where
  "arg_reg f a i = bnd (unwrap (reg_at a i)) (reg f)"

text \<open>
  \<open>Frame::make_regs\<close>: the arguments in the last \<open>ins\<close> registers. With fewer registers than
  that the first argument lands out of range.
\<close>

definition make_regs :: "jvalue list \<Rightarrow> u16 \<Rightarrow> u16 \<Rightarrow> jvalue list option" where
  "make_regs args ins registers =
     (let n = unat registers; k = unat ins; as = take k args; base = n - k in
      if as = [] then Some (replicate n VNull)
      else if n < k then None
      else Some (replicate base VNull @ as @ replicate (k - length as) VNull))"

datatype flow =
    Next nat | Jump nat | FRet jvalue | FCall invoke_kind method_ref target args nat

datatype step_outcome = Done flow | Thrown jvalue

type_synonym step_act = "(step_outcome \<times> frame) vm_act"

definition go_on :: "frame \<Rightarrow> step_act" where
  "go_on f = ret (Done (Next 0), f)"

definition set_go :: "frame \<Rightarrow> u8 \<Rightarrow> jvalue \<Rightarrow> step_act" where
  "set_go f d v = bnd (set_reg f (unat d) v) go_on"

definition jump_to :: "frame \<Rightarrow> u32 \<Rightarrow> step_act" where
  "jump_to f t = ret (Done (Jump (unat t)), f)"

definition throw_new :: "u32 vm_act \<Rightarrow> frame \<Rightarrow> step_act" where
  "throw_new mk f = bnd mk (\<lambda>i. ret (Thrown (VObj i), f))"

text \<open>The object in a register, or the \<open>NullPointerException\<close>.\<close>

definition with_obj :: "tables \<Rightarrow> frame \<Rightarrow> u8 \<Rightarrow> (u32 \<Rightarrow> step_act) \<Rightarrow> step_act" where
  "with_obj T f r k =
     bnd (reg f (unat r)) (\<lambda>v. case v of VObj i \<Rightarrow> k i | _ \<Rightarrow> throw_new (err_npe T) f)"

section \<open>Moves, constants and returns\<close>

definition step_move :: "frame \<Rightarrow> insn \<Rightarrow> step_act" where
  "step_move f i =
     (case i of
        Nop \<Rightarrow> go_on f
      | Move d s \<Rightarrow> bnd (reg f (unat s)) (set_go f d)
      | MoveWide d s \<Rightarrow>
          bnd (reg f (unat s)) (\<lambda>v. bnd (set_reg f (unat d) v) (\<lambda>f.
          bnd (reg f (unat s + 1)) (\<lambda>w. bnd (set_reg f (unat d + 1) w) go_on)))
      | MoveResult d \<Rightarrow> set_go f d (result f)
      | MoveResultWide d \<Rightarrow> set_go f d (result f)
      | MoveException d \<Rightarrow>
          set_go (f\<lparr>pending_exc := None\<rparr>) d
            (case pending_exc f of Some v \<Rightarrow> v | None \<Rightarrow> VNull)
      | Return v \<Rightarrow> bnd (reg f (unat v)) (\<lambda>x. ret (Done (FRet x), f))
      | ReturnWide v \<Rightarrow> bnd (reg f (unat v)) (\<lambda>x. ret (Done (FRet x), f))
      | _ \<Rightarrow> ret (Done (FRet VNull), f))"

text \<open>
  The constants. The shifts of the \<open>high16\<close> forms are the interpreter's own; the decoder has
  shifted the literal already.
\<close>

definition const_value :: "insn \<Rightarrow> (u8 \<times> jvalue) option" where
  "const_value i =
     (case i of
        Const4 d l \<Rightarrow> Some (d, VInt (scast l))
      | Const16 d l \<Rightarrow> Some (d, VInt (scast l))
      | Const d l \<Rightarrow> Some (d, VInt l)
      | ConstHigh16 d l \<Rightarrow> Some (d, VInt (push_bit 16 l))
      | ConstWide16 d l \<Rightarrow> Some (d, VLong l)
      | ConstWide32 d l \<Rightarrow> Some (d, VLong l)
      | ConstWide d l \<Rightarrow> Some (d, VLong l)
      | ConstWideHigh16 d l \<Rightarrow> Some (d, VLong (push_bit 32 (ucast (ucast (push_bit 16 l) :: u32))))
      | _ \<Rightarrow> None)"

definition step_string :: "frame \<Rightarrow> u8 \<Rightarrow> u32 \<Rightarrow> step_act" where
  "step_string f d sid =
     bnd (dex_at (f_dex f)) (\<lambda>dx. bnd (unwrap (nth_opt (strings dx) (unat sid))) (\<lambda>str.
     bnd (alloc_string str) (set_go f d)))"

definition step_const :: "tables \<Rightarrow> frame \<Rightarrow> insn \<Rightarrow> step_act" where
  "step_const T f i =
     (case i of
        ConstString d s \<Rightarrow> step_string f d s
      | ConstStringJumbo d s \<Rightarrow> step_string f d s
      | ConstClass d t \<Rightarrow>
          bnd (ensure T (ByType (f_dex f) t)) (\<lambda>c. bnd (class_obj (ensure T) c) (set_go f d))
      | ConstMethodHandle _ _ \<Rightarrow> fail (Fatal ''const-method-handle/type unsupported'')
      | ConstMethodType _ _ \<Rightarrow> fail (Fatal ''const-method-handle/type unsupported'')
      | _ \<Rightarrow>
          (case const_value i of Some (d, v) \<Rightarrow> set_go f d v | None \<Rightarrow> panic))"

section \<open>Objects, arrays and monitors\<close>

definition monitor_count :: "u32 \<Rightarrow> nat vm_act" where
  "monitor_count i = asks (\<lambda>s. case map_of (monitors s) i of Some n \<Rightarrow> n | None \<Rightarrow> 0)"

definition monitor_enter :: "u32 \<Rightarrow> unit vm_act" where
  "monitor_enter i =
     bnd (monitor_count i) (\<lambda>n. modify (\<lambda>s. s\<lparr>monitors := AList.update i (n + 1) (monitors s)\<rparr>))"

definition monitor_exit :: "u32 \<Rightarrow> unit vm_act" where
  "monitor_exit i =
     bnd (monitor_count i) (\<lambda>n. modify (\<lambda>s. s\<lparr>monitors :=
       (if n - 1 = 0 then AList.delete i (monitors s) else AList.update i (n - 1) (monitors s))\<rparr>))"

definition array_of :: "u32 \<Rightarrow> array_data option vm_act" where
  "array_of i =
     bnd (the_object i) (\<lambda>ob. ret (case obj_native ob of Some (Arr a) \<Rightarrow> Some a | _ \<Rightarrow> None))"

definition put_array :: "u32 \<Rightarrow> array_data \<Rightarrow> unit vm_act" where
  "put_array i a = upd_object i (\<lambda>ob. ob\<lparr>obj_native := Some (Arr a)\<rparr>)"

text \<open>The element descriptor of an array type, and the type id of the element if there is one.\<close>

definition strip_array :: "string \<Rightarrow> string option" where
  "strip_array s = (case s of CHR ''['' # e \<Rightarrow> Some e | _ \<Rightarrow> None)"

definition array_elem_desc :: "dex_file \<Rightarrow> u32 \<Rightarrow> string" where
  "array_elem_desc d t =
     (let desc = type_descriptor d t in case strip_array desc of Some e \<Rightarrow> e | None \<Rightarrow> desc)"

definition array_elem_type :: "dex_file \<Rightarrow> u32 \<Rightarrow> u32" where
  "array_elem_type d t =
     (case Option.bind (strip_array (type_descriptor d t)) (type_id_of d) of
        Some i \<Rightarrow> i
      | None \<Rightarrow> t)"

definition new_array :: "tables \<Rightarrow> frame \<Rightarrow> u32 \<Rightarrow> array_data \<Rightarrow> u32 vm_act" where
  "new_array T f t a =
     bnd (dex_at (f_dex f)) (\<lambda>d.
     bnd (array_class (ensure T) (f_dex f) (array_elem_type d t)) (\<lambda>c.
     alloc_obj c [] (Some (Arr a))))"

text \<open>\<open>filled-new-array\<close> reads its registers one by one, skipping the second half of a wide one.\<close>

fun fill_args :: "frame \<Rightarrow> args \<Rightarrow> bool \<Rightarrow> nat \<Rightarrow> u8 \<Rightarrow> nat \<Rightarrow> array_data \<Rightarrow> array_data vm_act" where
  "fill_args f a wide 0 ri i arr = ret arr"
| "fill_args f a wide (Suc n) ri i arr =
     bnd (arg_reg f a ri) (\<lambda>v. bnd (unwrap (array_set arr i v)) (\<lambda>arr.
     fill_args f a wide n (if wide then ri + 2 else ri + 1) (i + 1) arr))"

definition fill_values :: "fill_array \<Rightarrow> jvalue list" where
  "fill_values d =
     (case d of
        FA_Byte xs \<Rightarrow> map (\<lambda>x. VInt (scast x)) xs
      | FA_Short xs \<Rightarrow> map (\<lambda>x. VInt (ucast x)) xs
      | FA_Char xs \<Rightarrow> map (\<lambda>x. VInt (ucast x)) xs
      | FA_Int xs \<Rightarrow> map VInt xs
      | FA_Wide xs \<Rightarrow> map VLong xs)"

fun set_all :: "array_data \<Rightarrow> nat \<Rightarrow> jvalue list \<Rightarrow> array_data option" where
  "set_all a i [] = Some a"
| "set_all a i (v # vs) =
     (case array_set a i v of None \<Rightarrow> None | Some a' \<Rightarrow> set_all a' (i + 1) vs)"

definition fill_array :: "u32 \<Rightarrow> fill_array \<Rightarrow> unit vm_act" where
  "fill_array i d =
     bnd (array_of i) (\<lambda>m. case m of
       None \<Rightarrow> fail (Fatal ''fill-array on non-array'')
     | Some a \<Rightarrow>
         if array_len a < length (fill_values d) then fail (Fatal ''fill-array too long'')
         else bnd (unwrap (set_all a 0 (fill_values d))) (put_array i))"

definition step_object :: "tables \<Rightarrow> frame \<Rightarrow> insn \<Rightarrow> step_act" where
  "step_object T f i =
     (case i of
        MonitorEnter d \<Rightarrow> with_obj T f d (\<lambda>ob. bnd (monitor_enter ob) (\<lambda>_. go_on f))
      | MonitorExit d \<Rightarrow> with_obj T f d (\<lambda>ob. bnd (monitor_exit ob) (\<lambda>_. go_on f))
      | CheckCast d t \<Rightarrow>
          bnd (ensure T (ByType (f_dex f) t)) (\<lambda>target. bnd (reg f (unat d)) (\<lambda>v. case v of
            VObj ob \<Rightarrow>
              bnd (the_object ob) (\<lambda>b.
              bnd (is_assignable T (obj_class b) target) (\<lambda>ok.
              if ok then go_on f
              else
                bnd (class_desc_str (obj_class b)) (\<lambda>cd. bnd (dex_at (f_dex f)) (\<lambda>dx.
                throw_new (err_cce T (cd @ '' cannot be cast to '' @ type_descriptor dx t)) f))))
          | _ \<Rightarrow> go_on f))
      | InstanceOf d s t \<Rightarrow>
          bnd (ensure T (ByType (f_dex f) t)) (\<lambda>target. bnd (reg f (unat s)) (\<lambda>v.
          bnd (case v of
                 VObj ob \<Rightarrow> bnd (the_object ob) (\<lambda>b. is_assignable T (obj_class b) target)
               | _ \<Rightarrow> ret False) (\<lambda>r.
          set_go f d (VInt (int_of_bool r)))))
      | ArrayLength d s \<Rightarrow>
          with_obj T f s (\<lambda>ob. bnd (array_of ob) (\<lambda>m. case m of
            Some a \<Rightarrow> set_go f d (VInt (of_nat (array_len a)))
          | None \<Rightarrow> fail (Fatal ''array-length on non-array'')))
      | NewInstance d t \<Rightarrow>
          bnd (ensure T (ByType (f_dex f) t)) (\<lambda>c. bnd (the_class c) (\<lambda>cl.
          bnd (alloc_obj c (replicate (length (field_offsets cl)) VNull) None) (\<lambda>ob.
          set_go f d (VObj ob))))
      | NewArray d n t \<Rightarrow>
          bnd (reg f (unat n)) (\<lambda>v. bnd (unwrap (as_int v)) (\<lambda>k.
          if sint k < 0 then throw_new (err_neg_arr_size T) f
          else
            bnd (dex_at (f_dex f)) (\<lambda>dx.
            bnd (new_array T f t (array_new (array_elem_desc dx t) (unat k))) (\<lambda>ob.
            set_go f d (VObj ob)))))
      | FilledNewArray a t \<Rightarrow>
          bnd (dex_at (f_dex f)) (\<lambda>dx.
          let e = array_elem_desc dx t; n = unat (count a) in
          bnd (fill_args f a (is_wide_desc e) n 0 0 (array_new e n)) (\<lambda>arr.
          bnd (new_array T f t arr) (\<lambda>ob. go_on (f\<lparr>result := VObj ob\<rparr>))))
      | FillArrayData d _ fill \<Rightarrow>
          with_obj T f d (\<lambda>ob. bnd (fill_array ob fill) (\<lambda>_. go_on f))
      | Throw d \<Rightarrow>
          bnd (reg f (unat d)) (\<lambda>v.
          if is_null_ref v then throw_new (err_npe T) f else ret (Thrown v, f))
      | _ \<Rightarrow> panic)"

section \<open>Branches\<close>

definition int_gt :: "i32 \<Rightarrow> i32 \<Rightarrow> bool" where
  "int_gt a b \<longleftrightarrow> sint b < sint a"

definition step_branch :: "frame \<Rightarrow> insn \<Rightarrow> step_act" where
  "step_branch f i =
     (case i of
        Goto t \<Rightarrow> jump_to f t
      | PackedSwitch d _ first_key targets \<Rightarrow>
          bnd (reg f (unat d)) (\<lambda>r. bnd (unwrap (as_int r)) (\<lambda>v.
          let idx = v - first_key in
          if 0 \<le> sint idx \<and> unat idx < length targets then jump_to f (targets ! unat idx)
          else go_on f))
      | SparseSwitch d _ keys targets \<Rightarrow>
          bnd (reg f (unat d)) (\<lambda>r. bnd (unwrap (as_int r)) (\<lambda>v.
          case binary_search int_gt keys v of
            Inl k \<Rightarrow> bnd (unwrap (nth_opt targets k)) (jump_to f)
          | Inr _ \<Rightarrow> go_on f))
      | Cmp op d a b \<Rightarrow>
          bnd (reg f (unat a)) (\<lambda>va. bnd (reg f (unat b)) (\<lambda>vb.
          set_go f d (VInt (cmp_vals op va vb))))
      | If op a b t \<Rightarrow>
          bnd (reg f (unat a)) (\<lambda>va. bnd (reg f (unat b)) (\<lambda>vb.
          if if_cond op va vb then jump_to f t else go_on f))
      | IfZ op a t \<Rightarrow>
          bnd (reg f (unat a)) (\<lambda>va. if ifz_cond op va then jump_to f t else go_on f)
      | _ \<Rightarrow> panic)"

section \<open>Array elements and fields\<close>

text \<open>
  \<open>Vm::array_get\<close> and \<open>array_put\<close>: the checked array and index, or the exception. \<open>rd\<close> reads
  the value to store, between the index and the array.
\<close>

definition array_access :: "tables \<Rightarrow> frame \<Rightarrow> u8 \<Rightarrow> u8 \<Rightarrow> jvalue vm_act \<Rightarrow>
  (u32 + u32 \<times> array_data \<times> nat \<times> jvalue) vm_act" where
  "array_access T f ar ix rd =
     bnd (reg f (unat ar)) (\<lambda>v. case v of
       VObj ob \<Rightarrow>
         bnd (reg f (unat ix)) (\<lambda>iv. bnd (unwrap (as_int iv)) (\<lambda>idx.
         bnd rd (\<lambda>x.
         bnd (array_of ob) (\<lambda>m. case m of
           None \<Rightarrow> bnd (err_npe T) (\<lambda>e. ret (Inl e))
         | Some a \<Rightarrow>
             if sint idx < 0 \<or> array_len a \<le> unat idx then
               bnd (err_aioobe T idx (of_nat (array_len a))) (\<lambda>e. ret (Inl e))
             else ret (Inr (ob, a, unat idx, x))))))
     | _ \<Rightarrow> bnd (err_npe T) (\<lambda>e. ret (Inl e)))"

definition stored_elem :: "array_data \<Rightarrow> jvalue \<Rightarrow> jvalue" where
  "stored_elem a v =
     (case a of ObjArr _ \<Rightarrow> if is_null_ref v then VNull else v | _ \<Rightarrow> v)"

definition step_array :: "tables \<Rightarrow> frame \<Rightarrow> insn \<Rightarrow> step_act" where
  "step_array T f i =
     (case i of
        AGet _ d ar ix \<Rightarrow>
          bnd (array_access T f ar ix (ret VNull)) (\<lambda>r. case r of
            Inl e \<Rightarrow> ret (Thrown (VObj e), f)
          | Inr (_, a, k, _) \<Rightarrow> bnd (unwrap (array_get a k)) (set_go f d))
      | APut _ s ar ix \<Rightarrow>
          bnd (array_access T f ar ix (reg f (unat s))) (\<lambda>r. case r of
            Inl e \<Rightarrow> ret (Thrown (VObj e), f)
          | Inr (ob, a, k, v) \<Rightarrow>
              bnd (unwrap (array_set a k (stored_elem a v))) (\<lambda>a'.
              bnd (put_array ob a') (\<lambda>_. go_on f)))
      | _ \<Rightarrow> panic)"

definition field_slot :: "frame \<Rightarrow> u32 \<Rightarrow> u32 \<Rightarrow> (field_ref \<times> nat) vm_act" where
  "field_slot f oc fidx =
     bnd (resolve_field_ref (f_dex f) fidx) (\<lambda>fr.
     bnd (field_offset oc (fr_name fr) (fr_ty fr)) (\<lambda>m. case m of
       Some off' \<Rightarrow> ret (fr, unat off')
     | None \<Rightarrow>
         bnd (str_of (fr_name fr)) (\<lambda>n. bnd (class_desc_str oc) (\<lambda>d.
         fail (Resolution (''no field '' @ n @ '' in '' @ d))))))"

text \<open>What \<open>iput-object\<close> stores: a primitive goes into a field of a box type boxed.\<close>

definition boxed_value :: "tables \<Rightarrow> string \<Rightarrow> jvalue \<Rightarrow> jvalue vm_act" where
  "boxed_value T ty v =
     (case v of
        VInt i \<Rightarrow>
          if ty = ''Ljava/lang/Integer;'' then alloc_native T ty (IntBox i)
          else if ty = ''Ljava/lang/Boolean;'' then alloc_native T ty (BoolBox (i \<noteq> 0))
          else if ty = ''Ljava/lang/Character;'' then alloc_native T ty (CharBox (ucast i))
          else if ty = ''Ljava/lang/Byte;'' then alloc_native T ty (ByteBox (ucast i))
          else if ty = ''Ljava/lang/Short;'' then alloc_native T ty (ShortBox (ucast i))
          else ret v
      | VLong l \<Rightarrow> if ty = ''Ljava/lang/Long;'' then alloc_native T ty (LongBox l) else ret v
      | VFloat x \<Rightarrow>
          if ty = ''Ljava/lang/Float;'' then alloc_native T ty (FloatBox x)
          else if ty = ''Ljava/lang/Double;'' then alloc_native T ty (DoubleBox (f32_to_f64 x))
          else ret v
      | _ \<Rightarrow> ret v)"

definition stored_field :: "tables \<Rightarrow> bool \<Rightarrow> field_ref \<Rightarrow> jvalue \<Rightarrow> jvalue vm_act" where
  "stored_field T is_obj fr v =
     (if \<not> is_obj then ret v
      else if is_null_ref v then ret VNull
      else bnd (str_of (fr_ty fr)) (\<lambda>ty. boxed_value T ty v))"

definition get_field :: "tables \<Rightarrow> frame \<Rightarrow> u8 \<Rightarrow> u8 \<Rightarrow> u32 \<Rightarrow> step_act" where
  "get_field T f d obr fidx =
     with_obj T f obr (\<lambda>ob. bnd (the_object ob) (\<lambda>b.
     bnd (field_slot f (obj_class b) fidx) (\<lambda>(fr, k).
     bnd (unwrap (nth_opt (obj_fields b) k)) (set_go f d))))"

definition put_field :: "tables \<Rightarrow> bool \<Rightarrow> frame \<Rightarrow> u8 \<Rightarrow> u8 \<Rightarrow> u32 \<Rightarrow> step_act" where
  "put_field T is_obj f s obr fidx =
     with_obj T f obr (\<lambda>ob. bnd (the_object ob) (\<lambda>b.
     bnd (field_slot f (obj_class b) fidx) (\<lambda>(fr, k).
     bnd (reg f (unat s)) (\<lambda>v.
     bnd (stored_field T is_obj fr v) (\<lambda>v'.
     bnd (the_object ob) (\<lambda>b'.
     if k < length (obj_fields b') then
       bnd (upd_object ob (\<lambda>b. b\<lparr>obj_fields := (obj_fields b)[k := v']\<rparr>)) (\<lambda>_. go_on f)
     else panic))))))"

definition get_static :: "host \<Rightarrow> runner \<Rightarrow> frame \<Rightarrow> u8 \<Rightarrow> u32 \<Rightarrow> step_act" where
  "get_static H run f d fidx =
     bnd (resolve_field_ref (f_dex f) fidx) (\<lambda>fr. bnd (static_field_get H run fr) (set_go f d))"

definition step_put_static :: "host \<Rightarrow> runner \<Rightarrow> frame \<Rightarrow> u8 \<Rightarrow> u32 \<Rightarrow> step_act" where
  "step_put_static H run f s fidx =
     bnd (resolve_field_ref (f_dex f) fidx) (\<lambda>fr. bnd (reg f (unat s)) (\<lambda>v.
     bnd (static_field_put H run fr v) (\<lambda>_. go_on f)))"

definition step_field :: "host \<Rightarrow> runner \<Rightarrow> frame \<Rightarrow> insn \<Rightarrow> step_act" where
  "step_field H run f i =
     (case i of
        SGet d x \<Rightarrow> get_static H run f d x
      | SGetWide d x \<Rightarrow> get_static H run f d x
      | SGetObj d x \<Rightarrow> get_static H run f d x
      | SPut s x \<Rightarrow> step_put_static H run f s x
      | SPutWide s x \<Rightarrow> step_put_static H run f s x
      | SPutObj s x \<Rightarrow> step_put_static H run f s x
      | IGet d ob x \<Rightarrow> get_field (tabs H) f d ob x
      | IGetWide d ob x \<Rightarrow> get_field (tabs H) f d ob x
      | IGetObj d ob x \<Rightarrow> get_field (tabs H) f d ob x
      | IPut s ob x \<Rightarrow> put_field (tabs H) False f s ob x
      | IPutWide s ob x \<Rightarrow> put_field (tabs H) False f s ob x
      | IPutObj s ob x \<Rightarrow> put_field (tabs H) True f s ob x
      | _ \<Rightarrow> panic)"

section \<open>Calls and arithmetic\<close>

definition step_invoke :: "host \<Rightarrow> runner \<Rightarrow> frame \<Rightarrow> nat \<Rightarrow> invoke_kind \<Rightarrow> u32 \<Rightarrow> args \<Rightarrow> step_act" where
  "step_invoke H run f next_pc kind midx a =
     bnd (resolve_method_ref (f_dex f) midx) (\<lambda>mref.
     bnd (if kind = Static then ret (Inr None)
          else bnd (arg_reg f a 0) (\<lambda>r.
            if is_null_ref r then bnd (err_npe (tabs H)) (\<lambda>e. ret (Inl e))
            else bnd (unwrap (as_obj r)) (\<lambda>ob. ret (Inr (Some ob))))) (\<lambda>rcv. case rcv of
       Inl e \<Rightarrow> ret (Thrown (VObj e), f)
     | Inr receiver \<Rightarrow>
         bnd (resolve_target (tabs H) kind mref receiver (f_class f)) (\<lambda>t.
         bnd (case t of
                TBytecode c _ _ _ _ _ _ _ _ \<Rightarrow>
                  if kind = Static then ensure_class_initialized run c else ret ()
              | TNative _ \<Rightarrow> ret ()) (\<lambda>_.
         ret (Done (FCall kind mref t a next_pc), f)))))"

definition arith_result :: "tables \<Rightarrow> frame \<Rightarrow> u8 \<Rightarrow> (arith_err, jvalue) outcome \<Rightarrow> step_act" where
  "arith_result T f d r =
     (case r of
        Ok v \<Rightarrow> set_go f d v
      | Err e \<Rightarrow> throw_new (err_arithmetic T (arith_msg e)) f
      | Panic \<Rightarrow> panic
      | Diverge \<Rightarrow> (\<lambda>s. (Diverge, s)))"

definition step_arith :: "tables \<Rightarrow> frame \<Rightarrow> insn \<Rightarrow> step_act" where
  "step_arith T f i =
     (case i of
        Unop op d s \<Rightarrow> bnd (reg f (unat s)) (\<lambda>v. set_go f d (unop_val op v))
      | Binop op d a b \<Rightarrow>
          bnd (reg f (unat a)) (\<lambda>va. bnd (reg f (unat b)) (\<lambda>vb.
          arith_result T f d (binop_val op va vb)))
      | BinopLit op d a l \<Rightarrow>
          bnd (reg f (unat a)) (\<lambda>v.
          arith_result T f d
            (if op = Rsub then binop_val (to_binop op) (VInt l) v
             else binop_val (to_binop op) v (VInt l)))
      | _ \<Rightarrow> panic)"

section \<open>One step\<close>

datatype group = GMove | GConst | GObject | GBranch | GArray | GField | GInvoke | GArith

fun insn_group :: "insn \<Rightarrow> group" where
  "insn_group (Const4 _ _) = GConst"
| "insn_group (Const16 _ _) = GConst"
| "insn_group (Const _ _) = GConst"
| "insn_group (ConstHigh16 _ _) = GConst"
| "insn_group (ConstWide16 _ _) = GConst"
| "insn_group (ConstWide32 _ _) = GConst"
| "insn_group (ConstWide _ _) = GConst"
| "insn_group (ConstWideHigh16 _ _) = GConst"
| "insn_group (ConstString _ _) = GConst"
| "insn_group (ConstStringJumbo _ _) = GConst"
| "insn_group (ConstClass _ _) = GConst"
| "insn_group (ConstMethodHandle _ _) = GConst"
| "insn_group (ConstMethodType _ _) = GConst"
| "insn_group (MonitorEnter _) = GObject"
| "insn_group (MonitorExit _) = GObject"
| "insn_group (CheckCast _ _) = GObject"
| "insn_group (InstanceOf _ _ _) = GObject"
| "insn_group (ArrayLength _ _) = GObject"
| "insn_group (NewInstance _ _) = GObject"
| "insn_group (NewArray _ _ _) = GObject"
| "insn_group (FilledNewArray _ _) = GObject"
| "insn_group (FillArrayData _ _ _) = GObject"
| "insn_group (Throw _) = GObject"
| "insn_group (Goto _) = GBranch"
| "insn_group (PackedSwitch _ _ _ _) = GBranch"
| "insn_group (SparseSwitch _ _ _ _) = GBranch"
| "insn_group (Cmp _ _ _ _) = GBranch"
| "insn_group (If _ _ _ _) = GBranch"
| "insn_group (IfZ _ _ _) = GBranch"
| "insn_group (AGet _ _ _ _) = GArray"
| "insn_group (APut _ _ _ _) = GArray"
| "insn_group (IGet _ _ _) = GField"
| "insn_group (IGetWide _ _ _) = GField"
| "insn_group (IGetObj _ _ _) = GField"
| "insn_group (IPut _ _ _) = GField"
| "insn_group (IPutWide _ _ _) = GField"
| "insn_group (IPutObj _ _ _) = GField"
| "insn_group (SGet _ _) = GField"
| "insn_group (SGetWide _ _) = GField"
| "insn_group (SGetObj _ _) = GField"
| "insn_group (SPut _ _) = GField"
| "insn_group (SPutWide _ _) = GField"
| "insn_group (SPutObj _ _) = GField"
| "insn_group (Invoke _ _ _) = GInvoke"
| "insn_group (Unop _ _ _) = GArith"
| "insn_group (Binop _ _ _ _) = GArith"
| "insn_group (BinopLit _ _ _ _) = GArith"
| "insn_group _ = GMove"

definition step_insn :: "host \<Rightarrow> runner \<Rightarrow> frame \<Rightarrow> nat \<Rightarrow> insn \<Rightarrow> step_act" where
  "step_insn H run f next_pc i =
     (case insn_group i of
        GMove \<Rightarrow> step_move f i
      | GConst \<Rightarrow> step_const (tabs H) f i
      | GObject \<Rightarrow> step_object (tabs H) f i
      | GBranch \<Rightarrow> step_branch f i
      | GArray \<Rightarrow> step_array (tabs H) f i
      | GField \<Rightarrow> step_field H run f i
      | GInvoke \<Rightarrow>
          (case i of Invoke kind m a \<Rightarrow> step_invoke H run f next_pc kind m a | _ \<Rightarrow> panic)
      | GArith \<Rightarrow> step_arith (tabs H) f i)"

text \<open>The row of the side tables a code address belongs to.\<close>

definition unit_gt :: "u32 \<Rightarrow> u32 \<Rightarrow> bool" where
  "unit_gt a b \<longleftrightarrow> b < a"

definition unit_index :: "u32 list \<Rightarrow> u32 \<Rightarrow> nat" where
  "unit_index us a = (case binary_search unit_gt us a of Inl i \<Rightarrow> i | Inr i \<Rightarrow> i - 1)"

definition past_end :: "frame \<Rightarrow> jvalue vm_act" where
  "past_end f =
     bnd (the_class (f_class f)) (\<lambda>cl. bnd (str_of (descriptor cl)) (\<lambda>d.
     bnd (the_method (f_class f) (f_slot f)) (\<lambda>m. bnd (str_of (m_name m)) (\<lambda>n.
     fail (Fatal (''pc '' @ show_nat (pc f) @ '' past end of method '' @ d @ ''/'' @ n))))))"

definition step :: "host \<Rightarrow> runner \<Rightarrow> frame \<Rightarrow> step_act" where
  "step H run f =
     (let d = f_decoded f in
      bnd (if unat (words d) \<le> pc f then bnd (past_end f) (\<lambda>_. ret ()) else ret ()) (\<lambda>_.
      let f = f\<lparr>err_pc := pc f\<rparr>; k = unit_index (units d) (of_nat (pc f)) in
      bnd (unwrap (nth_opt (sizes d) k)) (\<lambda>sz.
      bnd (unwrap (nth_opt (insns d) k)) (\<lambda>i.
      let next_pc = pc f + unat sz in
      bnd (step_insn H run f next_pc i) (\<lambda>(out, f).
      ret (case out of Done (Next _) \<Rightarrow> Done (Next next_pc) | _ \<Rightarrow> out, f))))))"

section \<open>Unwinding\<close>

text \<open>The handler of one \<open>try\<close> region that takes the exception, in order.\<close>

fun match_handlers :: "tables \<Rightarrow> u32 \<Rightarrow> jvalue \<Rightarrow> (u32 \<times> u32) list \<Rightarrow> u32 option vm_act" where
  "match_handlers T dx exc [] = ret None"
| "match_handlers T dx exc ((t, addr) # hs) =
     bnd (ensure T (ByType dx t)) (\<lambda>cc.
     bnd (case exc of
            VObj ob \<Rightarrow> bnd (the_object ob) (\<lambda>b. is_assignable T (obj_class b) cc)
          | _ \<Rightarrow> ret False) (\<lambda>ok.
     if ok then ret (Some addr) else match_handlers T dx exc hs))"

definition covers_addr :: "try_item \<Rightarrow> u32 \<Rightarrow> bool" where
  "covers_addr t a \<longleftrightarrow> start_addr t \<le> a \<and> a < start_addr t + ucast (insn_count t)"

fun find_handler :: "tables \<Rightarrow> u32 \<Rightarrow> jvalue \<Rightarrow> u32 \<Rightarrow> try_item list \<Rightarrow> u32 option vm_act" where
  "find_handler T dx exc a [] = ret None"
| "find_handler T dx exc a (t # ts) =
     (if \<not> covers_addr t a then find_handler T dx exc a ts
      else
        bnd (match_handlers T dx exc (handlers t)) (\<lambda>m.
        case (case m of None \<Rightarrow> catch_all t | Some _ \<Rightarrow> m) of
          Some addr \<Rightarrow> ret (Some addr)
        | None \<Rightarrow> find_handler T dx exc a ts))"

definition set_top :: "(frame \<Rightarrow> frame) \<Rightarrow> unit vm_act" where
  "set_top g = modify (\<lambda>s. s\<lparr>frames := butlast (frames s) @ [g (last (frames s))]\<rparr>)"

definition drop_top :: "unit vm_act" where
  "drop_top = modify (\<lambda>s. s\<lparr>frames := butlast (frames s)\<rparr>)"

definition push_top :: "frame \<Rightarrow> unit vm_act" where
  "push_top f = modify (\<lambda>s. s\<lparr>frames := frames s @ [f]\<rparr>)"

definition err_addr :: "frame \<Rightarrow> u32" where
  "err_addr f =
     (let us = units (f_decoded f) in
      case nth_opt us (unit_index us (of_nat (err_pc f))) of Some a \<Rightarrow> a | None \<Rightarrow> 0)"

text \<open>One round per frame, from the top; the argument counts the rounds still allowed.\<close>

primrec unwind_loop :: "nat \<Rightarrow> tables \<Rightarrow> jvalue option \<Rightarrow> bool vm_act" where
  "unwind_loop 0 T carried = (\<lambda>s. (Diverge, s))"
| "unwind_loop (Suc n) T carried =
     bnd (asks frames) (\<lambda>fs.
     if fs = [] then ret False
     else
       let f = last fs in
       bnd (set_top (\<lambda>f. f\<lparr>pending_exc := None\<rparr>)) (\<lambda>_.
       case (case pending_exc f of Some e \<Rightarrow> Some e | None \<Rightarrow> carried) of
         None \<Rightarrow> fail (Fatal ''unwind without pending exception'')
       | Some exc \<Rightarrow>
           bnd (find_handler T (f_dex f) exc (err_addr f) (f_tries f)) (\<lambda>m. case m of
             Some addr \<Rightarrow>
               bnd (set_top (\<lambda>f. f\<lparr>pc := unat addr, pending_exc := Some exc\<rparr>)) (\<lambda>_. ret True)
           | None \<Rightarrow> bnd drop_top (\<lambda>_. unwind_loop n T (Some exc)))))"

definition unwind :: "tables \<Rightarrow> bool vm_act" where
  "unwind T = bnd (asks (\<lambda>s. length (frames s))) (\<lambda>n. unwind_loop (Suc n) T None)"

section \<open>The loop\<close>

definition pop_frame :: "string \<Rightarrow> frame vm_act" where
  "pop_frame e =
     bnd (asks frames) (\<lambda>fs.
     if fs = [] then fail (Fatal e) else bnd drop_top (\<lambda>_. ret (last fs)))"

text \<open>Arguments for a native (one per parameter) and for bytecode (a wide one twice).\<close>

fun native_args :: "frame \<Rightarrow> args \<Rightarrow> u8 \<Rightarrow> u32 list \<Rightarrow> jvalue list vm_act" where
  "native_args f a ri [] = ret []"
| "native_args f a ri (t # ts) =
     bnd (arg_reg f a ri) (\<lambda>v. bnd (str_of t) (\<lambda>d.
     bnd (native_args f a (if is_wide_desc d then ri + 2 else ri + 1) ts) (\<lambda>vs. ret (v # vs))))"

fun bytecode_args :: "frame \<Rightarrow> args \<Rightarrow> u8 \<Rightarrow> u32 list \<Rightarrow> jvalue list vm_act" where
  "bytecode_args f a ri [] = ret []"
| "bytecode_args f a ri (t # ts) =
     bnd (arg_reg f a ri) (\<lambda>v. bnd (str_of t) (\<lambda>d.
     if is_wide_desc d then bnd (bytecode_args f a (ri + 2) ts) (\<lambda>vs. ret (v # v # vs))
     else bnd (bytecode_args f a (ri + 1) ts) (\<lambda>vs. ret (v # vs))))"

definition receiver_of :: "frame \<Rightarrow> invoke_kind \<Rightarrow> args \<Rightarrow> jvalue option vm_act" where
  "receiver_of f kind a =
     (if kind = Static then ret None else bnd (arg_reg f a 0) (\<lambda>r. ret (Some r)))"

definition with_receiver :: "jvalue option \<Rightarrow> jvalue list \<Rightarrow> jvalue list" where
  "with_receiver r vs = (case r of Some v \<Rightarrow> v # vs | None \<Rightarrow> vs)"

definition first_arg :: "invoke_kind \<Rightarrow> u8" where
  "first_arg kind = (if kind = Static then 0 else 1)"

text \<open>A native constructor returns a new object whose payload the receiver takes over.\<close>

definition adopt_payload :: "method_ref \<Rightarrow> jvalue option \<Rightarrow> jvalue \<Rightarrow> unit vm_act" where
  "adopt_payload mref receiver v =
     bnd (str_of (mr_name mref)) (\<lambda>n.
     if n = ''<init>'' then
       (case (receiver, v) of
          (Some (VObj r), VObj res) \<Rightarrow>
            bnd (asks heap) (\<lambda>h.
            case Option.bind (arena_get h res) obj_native of
              None \<Rightarrow> ret ()
            | Some p \<Rightarrow>
                if arena_get h r = None then ret ()
                else upd_object r (\<lambda>ob. ob\<lparr>obj_native := Some p\<rparr>))
        | _ \<Rightarrow> ret ())
     else ret ())"

text \<open>\<open>pending_exc\<close> set, the frame back on the stack, the handler searched: the frame to go on with.\<close>

definition raise_in :: "tables \<Rightarrow> frame \<Rightarrow> jvalue \<Rightarrow> u32 \<Rightarrow> frame vm_act" where
  "raise_in T f exc uncaught =
     bnd (push_top (f\<lparr>pending_exc := Some exc\<rparr>)) (\<lambda>_.
     bnd (unwind T) (\<lambda>caught.
     if caught then pop_frame ''empty frame stack after unwind''
     else fail (Uncaught uncaught)))"

definition call_native :: "host \<Rightarrow> frame \<Rightarrow> invoke_kind \<Rightarrow> method_ref \<Rightarrow> key3 \<Rightarrow> args \<Rightarrow> nat \<Rightarrow> frame vm_act" where
  "call_native H f kind mref k a ret_pc =
     bnd (receiver_of f kind a) (\<lambda>receiver.
     bnd (native_fn k) (\<lambda>nf.
     bnd (native_args f a (first_arg kind) (mr_args mref)) (\<lambda>vs.
     bnd (\<lambda>s. case call_fn H nf (with_receiver receiver vs) s of
            (Err (NThrow ex), s') \<Rightarrow> (Ok (Inl ex), s')
          | (r, s') \<Rightarrow> (obind (omap_err from_nat_err r) (\<lambda>v. Ok (Inr v)), s')) (\<lambda>r. case r of
       Inr v \<Rightarrow>
         bnd (adopt_payload mref receiver v) (\<lambda>_. ret (f\<lparr>result := v, pc := ret_pc\<rparr>))
     | Inl ex \<Rightarrow> raise_in (tabs H) (f\<lparr>pc := ret_pc\<rparr>) (VObj ex) ex))))"

definition new_frame :: "u32 \<Rightarrow> u32 \<Rightarrow> u32 \<Rightarrow> decoded \<Rightarrow> try_item list \<Rightarrow> jvalue list \<Rightarrow> frame" where
  "new_frame c slot dx d ts rs =
     \<lparr>f_class = c, f_slot = slot, f_dex = dx, f_decoded = d, f_tries = ts, regs = rs, pc = 0,
      err_pc = 0, result = VNull, pending_exc = None\<rparr>"

text \<open>A bytecode call: the caller goes on the stack, whatever its height.\<close>

definition call_bytecode :: "frame \<Rightarrow> invoke_kind \<Rightarrow> target \<Rightarrow> args \<Rightarrow> nat \<Rightarrow> frame vm_act" where
  "call_bytecode f kind t a ret_pc =
     (case t of
        TNative _ \<Rightarrow> panic
      | TBytecode c slot d ci ins registers _ m_args' _ \<Rightarrow>
          bnd (receiver_of f kind a) (\<lambda>receiver.
          bnd (bytecode_args f a (first_arg kind) m_args') (\<lambda>vs.
          bnd (lift (ok_or (Resolution ''callee has no code item'') ci)) (\<lambda>ci.
          bnd (the_method c slot) (\<lambda>m.
          bnd (unwrap (make_regs (with_receiver receiver vs) ins registers)) (\<lambda>rs.
          bnd (push_top (f\<lparr>pc := ret_pc\<rparr>)) (\<lambda>_.
          ret (new_frame c slot (m_dex_idx m) d (tries ci) rs))))))))"

definition do_call :: "host \<Rightarrow> frame \<Rightarrow> invoke_kind \<Rightarrow> method_ref \<Rightarrow> target \<Rightarrow> args \<Rightarrow> nat \<Rightarrow> frame vm_act" where
  "do_call H f kind mref t a ret_pc =
     (case t of
        TNative k \<Rightarrow> call_native H f kind mref k a ret_pc
      | TBytecode _ _ _ _ _ _ _ _ _ \<Rightarrow> call_bytecode f kind t a ret_pc)"

text \<open>What an iteration leaves: the frame of the next one, or the value of the outermost return.\<close>

definition do_return :: "jvalue \<Rightarrow> (frame + jvalue) vm_act" where
  "do_return v =
     bnd (asks frames) (\<lambda>fs.
     if fs = [] then ret (Inr v)
     else
       bnd (set_top (\<lambda>f. f\<lparr>result := v\<rparr>)) (\<lambda>_.
       bnd (pop_frame ''empty frame stack on return'') (\<lambda>f. ret (Inl f))))"

definition iteration :: "host \<Rightarrow> runner \<Rightarrow> frame \<Rightarrow> (frame + jvalue) vm_act" where
  "iteration H run f =
     bnd (asks budget) (\<lambda>b.
     bnd (check (0 < b) (Fatal ''interpreter budget exhausted (possible infinite loop)'')) (\<lambda>_.
     bnd (modify (\<lambda>s. s\<lparr>budget := budget s - 1\<rparr>)) (\<lambda>_.
     bnd (step H run f) (\<lambda>(out, f). case out of
       Done (Next p) \<Rightarrow> ret (Inl (f\<lparr>pc := p\<rparr>))
     | Done (Jump t) \<Rightarrow> ret (Inl (f\<lparr>pc := t\<rparr>))
     | Done (FRet v) \<Rightarrow> do_return v
     | Done (FCall kind mref t a ret_pc) \<Rightarrow>
         bnd (do_call H f kind mref t a ret_pc) (\<lambda>f. ret (Inl f))
     | Thrown ex \<Rightarrow>
         bnd (raise_in (tabs H) f ex (case ex of VObj i \<Rightarrow> i | _ \<Rightarrow> 0)) (\<lambda>f. ret (Inl f))))))"

section \<open>Entering a method\<close>

fun join_with :: "string \<Rightarrow> string list \<Rightarrow> string" where
  "join_with sep [] = []"
| "join_with sep [x] = x"
| "join_with sep (x # y # xs) = x @ sep @ join_with sep (y # xs)"

definition newline :: string where "newline = [CHR 0x0A]"

definition frame_line :: "u32 \<Rightarrow> u32 \<Rightarrow> string vm_act" where
  "frame_line c slot =
     bnd (the_method c slot) (\<lambda>m. bnd (class_desc_str c) (\<lambda>d. bnd (str_of (m_name m)) (\<lambda>n.
     ret (''  '' @ d @ '' . '' @ n))))"

definition push_frame :: "u32 \<Rightarrow> u32 \<Rightarrow> jvalue list \<Rightarrow> unit vm_act" where
  "push_frame c slot args =
     bnd (asks (\<lambda>s. (length (frames s), depth_limit s))) (\<lambda>(n, limit).
     bnd (if limit \<le> n then
            bnd (asks (\<lambda>s. take 20 (rev (frames s)))) (\<lambda>fs.
            bnd (amap (\<lambda>f. frame_line (f_class f) (f_slot f)) fs) (\<lambda>dump.
            bnd (frame_line c slot) (\<lambda>l.
            fail (Fatal (''guest stack overflow (depth '' @ show_nat limit @ ''):'' @ newline
                         @ join_with newline (dump @ [l]))))))
          else ret ()) (\<lambda>_.
     bnd (the_method c slot) (\<lambda>m.
     bnd (lift (ok_or (Resolution ''no code item'') (m_code m))) (\<lambda>ci.
     bnd (lift (omap_err from_dex_error (decode_all (code_insns ci)))) (\<lambda>d.
     bnd (unwrap (make_regs args (ins_size ci) (registers_size ci))) (\<lambda>rs.
     push_top (new_frame c slot (m_dex_idx m) d (tries ci) rs)))))))"

text \<open>\<open>run_loop\<close> takes the top frame off the stack first.\<close>

definition run_loop :: "(frame \<Rightarrow> jvalue vm_act) \<Rightarrow> jvalue vm_act" where
  "run_loop loop = bnd (pop_frame ''run_loop with no frames'') loop"

definition note_entry :: "u32 \<Rightarrow> u32 \<Rightarrow> unit vm_act" where
  "note_entry c slot =
     bnd (modify (\<lambda>s. s\<lparr>recursion_depth := recursion_depth s + 1\<rparr>)) (\<lambda>_.
     bnd (method_desc_str c slot) (\<lambda>l.
     modify (\<lambda>s. s\<lparr>trace_ring :=
       (if 24 \<le> length (trace_ring s) then drop 1 (trace_ring s) else trace_ring s) @ [l]\<rparr>)))"

definition reentry_overflow :: "vm \<Rightarrow> jvm_error" where
  "reentry_overflow s = Fatal (''vm re-entry stack overflow (recur_depth ''
     @ show_nat (recursion_depth s) @ '' above limit '' @ show_nat (depth_limit s) @ ''):''
     @ newline @ ''  '' @ join_with (newline @ ''  '') (trace_ring s))"

text \<open>
  \<open>interpret::run\<close>. The early returns for a method without a body and for a native leave the
  depth counter as it is; the bytecode path restores it, and the caller's frames.
\<close>

definition run_method :: "host \<Rightarrow> (frame \<Rightarrow> jvalue vm_act) \<Rightarrow> runner" where
  "run_method H loop c slot args =
     bnd (the_method c slot) (\<lambda>m.
     bnd (asks (\<lambda>s. s)) (\<lambda>s0.
     bnd (check (recursion_depth s0 < depth_limit s0) (reentry_overflow s0)) (\<lambda>_.
     bnd (note_entry c slot) (\<lambda>_.
     if native_decl m then bnd (no_jni m) fail
     else case native_key m of
       Some k \<Rightarrow> bnd (native_fn k) (\<lambda>f. run_native H f args)
     | None \<Rightarrow>
         (\<lambda>s. case bnd (push_frame c slot args) (\<lambda>_. run_loop loop) (s\<lparr>frames := []\<rparr>) of
            (r, s') \<Rightarrow>
              (r, s'\<lparr>frames := frames s, recursion_depth := recursion_depth s' - 1\<rparr>))))))"

text \<open>The knot: a call of \<open>run\<close> and an iteration of its loop.\<close>

datatype task = Run u32 u32 "jvalue list" | Loop frame

primrec interp :: "nat \<Rightarrow> host \<Rightarrow> task \<Rightarrow> jvalue vm_act" where
  "interp 0 H t = (\<lambda>s. (Diverge, s))"
| "interp (Suc n) H t =
     (case t of
        Run c slot args \<Rightarrow> run_method H (\<lambda>f. interp n H (Loop f)) c slot args
      | Loop f \<Rightarrow>
          bnd (iteration H (\<lambda>c slot args. interp n H (Run c slot args)) f) (\<lambda>r. case r of
            Inl f' \<Rightarrow> interp n H (Loop f')
          | Inr v \<Rightarrow> ret v))"

text \<open>
  One instruction per unit of the budget: a budget of \<open>b\<close> allows at most \<open>b\<close> iterations, each
  of which enters at most one nested call at a time.
\<close>

definition run_fuel :: "int \<Rightarrow> nat" where
  "run_fuel b = 2 * nat b + 2"

definition run :: "host \<Rightarrow> runner" where
  "run H c slot args = (\<lambda>s. interp (run_fuel (budget s)) H (Run c slot args) s)"

end
