(* ===== verification/Execute.thy ===== *)
theory Execute
  imports LinkInv Interp
begin

text \<open>
  What single instructions do: which instruction is fetched for a code address, the switches
  against their tables, array elements, the arguments of a call in the registers of the callee,
  and the constants whose shift is applied twice.
\<close>

lemma bnd_ret_left [simp]: "bnd (ret x) f = f x"
  by (simp add: bnd_def ret_def)

lemma unwrap_Some [simp]: "unwrap (Some x) = ret x"
  by (simp add: unwrap_def)

lemma bnd_reg: "nth_opt (regs f) i = Some v \<Longrightarrow> bnd (reg f i) g = g v"
  unfolding reg_def by (simp del: nth_opt_Some_iff)

section \<open>Fetching\<close>

lemma binary_search_found:
  assumes "sorted_wrt (\<lambda>a b. \<not> gt a b \<and> gt b a) xs" "\<And>a b. gt a b \<Longrightarrow> \<not> gt b a" "\<And>a. \<not> gt a a"
    and "j < length xs"
  shows "binary_search gt xs (xs ! j) = Inl j"
proof -
  have "bsearch_base gt xs (xs ! j) 0 (length xs) = j"
    using assms by (intro bsearch_base_correct) auto
  with assms(4) show ?thesis by (auto simp: binary_search_def Let_def)
qed

lemma binary_search_missing: "k \<notin> set xs \<Longrightarrow> \<exists>i. binary_search gt xs k = Inr i"
  using bsearch_base_less [of "length xs" 0 xs gt k]
  by (cases "xs = []") (auto simp: binary_search_def Let_def dest: nth_mem)

lemma unit_index_at:
  assumes "sorted_wrt (<) us" "k < length us"
  shows "unit_index us (us ! k) = k"
proof -
  have "sorted_wrt (\<lambda>a b. \<not> unit_gt a b \<and> unit_gt b a) us"
    using assms(1) by (rule sorted_wrt_mono_rel [rotated]) (auto simp: unit_gt_def)
  then have "binary_search unit_gt us (us ! k) = Inl k"
    by (rule binary_search_found) (use assms in \<open>auto simp: unit_gt_def\<close>)
  then show ?thesis by (simp add: unit_index_def)
qed

lemma units_sorted:
  assumes "decode_all ws = Ok d" "length ws < 2 ^ 32"
  shows "sorted_wrt (<) (units d)"
proof -
  have "units d ! i < units d ! j" if "i < j" "j < length (units d)" for i j
  proof -
    have "unat (units d ! i) + unat (sizes d ! i) \<le> unat (units d ! j)" "0 < unat (sizes d ! i)"
      using decode_all_rows [OF assms] that by auto
    then show ?thesis by (simp add: word_less_nat_alt)
  qed
  then show ?thesis by (simp add: sorted_wrt_iff_nth_less)
qed

text \<open>
  C19: The interpreter executes the instruction the code has at its program counter. For a method
  decoded by \<open>decode_all\<close> and a counter at the start of an instruction, the binary search finds
  its row, and the step is that instruction with the counter behind it as the next one.
\<close>

theorem fetch_decodes:
  assumes "decode_all ws = Ok (f_decoded f)" and "length ws < 2 ^ 32"
    and "k < length (insns (f_decoded f))" and "pc f = unat (units (f_decoded f) ! k)"
  shows "\<exists>i next_pc. decode_insn ws (pc f) = Ok (i, next_pc) \<and>
    step H go f = bnd (step_insn H go (f\<lparr>err_pc := pc f\<rparr>) next_pc i) (\<lambda>(out, f').
      ret (case out of Done (Next _) \<Rightarrow> Done (Next next_pc) | _ \<Rightarrow> out, f'))"
proof -
  let ?d = "f_decoded f"
  have rows: "length (units ?d) = length (insns ?d)" "length (sizes ?d) = length (insns ?d)"
      "decode_insn ws (pc f) = Ok (insns ?d ! k, pc f + unat (sizes ?d ! k))"
      "pc f < unat (words ?d)"
    using decode_all_rows [OF assms(1,2)] assms(3,4) by (auto dest!: spec [of _ k])
  have "unit_index (units ?d) (of_nat (pc f)) = k"
    using unit_index_at [OF units_sorted [OF assms(1,2)], of k] rows(1) assms(3,4) by simp
  then show ?thesis
    using rows assms(3)
    by (simp add: step_def Let_def nth_opt_def
        cong: prod.case_cong step_outcome.case_cong flow.case_cong)
qed

definition sample_frame :: "decoded \<Rightarrow> jvalue list \<Rightarrow> frame" where
  "sample_frame d rs = new_frame 0 0 0 d [] rs"

lemma sample_frame_simps [simp]:
  "f_decoded (sample_frame d rs) = d" "regs (sample_frame d rs) = rs" "pc (sample_frame d rs) = 0"
  "f_dex (sample_frame d rs) = 0" "f_class (sample_frame d rs) = 0"
  by (simp_all add: sample_frame_def new_frame_def)

theorem fetch_decodes_witness:
  "\<exists>i next_pc. decode_insn [0x1012, 0x000f] 0 = Ok (i, next_pc) \<and> i = Const4 0 1 \<and> next_pc = 1"
proof -
  let ?d = "\<lparr>insns = [Const4 0 1, Return 0], units = [0, 1], sizes = [1, 1], words = 2\<rparr>"
  have d: "decode_all [0x1012, 0x000f] = Ok (f_decoded (sample_frame ?d []))"
    unfolding sample_frame_simps by code_simp
  have "decode_insn [0x1012, 0x000f] 0 = Ok (Const4 0 1, 1)" by code_simp
  with fetch_decodes [OF d, of 0] show ?thesis by auto
qed

section \<open>Switches\<close>

text \<open>
  A sparse switch is a lookup. With keys in the signed order the format demands, the binary
  search jumps to the target of the key in the register, and falls through for any other value.
\<close>

theorem sparse_switch_selects:
  assumes "sorted_wrt (\<lambda>a b. sint a < sint b) keys" and "length targets = length keys"
    and "nth_opt (regs f) (unat d) = Some (VInt v)"
  shows "step_branch f (SparseSwitch d p keys targets) =
    (case map_of (zip keys targets) v of Some t \<Rightarrow> jump_to f t | None \<Rightarrow> go_on f)"
proof -
  have r: "bnd (reg f (unat d)) g = g (VInt v)" for g :: "jvalue \<Rightarrow> step_act"
    by (rule bnd_reg [OF assms(3)])
  show ?thesis
  proof (cases "v \<in> set keys")
    case True
    then obtain j where j: "j < length keys" "keys ! j = v" by (auto simp: in_set_conv_nth)
    have "sorted_wrt (\<lambda>a b. \<not> int_gt a b \<and> int_gt b a) keys"
      using assms(1) by (rule sorted_wrt_mono_rel [rotated]) (simp add: int_gt_def)
    then have "binary_search int_gt keys (keys ! j) = Inl j"
      by (rule binary_search_found [OF _ _ _ j(1)]) (simp_all add: int_gt_def)
    moreover have "sorted_wrt (<) (map sint keys)" using assms(1) by (simp add: sorted_wrt_map)
    then have "distinct keys" by (simp add: strict_sorted_iff distinct_map)
    then have "map_of (zip keys targets) v = Some (targets ! j)"
      using j assms(2) map_of_zip_nth [OF assms(2) [symmetric], of j] by simp
    ultimately show ?thesis
      using j assms(2)
      by (simp add: step_branch_def r nth_opt_def)
  next
    case False
    then have "map_of (zip keys targets) v = None"
      using assms(2) by (simp add: map_of_zip_is_None)
    moreover obtain i where "binary_search int_gt keys v = Inr i"
      using binary_search_missing [OF False] by blast
    ultimately show ?thesis by (simp add: step_branch_def r)
  qed
qed

lemma sint_32: "sint w = (if uint w < 2 ^ 31 then uint w else uint w - 2 ^ 32)" for w :: "32 word"
proof -
  let ?u = "uint w"
  have w: "sint w = (?u + 2 ^ 31) mod 2 ^ 32 - 2 ^ 31"
    by (simp add: sint_uint signed_take_bit_eq_take_bit_shift take_bit_eq_mod)
  have u: "0 \<le> ?u" "?u < 2 ^ 32" using uint_bounded [of w] by simp_all
  have "(?u + 2 ^ 31) mod 2 ^ 32 = ?u - 2 ^ 31" if "\<not> ?u < 2 ^ 31"
  proof -
    have "(?u + 2 ^ 31) mod 2 ^ 32 = (?u - 2 ^ 31 + 2 ^ 32) mod 2 ^ 32" by (simp add: algebra_simps)
    also have "\<dots> = ?u - 2 ^ 31" using that u by (simp only: mod_add_self2) simp
    finally show ?thesis .
  qed
  then show ?thesis using w u by auto
qed

theorem sparse_switch_selects_witness:
  "\<forall>d p. step_branch (sample_frame d [VInt 7]) (SparseSwitch 0 p [-3, 7] [40, 50]) =
     jump_to (sample_frame d [VInt 7]) 50"
proof (intro allI)
  show "step_branch (sample_frame d [VInt 7]) (SparseSwitch 0 p [-3, 7] [40, 50]) =
      jump_to (sample_frame d [VInt 7]) 50" for d p
    using sparse_switch_selects [of "[-3, 7]" "[40, 50]" "sample_frame d [VInt 7]" 0 7]
    by (simp add: nth_opt_def)
qed

text \<open>
  A packed switch selects by distance. As long as the last key does not pass the largest int,
  the register value picks the target at its distance from the first key if there is one.
\<close>

theorem packed_switch_selects:
  assumes "sint k0 + int (length targets) \<le> 2 ^ 31" and "length targets < 2 ^ 31"
    and "nth_opt (regs f) (unat d) = Some (VInt v)"
  shows "step_branch f (PackedSwitch d p k0 targets) =
    (if sint k0 \<le> sint v \<and> sint v < sint k0 + int (length targets)
     then jump_to f (targets ! nat (sint v - sint k0)) else go_on f)"
proof -
  have r: "bnd (reg f (unat d)) g = g (VInt v)" for g :: "jvalue \<Rightarrow> step_act"
    by (rule bnd_reg [OF assms(3)])
  let ?i = "v - k0"
  have "?i = word_of_int (sint v - sint k0)" by simp
  then have m: "uint ?i = (sint v - sint k0) mod 2 ^ 32"
    by (simp only: uint_word_of_int) simp
  have b: "- (2 ^ 31) \<le> sint x \<and> sint x < 2 ^ 31" for x :: i32
    using sint_ge [of x] sint_lt [of x] by simp
  have i: "uint ?i = (if sint k0 \<le> sint v then sint v - sint k0 else sint v - sint k0 + 2 ^ 32)"
  proof (cases "sint k0 \<le> sint v")
    case True
    then show ?thesis using m b [of v] b [of k0] by simp
  next
    case False
    have "(sint v - sint k0) mod 2 ^ 32 = (sint v - sint k0 + 2 ^ 32) mod 2 ^ 32"
      by (rule mod_add_self2 [symmetric])
    also have "\<dots> = sint v - sint k0 + 2 ^ 32"
      by (rule mod_pos_pos_trivial) (use False b [of v] b [of k0] in simp_all)
    finally show ?thesis using m False by simp
  qed
  have "0 \<le> sint ?i \<and> unat ?i < length targets \<longleftrightarrow>
      sint k0 \<le> sint v \<and> sint v < sint k0 + int (length targets)"
    using i b [of v] b [of k0] assms(1,2) sint_32 [of ?i] by (auto simp: nat_less_iff simp flip: nat_uint_eq)
  moreover have "unat ?i = nat (sint v - sint k0)" if "sint k0 \<le> sint v"
    using i that by (simp flip: nat_uint_eq)
  ultimately show ?thesis
    by (auto simp: step_branch_def r Let_def)
qed

theorem packed_switch_selects_witness:
  "\<forall>d p. step_branch (sample_frame d [VInt (-1)]) (PackedSwitch 0 p (-2) [40, 50]) =
     jump_to (sample_frame d [VInt (-1)]) 50"
proof (intro allI)
  show "step_branch (sample_frame d [VInt (-1)]) (PackedSwitch 0 p (-2) [40, 50]) =
      jump_to (sample_frame d [VInt (-1)]) 50" for d p
    using packed_switch_selects [of "-2" "[40, 50]" "sample_frame d [VInt (-1)]" 0 "-1"]
    by (simp add: nth_opt_def)
qed

section \<open>Constants\<close>

text \<open>
  The constants of format 21h are always zero. The decoder already moves the literal to the
  upper half; the interpreter shifts it again, so every \<open>const/high16\<close> and
  \<open>const-wide/high16\<close> (how bytecode writes 1.0f or 1.0) loads zero.
\<close>

theorem high16_constants_zero:
  assumes "op_of w \<in> {0x15, 0x19}"
  shows "\<exists>i. decode_insn [w, u] 0 = Ok (i, 2) \<and>
    const_value i = Some (a8 w, if op_of w = 0x15 then VInt 0 else VLong 0)"
  using assms
  by (auto simp: decode_insn_def decode_const_def with1_def unit_at_def nth_opt_def const_value_def
      push_bit_push_bit push_bit_word_beyond)

theorem high16_constants_zero_witness:
  "\<exists>i. decode_insn [0x0015, 0x3f80] 0 = Ok (i, 2) \<and> const_value i = Some (0, VInt 0)"
proof -
  have "op_of 0x0015 = 0x15" "a8 0x0015 = 0" by code_simp+
  then show ?thesis using high16_constants_zero [of "0x0015" "0x3f80"] by simp
qed

text \<open>
  A negative \<open>const-wide/32\<close> loads a large positive number: the decoder does not extend the
  sign of the 32 bit literal.
\<close>

theorem wide32_not_extended:
  "\<exists>i v. decode_insn [0x0017, lo, hi] 0 = Ok (i, 3) \<and> const_value i = Some (0, VLong v) \<and> 0 \<le> sint v"
proof -
  let ?v = "ucast lo OR push_bit 16 (ucast hi) :: i64"
  have "\<not> bit ?v 63" by (auto simp: bit_simps dest: bit_imp_le_length)
  then have "0 \<le> sint ?v" using bit_last_iff [of ?v] by simp
  then show ?thesis
    by (simp add: decode_insn_def op_of_def decode_const_def with2_def unit_at_def nth_opt_def
        const_value_def a8_def)
qed

section \<open>Array elements\<close>

text \<open>What a store leaves in an element, by the type of the array.\<close>

fun elem_value :: "array_data \<Rightarrow> jvalue \<Rightarrow> jvalue option" where
  "elem_value (ByteArr _) v = map_option (\<lambda>i. VInt (word_of_int (sint (ucast i :: u8)))) (as_int v)"
| "elem_value (CharArr _) v = map_option (\<lambda>i. VInt (i AND 0xffff)) (as_int v)"
| "elem_value (ShortArr _) v = map_option (\<lambda>i. VInt (word_of_int (sint (ucast i :: u16)))) (as_int v)"
| "elem_value (IntArr _) v = map_option VInt (as_int v)"
| "elem_value (LongArr _) v = map_option VLong (as_long v)"
| "elem_value (FloatArr _) v = map_option VFloat (float_elem v)"
| "elem_value (DoubleArr _) v = map_option VDouble (double_elem v)"
| "elem_value (BoolArr _) v = Some (VInt (if truthy v then 1 else 0))"
| "elem_value (ObjArr _) v = Some v"

lemma put_elem_Some: "put_elem xs k m = Some ys \<longleftrightarrow> (\<exists>x. m = Some x \<and> k < length xs \<and> ys = xs[k := x])"
  by (auto simp: put_elem_def split: option.splits)

lemma nth_opt_update:
  "nth_opt (xs[k := x]) j = (if j = k \<and> k < length xs then Some x else nth_opt xs j)"
  by (auto simp: nth_opt_def)

lemma array_set_law:
  assumes "k < array_len a"
  shows "array_set a k v = None \<longleftrightarrow> elem_value a v = None"
    and "array_set a k v = Some a' \<Longrightarrow> array_len a' = array_len a \<and> array_get a' k = elem_value a v \<and>
      (\<forall>j. j \<noteq> k \<longrightarrow> array_get a' j = array_get a j)"
proof -
  have char: "ucast (ucast i :: u16) = i AND 0xffff" for i :: i32
  proof -
    have "i AND 0xffff = take_bit 16 i" by (simp add: take_bit_eq_mask mask_eq_exp_minus_1)
    then show ?thesis by (auto intro!: bit_eqI simp: bit_simps bit_imp_le_length)
  qed
  show "array_set a k v = None \<longleftrightarrow> elem_value a v = None"
    using assms by (cases a) (auto simp: put_elem_def split: option.splits)
  show "array_set a k v = Some a' \<Longrightarrow> array_len a' = array_len a \<and> array_get a' k = elem_value a v \<and>
      (\<forall>j. j \<noteq> k \<longrightarrow> array_get a' j = array_get a j)"
    using assms
    by (cases a) (auto simp: put_elem_Some nth_opt_update char int_of_bool_def simp del: nth_opt_Some_iff)
qed

lemma reg_ret: "nth_opt (regs f) i = Some v \<Longrightarrow> reg f i = ret v"
  unfolding reg_def by (simp del: nth_opt_Some_iff)

lemma the_object_at: "arena_get (heap m) ob = Some b \<Longrightarrow> the_object ob m = (Ok b, m)"
  by (simp add: the_object_def bnd_def asks_def ret_def del: nth_opt_Some_iff)

lemma array_of_at:
  "arena_get (heap m) ob = Some b \<Longrightarrow> obj_native b = Some (Arr a) \<Longrightarrow> array_of ob m = (Ok (Some a), m)"
  by (simp add: array_of_def bnd_def the_object_at ret_def)

lemma array_access_at:
  assumes "nth_opt (regs f) (unat ar) = Some (VObj ob)" and "nth_opt (regs f) (unat ix) = Some (VInt i)"
    and "array_of ob m = (Ok (Some a), m)" and "0 \<le> sint i" "unat i < array_len a"
  shows "array_access T f ar ix (ret v) m = (Ok (Inr (ob, a, unat i, v)), m)"
  using assms(3-5)
  by (simp add: array_access_def reg_ret [OF assms(1)] reg_ret [OF assms(2)])
    (simp add: bnd_def ret_def)

lemma put_array_at:
  assumes "arena_get (heap m) ob = Some b"
  shows "\<exists>m'. put_array ob a m = (Ok (), m') \<and>
    arena_get (heap m') ob = Some (b\<lparr>obj_native := Some (Arr a)\<rparr>)"
  using assms by (auto simp: put_array_def upd_object_def modify_def arena_get_def nth_opt_def split: if_splits)

text \<open>
  C21: Array elements behave like variables. After \<open>aput\<close> of a value the element can hold, with
  an index in range, the step goes on with the frame as it was; an \<open>aget\<close> of the same index
  loads the stored value, narrowed as the element type asks, and an \<open>aget\<close> of any other index
  of the array loads what it loaded before.
\<close>

theorem aput_aget:
  assumes "nth_opt (regs f) (unat ar) = Some (VObj ob)" and "nth_opt (regs f) (unat ix) = Some (VInt i)"
    and "nth_opt (regs f) (unat src) = Some v" and "arena_get (heap m) ob = Some b"
    and "obj_native b = Some (Arr a)" and "0 \<le> sint i" "unat i < array_len a"
    and "elem_value a (stored_elem a v) = Some w"
  shows "\<exists>m'. step_array T f (APut e src ar ix) m = (Ok (Done (Next 0), f), m') \<and>
    step_array T f (AGet e d ar ix) m' = set_go f d w m' \<and>
    (\<forall>jx j. nth_opt (regs f) (unat jx) = Some (VInt j) \<longrightarrow> 0 \<le> sint j \<longrightarrow> unat j < array_len a \<longrightarrow>
       j \<noteq> i \<longrightarrow> (\<exists>x. array_get a (unat j) = Some x \<and>
         step_array T f (AGet e d ar jx) m = set_go f d x m \<and>
         step_array T f (AGet e d ar jx) m' = set_go f d x m'))"
proof -
  have a: "array_of ob m = (Ok (Some a), m)" by (rule array_of_at [OF assms(4,5)])
  obtain a' where a': "array_set a (unat i) (stored_elem a v) = Some a'"
    using array_set_law(1) [OF assms(7)] assms(8) by fastforce
  note law = array_set_law(2) [OF assms(7) a']
  obtain m' where m': "put_array ob a' m = (Ok (), m')"
      "arena_get (heap m') ob = Some (b\<lparr>obj_native := Some (Arr a')\<rparr>)"
    using put_array_at [OF assms(4)] by blast
  have new: "array_of ob m' = (Ok (Some a'), m')" by (rule array_of_at [OF m'(2)]) simp
  have get: "step_array T f (AGet e d ar jx) n = set_go f d x n"
    if "nth_opt (regs f) (unat jx) = Some (VInt j)" "array_of ob n = (Ok (Some c), n)"
      "0 \<le> sint j" "unat j < array_len c" "array_get c (unat j) = Some x" for jx j n c x
    using array_access_at [OF assms(1) that(1-4), of T VNull] that(5)
    by (simp add: step_array_def bnd_def [where m = "array_access T f ar jx (ret VNull)"])
  have put: "step_array T f (APut e src ar ix) m = (Ok (Done (Next 0), f), m')"
    using array_access_at [OF assms(1,2) a assms(6,7), of T v] a' m'(1)
    by (simp add: step_array_def reg_ret [OF assms(3)] bnd_def go_on_def ret_def)
  have "\<exists>x. array_get a (unat j) = Some x" if "unat j < array_len a" for j :: i32
    using that by (cases a) (auto simp: nth_opt_def)
  moreover have "unat j \<noteq> unat i" if "j \<noteq> i" for j using that unat_inj by blast
  ultimately have other: "\<exists>x. array_get a (unat j) = Some x \<and>
      step_array T f (AGet e d ar jx) m = set_go f d x m \<and>
      step_array T f (AGet e d ar jx) m' = set_go f d x m'"
    if "nth_opt (regs f) (unat jx) = Some (VInt j)" "0 \<le> sint j" "unat j < array_len a" "j \<noteq> i" for jx j
    using get [OF that(1) a that(2,3)] get [OF that(1) new that(2)] law that(3,4) by fastforce
  have "step_array T f (AGet e d ar ix) m' = set_go f d w m'"
    using get [OF assms(2) new assms(6)] law assms(7,8) by simp
  with put other show ?thesis by blast
qed

definition array_vm :: "array_data \<Rightarrow> vm" where
  "array_vm a = (vm_empty [])\<lparr>heap :=
     \<lparr>objects = [\<lparr>obj_class = 0, obj_fields = [], obj_native = Some (Arr a)\<rparr>], free_ids = []\<rparr>\<rparr>"

theorem aput_aget_witness:
  "\<forall>T dc e. \<exists>m'. step_array T (sample_frame dc [VObj 0, VInt 1, VInt 300]) (AGet e 3 0 1) m' =
     set_go (sample_frame dc [VObj 0, VInt 1, VInt 300]) 3 (VInt 44) m'"
proof (intro allI)
  fix T dc e
  show "\<exists>m'. step_array T (sample_frame dc [VObj 0, VInt 1, VInt 300]) (AGet e 3 0 1) m' =
      set_go (sample_frame dc [VObj 0, VInt 1, VInt 300]) 3 (VInt 44) m'"
    using aput_aget [of "sample_frame dc [VObj 0, VInt 1, VInt 300]" 0 0 1 1 2 "VInt 300"
        "array_vm (ByteArr [7, 8])" _ "ByteArr [7, 8]" "VInt 44" T e 3]
    by (auto simp: nth_opt_def array_vm_def arena_get_def stored_elem_def)
qed

section \<open>Calls\<close>

text \<open>
  The register words of a call: the receiver, then each parameter, a wide one as the same
  register twice.
\<close>

fun word_sources :: "(u32 \<Rightarrow> bool) \<Rightarrow> u8 \<Rightarrow> u32 list \<Rightarrow> u8 list" where
  "word_sources wide r [] = []"
| "word_sources wide r (t # ts) =
     (if wide t then r # r # word_sources wide (r + 2) ts else r # word_sources wide (r + 1) ts)"

lemma str_of_at: "spelled (unat i) x s \<Longrightarrow> str_of i s = (Ok x, s)"
  by (simp add: str_of_def spelled_def bnd_def asks_def ret_def del: nth_opt_Some_iff)

lemma str_of_same: "str_of t s = (Ok x, s') \<Longrightarrow> s' = s"
  by (auto simp: str_of_def bnd_Ok asks_def unwrap_def ret_def panic_def split: option.splits)

lemma arg_reg_Ok:
  "arg_reg f a r s = (Ok v, s') \<longleftrightarrow>
    s' = s \<and> (\<exists>k. reg_at a r = Some k \<and> nth_opt (regs f) k = Some v)"
  by (auto simp: arg_reg_def reg_def unwrap_def bnd_Ok ret_def panic_def
      simp del: nth_opt_Some_iff nth_opt_None_iff split: option.splits)

lemma bytecode_args_sources:
  assumes "bytecode_args f a r ts s = (Ok vs, s')"
  shows "s' = s \<and> (\<forall>t \<in> set ts. \<exists>x. str_of t s = (Ok x, s)) \<and>
    list_all2 (\<lambda>q v. arg_reg f a q s = (Ok v, s))
      (word_sources (\<lambda>t. \<exists>x. str_of t s = (Ok x, s) \<and> is_wide_desc x) r ts) vs"
  using assms
proof (induction ts arbitrary: r vs s')
  case Nil
  then show ?case by (simp add: ret_def)
next
  case (Cons t ts)
  obtain v x where v: "arg_reg f a r s = (Ok v, s)" and x: "str_of t s = (Ok x, s)"
      and rest: "(if is_wide_desc x then bnd (bytecode_args f a (r + 2) ts) (\<lambda>vs. ret (v # v # vs))
        else bnd (bytecode_args f a (r + 1) ts) (\<lambda>vs. ret (v # vs))) s = (Ok vs, s')"
    using Cons.prems str_of_same by (fastforce simp: bnd_Ok arg_reg_Ok)
  show ?case
  proof (cases "is_wide_desc x")
    case True
    then obtain us where us: "bytecode_args f a (r + 2) ts s = (Ok us, s')" "vs = v # v # us"
      using rest by (auto simp: bnd_Ok ret_def)
    show ?thesis using Cons.IH [OF us(1)] us(2) v x True by auto
  next
    case False
    then obtain us where us: "bytecode_args f a (r + 1) ts s = (Ok us, s')" "vs = v # us"
      using rest by (auto simp: bnd_Ok ret_def)
    show ?thesis using Cons.IH [OF us(1)] us(2) v x False by auto
  qed
qed

lemma make_regs_Some:
  assumes "make_regs vs k n = Some rs"
  shows "length rs = unat n \<and>
    (\<forall>j < min (length vs) (unat k). unat k \<le> unat n \<and> rs ! (unat n - unat k + j) = vs ! j)"
  using assms
  by (auto simp: make_regs_def Let_def nth_append split: if_splits)

lemma call_reads_same:
  "receiver_of f kind a s = (Ok r, s') \<Longrightarrow> s' = s" "bytecode_args f a q ts s = (Ok vs, s') \<Longrightarrow> s' = s"
  "the_method c slot s = (Ok m, s') \<Longrightarrow> s' = s"
  using bytecode_args_sources
  by (auto simp: receiver_of_def bnd_Ok arg_reg_Ok ret_def the_method_def the_class_def asks_def
      unwrap_def panic_def split: if_splits option.splits)

text \<open>
  C20: A call hands its arguments over. A bytecode call pushes the caller with its return address
  and starts the callee at its first unit with as many registers as its code asks for; the last
  \<open>ins\<close> of them hold the receiver and the arguments in order, a wide argument in both of its
  registers, all read from the registers the instruction names.
\<close>

theorem call_arguments:
  assumes "call_bytecode f kind (TBytecode c slot d (Some ci) ins n rt mas st) a ret_pc s = (Ok f', s')"
    and "ws = (if kind = Static then [] else [0]) @
      word_sources (\<lambda>t. \<exists>x. str_of t s = (Ok x, s) \<and> is_wide_desc x) (first_arg kind) mas"
  shows "frames s' = frames s @ [f\<lparr>pc := ret_pc\<rparr>] \<and>
    f_class f' = c \<and> f_slot f' = slot \<and> f_decoded f' = d \<and> f_tries f' = tries ci \<and> pc f' = 0 \<and>
    pending_exc f' = None \<and> length (regs f') = unat n \<and>
    (\<forall>j < min (length ws) (unat ins).
       arg_reg f a (ws ! j) s = (Ok (regs f' ! (unat n - unat ins + j)), s))"
proof -
  obtain r vs rs m where r: "receiver_of f kind a s = (Ok r, s)"
      and vs: "bytecode_args f a (first_arg kind) mas s = (Ok vs, s)"
      and m: "the_method c slot s = (Ok m, s)"
      and rs: "make_regs (with_receiver r vs) ins n = Some rs"
      and s': "s' = s\<lparr>frames := frames s @ [f\<lparr>pc := ret_pc\<rparr>]\<rparr>"
      and f': "f' = new_frame c slot (m_dex_idx m) d (tries ci) rs"
  proof -
    obtain r s1 vs s2 m s3 rs where *: "receiver_of f kind a s = (Ok r, s1)"
        "bytecode_args f a (first_arg kind) mas s1 = (Ok vs, s2)" "the_method c slot s2 = (Ok m, s3)"
        "make_regs (with_receiver r vs) ins n = Some rs"
        "s' = s3\<lparr>frames := frames s3 @ [f\<lparr>pc := ret_pc\<rparr>]\<rparr>"
        "f' = new_frame c slot (m_dex_idx m) d (tries ci) rs"
      using assms(1)
      by (auto simp: call_bytecode_def bnd_Ok lift_def unwrap_def push_top_def modify_def ret_def panic_def
          split: option.splits)
    then have "s1 = s" "s2 = s" "s3 = s" using call_reads_same by metis+
    with * show thesis by (intro that) auto
  qed
  have all: "list_all2 (\<lambda>q v. arg_reg f a q s = (Ok v, s)) ws (with_receiver r vs)"
    using bytecode_args_sources [OF vs] r assms(2)
    by (auto simp: receiver_of_def with_receiver_def bnd_Ok ret_def split: if_splits)
  then have len: "length ws = length (with_receiver r vs)" by (rule list_all2_lengthD)
  have "arg_reg f a (ws ! j) s = (Ok (rs ! (unat n - unat ins + j)), s)"
    if j: "j < min (length ws) (unat ins)" for j
  proof -
    have "j < min (length (with_receiver r vs)) (unat ins)" using j len by simp
    from conjunct2 [OF make_regs_Some [OF rs], rule_format, OF this]
    have "rs ! (unat n - unat ins + j) = with_receiver r vs ! j" ..
    with list_all2_nthD [OF all, of j] j show ?thesis by simp
  qed
  then show ?thesis
    using make_regs_Some [OF rs] by (simp add: s' f' new_frame_def)
qed

definition callee :: method_rec where
  "callee = \<lparr>m_slot = 0, m_class = 0, m_name = 0, m_sig = 0, m_ret = 0, m_args = [0, 1],
     m_access_flags = 8, static_method = True, m_dex_idx = 0, native_key = None,
     native_decl = False, m_code = Some \<lparr>registers_size = 4, ins_size = 3, outs_size = 0,
       code_insns = [0x000e], tries = []\<rparr>\<rparr>"

definition callee_vm :: vm where
  "callee_vm = (vm_empty [])\<lparr>intern_tab := [''J'', ''I''],
     vm_classes := [(class_new 0 0 None [] 0 None)\<lparr>cls_methods := [callee]\<rparr>]\<rparr>"

definition callee_call :: "frame vm_act" where
  "callee_call = call_bytecode (sample_frame \<lparr>insns = [], units = [], sizes = [], words = 0\<rparr> [VInt 9, VLong 5, VLong 5, VInt 7])
     Static (TBytecode 0 0 \<lparr>insns = [ReturnVoid], units = [0], sizes = [1], words = 1\<rparr> (m_code callee) 3 4 0 [0, 1] True)
     \<lparr>count = 3, regs5 = [1, 2, 3, 0, 0], range = False, base = 0\<rparr> 2"

lemma callee_called:
  "(case callee_call callee_vm of (Ok f', _) \<Rightarrow> regs f' = [VNull, VLong 5, VLong 5, VInt 7] | _ \<Rightarrow> False)"
  by code_simp

theorem call_arguments_witness:
  "\<exists>f' s'. callee_call callee_vm = (Ok f', s') \<and> length (regs f') = 4 \<and> regs f' ! 1 = VLong 5 \<and>
     length (frames s') = 1"
proof -
  obtain f' s' where c: "callee_call callee_vm = (Ok f', s')" "regs f' = [VNull, VLong 5, VLong 5, VInt 7]"
    using callee_called by (cases "callee_call callee_vm"; cases "fst (callee_call callee_vm)") auto
  from call_arguments [OF c(1) [unfolded callee_call_def callee_def method_rec.simps] refl] c show ?thesis
    by (auto simp: callee_vm_def vm_empty_def)
qed

end
