(* ===== verification/ClassGraph.thy ===== *)
theory ClassGraph
  imports LinkInv
begin

text \<open>
  The class graph the linker builds. A class only refers to classes with a smaller id, and
  every table entry names a class that is there: kept by every load, successful or not, so
  that walking up the superclasses always ends and an id a load returns can be used.
\<close>

section \<open>The invariant\<close>

definition refers_below :: "jclass \<Rightarrow> nat \<Rightarrow> bool" where
  "refers_below c n \<longleftrightarrow>
     (\<forall>p. superclass c = Some p \<longrightarrow> unat p < n) \<and> (\<forall>p \<in> set (cls_interfaces c). unat p < n)"

definition graph_ok :: "jclass list \<Rightarrow> bool" where
  "graph_ok cs \<longleftrightarrow> (\<forall>i < length cs. refers_below (cs ! i) i)"

definition entries_below :: "('k \<rightharpoonup> u32) \<Rightarrow> nat \<Rightarrow> bool" where
  "entries_below m n \<longleftrightarrow> (\<forall>k c. m k = Some c \<longrightarrow> unat c < n)"

definition class_inv :: "vm \<Rightarrow> bool" where
  "class_inv s \<longleftrightarrow> graph_ok (vm_classes s) \<and>
     entries_below (class_by_desc s) (length (vm_classes s)) \<and>
     entries_below (class_by_type s) (length (vm_classes s)) \<and>
     entries_below (array_classes s) (length (vm_classes s))"

abbreviation ncls :: "vm \<Rightarrow> nat" where
  "ncls s \<equiv> length (vm_classes s)"

lemma entries_mono: "entries_below m n \<Longrightarrow> n \<le> n' \<Longrightarrow> entries_below m n'"
  by (fastforce simp: entries_below_def)

lemma entries_belowD: "entries_below m n \<Longrightarrow> m k = Some c \<Longrightarrow> unat c < n"
  by (simp add: entries_below_def)

lemma entries_upd: "entries_below m n \<Longrightarrow> unat c < n \<Longrightarrow> entries_below (m(k \<mapsto> c)) n"
  by (auto simp: entries_below_def)

lemma graph_push: "graph_ok cs \<Longrightarrow> refers_below c (length cs) \<Longrightarrow> graph_ok (cs @ [c])"
  by (auto simp: graph_ok_def nth_append less_Suc_eq)

lemma graph_upd: "graph_ok cs \<Longrightarrow> keeps_links f \<Longrightarrow> graph_ok (cs[i := f (cs ! i)])"
  unfolding graph_ok_def
proof (intro allI impI)
  fix j assume g: "\<forall>i < length cs. refers_below (cs ! i) i" "keeps_links f" "j < length (cs[i := f (cs ! i)])"
  then show "refers_below (cs[i := f (cs ! i)] ! j) j"
    by (cases "j = i") (auto simp: refers_below_def keeps_links_def)
qed

section \<open>A triple for actions of the linker\<close>

text \<open>
  \<open>good P m s\<close>: from \<open>s\<close>, \<open>m\<close> keeps the invariant, only adds classes, and a value it returns
  satisfies \<open>P\<close> for the number of classes there are then.
\<close>

definition good :: "('a \<Rightarrow> nat \<Rightarrow> bool) \<Rightarrow> 'a vm_act \<Rightarrow> vm \<Rightarrow> bool" where
  "good P m s \<longleftrightarrow> (class_inv s \<longrightarrow>
     class_inv (snd (m s)) \<and> ncls s \<le> ncls (snd (m s)) \<and>
     (\<forall>x. fst (m s) = Ok x \<longrightarrow> P x (ncls (snd (m s)))))"

abbreviation anything :: "'a \<Rightarrow> nat \<Rightarrow> bool" where
  "anything x n \<equiv> True"

abbreviation valid_id :: "u32 \<Rightarrow> nat \<Rightarrow> bool" where
  "valid_id c n \<equiv> unat c < n"

named_theorems good_intros

lemma good_bnd:
  assumes "good P m s"
    and "\<And>x s'. class_inv s' \<Longrightarrow> ncls s \<le> ncls s' \<Longrightarrow> P x (ncls s') \<Longrightarrow> good Q (f x) s'"
  shows "good Q (bnd m f) s"
  unfolding good_def
proof
  assume s: "class_inv s"
  obtain r s' where r: "m s = (r, s')" by (cases "m s")
  from assms(1) s r have m: "class_inv s'" "ncls s \<le> ncls s'" "\<forall>x. r = Ok x \<longrightarrow> P x (ncls s')"
    by (auto simp: good_def)
  show "class_inv (snd (bnd m f s)) \<and> ncls s \<le> ncls (snd (bnd m f s)) \<and>
      (\<forall>x. fst (bnd m f s) = Ok x \<longrightarrow> Q x (ncls (snd (bnd m f s))))"
  proof (cases r)
    case (Ok x)
    with assms(2) [of s' x] m have "good Q (f x) s'" by auto
    with Ok r m show ?thesis by (auto simp: bnd_def good_def)
  qed (use r m in \<open>auto simp: bnd_def\<close>)
qed

lemma good_weaken: "good P m s \<Longrightarrow> (\<And>x n. P x n \<Longrightarrow> Q x n) \<Longrightarrow> good Q m s"
  by (auto simp: good_def)

lemma good_any: "good P m s \<Longrightarrow> good anything m s"
  by (erule good_weaken) simp

lemma good_ret [good_intros]: "(class_inv s \<Longrightarrow> P x (ncls s)) \<Longrightarrow> good P (ret x) s"
  by (simp add: good_def ret_def)

lemma good_fail [good_intros]: "good P (fail e) s" "good P panic s"
  by (simp_all add: good_def fail_def panic_def)

lemma good_asks: "(class_inv s \<Longrightarrow> P (f s) (ncls s)) \<Longrightarrow> good P (asks f) s"
  by (simp add: good_def asks_def)

lemma good_check [good_intros]: "good anything (check b e) s"
  by (simp add: good_def check_def ret_def fail_def)

lemma good_unwrap [good_intros]: "good anything (unwrap m) s"
  by (cases m) (auto simp: unwrap_def intro!: good_intros)

lemma good_if [good_intros]:
  "(b \<Longrightarrow> good P p s) \<Longrightarrow> (\<not> b \<Longrightarrow> good P q s) \<Longrightarrow> good P (if b then p else q) s"
  by simp

lemma good_option [good_intros]:
  "(m = None \<Longrightarrow> good P p s) \<Longrightarrow> (\<And>x. m = Some x \<Longrightarrow> good P (q x) s) \<Longrightarrow>
   good P (case m of None \<Rightarrow> p | Some x \<Rightarrow> q x) s"
  by (cases m) auto

lemma good_pair [good_intros]:
  "(\<And>x y. p = (x, y) \<Longrightarrow> good P (f x y) s) \<Longrightarrow> good P (case p of (x, y) \<Rightarrow> f x y) s"
  by (cases p) auto

lemma good_Let [good_intros]: "good P (f x) s \<Longrightarrow> good P (Let x f) s"
  by simp

lemma good_bracket [good_intros]:
  "(\<And>e. good P (p e) s) \<Longrightarrow> good P q s \<Longrightarrow> good P (case d of CHR ''['' # e \<Rightarrow> p e | _ \<Rightarrow> q) s"
  by (auto split: list.splits char.splits bool.splits)

lemma good_amap:
  assumes "\<And>x s. good P (f x) s" and mono: "\<And>y n n'. P y n \<Longrightarrow> n \<le> n' \<Longrightarrow> P y n'"
  shows "good (\<lambda>ys n. \<forall>y \<in> set ys. P y n) (amap f xs) s"
proof (induction xs arbitrary: s)
  case Nil
  show ?case by (auto intro: good_intros)
next
  case (Cons x xs)
  show ?case unfolding amap.simps
    by (rule good_bnd [OF assms(1)], rule good_bnd [OF Cons.IH]) (auto intro!: good_intros dest: mono)
qed

lemma good_afold:
  assumes "\<And>acc x s. good anything (f acc x) s"
  shows "good anything (afold f acc xs) s"
proof (induction xs arbitrary: acc s)
  case Nil
  show ?case by (auto intro: good_intros)
next
  case (Cons x xs)
  show ?case unfolding afold.simps by (rule good_bnd [OF assms Cons.IH])
qed

lemma good_keeps:
  assumes "\<And>n. keeps (\<lambda>s. class_inv s \<and> n \<le> ncls s) m"
  shows "good anything m s"
  using assms [of "ncls s"] by (auto simp: good_def keeps_def)

section \<open>The operations\<close>

lemma class_inv_cong:
  assumes "vm_classes s' = vm_classes s" "class_by_desc s' = class_by_desc s"
    "class_by_type s' = class_by_type s" "array_classes s' = array_classes s"
  shows "class_inv s' = class_inv s"
  using assms by (simp add: class_inv_def)

interpretation cls: object_inv "\<lambda>s. class_inv s \<and> n \<le> ncls s" for n
  by unfold_locales
    (auto intro!: keeps_alloc_obj keeps_intern simp: class_inv_def)

lemmas good_kept [good_intros] =
  cls.intern_kept [THEN good_keeps] cls.reads [THEN good_keeps] cls.members_kept [THEN good_keeps]
  cls.strings_kept [THEN good_keeps] cls.object_prims(1) [THEN good_keeps]

lemma good_modify:
  assumes "class_inv s \<Longrightarrow> class_inv (g s)" "ncls s \<le> ncls (g s)"
  shows "good (\<lambda>_ n. n = ncls (g s)) (modify g) s"
  using assms by (simp add: good_def modify_def)

lemma good_push_class:
  "refers_below c (ncls s) \<Longrightarrow> good (\<lambda>_ n. n = Suc (ncls s)) (push_class c) s"
  unfolding push_class_def
  by (rule good_weaken [OF good_modify])
    (auto simp: class_inv_def intro: graph_push entries_mono)

lemma good_tables:
  assumes "unat c < ncls s"
  shows "good anything (set_by_desc d c) s" "good anything (set_by_type dx t c) s"
    "good anything (modify (\<lambda>s. s\<lparr>array_classes := (array_classes s)(k \<mapsto> c)\<rparr>)) s"
  unfolding set_by_desc_def set_by_type_def
  by (rule good_any [OF good_modify]; use assms in \<open>auto simp: class_inv_def intro: entries_upd\<close>)+

lemma good_upd_class:
  "keeps_links f \<Longrightarrow> good anything (upd_class c f) s"
  unfolding upd_class_def
  by (rule good_any [OF good_modify]) (auto simp: class_inv_def intro: graph_upd)

lemma good_loading: "good anything (modify (\<lambda>s. s\<lparr>loading := g s\<rparr>)) s"
  by (rule good_any [OF good_modify]) (auto simp: class_inv_def)

lemma good_lookups:
  "good (\<lambda>m n. \<forall>c. m = Some c \<longrightarrow> unat c < n) (asks (\<lambda>s. class_by_desc s d)) s"
  "good (\<lambda>m n. \<forall>c. m = Some c \<longrightarrow> unat c < n) (asks (\<lambda>s. class_by_type s k)) s"
  "good (\<lambda>m n. \<forall>c. m = Some c \<longrightarrow> unat c < n) (asks (\<lambda>s. array_classes s k)) s"
  by (rule good_asks; auto simp: class_inv_def intro: entries_belowD)+

lemma good_count: "good (\<lambda>i n. unat i \<le> n) class_count s"
  unfolding class_count_def by (rule good_asks) (simp add: unsigned_of_nat take_bit_nat_less_eq_self)

text \<open>The loader over a recursive call that is good.\<close>

definition good_loader :: "loader \<Rightarrow> bool" where
  "good_loader ens \<longleftrightarrow> (\<forall>req s. good valid_id (ens req) s)"

lemma good_ens: "good_loader ens \<Longrightarrow> good valid_id (ens req) s"
  by (simp add: good_loader_def)

lemma good_by_name: "good_loader ens \<Longrightarrow> good valid_id (ensure_by_name ens desc) s"
  unfolding ensure_by_name_def
  by (rule good_bnd [OF good_kept(1)]) (rule good_ens)

lemma class_new_links [simp]:
  "superclass (class_new i d sc ifs fl e) = sc" "cls_interfaces (class_new i d sc ifs fl e) = ifs"
  "is_interface (class_new i d sc ifs fl e) = (fl AND ACC_INTERFACE \<noteq> 0)"
  by (simp_all add: class_new_def)

lemma good_push_array:
  assumes "good_loader ens"
  shows "good valid_id (push_array_class ens d e) s"
  unfolding push_array_class_def
  apply (rule good_bnd [OF good_kept(7)])
  apply (rule good_bnd [OF good_ens [OF assms]])
  apply (rule good_bnd [OF good_by_name [OF assms]])
  apply (rule good_bnd [OF good_by_name [OF assms]])
  apply (rule good_bnd [OF good_count])
  apply (rule good_bnd [OF good_push_class])
   apply (simp add: refers_below_def)
  apply (rule good_bnd [OF good_tables(1)])
   apply simp
  apply (rule good_ret)
  apply simp
  done

lemma good_array_class:
  assumes "good_loader ens"
  shows "good valid_id (array_class ens dx t) s"
  unfolding array_class_def
  apply (rule good_bnd [OF good_lookups(3)])
  apply (rule good_option)
   apply (rule good_bnd [OF good_kept(4)])
   apply (rule good_bnd [OF good_kept(1)])
   apply (rule good_bnd [OF good_push_array [OF assms]])
   apply (rule good_bnd [OF good_tables(3)], assumption)
   apply (auto intro!: good_ret)
  done

lemma good_synth_array_class:
  assumes "good_loader ens"
  shows "good valid_id (synth_array_class ens d) s"
  unfolding synth_array_class_def
  by (rule good_bnd [OF good_lookups(1)]) (auto intro!: good_intros good_push_array assms)

lemma good_class_obj:
  assumes "good_loader ens"
  shows "good anything (class_obj ens c) s"
  unfolding class_obj_def
  apply (rule good_bnd [OF good_kept(3)])
  apply (rule good_option)
   apply (rule good_bnd [OF good_by_name [OF assms]])
   apply (rule good_bnd [OF cls.object_prims(1) [THEN good_keeps]])
   apply (rule good_bnd [OF good_upd_class])
    apply (auto simp: keeps_links_def intro!: good_intros)
  done

lemma good_enc:
  assumes "good_loader ens"
  shows "good anything (enc_to_value ens dx ev) s"
proof (cases "\<exists>t. ev = EV_Type t")
  case True
  then show ?thesis
    by (auto simp: enc_to_value_def intro!: good_bnd [OF good_ens [OF assms]] good_class_obj assms)
next
  case False
  then show ?thesis
    by (cases ev) (auto simp: enc_to_value_def intro!: good_intros)
qed

lemma good_static_value:
  assumes "good_loader ens"
  shows "good anything (set_static_value ens dx sfs vals iev) s"
  unfolding set_static_value_def
  apply (rule good_pair)
  apply (rule good_bnd [OF good_unwrap])
  apply (rule good_bnd [OF good_kept(4)])
  apply (rule good_bnd [OF good_unwrap])
  apply (rule good_bnd [OF good_kept(1)])
  apply (rule good_bnd [OF good_enc [OF assms]])
  apply (intro good_intros)
  apply simp
  done

lemma good_members:
  assumes "good_loader ens"
  shows "good (\<lambda>g _. keeps_links g) (load_members T ens dx df c desc_id desc sc) s"
  unfolding load_members_def
  apply (rule good_bnd [OF good_kept(15)])
  apply (rule good_pair)+
  apply (rule good_bnd [where P = anything])
   apply (rule good_option)
    apply (intro good_intros, simp)
   apply (rule good_bnd [OF good_afold], rule good_kept, rule good_pair)+
   apply (rule good_bnd [OF good_afold], rule good_static_value [OF assms])
   apply (rule good_bnd [OF good_afold], rule good_kept)
   apply (rule good_bnd [OF good_afold], rule good_kept, rule good_pair)
   apply (intro good_intros, simp)
  apply (rule good_pair)+
  apply (rule good_bnd [where P = anything])
   apply (rule good_asks, simp)
  apply (rule good_bnd [OF good_afold], rule good_kept, rule good_pair)
  apply (rule good_ret)
  apply (simp add: keeps_links_def)
  done

abbreviation valid_opt :: "u32 option \<Rightarrow> nat \<Rightarrow> bool" where
  "valid_opt m n \<equiv> \<forall>c. m = Some c \<longrightarrow> unat c < n"

abbreviation valid_ids :: "u32 list \<Rightarrow> nat \<Rightarrow> bool" where
  "valid_ids cs n \<equiv> \<forall>c \<in> set cs. unat c < n"

lemma good_ids: "good_loader ens \<Longrightarrow> good valid_ids (amap (\<lambda>t. ens (f t)) ts) s"
  by (rule good_amap [OF good_ens]) auto

lemma good_names: "good_loader ens \<Longrightarrow> good valid_ids (amap (ensure_by_name ens) ts) s"
  by (rule good_amap [OF good_by_name]) auto

lemma good_some:
  "good_loader ens \<Longrightarrow> good valid_opt (bnd (ens req) (\<lambda>c. ret (Some c))) s"
  "good_loader ens \<Longrightarrow> good valid_opt (bnd (ensure_by_name ens nm) (\<lambda>c. ret (Some c))) s"
  by (rule good_bnd [OF good_ens] good_bnd [OF good_by_name], assumption, rule good_ret, simp)+

text \<open>Pushing a class with valid references and entering it under its descriptor.\<close>

lemma good_new_class:
  assumes "valid_opt sc (ncls s)" "valid_ids ifs (ncls s)"
    and "\<And>c s'. unat c < ncls s' \<Longrightarrow> good Q (rest c) s'"
  shows "good Q (bnd class_count (\<lambda>c.
    bnd (push_class (class_new c d sc ifs fl e)) (\<lambda>_. bnd (set_by_desc d c) (\<lambda>_. rest c)))) s"
  apply (rule good_bnd [OF good_count])
  apply (rule good_bnd [OF good_push_class])
   apply (use assms(1,2) in \<open>fastforce simp: refers_below_def\<close>)
  apply (rule good_bnd [OF good_tables(1)])
   apply simp
  apply (rule assms(3))
  apply simp
  done

lemma good_load_dex_class:
  assumes "good_loader ens"
  shows "good valid_id (load_dex_class T ens dx k) s"
  unfolding load_dex_class_def
  apply (rule good_bnd [OF good_kept(4)])
  apply (rule good_bnd [OF good_unwrap])
  apply (rule good_bnd [OF good_lookups(2)])
  apply (rule good_option)
   apply (rule good_Let)
   apply (rule good_bnd [OF good_kept(1)])
   apply (rule good_bnd [OF good_lookups(1)])
   apply (rule good_option)
    apply (rule good_bnd [where P = anything], rule good_asks, simp)
    apply (rule good_bnd [OF good_check])
    apply (rule good_bnd [OF good_loading])
    apply (rule good_bnd [where P = anything], rule good_any [OF good_kept(7)])
    apply (rule good_bnd [where P = valid_opt])
     apply (intro good_if good_some assms good_ret, simp)
    apply (rule good_bnd [OF good_ids [OF assms]])
    apply (rule good_new_class)
      apply fastforce
     apply simp
    apply (rule good_bnd [OF good_tables(2)], assumption)
    apply (rule good_bnd [OF good_members [OF assms]])
    apply (rule good_bnd [OF good_upd_class], assumption)
    apply (rule good_bnd [OF good_loading])
    apply (rule good_ret)
    apply simp
   apply (rule good_bnd [OF good_tables(2)])
    apply simp
   apply (rule good_ret)
   apply auto
  apply (rule good_ret)
  apply auto
  done

lemma good_load_shim_class:
  assumes "good_loader ens"
  shows "good valid_id (load_shim_class T ens d) s"
  unfolding load_shim_class_def
  apply (rule good_bnd [OF good_kept(2)])
  apply (rule good_Let)
  apply (rule good_bnd [where P = valid_opt])
   apply (rule good_option, rule good_ret, simp, rule good_some [OF assms])
  apply (rule good_bnd [OF good_names [OF assms]])
  apply (rule good_new_class)
    apply fastforce
   apply simp
  apply (rule good_bnd [where P = anything], rule good_asks, simp)
  apply (rule good_bnd [OF good_afold], rule good_kept, rule good_pair)
  apply (rule good_bnd [OF good_afold], rule good_kept, (rule good_pair)+)
  apply (rule good_bnd [OF good_kept(15)], (rule good_pair)+)
  apply (rule good_bnd [OF good_afold], rule good_kept, rule good_pair)
  apply (rule good_bnd [OF good_upd_class], simp add: keeps_links_def)
  apply (rule good_ret)
  apply simp
  done

lemma good_then_by_type:
  "good valid_id m s \<Longrightarrow> good valid_id (bnd m (\<lambda>c. bnd (set_by_type dx t c) (\<lambda>_. ret c))) s"
  by (rule good_bnd, assumption, rule good_bnd [OF good_tables(2)], assumption, rule good_ret, simp)

lemma good_ensure_by_type:
  assumes "good_loader ens"
  shows "good valid_id (ensure_by_type T ens dx t) s"
  unfolding ensure_by_type_def
  apply (rule good_bnd [OF good_lookups(2)])
  apply (rule good_option)
   apply (rule good_bnd [OF good_kept(4)])
   apply (rule good_Let)
   apply (rule good_bnd [OF good_kept(1)])
   apply (rule good_bnd [OF good_lookups(1)])
   apply (rule good_option)
    apply (rule good_bracket)
     apply (intro good_option good_array_class good_synth_array_class assms)
    apply (rule good_bnd [OF good_kept(9)])
    apply (rule good_option)
     apply (rule good_bnd [OF good_kept(11)])
     apply (intro good_if good_then_by_type good_load_shim_class assms good_fail)
    apply (rule good_pair)
    apply (intro good_then_by_type good_load_dex_class assms)
   apply (rule good_bnd [OF good_tables(2)], simp, rule good_ret)
   apply auto
  apply (rule good_ret)
  apply auto
  done

lemma good_ensure_by_desc:
  assumes "good_loader ens"
  shows "good valid_id (ensure_by_desc T ens d) s"
  unfolding ensure_by_desc_def
  apply (rule good_bnd [OF good_lookups(1)])
  apply (rule good_option)
   apply (rule good_bnd [OF good_kept(2)])
   apply (rule good_bracket)
    apply (rule good_bnd [where P = anything], rule good_asks, simp)
    apply (rule good_option)
     apply (rule good_synth_array_class [OF assms])
    apply (rule good_pair, rule good_array_class [OF assms])
   apply (rule good_bnd [OF good_kept(9)])
   apply (rule good_option)
    apply (rule good_bnd [OF good_kept(11)])
    apply (intro good_if good_load_shim_class assms good_fail)
   apply (rule good_pair, rule good_load_dex_class [OF assms])
  apply (rule good_ret)
  apply auto
  done

lemma good_ensure_depth: "good_loader (ensure_depth n T)"
proof (induction n)
  case 0
  show ?case by (simp add: good_loader_def good_def)
next
  case (Suc n)
  then have "good valid_id (ensure_depth (Suc n) T req) s" for req s
    by (cases req) (simp_all add: good_ensure_by_type good_ensure_by_desc)
  then show ?case by (simp add: good_loader_def)
qed

lemma good_ensure: "good_loader (ensure T)"
  using good_ensure_depth by (auto simp: good_loader_def good_def ensure_def)

text \<open>So the invariant is one of everything that resolves and loads.\<close>

lemma keeps_good: "(\<And>s. good P m s) \<Longrightarrow> keeps (\<lambda>s. class_inv s \<and> n \<le> ncls s) m"
  by (fastforce simp: good_def keeps_def)

interpretation clsr: resolve_inv "\<lambda>s. class_inv s \<and> n \<le> ncls s" for n
proof unfold_locales
  show "keeps (\<lambda>s. class_inv s \<and> n \<le> ncls s) (ensure T req)" for T req
    using good_ensure by (intro keeps_good) (auto simp: good_loader_def)
  show "keeps (\<lambda>s. class_inv s \<and> n \<le> ncls s) (array_class (ensure T) dx t)" for T dx t
    using good_array_class [OF good_ensure] by (rule keeps_good)
  show "keeps (\<lambda>s. class_inv s \<and> n \<le> ncls s) (class_obj (ensure T) c)" for T c
    using good_class_obj [OF good_ensure] by (rule keeps_good)
  show "keeps (\<lambda>s. class_inv s \<and> n \<le> ncls s) (upd_class c f)" if "keeps_members f" for c f
    using good_upd_class that unfolding keeps_members_def by (blast intro: keeps_good)
qed (simp_all add: class_inv_def)

section \<open>Consequences\<close>

lemma up_chain_ends:
  assumes "graph_ok cs"
  shows "unat c < length cs \<Longrightarrow> unat c < n \<Longrightarrow> \<exists>m. up_chain n cs f (Some c) = Ok m"
proof (induction n arbitrary: c)
  case (Suc n)
  show ?case
  proof (cases "f (cs ! unat c)")
    case None
    show ?thesis
    proof (cases "superclass (cs ! unat c)")
      case (Some p)
      then have "unat p < unat c"
        using assms Suc.prems(1) by (auto simp: graph_ok_def refers_below_def)
      then show ?thesis using Suc None Some by (simp add: nth_opt_def)
    qed (use Suc.prems None in \<open>simp add: nth_opt_def\<close>)
  qed (use Suc.prems in \<open>simp add: nth_opt_def\<close>)
qed simp

lemma climb_ends:
  assumes "class_inv s" and "unat c < ncls s"
  shows "\<exists>m. climb f c s = (Ok m, s)"
proof -
  obtain m where "up_chain (Suc (ncls s)) (vm_classes s) f (Some c) = Ok m"
    using up_chain_ends [of "vm_classes s" c "Suc (ncls s)" f] assms by (auto simp: class_inv_def)
  then show ?thesis by (simp add: climb_def bnd_def asks_def lift_def)
qed

lemma class_inv_empty: "class_inv (vm_empty ds)"
  by (simp add: class_inv_def graph_ok_def entries_below_def vm_empty_def)

lemma good_set_hot: "good anything (set_hot g i) s"
  unfolding set_hot_def by (rule good_any [OF good_modify]) (simp_all add: class_inv_def)

lemma good_hot_intern: "good anything (hot_intern str g) s"
  unfolding hot_intern_def by (rule good_bnd [OF good_kept(1) good_set_hot])

lemma good_put_native: "good anything (put_native e) s"
  unfolding put_native_def
  by (rule good_bnd [OF good_kept(1)] good_bnd [OF good_any [OF good_modify]] good_ret
      | simp add: class_inv_def)+

lemma good_register_natives: "good anything (register_natives T) s"
  unfolding register_natives_def
  by (rule good_bnd [OF good_amap [where P = anything]]) (auto intro!: good_put_native good_ret)

lemma good_boot: "good anything (boot T) s"
  unfolding boot_def
  by (rule good_bnd [OF good_hot_intern] good_bnd [OF good_kept(1)] good_bnd [OF good_set_hot]
      good_bnd [OF good_ens [OF good_ensure]] good_bnd [OF good_kept(7)] good_register_natives)+

section \<open>Properties\<close>

text \<open>
  C10: Loading keeps the class graph well-founded. Whatever is asked for and whether or not the
  load succeeds, afterwards every class still refers only to superclasses and interfaces with
  smaller ids, every table entry names an existing class, no class has gone, and a successful
  load returns the id of an existing class.
\<close>

theorem linker_keeps_class_graph:
  assumes "class_inv s" and "ensure T req s = (r, s')"
  shows "class_inv s' \<and> ncls s \<le> ncls s' \<and> (\<forall>c. r = Ok c \<longrightarrow> unat c < ncls s')"
  using good_ens [OF good_ensure, of T req s] assms by (auto simp: good_def)

definition small_tables :: tables where
  "small_tables =
     \<lparr>shim_classes =
        [\<lparr>sh_desc = ''Ljava/lang/Object;'', sh_super = None, sh_interfaces = [], sh_flags = 0,
          sh_statics = [], sh_fields = []\<rparr>,
         \<lparr>sh_desc = ''Ljava/lang/String;'', sh_super = Some ''Ljava/lang/Object;'',
          sh_interfaces = [''Ljava/lang/CharSequence;''], sh_flags = 0, sh_statics = [],
          sh_fields = [(''count'', ''I'')]\<rparr>,
         \<lparr>sh_desc = ''Ljava/lang/CharSequence;'', sh_super = None, sh_interfaces = [],
          sh_flags = ACC_INTERFACE, sh_statics = [], sh_fields = []\<rparr>],
      native_entries = []\<rparr>"

theorem linker_keeps_class_graph_witness:
  "class_inv (snd (ensure small_tables (ByDesc 0) (vm_empty [])))"
  using linker_keeps_class_graph [OF class_inv_empty, of small_tables "ByDesc 0" "[]"]
  by (metis prod.collapse)

text \<open>
  A new machine starts with a well-founded class graph: the boot sequence loads the classes
  the VM itself needs, from the DEX files or the shim tables, and if it succeeds the invariant
  holds.
\<close>

theorem vm_new_class_graph:
  assumes "vm_new T ds = Ok s"
  shows "class_inv s"
  using good_boot [of T "vm_empty ds"] class_inv_empty [of ds] assms
  by (auto simp: vm_new_def good_def obind_Ok_iff split: prod.splits)

lemma small_vm_boots:
  "(case vm_new small_tables [] of Ok s \<Rightarrow> ncls s = 3 \<and> length (intern_tab s) < 100 | _ \<Rightarrow> False)"
  by code_simp

lemma small_vm: "\<exists>s. vm_new small_tables [] = Ok s \<and> ncls s = 3"
  using small_vm_boots by (cases "vm_new small_tables []") auto

theorem vm_new_class_graph_witness: "\<exists>s. vm_new small_tables [] = Ok s \<and> class_inv s"
  using small_vm vm_new_class_graph by blast

text \<open>
  Field lookup always ends. On a well-founded class graph the walk up the superclasses from
  any class, in search of a field or a static field, returns: no cycle keeps it going and
  every class on the way is there.
\<close>

theorem field_walk_returns:
  assumes "class_inv s" and "unat c < ncls s"
  shows "\<exists>m. field_offset c nm ty s = (Ok m, s)"
  unfolding field_offset_def by (rule climb_ends [OF assms])

theorem field_walk_returns_witness:
  "\<exists>s. vm_new small_tables [] = Ok s \<and> (\<exists>m. field_offset 0 7 7 s = (Ok m, s))"
proof -
  obtain s where s: "vm_new small_tables [] = Ok s" "ncls s = 3" using small_vm by blast
  have "class_inv s" using good_boot [of small_tables "vm_empty []"] class_inv_empty [of "[]"] s(1)
    by (auto simp: vm_new_def good_def obind_Ok_iff split: prod.splits)
  then have "\<exists>m. field_offset 0 7 7 s = (Ok m, s)"
    by (rule field_walk_returns) (simp add: s(2))
  with s(1) show ?thesis by blast
qed

end
