(* ===== verification/LoadTotal.thy ===== *)
theory LoadTotal
  imports ClassGraph
begin

text \<open>
  Loading a class ends. The recursion of the linker goes up the superclasses and interfaces
  and into the static values of a class; it ends because a DEX class already being loaded is
  refused and because the shim tables have no cycle. String ids are the number of strings so
  far, cut to 32 bits, and all of this is about a machine with at most \<open>2^32\<close> strings: \<open>esc\<close>
  says that the table has outgrown that.
\<close>

section \<open>Interning within 32 bits\<close>

definition esc :: "vm \<Rightarrow> bool" where
  "esc s \<longleftrightarrow> 2 ^ 32 < length (intern_tab s)"

definition intern_ok :: "vm \<Rightarrow> bool" where
  "intern_ok s \<longleftrightarrow> (\<forall>x i. intern_map s x = Some i \<longrightarrow> spelled (unat i) x s)"

interpretation escp: link_inv esc
  by unfold_locales
    (auto simp: prim_defs esc_def intern_def Let_def keeps_def alloc_obj_def modify_def
      split: option.split)

lemma intern_fresh:
  assumes "length (intern_tab s) < 2 ^ 32"
  shows "unat (of_nat (length (intern_tab s)) :: u32) = length (intern_tab s)"
  using assms by (simp add: unsigned_of_nat take_bit_nat_eq_self)

lemma intern_step:
  assumes "intern_ok s"
  shows "esc (snd (intern str s)) \<or>
    (\<exists>i. fst (intern str s) = Ok i \<and> spelled (unat i) str (snd (intern str s)) \<and>
       intern_ok (snd (intern str s)))"
proof (cases "intern_map s str")
  case (Some i)
  with assms show ?thesis by (auto simp: intern_def intern_ok_def)
next
  case None
  show ?thesis
  proof (cases "length (intern_tab s) < 2 ^ 32")
    case True
    have "spelled (unat i) x (snd (intern str s))"
      if "intern_map (snd (intern str s)) x = Some i" for x i
      using that assms None intern_fresh [OF True]
      by (auto simp: intern_def Let_def intern_ok_def spelled_def nth_append split: if_splits)
    then show ?thesis using None intern_fresh [OF True]
      by (auto simp: intern_def Let_def intern_ok_def spelled_def)
  qed (use None in \<open>simp add: intern_def Let_def esc_def\<close>)
qed

section \<open>The state of a load\<close>

text \<open>The DEX files, the loads in progress, and ids that mean what they were made for.\<close>

definition object_named :: "vm \<Rightarrow> bool" where
  "object_named s \<longleftrightarrow> spelled (unat (hot_object (hot_ids s))) ''Ljava/lang/Object;'' s"

definition lstate :: "dex_file list \<Rightarrow> (u32 \<times> nat) list \<Rightarrow> vm \<Rightarrow> bool" where
  "lstate D L s \<longleftrightarrow> dexes s = D \<and> loading s = L \<and> intern_ok s \<and> object_named s"

lemma intern_more:
  "dexes (snd (intern str s)) = dexes s \<and> loading (snd (intern str s)) = loading s \<and>
   (object_named s \<longrightarrow> object_named (snd (intern str s)))"
  by (auto simp: intern_def Let_def object_named_def spelled_def nth_append split: option.splits)

text \<open>\<open>fin m Q s\<close>: \<open>m\<close> ends from \<open>s\<close>, and what it returns satisfies \<open>Q\<close>, unless the table overflows.\<close>

definition fin :: "'a vm_act \<Rightarrow> ('a \<Rightarrow> vm \<Rightarrow> bool) \<Rightarrow> vm \<Rightarrow> bool" where
  "fin m Q s \<longleftrightarrow> esc (snd (m s)) \<or>
     fst (m s) \<noteq> Diverge \<and> (\<forall>x. fst (m s) = Ok x \<longrightarrow> Q x (snd (m s)))"

lemma fin_bnd:
  assumes "fin m R s" and "\<And>x. keeps esc (f x)" and "\<And>x s'. R x s' \<Longrightarrow> fin (f x) Q s'"
  shows "fin (bnd m f) Q s"
proof -
  obtain r s' where r: "m s = (r, s')" by (cases "m s")
  show ?thesis
  proof (cases "esc s'")
    case True
    show ?thesis
    proof (cases r)
      case (Ok x)
      have "esc (snd (f x s'))" using assms(2) True by (auto simp: keeps_def)
      with Ok r show ?thesis by (simp add: fin_def bnd_def)
    qed (use r True in \<open>simp_all add: fin_def bnd_def\<close>)
  next
    case False
    then show ?thesis using assms(1) r assms(3) by (cases r) (auto simp: fin_def bnd_def)
  qed
qed

lemma fin_weaken: "fin m Q s \<Longrightarrow> (\<And>x s'. Q x s' \<Longrightarrow> Q' x s') \<Longrightarrow> fin m Q' s"
  by (auto simp: fin_def)

named_theorems fin_intros

lemma fin_ret [fin_intros]: "Q x s \<Longrightarrow> fin (ret x) Q s"
  by (simp add: fin_def ret_def)

lemma fin_fail [fin_intros]: "fin (fail e) Q s" "fin panic Q s"
  by (simp_all add: fin_def fail_def panic_def)

lemma fin_if [fin_intros]:
  "(b \<Longrightarrow> fin p Q s) \<Longrightarrow> (\<not> b \<Longrightarrow> fin q Q s) \<Longrightarrow> fin (if b then p else q) Q s"
  by simp

lemma fin_option [fin_intros]:
  "(m = None \<Longrightarrow> fin p Q s) \<Longrightarrow> (\<And>x. m = Some x \<Longrightarrow> fin (q x) Q s) \<Longrightarrow>
   fin (case m of None \<Rightarrow> p | Some x \<Rightarrow> q x) Q s"
  by (cases m) auto

lemma fin_pair [fin_intros]:
  "(\<And>x y. p = (x, y) \<Longrightarrow> fin (f x y) Q s) \<Longrightarrow> fin (case p of (x, y) \<Rightarrow> f x y) Q s"
  by (cases p) auto

lemma fin_Let [fin_intros]: "fin (f x) Q s \<Longrightarrow> fin (Let x f) Q s"
  by simp

text \<open>Reads leave the state as it is.\<close>

lemma fin_asks: "fin (asks f) (\<lambda>x s'. x = f s \<and> s' = s) s"
  by (simp add: fin_def asks_def)

lemma fin_unwrap: "fin (unwrap m) (\<lambda>x s'. m = Some x \<and> s' = s) s"
  by (cases m) (simp_all add: fin_def unwrap_def ret_def panic_def)

lemma fin_check: "fin (check b e) (\<lambda>_ s'. b \<and> s' = s) s"
  by (simp add: fin_def check_def ret_def fail_def)

lemma fin_modify: "fin (modify g) (\<lambda>_ s'. s' = g s) s"
  by (simp add: fin_def modify_def)

lemma fin_pure_bnd:
  assumes "fin m (\<lambda>x s'. P x \<and> s' = s) s" and "\<And>x. keeps esc (f x)"
    and "\<And>x. P x \<Longrightarrow> fin (f x) Q s"
  shows "fin (bnd m f) Q s"
  by (rule fin_bnd [OF assms(1,2)]) (auto intro: assms(3))

lemma fin_asks_bnd: "(\<And>x. keeps esc (f x)) \<Longrightarrow> fin (f (g s)) Q s \<Longrightarrow> fin (bnd (asks g) f) Q s"
  by (rule fin_bnd [OF fin_asks]) auto

lemma fin_dex_at: "fin (dex_at dx) (\<lambda>d s'. nth_opt (dexes s) (unat dx) = Some d \<and> s' = s) s"
  unfolding dex_at_def by (rule fin_asks_bnd) (intro keeps_intros, rule fin_unwrap)

lemma fin_str_of: "fin (str_of i) (\<lambda>x s'. spelled (unat i) x s \<and> s' = s) s"
  unfolding str_of_def spelled_def by (rule fin_asks_bnd) (intro keeps_intros, rule fin_unwrap)

lemma fin_the_class: "fin (the_class c) (\<lambda>_ s'. s' = s) s"
  unfolding the_class_def
  by (rule fin_asks_bnd, intro keeps_intros, rule fin_weaken [OF fin_unwrap]) auto

lemma fin_intern: "lstate D L s \<Longrightarrow> fin (intern str) (\<lambda>i s'. lstate D L s' \<and> spelled (unat i) str s') s"
  using intern_step [of s str] intern_more [of str s] by (auto simp: fin_def lstate_def)

text \<open>Actions that always end; the rules follow the structure of the code.\<close>

definition ends :: "('s, 'e, 'a) act \<Rightarrow> bool" where
  "ends m \<longleftrightarrow> (\<forall>s. fst (m s) \<noteq> Diverge)"

named_theorems ends_intros

lemma ends_bnd [ends_intros]:
  assumes "ends m" "\<And>x. ends (f x)"
  shows "ends (bnd m f)"
  unfolding ends_def
proof
  fix s
  show "fst (bnd m f s) \<noteq> Diverge"
    using assms by (cases "m s"; cases "fst (m s)") (auto simp: bnd_def ends_def dest: spec [of _ s])
qed

lemma ends_basic [ends_intros]:
  "ends (ret x)" "ends (fail e)" "ends panic" "ends (asks g)" "ends (modify h)" "ends (check b e)"
  "ends (unwrap m)" "ends (lift (ok_or e m))" "ends (intern str)" "ends (alloc_obj c fs nv)"
  by (auto simp: ends_def run_simps intern_def alloc_obj_def Let_def split: option.splits)

lemma ends_branch [ends_intros]:
  "(b \<Longrightarrow> ends p) \<Longrightarrow> (\<not> b \<Longrightarrow> ends q) \<Longrightarrow> ends (if b then p else q)"
  "ends p \<Longrightarrow> (\<And>x. ends (g x)) \<Longrightarrow> ends (case m of None \<Rightarrow> p | Some x \<Rightarrow> g x)"
  "(\<And>x y. ends (h x y)) \<Longrightarrow> ends (case z of (x, y) \<Rightarrow> h x y)"
  "ends (k v) \<Longrightarrow> ends (Let v k)"
  by (auto split: option.splits prod.splits)

lemma ends_loops [ends_intros]:
  "(\<And>x. ends (f x)) \<Longrightarrow> ends (amap f xs)"
  "(\<And>acc x. ends (g acc x)) \<Longrightarrow> ends (afold g acc xs)"
  by (induction xs arbitrary: acc) (simp_all, (intro ends_intros; simp)+)

lemma ends_reads [ends_intros]:
  "ends (str_of i)" "ends (the_class c)" "ends (dex_at dx)" "ends (proto_sig d p)"
  "ends (object_id)" "ends (class_count)" "ends (shim_or_native T desc)" "ends (class_location desc)"
  "ends (the_object ob)" "ends (the_method c slot)" "ends (class_desc_str c)" "ends (payload_of v)"
  "ends (object_class v)" "ends (alloc_string str)" "ends (dex_string dx sid)"
  unfolding str_of_def the_class_def dex_at_def proto_sig_def object_id_def class_count_def
    shim_or_native_def class_location_def the_object_def the_method_def class_desc_str_def
    payload_of_def object_class_def alloc_string_def dex_string_def
  by (intro ends_intros)+

lemma ends_members [ends_intros]:
  "ends (superclass_data sc)" "ends (field_name_ty dx fidx)" "ends (add_static dx c acc ef)"
  "ends (add_instance dx acc2 ef')" "ends (add_method dx c acc' em)"
  "ends (add_native c desc_id acc' ne)" "ends (add_shim_method c desc_id acc' ne)"
  "ends (add_shim_static c acc'' sd)" "ends (add_shim_field acc3 sf)"
proof -
  show "ends (superclass_data sc)" unfolding superclass_data_def by (intro ends_intros)
  show f: "ends (field_name_ty dx fidx)" for dx fidx
    unfolding field_name_ty_def by (intro ends_intros)
  show "ends (add_static dx c acc ef)" unfolding add_static_def by (intro ends_intros f)
  show "ends (add_instance dx acc2 ef')" unfolding add_instance_def by (intro ends_intros f)
  show "ends (add_method dx c acc' em)" unfolding add_method_def by (intro ends_intros)
  show "ends (add_native c desc_id acc' ne)" unfolding add_native_def by (intro ends_intros)
  show "ends (add_shim_method c desc_id acc' ne)" unfolding add_shim_method_def by (intro ends_intros)
  show "ends (add_shim_static c acc'' sd)"
    unfolding add_shim_static_def
    by (cases "snd (snd sd)") (auto intro!: ends_intros split: prod.splits)
  show "ends (add_shim_field acc3 sf)" unfolding add_shim_field_def by (intro ends_intros)
qed

section \<open>What loading does besides loading\<close>

lemma fin_kept:
  assumes "keeps (\<lambda>s. esc s \<or> lstate D L s) m" and "ends m" and "lstate D L s"
  shows "fin m (\<lambda>_. lstate D L) s"
  using assms unfolding fin_def keeps_def ends_def by blast

interpretation lst: object_inv "\<lambda>s. esc s \<or> lstate D L s" for D L
proof unfold_locales
  show "keeps (\<lambda>s. esc s \<or> lstate D L s) (intern str)" for str
    unfolding keeps_def
  proof (intro allI impI)
    fix s assume s: "esc s \<or> lstate D L s"
    show "esc (snd (intern str s)) \<or> lstate D L (snd (intern str s))"
    proof (cases "esc s")
      case True
      then show ?thesis using escp.I_intern [of str] by (auto simp: keeps_def)
    next
      case False
      with s show ?thesis using intern_step [of s str] intern_more [of str s]
        by (auto simp: lstate_def)
    qed
  qed
qed (auto simp: esc_def lstate_def intern_ok_def spelled_def object_named_def
      intro!: keeps_alloc_obj)

lemmas fin_members =
  fin_kept [OF lst.members_kept(1) ends_members(1)]
  fin_kept [OF lst.intern_kept ends_basic(9)]
  fin_kept [OF lst.strings_kept(2) ends_reads(15)]

lemma fin_afold:
  assumes "\<And>acc x. keeps (\<lambda>s. esc s \<or> lstate D L s) (f acc x)" "\<And>acc x. ends (f acc x)"
    and "lstate D L s"
  shows "fin (afold f acc xs) (\<lambda>_. lstate D L) s"
  by (rule fin_kept [OF keeps_afold ends_loops(2) assms(3)]) (rule assms)+

lemma fin_afold_ens:
  assumes "\<And>acc x. keeps esc (f acc x)"
    and "\<And>acc x s. lstate D L s \<Longrightarrow> fin (f acc x) (\<lambda>_. lstate D L) s"
  shows "lstate D L s \<Longrightarrow> fin (afold f acc xs) (\<lambda>_. lstate D L) s"
proof (induction xs arbitrary: acc s)
  case (Cons x xs)
  show ?case unfolding afold.simps
    by (rule fin_bnd [OF assms(2) [OF Cons.prems]]) (auto intro: keeps_afold assms(1) Cons.IH)
qed (simp add: fin_ret)

lemma fin_amap:
  assumes "\<And>x. keeps esc (f x)"
    and "\<And>x s. x \<in> set xs \<Longrightarrow> lstate D L s \<Longrightarrow> fin (f x) (\<lambda>_. lstate D L) s"
  shows "lstate D L s \<Longrightarrow> fin (amap f xs) (\<lambda>_. lstate D L) s"
  using assms(2)
proof (induction xs arbitrary: s)
  case (Cons x xs)
  have x: "fin (f x) (\<lambda>_. lstate D L) s" using Cons.prems by simp
  have xs: "fin (amap f xs) (\<lambda>_. lstate D L) s'" if "lstate D L s'" for s'
    by (rule Cons.IH [OF that]) (rule Cons.prems(2), auto)
  have rest: "fin (bnd (amap f xs) (\<lambda>ys. ret (y # ys))) (\<lambda>_. lstate D L) s'" if "lstate D L s'" for y s'
    by (rule fin_bnd [OF xs [OF that] keeps_ret]) (simp add: fin_ret)
  show ?case unfolding amap.simps
    by (rule fin_bnd [OF x _ rest]) (rule keeps_bnd keeps_amap keeps_ret assms(1))+
qed (simp add: fin_ret)

text \<open>Writes to the class tables.\<close>

lemma fin_writes:
  assumes "lstate D L s"
  shows "fin (push_class k) (\<lambda>_. lstate D L) s" "fin (upd_class c f) (\<lambda>_. lstate D L) s"
    "fin (set_by_desc d c) (\<lambda>_. lstate D L) s" "fin (set_by_type dx t c) (\<lambda>_. lstate D L) s"
    "fin (modify (\<lambda>s. s\<lparr>array_classes := g s\<rparr>)) (\<lambda>_. lstate D L) s"
    "fin (alloc_obj c fs n) (\<lambda>_. lstate D L) s"
  using assms
  by (auto simp: fin_def prim_defs modify_def lstate_def intern_ok_def spelled_def alloc_obj_def
      object_named_def split: option.splits)

section \<open>The measure\<close>

text \<open>The classes that loading a shim or an array class loads first.\<close>

definition shim_parents :: "tables \<Rightarrow> string \<Rightarrow> string list" where
  "shim_parents T d =
     (if take 1 d = ''['' then
        [''Ljava/lang/Object;'', ''Ljava/lang/Cloneable;'', ''Ljava/io/Serializable;'']
      else
        (case sh_super (shim_for T d) of None \<Rightarrow> [] | Some n \<Rightarrow> [n]) @ sh_interfaces (shim_for T d))"

text \<open>Every chain of them from \<open>d\<close> has at most \<open>n\<close> classes.\<close>

primrec shim_ok :: "nat \<Rightarrow> tables \<Rightarrow> string \<Rightarrow> bool" where
  "shim_ok 0 T d = False"
| "shim_ok (Suc n) T d = (\<forall>x \<in> set (shim_parents T d). shim_ok n T x)"

definition acyclic_shims :: "tables \<Rightarrow> bool" where
  "acyclic_shims T \<longleftrightarrow>
     (\<forall>d \<in> set ([''Ljava/lang/Object;'', ''Ljava/lang/Cloneable;'', ''Ljava/io/Serializable;'']
                @ map sh_desc (shim_classes T)).
        shim_ok (length (shim_classes T) + 1) T d)"

definition shim_bound :: "tables \<Rightarrow> nat" where
  "shim_bound T = length (shim_classes T) + 2"

lemma shim_ok_Suc: "shim_ok n T d \<Longrightarrow> shim_ok (Suc n) T d"
  by (induction n arbitrary: d) auto

lemma acyclic_shim_ok:
  assumes "acyclic_shims T"
  shows "shim_ok (shim_bound T) T d"
proof (cases "d \<in> sh_desc ` set (shim_classes T)")
  case True
  then show ?thesis using assms
    by (auto simp: acyclic_shims_def shim_bound_def simp del: shim_ok.simps intro: shim_ok_Suc)
next
  case False
  then have "List.find (\<lambda>e. sh_desc e = d) (shim_classes T) = None" by (auto simp: find_None_iff)
  then have "sh_super (shim_for T d) = Some ''Ljava/lang/Object;''" "sh_interfaces (shim_for T d) = []"
    by (simp_all add: shim_for_def)
  then have "set (shim_parents T d) \<subseteq>
      {''Ljava/lang/Object;'', ''Ljava/lang/Cloneable;'', ''Ljava/io/Serializable;''}"
    by (auto simp: shim_parents_def)
  then show ?thesis using assms by (auto simp: acyclic_shims_def shim_bound_def)
qed

text \<open>The DEX classes not yet being loaded.\<close>

definition dex_classes :: "dex_file list \<Rightarrow> (u32 \<times> nat) set" where
  "dex_classes D = {(dx, k). unat dx < length D \<and> k < length (classes (D ! unat dx))}"

definition left_of :: "dex_file list \<Rightarrow> (u32 \<times> nat) list \<Rightarrow> nat" where
  "left_of D L = card (dex_classes D - set L)"

lemma dex_classes_card:
  "finite (dex_classes D) \<and> card (dex_classes D) \<le> sum_list (map (\<lambda>d. length (classes d)) D)"
proof -
  let ?A = "Sigma {..<length D} (\<lambda>i. {..<length (classes (D ! i))})"
  have inj: "inj_on (\<lambda>(dx, k). (unat dx, k)) (dex_classes D)"
    by (auto simp: inj_on_def unat_inj)
  have sub: "(\<lambda>(dx, k). (unat dx, k)) ` dex_classes D \<subseteq> ?A"
    by (auto simp: dex_classes_def)
  have "finite ?A" by auto
  then have f: "finite (dex_classes D)" using inj sub by (metis finite_imageD finite_subset)
  have "card (dex_classes D) \<le> card ?A"
    using card_inj_on_le [OF inj sub \<open>finite ?A\<close>] .
  also have "\<dots> = sum_list (map (\<lambda>d. length (classes d)) D)"
    by (simp add: sum_list_sum_nth atLeast0LessThan)
  finally show ?thesis using f by simp
qed

lemma left_of_push:
  assumes "x \<in> dex_classes D" "x \<notin> set L"
  shows "left_of D L = Suc (left_of D (L @ [x]))"
proof -
  have e: "dex_classes D - set L = insert x (dex_classes D - set (L @ [x]))" using assms by auto
  have "finite (dex_classes D - set (L @ [x]))" using dex_classes_card by blast
  then show ?thesis unfolding left_of_def e by (rule card_insert_disjoint) simp
qed

section \<open>The loads in progress before and after\<close>

text \<open>
  \<open>settled D L L' m\<close>: from a machine with the loads \<open>L\<close> in progress, \<open>m\<close> ends, and if it succeeds
  it leaves the loads \<open>L'\<close>.
\<close>

definition settled :: "dex_file list \<Rightarrow> (u32 \<times> nat) list \<Rightarrow> (u32 \<times> nat) list \<Rightarrow> 'a vm_act \<Rightarrow> bool" where
  "settled D L L' m \<longleftrightarrow> keeps esc m \<and> (\<forall>s. lstate D L s \<longrightarrow> fin m (\<lambda>_. lstate D L') s)"

named_theorems settled_intros

lemma settled_bnd:
  assumes "settled D L L1 m" "\<And>x. settled D L1 L2 (f x)"
  shows "settled D L L2 (bnd m f)"
  unfolding settled_def
proof (intro conjI allI impI)
  show "keeps esc (bnd m f)" using assms by (auto simp: settled_def intro: keeps_bnd)
  show "fin (bnd m f) (\<lambda>_. lstate D L2) s" if "lstate D L s" for s
    by (rule fin_bnd [where R = "\<lambda>_. lstate D L1"]) (use assms that in \<open>auto simp: settled_def\<close>)
qed

lemma settled_seq [settled_intros]:
  "settled D L L m \<Longrightarrow> (\<And>x. settled D L L' (f x)) \<Longrightarrow> settled D L L' (bnd m f)"
  by (rule settled_bnd)

lemma settled_fin: "settled D L L' m \<Longrightarrow> lstate D L s \<Longrightarrow> fin m (\<lambda>_. lstate D L') s"
  by (simp add: settled_def)

lemma settled_stop [settled_intros]: "settled D L L' (fail e)" "settled D L L' panic"
  by (auto simp: settled_def intro: keeps_intros fin_intros)

lemma settled_ret [settled_intros]: "settled D L L (ret x)"
  by (auto simp: settled_def intro: keeps_intros fin_intros)

lemma settled_kept:
  "keeps esc m \<Longrightarrow> keeps (\<lambda>s. esc s \<or> lstate D L s) m \<Longrightarrow> ends m \<Longrightarrow> settled D L L m"
  using fin_kept by (auto simp: settled_def)

lemma settled_branch [settled_intros]:
  "(b \<Longrightarrow> settled D L L' p) \<Longrightarrow> (\<not> b \<Longrightarrow> settled D L L' q) \<Longrightarrow> settled D L L' (if b then p else q)"
  "settled D L L' p \<Longrightarrow> (\<And>x. m = Some x \<Longrightarrow> settled D L L' (g x)) \<Longrightarrow>
    settled D L L' (case m of None \<Rightarrow> p | Some x \<Rightarrow> g x)"
  "(\<And>x y. settled D L L' (h x y)) \<Longrightarrow> settled D L L' (case z of (x, y) \<Rightarrow> h x y)"
  "settled D L L' (k v) \<Longrightarrow> settled D L L' (Let v k)"
  by (auto split: option.splits prod.splits)

lemma settled_loops [settled_intros]:
  "(\<And>x. x \<in> set xs \<Longrightarrow> settled D L L (f x)) \<Longrightarrow> settled D L L (amap f xs)"
  "(\<And>acc x. settled D L L (g acc x)) \<Longrightarrow> settled D L L (afold g acc xs)"
proof -
  show "(\<And>x. x \<in> set xs \<Longrightarrow> settled D L L (f x)) \<Longrightarrow> settled D L L (amap f xs)"
    by (induction xs) (auto intro!: settled_bnd settled_ret)
  show "(\<And>acc x. settled D L L (g acc x)) \<Longrightarrow> settled D L L (afold g acc xs)"
    by (induction xs arbitrary: acc) (auto intro!: settled_bnd settled_ret)
qed

lemma settled_reads [settled_intros]:
  "settled D L L (asks g)" "settled D L L (check b e)" "settled D L L (unwrap m)"
  "settled D L L (dex_at dx)" "settled D L L class_count"
  "settled D L L (shim_or_native T desc)" "settled D L L (class_location desc)"
  "settled D L L (the_class c)"
  by (rule settled_kept; (intro keeps_intros ends_intros escp.reads lst.reads))+

lemma settled_members [settled_intros]:
  "settled D L L (intern str)" "settled D L L (superclass_data sc)"
  "settled D L L (add_static dx c acc ef)" "settled D L L (add_instance dx acc2 ef')"
  "settled D L L (add_method dx c acc' em)" "settled D L L (add_native c desc_id acc' ne)"
  "settled D L L (add_shim_method c desc_id acc' ne)"
  "settled D L L (add_shim_static c acc'' sd)" "settled D L L (add_shim_field acc3 sf)"
  "settled D L L (dex_string dx sid)"
  by (rule settled_kept;
      (intro ends_intros escp.intern_kept lst.intern_kept escp.members_kept lst.members_kept
        escp.strings_kept lst.strings_kept))+

lemma settled_writes [settled_intros]:
  "settled D L L (push_class k)" "settled D L L (upd_class c f)" "settled D L L (set_by_desc d c)"
  "settled D L L (set_by_type dx t c)" "settled D L L (modify (\<lambda>s. s\<lparr>array_classes := g s\<rparr>))"
  "settled D L L (alloc_obj c fs n)"
  by (auto simp: settled_def intro: fin_writes keeps_intros escp.link_prims escp.object_prims)

text \<open>Steps whose result the next one depends on.\<close>

lemma settled_intern_bnd:
  assumes "\<And>i. keeps esc (f i)"
    and "\<And>i s. lstate D L s \<Longrightarrow> spelled (unat i) str s \<Longrightarrow> fin (f i) (\<lambda>_. lstate D L') s"
  shows "settled D L L' (bnd (intern str) f)"
  unfolding settled_def
  by (intro conjI allI impI keeps_intros escp.intern_kept assms, rule fin_bnd [OF fin_intern])
    (auto intro: assms)

lemma settled_object_bnd:
  assumes "\<And>i. keeps esc (f i)"
    and "\<And>i s. lstate D L s \<Longrightarrow> spelled (unat i) ''Ljava/lang/Object;'' s \<Longrightarrow>
           fin (f i) (\<lambda>_. lstate D L') s"
  shows "settled D L L' (bnd object_id f)"
  unfolding settled_def object_id_def
proof (intro conjI allI impI)
  show "fin (bnd (asks (\<lambda>s. hot_object (hot_ids s))) f) (\<lambda>_. lstate D L') s" if "lstate D L s" for s
    by (rule fin_asks_bnd [OF assms]) (use that in \<open>simp_all add: lstate_def object_named_def\<close>)
qed (intro keeps_intros assms)

lemma settled_dex_bnd:
  assumes "\<And>d. keeps esc (f d)"
    and "\<And>d. nth_opt D (unat dx) = Some d \<Longrightarrow> settled D L L' (f d)"
  shows "settled D L L' (bnd (dex_at dx) f)"
  unfolding settled_def
proof (intro conjI allI impI)
  fix s assume s: "lstate D L s"
  then have D: "dexes s = D" by (simp add: lstate_def)
  show "fin (bnd (dex_at dx) f) (\<lambda>_. lstate D L') s"
    by (rule fin_bnd [OF fin_dex_at assms(1)]) (use s assms(2) in \<open>simp add: D settled_fin\<close>)
qed (intro keeps_intros escp.reads assms)

lemma settled_unwrap_bnd:
  "(\<And>x. m = Some x \<Longrightarrow> settled D L L' (f x)) \<Longrightarrow> settled D L L' (bnd (unwrap m) f)"
  by (cases m) (auto simp: unwrap_def bnd_def ret_def panic_def settled_def fin_def keeps_def)

lemma settled_check_bnd:
  assumes "keeps esc (f ())" and "b \<Longrightarrow> settled D L L' (f ())"
  shows "settled D L L' (bnd (check b e) f)"
  using assms
  by (cases b) (auto simp: check_def bnd_def ret_def fail_def settled_def fin_def keeps_def)

lemma settled_loading_bnd:
  assumes "\<And>x. keeps esc (f x)" and "settled D L L' (f L)"
  shows "settled D L L' (bnd (asks loading) f)"
  unfolding settled_def
proof (intro conjI allI impI)
  fix s assume s: "lstate D L s"
  then have "loading s = L" by (simp add: lstate_def)
  then show "fin (bnd (asks loading) f) (\<lambda>_. lstate D L') s"
    by (intro fin_asks_bnd assms(1)) (use s assms(2) in \<open>simp add: settled_fin\<close>)
qed (intro keeps_intros assms)

lemma settled_push:
  "settled D L (L @ [x]) (modify (\<lambda>s. s\<lparr>loading := loading s @ [x]\<rparr>))"
  "settled D (L @ [x]) L (modify (\<lambda>s. s\<lparr>loading := butlast (loading s)\<rparr>))"
  by (auto simp: settled_def fin_def modify_def lstate_def intern_ok_def spelled_def object_named_def
      esc_def keeps_def)

section \<open>One level of the loader\<close>

text \<open>What a request is for.\<close>

definition reqdesc :: "load \<Rightarrow> vm \<Rightarrow> string \<Rightarrow> bool" where
  "reqdesc req s desc \<longleftrightarrow>
     (case req of
        ByType dx t \<Rightarrow> (\<exists>d. nth_opt (dexes s) (unat dx) = Some d \<and> desc = type_descriptor d t)
      | ByDesc i \<Rightarrow> spelled (unat i) desc s)"

definition height :: "tables \<Rightarrow> nat" where
  "height T = shim_bound T + 1"

definition ends_within :: "tables \<Rightarrow> dex_file list \<Rightarrow> nat \<Rightarrow> loader \<Rightarrow> bool" where
  "ends_within T D n ens \<longleftrightarrow>
     (\<forall>req. keeps esc (ens req)) \<and>
     (\<forall>L s req desc h. lstate D L s \<longrightarrow> reqdesc req s desc \<longrightarrow> shim_ok h T desc \<longrightarrow>
        h + 1 + left_of D L * height T \<le> n \<longrightarrow> fin (ens req) (\<lambda>_. lstate D L) s)"

lemma within_esc: "ends_within T D n ens \<Longrightarrow> keeps esc (ens req)"
  by (simp add: ends_within_def)

lemma within_fin:
  "ends_within T D n ens \<Longrightarrow> lstate D L s \<Longrightarrow> reqdesc req s desc \<Longrightarrow> shim_ok h T desc \<Longrightarrow>
   h + 1 + left_of D L * height T \<le> n \<Longrightarrow> fin (ens req) (\<lambda>_. lstate D L) s"
  by (simp add: ends_within_def)

lemma settled_by_name:
  assumes "ends_within T D n ens" "shim_ok h T desc" "h + 1 + left_of D L * height T \<le> n"
  shows "settled D L L (ensure_by_name ens desc)"
  unfolding ensure_by_name_def
  by (rule settled_intern_bnd [OF within_esc [OF assms(1)] within_fin [OF assms(1) _ _ assms(2,3)]])
    (simp_all add: reqdesc_def)

lemma settled_by_type:
  assumes "ends_within T D n ens" "acyclic_shims T" "nth_opt D (unat dx) = Some d"
    "(left_of D L + 1) * height T \<le> n"
  shows "settled D L L (ens (ByType dx t))"
  unfolding settled_def
  by (intro conjI allI impI within_esc [OF assms(1)]
      within_fin [OF assms(1) _ _ acyclic_shim_ok [OF assms(2), of "type_descriptor d t"]])
    (use assms(3,4) in \<open>auto simp: reqdesc_def height_def lstate_def\<close>)

text \<open>An array class asks for three classes, whatever its elements.\<close>

lemma settled_array:
  assumes ens: "ends_within T D n ens" and ok: "shim_ok (Suc h) T (CHR ''['' # e)"
    and n: "h + 1 + left_of D L * height T \<le> n"
  shows "settled D L L (push_array_class ens i el)" "settled D L L (array_class ens dx t)"
    "settled D L L (synth_array_class ens i)"
proof -
  have o: "settled D L L (bnd object_id (\<lambda>o'. bnd (ens (ByDesc o')) g))"
    if "\<And>c. settled D L L (g c)" "\<And>c. keeps esc (g c)" for g :: "u32 \<Rightarrow> u32 vm_act"
    by (rule settled_object_bnd, intro keeps_bnd within_esc [OF ens] that,
        rule fin_bnd [OF within_fin [OF ens _ _ _ n] that(2)])
      (use ok settled_fin [OF that(1)] in \<open>auto simp: reqdesc_def shim_parents_def\<close>)
  have names: "settled D L L (ensure_by_name ens ''Ljava/lang/Cloneable;'')"
      "settled D L L (ensure_by_name ens ''Ljava/io/Serializable;'')"
    using ok by (auto intro!: settled_by_name [OF ens _ n] simp: shim_parents_def)
  show p: "settled D L L (push_array_class ens i el)" for i el
    unfolding push_array_class_def
    by (intro o settled_intros names keeps_intros escp.by_name_kept within_esc [OF ens]
        escp.reads escp.link_prims)
  show "settled D L L (array_class ens dx t)" "settled D L L (synth_array_class ens i)"
    unfolding array_class_def synth_array_class_def by (intro settled_intros p)+
qed

text \<open>A DEX class: it is on the stack of loads while the classes it names are loaded.\<close>

lemma settled_members_load:
  assumes ens: "ends_within T D n ens" and ok: "acyclic_shims T"
    and dx: "nth_opt D (unat dx) = Some d" and n: "(left_of D L + 1) * height T \<le> n"
  shows "settled D L L (load_members T ens dx df c desc_id desc sc)"
proof -
  have "settled D L L (ensure_by_name ens ''Ljava/lang/Class;'')"
    by (rule settled_by_name [OF ens acyclic_shim_ok [OF ok]]) (use n in \<open>simp add: height_def\<close>)
  then have "settled D L L (class_obj ens k)" for k
    unfolding class_obj_def by (intro settled_intros)
  then have "settled D L L (enc_to_value ens dx ev)" for ev
    by (cases ev) (auto simp: enc_to_value_def intro!: settled_intros settled_by_type [OF ens ok dx n])
  then have "settled D L L (set_static_value ens dx sfs vals iev)" for sfs vals iev
    unfolding set_static_value_def by (intro settled_intros)
  then show ?thesis unfolding load_members_def by (intro settled_intros)
qed

lemma loading_class:
  assumes "nth_opt D (unat dx) = Some d" "nth_opt (classes d) k = Some df" "(dx, k) \<notin> set L"
  shows "left_of D L = left_of D (L @ [(dx, k)]) + 1"
  using left_of_push [of "(dx, k)" D L] assms by (auto simp: dex_classes_def)

lemma settled_load_dex_class:
  assumes ens: "ends_within T D n ens" and ok: "acyclic_shims T"
    and n: "left_of D L * height T \<le> n"
  shows "settled D L L (load_dex_class T ens dx k)"
proof -
  note keeps = keeps_intros escp.reads escp.intern_kept escp.link_prims
    escp.load_members_kept [OF within_esc [OF ens]] within_esc [OF ens]
  let ?sup = "\<lambda>b (i::u32) (t::u32) (o'::u32). if b then (if i = o' then ret None else bnd (ens (ByDesc o')) (\<lambda>c. ret (Some c)))
      else bnd (ens (ByType dx t)) (\<lambda>c. ret (Some c))"
  have super: "settled D L' L'' (bnd object_id (\<lambda>o'. bnd (?sup b i t o') g))"
    if n': "(left_of D L' + 1) * height T \<le> n" and dx: "nth_opt D (unat dx) = Some d"
      and g: "\<And>x. settled D L' L'' (g x)"
    for L' L'' b i t d and g :: "u32 option \<Rightarrow> u32 vm_act"
  proof (rule settled_object_bnd)
    have esc: "keeps esc (g x)" for x using g by (simp add: settled_def)
    show "keeps esc (bnd (?sup b i t o') g)" for o' by (intro keeps esc)
    fix o' :: u32 and s assume s: "lstate D L' s" "spelled (unat o') ''Ljava/lang/Object;'' s"
    have o: "fin (ens (ByDesc o')) (\<lambda>_. lstate D L') s"
      by (rule within_fin [OF ens s(1) _ acyclic_shim_ok [OF ok]])
        (use s n' in \<open>simp_all add: reqdesc_def height_def\<close>)
    have "fin (?sup b i t o') (\<lambda>_. lstate D L') s"
      using s(1) by (auto intro!: fin_ret fin_bnd [OF o] keeps_ret
        fin_bnd [OF settled_fin [OF settled_by_type [OF ens ok dx n']]])
    then show "fin (bnd (?sup b i t o') g) (\<lambda>_. lstate D L'') s"
      by (rule fin_bnd [OF _ esc settled_fin [OF g]])
  qed
  have rest: "settled D L L (bnd (modify (\<lambda>s. s\<lparr>loading := loading s @ [(dx, k)]\<rparr>)) (\<lambda>_.
      bnd object_id (\<lambda>o'. bnd (?sup b i t o') (\<lambda>sc. bnd (amap (\<lambda>t. ens (ByType dx t)) ts) (\<lambda>ifaces.
      bnd class_count (\<lambda>c. bnd (push_class (K c sc ifaces)) (\<lambda>_. bnd (set_by_desc i c) (\<lambda>_.
      bnd (set_by_type dx ci c) (\<lambda>_. bnd (load_members T ens dx df c i desc sc) (\<lambda>g.
      bnd (upd_class c g) (\<lambda>_. bnd (modify (\<lambda>s. s\<lparr>loading := butlast (loading s)\<rparr>)) (\<lambda>_.
      ret c))))))))))))"
    if dx: "nth_opt D (unat dx) = Some d" "nth_opt (classes d) k = Some df" "(dx, k) \<notin> set L"
    for b i t ts d df ci desc K
  proof -
    have n': "(left_of D (L @ [(dx, k)]) + 1) * height T \<le> n"
      using n loading_class [OF dx] by simp
    note by_type = settled_by_type [OF ens ok dx(1) n']
    show ?thesis
      by (rule settled_bnd [OF settled_push(1) super [OF n' dx(1)]])
        (intro settled_bnd [OF settled_loops(1) [OF by_type]] settled_bnd [OF settled_reads(5)]
          settled_bnd [OF settled_writes(1)] settled_bnd [OF settled_writes(2)]
          settled_bnd [OF settled_writes(3)] settled_bnd [OF settled_writes(4)]
          settled_bnd [OF settled_members_load [OF ens ok dx(1) n']]
          settled_bnd [OF settled_push(2)] settled_ret)
  qed
  show ?thesis
    unfolding load_dex_class_def
    by (rule settled_dex_bnd, (intro keeps; assumption))
      (intro settled_unwrap_bnd settled_branch settled_loading_bnd
        settled_check_bnd rest settled_intros keeps; simp)
qed

text \<open>A shim class asks for its parents only.\<close>

lemma fin_load_shim_class:
  assumes ens: "ends_within T D n ens" and ok: "shim_ok (Suc h) T desc"
    and n: "h + 1 + left_of D L * height T \<le> n"
    and desc: "take 1 desc \<noteq> ''[''" "spelled (unat i) desc s" and s: "lstate D L s"
  shows "fin (load_shim_class T ens i) (\<lambda>_. lstate D L) s"
proof -
  note keeps = keeps_intros escp.reads escp.intern_kept escp.members_kept escp.link_prims
    escp.by_name_kept within_esc [OF ens]
  have name: "settled D L L (ensure_by_name ens nm)" if "nm \<in> set (shim_parents T desc)" for nm
    using ok that by (intro settled_by_name [OF ens _ n]) simp
  have super: "settled D L L (case sh_super (shim_for T desc) of None \<Rightarrow> ret None
      | Some nm \<Rightarrow> bnd (ensure_by_name ens nm) (\<lambda>c. ret (Some c)))"
    using desc(1) by (intro settled_intros name) (simp add: shim_parents_def)
  show ?thesis
    unfolding load_shim_class_def
    apply (rule fin_bnd [OF fin_str_of], intro keeps)
    subgoal premises p for x s'
    proof -
      have x: "x = desc" "s' = s" using p desc(2) by (auto simp: spelled_def)
      show ?thesis unfolding x Let_def
        by (intro settled_fin [OF _ s] settled_intros super name)
          (use desc(1) in \<open>simp add: shim_parents_def\<close>)
    qed
    done
qed

section \<open>The loader\<close>

lemma bnd_ret: "bnd m ret = m"
  by (rule ext) (simp add: bnd_def ret_def split: prod.split outcome.split)

lemma fin_bracket:
  "(\<And>e. d = CHR ''['' # e \<Longrightarrow> fin (p e) Q s) \<Longrightarrow> (take 1 d \<noteq> ''['' \<Longrightarrow> fin q Q s) \<Longrightarrow>
   fin (case d of CHR ''['' # e \<Rightarrow> p e | _ \<Rightarrow> q) Q s"
  by (auto split: list.splits char.splits bool.splits)

text \<open>The last part of both entry points.\<close>

lemma fin_load_class:
  assumes ens: "ends_within T D n ens" and ok: "acyclic_shims T" "shim_ok (Suc h) T desc"
    and n: "h + 1 + left_of D L * height T \<le> n"
    and desc: "take 1 desc \<noteq> ''[''" "spelled (unat i) desc s" and s: "lstate D L s"
    and g: "\<And>c. settled D L L (g c)"
  shows "fin (bnd (class_location desc) (\<lambda>loc. case loc of
      Some (dx, k) \<Rightarrow> bnd (load_dex_class T ens dx k) g
    | None \<Rightarrow> bnd (shim_or_native T desc) (\<lambda>b.
        if b then bnd (load_shim_class T ens i) g else fail e))) (\<lambda>_. lstate D L) s"
proof -
  have keeps: "keeps esc (g c)" for c using g by (simp add: settled_def)
  have esc: "keeps esc (load_dex_class T ens dx k)" "keeps esc (load_shim_class T ens i)" for dx k
    using escp.load_dex_class_kept escp.load_shim_class_kept within_esc [OF ens] by blast+
  have dex: "settled D L L (bnd (load_dex_class T ens dx k) g)" for dx k
    by (rule settled_seq [OF settled_load_dex_class [OF ens ok(1)] g]) (use n in simp)
  have shim: "fin (bnd (load_shim_class T ens i) g) (\<lambda>_. lstate D L) s"
    by (rule fin_bnd [OF fin_load_shim_class [OF ens ok(2) n desc s] keeps settled_fin [OF g]])
  show ?thesis
    unfolding class_location_def shim_or_native_def
    by (intro fin_asks_bnd fin_intros settled_fin [OF dex s] shim keeps_intros keeps esc)
qed

lemma fin_ensure_by_type:
  assumes ens: "ends_within T D n ens" and ok: "acyclic_shims T" "shim_ok (Suc h) T desc"
    and n: "h + 1 + left_of D L * height T \<le> n"
    and req: "reqdesc (ByType dx t) s desc" and s: "lstate D L s"
  shows "fin (ensure_by_type T ens dx t) (\<lambda>_. lstate D L) s"
proof -
  note keeps = keeps_intros escp.reads escp.intern_kept escp.link_prims escp.array_kept
    escp.load_dex_class_kept escp.load_shim_class_kept within_esc [OF ens]
  obtain d where d: "nth_opt D (unat dx) = Some d" "desc = type_descriptor d t"
    using req s by (auto simp: reqdesc_def lstate_def)
  have "settled D L L (ensure_by_type T ens dx t)"
    unfolding ensure_by_type_def
    apply (rule settled_seq [OF settled_reads(1)], rule settled_branch(2))
     apply (rule settled_dex_bnd, intro keeps)
     apply (rule settled_branch(4), rule settled_intern_bnd, intro keeps)
    subgoal premises p for m d' i s'
    proof -
      have d': "type_descriptor d' t = desc" using p(1) d by simp
      show ?thesis
        unfolding d'
        apply (rule fin_asks_bnd, intro keeps)
        apply (rule fin_option)
         apply (rule fin_bracket)
        subgoal for e
          using settled_array [OF ens _ n] ok(2) p(2)
          by (intro settled_fin [OF _ p(2)] settled_branch(2)) auto
         apply (rule fin_load_class [OF ens ok n _ _ p(2)], assumption)
        using p(3) apply (simp add: d')
         apply (intro settled_intros)
        by (intro settled_fin [OF _ p(2)] settled_intros)
    qed
    by (intro settled_intros)
  then show ?thesis using s by (rule settled_fin)
qed

lemma fin_ensure_by_desc:
  assumes ens: "ends_within T D n ens" and ok: "acyclic_shims T" "shim_ok (Suc h) T desc"
    and n: "h + 1 + left_of D L * height T \<le> n"
    and req: "reqdesc (ByDesc i) s desc" and s: "lstate D L s"
  shows "fin (ensure_by_desc T ens i) (\<lambda>_. lstate D L) s"
proof -
  note keeps = keeps_intros escp.reads escp.intern_kept escp.link_prims escp.array_kept
    escp.load_dex_class_kept escp.load_shim_class_kept within_esc [OF ens]
  have i: "spelled (unat i) desc s" using req by (simp add: reqdesc_def)
  show ?thesis
    unfolding ensure_by_desc_def
    apply (rule fin_asks_bnd, intro keeps)
    apply (rule fin_option)
     apply (rule fin_bnd [OF fin_str_of], intro keeps)
    subgoal premises p for x s'
    proof -
      have x: "x = desc" "s' = s" using p i by (auto simp: spelled_def)
      show ?thesis unfolding x
        apply (rule fin_bracket)
        subgoal for e
          using settled_array [OF ens _ n] ok(2)
          by (intro settled_fin [OF _ s] settled_seq [OF settled_reads(1)] settled_branch) auto
        using fin_load_class [where g = ret, OF ens ok n _ i s settled_ret]
        by (simp add: bnd_ret cong: if_cong)
    qed
    by (intro settled_fin [OF _ s] settled_intros)
qed

lemma ends_within_depth: "acyclic_shims T \<Longrightarrow> ends_within T D n (ensure_depth n T)"
proof (induction n)
  case 0
  show ?case by (simp add: ends_within_def keeps_def)
next
  case (Suc n)
  note ens = Suc.IH [OF Suc.prems]
  have "fin (ensure_depth (Suc n) T req) (\<lambda>_. lstate D L) s"
    if s: "lstate D L s" "reqdesc req s desc" "shim_ok h T desc"
      and n: "h + 1 + left_of D L * height T \<le> Suc n" for L s req desc h
  proof -
    obtain h' where h: "h = Suc h'" using s(3) by (cases h) auto
    have n': "h' + 1 + left_of D L * height T \<le> n" using n h by simp
    show ?thesis
      using fin_ensure_by_type [OF ens Suc.prems s(3) [unfolded h] n' _ s(1)]
        fin_ensure_by_desc [OF ens Suc.prems s(3) [unfolded h] n' _ s(1)] s(2)
      by (cases req) simp_all
  qed
  then show ?case unfolding ends_within_def using escp.ensure_depth_kept by blast
qed

text \<open>What a machine needs for its loader to end: string ids that mean their strings.\<close>

definition linkable :: "vm \<Rightarrow> bool" where
  "linkable s \<longleftrightarrow> intern_ok s \<and> object_named s"

lemma lstate_iff: "lstate D L s \<longleftrightarrow> dexes s = D \<and> loading s = L \<and> linkable s"
  by (auto simp: lstate_def linkable_def)

lemma load_depth_enough: "shim_bound T + 1 + left_of (dexes s) L * height T \<le> load_depth T s"
proof -
  have "card (dex_classes (dexes s) - set L) \<le> card (dex_classes (dexes s))"
    using dex_classes_card by (intro card_mono) auto
  then have "left_of (dexes s) L \<le> sum_list (map (\<lambda>d. length (classes d)) (dexes s))"
    using dex_classes_card [of "dexes s"] by (simp add: left_of_def)
  then have "(left_of (dexes s) L + 1) * height T \<le> load_depth T s"
    unfolding load_depth_def by (intro mult_le_mono) (simp_all add: height_def shim_bound_def)
  then show ?thesis by (simp add: height_def)
qed

lemma no_desc_ends:
  assumes "\<not> (\<exists>desc. reqdesc req s desc)" "0 < n"
  shows "fst (ensure_depth n T req s) \<noteq> Diverge" "snd (ensure_depth n T req s) = s"
proof -
  obtain k where "n = Suc k" using assms(2) by (cases n) auto
  with assms(1) show "fst (ensure_depth n T req s) \<noteq> Diverge" "snd (ensure_depth n T req s) = s"
    by (cases req; auto simp: reqdesc_def spelled_def ensure_by_type_def ensure_by_desc_def
        dex_at_def str_of_def bnd_def asks_def unwrap_def panic_def ret_def split: option.splits)+
qed

lemma ensure_fin:
  assumes "acyclic_shims T" "linkable s"
  shows "fin (ensure T req) (\<lambda>_. lstate (dexes s) (loading s)) s"
proof -
  have s: "lstate (dexes s) (loading s) s" using assms(2) by (simp add: lstate_iff)
  show ?thesis
  proof (cases "\<exists>desc. reqdesc req s desc")
    case True
    then obtain desc where d: "reqdesc req s desc" by blast
    show ?thesis
      using within_fin [OF ends_within_depth [OF assms(1)] s d acyclic_shim_ok [OF assms(1)]
          load_depth_enough]
      by (simp add: ensure_def fin_def)
  next
    case False
    have "0 < load_depth T s" by (simp add: load_depth_def)
    from no_desc_ends [OF False this] s show ?thesis by (simp add: ensure_def fin_def)
  qed
qed

text \<open>The linker never breaks the ids.\<close>

interpretation names: link_inv "\<lambda>s. esc s \<or> linkable s"
proof unfold_locales
  show "keeps (\<lambda>s. esc s \<or> linkable s) (intern str)" for str
    unfolding keeps_def
  proof (intro allI impI)
    fix s assume s: "esc s \<or> linkable s"
    show "esc (snd (intern str s)) \<or> linkable (snd (intern str s))"
    proof (cases "esc s")
      case True
      then show ?thesis using escp.I_intern [of str] by (auto simp: keeps_def)
    next
      case False
      with s show ?thesis using intern_step [of s str] intern_more [of str s]
        by (auto simp: linkable_def)
    qed
  qed
qed (auto simp: esc_def linkable_def intern_ok_def spelled_def object_named_def prim_defs
      intro!: keeps_alloc_obj keeps_modify)

section \<open>Booting\<close>

lemma settled_ensure [settled_intros]: "acyclic_shims T \<Longrightarrow> settled D L L (ensure T req)"
  using ensure_fin by (auto simp: settled_def escp.ensure_kept lstate_iff)

lemma settled_hot:
  assumes "\<And>i h. hot_object (g i h) = hot_object h"
  shows "settled D L L (set_hot g i)" "settled D L L (hot_intern str g)"
proof -
  show set: "settled D L L (set_hot g i)" for i
    using assms by (auto simp: settled_def set_hot_def fin_def modify_def lstate_def intern_ok_def
      spelled_def object_named_def esc_def keeps_def)
  show "settled D L L (hot_intern str g)"
    unfolding hot_intern_def by (intro settled_intros set)
qed

lemma settled_put_native: "settled D L L (put_native e)"
  unfolding put_native_def
  by (intro settled_intros) (auto simp: settled_def fin_def modify_def lstate_def intern_ok_def
      spelled_def object_named_def esc_def keeps_def)

lemma settled_register: "settled D L L (register_natives T)"
  unfolding register_natives_def by (intro settled_intros settled_put_native)

text \<open>Before the name of the root class has its id.\<close>

definition naming :: "dex_file list \<Rightarrow> (u32 \<times> nat) list \<Rightarrow> vm \<Rightarrow> bool" where
  "naming D L s \<longleftrightarrow> intern_ok s \<and> dexes s = D \<and> loading s = L"

lemma fin_naming: "naming D L s \<Longrightarrow> fin (intern str) (\<lambda>i s'. naming D L s' \<and> spelled (unat i) str s') s"
  using intern_step [of s str] intern_more [of str s] by (auto simp: fin_def naming_def)

lemma esc_hot: "keeps esc (set_hot g i)" "keeps esc (hot_intern str g)"
  unfolding hot_intern_def set_hot_def
  by (intro keeps_intros escp.intern_kept; simp add: esc_def)+

lemma fin_first_names:
  assumes "naming D L s"
  shows "fin (hot_intern str g) (\<lambda>_. naming D L) s"
    "(\<And>i h. hot_object (g i h) = i) \<Longrightarrow> fin (hot_intern ''Ljava/lang/Object;'' g) (\<lambda>_. lstate D L) s"
  unfolding hot_intern_def
  by (rule fin_bnd [OF fin_naming [OF assms] esc_hot(1)],
      simp add: fin_def set_hot_def modify_def naming_def lstate_def intern_ok_def spelled_def
        object_named_def)+

lemma boot_fin:
  assumes "acyclic_shims T" and "intern_ok s"
  shows "fin (boot T) (\<lambda>_. lstate (dexes s) (loading s)) s"
proof -
  have n: "naming (dexes s) (loading s) s" using assms(2) by (simp add: naming_def)
  note rest = settled_bnd [OF settled_members(1)] settled_bnd [OF settled_ensure [OF assms(1)]]
    settled_bnd [OF settled_hot(1)] settled_bnd [OF settled_hot(2)] settled_register
  have obj: "settled D L L (bnd object_id (\<lambda>o'. bnd (ensure T (ByDesc o')) (\<lambda>_. register_natives T)))"
    for D L
    unfolding object_id_def by (intro settled_intros settled_register assms(1))
  have esc: "keeps esc (register_natives T)"
    using settled_register [of "[]" "[]"] by (simp add: settled_def)
  note keeps = keeps_intros escp.intern_kept escp.reads escp.ensure_kept esc_hot esc
  show ?thesis
    unfolding boot_def
    apply (rule fin_bnd [OF fin_first_names(1) [OF n]], intro keeps)
    apply (rule fin_bnd [OF fin_first_names(1)], assumption, intro keeps)
    apply (rule fin_bnd [OF fin_first_names(2)], assumption, simp, intro keeps)
    by (erule settled_fin [rotated], (intro rest obj; simp))
qed

section \<open>Loading and booting end\<close>

lemma small_acyclic: "acyclic_shims small_tables"
  by code_simp

text \<open>
  C17: Loading a class always ends. If the shim tables have no cycle, a request for any class, of
  any DEX file however malformed its hierarchy, returns a class, an error or a panic, as long
  as the string table fits its 32 bit ids; a successful load leaves no load in progress.
\<close>

theorem loader_ends:
  assumes "acyclic_shims T" and "linkable s" and "ensure T req s = (r, s')"
    and "length (intern_tab s') \<le> 2 ^ 32"
  shows "r \<noteq> Diverge \<and> (\<forall>c. r = Ok c \<longrightarrow> loading s' = loading s \<and> linkable s')"
  using ensure_fin [OF assms(1,2), of req] assms(3,4) by (auto simp: fin_def esc_def lstate_iff)

definition named_vm :: vm where
  "named_vm = (vm_empty [])\<lparr>intern_tab := [''Ljava/lang/Object;'', ''Ljava/lang/String;''],
     intern_map := [''Ljava/lang/Object;'' \<mapsto> 0, ''Ljava/lang/String;'' \<mapsto> 1]\<rparr>"

lemma named_linkable: "linkable named_vm"
  by (auto simp: linkable_def intern_ok_def object_named_def spelled_def named_vm_def vm_empty_def
      hot_zero_def nth_opt_def split: if_splits)

lemma named_loads:
  "(case ensure small_tables (ByDesc 1) named_vm of
      (r, s') \<Rightarrow> r = Ok 2 \<and> length (vm_classes s') = 3 \<and> length (intern_tab s') < 100)"
  by code_simp

theorem loader_ends_witness:
  "\<exists>s'. ensure small_tables (ByDesc 1) named_vm = (Ok 2, s') \<and> loading s' = [] \<and> linkable s'"
proof -
  obtain s' where s: "ensure small_tables (ByDesc 1) named_vm = (Ok 2, s')"
      "length (intern_tab s') < 100"
    using named_loads by (cases "ensure small_tables (ByDesc 1) named_vm") auto
  then have "length (intern_tab s') \<le> 2 ^ 32" by simp
  from loader_ends [OF small_acyclic named_linkable s(1) this] s(1) show ?thesis
    by (auto simp: named_vm_def vm_empty_def)
qed

text \<open>
  C18: Booting a machine always ends, and if it succeeds every later load on it ends too: the ids
  of all strings are right, the root class has its name, and no load is in progress.
\<close>

theorem boot_ends:
  assumes "acyclic_shims T" and "boot T (vm_empty ds) = (r, s)" and "length (intern_tab s) \<le> 2 ^ 32"
  shows "r \<noteq> Diverge \<and> (r = Ok () \<longrightarrow> linkable s \<and> loading s = [] \<and> dexes s = ds)"
proof -
  have "intern_ok (vm_empty ds)" by (simp add: intern_ok_def vm_empty_def)
  from boot_fin [OF assms(1) this] assms(2,3) show ?thesis
    by (auto simp: fin_def esc_def lstate_iff vm_empty_def)
qed

lemma small_boots:
  "(case boot small_tables (vm_empty []) of (r, s) \<Rightarrow> r = Ok () \<and> length (intern_tab s) < 100)"
  using small_vm_boots
  by (cases "boot small_tables (vm_empty [])"; cases "fst (boot small_tables (vm_empty []))")
    (simp_all add: vm_new_def)

theorem boot_ends_witness:
  "\<exists>s. boot small_tables (vm_empty []) = (Ok (), s) \<and> linkable s"
proof -
  obtain s where s: "boot small_tables (vm_empty []) = (Ok (), s)" "length (intern_tab s) < 100"
    using small_boots by (cases "boot small_tables (vm_empty [])") auto
  then have "length (intern_tab s) \<le> 2 ^ 32" by simp
  from boot_ends [OF small_acyclic s(1) this] s(1) show ?thesis by auto
qed

end
