(* ===== verification/Rooted.thy ===== *)
theory Rooted
  imports LoadTotal
begin

text \<open>
  What the interpreter needs of the linker to come to an end: the root class stays where it is,
  without a superclass and no interface, and the code of every method can be decoded. Loading
  keeps this, because it enters a class under a descriptor only when the descriptor has none, or
  is that of an array.
\<close>

section \<open>The invariant\<close>

definition decodable :: "method_rec \<Rightarrow> bool" where
  "decodable m \<longleftrightarrow> (\<forall>ci. m_code m = Some ci \<longrightarrow> decode_all (code_insns ci) \<noteq> Diverge)"

definition decodable_dex :: "dex_file \<Rightarrow> bool" where
  "decodable_dex d \<longleftrightarrow> (\<forall>cd \<in> set (classes d). \<forall>k em ci. class_data_of cd = Some k \<longrightarrow>
     em \<in> set (direct_methods k) \<union> set (virtual_methods k) \<longrightarrow> code em = Some ci \<longrightarrow>
     decode_all (code_insns ci) \<noteq> Diverge)"

definition decodable_class :: "jclass \<Rightarrow> bool" where
  "decodable_class k \<longleftrightarrow> (\<forall>m \<in> set (cls_methods k). decodable m)"

text \<open>A class without a superclass that is no interface.\<close>

definition root_class :: "jclass \<Rightarrow> bool" where
  "root_class k \<longleftrightarrow> superclass k = None \<and> \<not> is_interface k"

definition rooted_at :: "dex_file list \<Rightarrow> u32 \<Rightarrow> u32 \<Rightarrow> vm \<Rightarrow> bool" where
  "rooted_at D ob c s \<longleftrightarrow> linkable s \<and> dexes s = D \<and> (\<forall>d \<in> set D. decodable_dex d) \<and>
     hot_object (hot_ids s) = ob \<and> class_by_desc s ob = Some c \<and>
     (\<exists>k. nth_opt (vm_classes s) (unat c) = Some k \<and> root_class k) \<and>
     (\<forall>k \<in> set (vm_classes s). decodable_class k)"

text \<open>\<open>held D ob c P m\<close>: \<open>m\<close> keeps this, and what it returns satisfies \<open>P\<close>, unless the strings overflow.\<close>

definition held :: "dex_file list \<Rightarrow> u32 \<Rightarrow> u32 \<Rightarrow> ('a \<Rightarrow> bool) \<Rightarrow> 'a vm_act \<Rightarrow> bool" where
  "held D ob c P m \<longleftrightarrow> keeps esc m \<and> (\<forall>s. rooted_at D ob c s \<longrightarrow>
     esc (snd (m s)) \<or> rooted_at D ob c (snd (m s)) \<and> (\<forall>x. fst (m s) = Ok x \<longrightarrow> P x))"

lemma heldD:
  "held D ob c P m \<Longrightarrow> rooted_at D ob c s \<Longrightarrow> m s = (r, s') \<Longrightarrow>
   esc s' \<or> rooted_at D ob c s' \<and> (\<forall>x. r = Ok x \<longrightarrow> P x)"
  unfolding held_def by (metis fst_conv snd_conv)

lemma held_bnd:
  assumes "held D ob c P m" and "\<And>x. keeps esc (f x)" and "\<And>x. P x \<Longrightarrow> held D ob c Q (f x)"
  shows "held D ob c Q (bnd m f)"
  unfolding held_def
proof (intro conjI allI impI)
  show "keeps esc (bnd m f)" using assms(1,2) by (auto simp: held_def intro: keeps_bnd)
  fix s assume s: "rooted_at D ob c s"
  obtain r s' where r: "m s = (r, s')" by (cases "m s")
  note m = heldD [OF assms(1) s r]
  show "esc (snd (bnd m f s)) \<or>
      rooted_at D ob c (snd (bnd m f s)) \<and> (\<forall>x. fst (bnd m f s) = Ok x \<longrightarrow> Q x)"
  proof (cases r)
    case (Ok x)
    show ?thesis
    proof (cases "esc s'")
      case True
      then have "esc (snd (f x s'))" using assms(2) by (auto simp: keeps_def)
      then show ?thesis using Ok r by (simp add: bnd_def)
    next
      case False
      then show ?thesis using m Ok r assms(3) [of x] by (auto simp: bnd_def held_def)
    qed
  qed (use m r in \<open>auto simp: bnd_def\<close>)
qed

named_theorems held_intros

abbreviation whatever :: "'a \<Rightarrow> bool" where
  "whatever x \<equiv> True"

lemma held_seq [held_intros]:
  assumes "held D ob c whatever m" and "\<And>x. held D ob c Q (f x)"
  shows "held D ob c Q (bnd m f)"
  by (rule held_bnd [OF assms(1)]) (use assms(2) in \<open>auto simp: held_def\<close>)

lemma held_weaken: "held D ob c P m \<Longrightarrow> (\<And>x. P x \<Longrightarrow> Q x) \<Longrightarrow> held D ob c Q m"
  by (auto simp: held_def)

lemma held_any: "held D ob c P m \<Longrightarrow> held D ob c whatever m"
  by (erule held_weaken) simp

lemma held_ret [held_intros]: "P x \<Longrightarrow> held D ob c P (ret x)"
  by (simp add: held_def keeps_ret) (simp add: ret_def)

lemma held_stop [held_intros]: "held D ob c P (fail e)" "held D ob c P panic"
  by (simp_all add: held_def keeps_fail keeps_panic) (simp_all add: fail_def panic_def)

lemma held_branch [held_intros]:
  "(b \<Longrightarrow> held D ob c P p) \<Longrightarrow> (\<not> b \<Longrightarrow> held D ob c P q) \<Longrightarrow> held D ob c P (if b then p else q)"
  "(m = None \<Longrightarrow> held D ob c P p) \<Longrightarrow> (\<And>x. m = Some x \<Longrightarrow> held D ob c P (g x)) \<Longrightarrow>
    held D ob c P (case m of None \<Rightarrow> p | Some x \<Rightarrow> g x)"
  "(\<And>x y. z = (x, y) \<Longrightarrow> held D ob c P (h x y)) \<Longrightarrow> held D ob c P (case z of (x, y) \<Rightarrow> h x y)"
  "held D ob c P (k v) \<Longrightarrow> held D ob c P (Let v k)"
  by (auto split: option.splits prod.splits)

lemma held_bracket [held_intros]:
  "(\<And>e. held D ob c P (p e)) \<Longrightarrow> held D ob c P q \<Longrightarrow>
   held D ob c P (case d of CHR ''['' # e \<Rightarrow> p e | _ \<Rightarrow> q)"
  by (auto split: list.splits char.splits bool.splits)

lemma held_afold:
  assumes "P acc" and "\<And>acc x. P acc \<Longrightarrow> x \<in> set xs \<Longrightarrow> held D ob c P (f acc x)"
    and "\<And>acc x. keeps esc (f acc x)"
  shows "held D ob c P (afold f acc xs)"
  using assms(1,2)
proof (induction xs arbitrary: acc)
  case (Cons x xs)
  show ?case unfolding afold.simps
    by (rule held_bnd [where P = P]) (use Cons assms(3) in \<open>auto intro: keeps_afold\<close>)
qed (auto intro: held_intros)

lemma held_amap [held_intros]:
  "(\<And>x. held D ob c whatever (f x)) \<Longrightarrow> held D ob c whatever (amap f xs)"
  by (induction xs) (auto intro!: held_intros)

section \<open>The operations\<close>

lemma held_keeps:
  "keeps esc m \<Longrightarrow> keeps (\<lambda>s. esc s \<or> rooted_at D ob c s) m \<Longrightarrow> held D ob c whatever m"
  by (auto simp: held_def keeps_def)

lemma rooted_cong:
  assumes "dexes s' = dexes s" "hot_ids s' = hot_ids s" "class_by_desc s' = class_by_desc s"
    "vm_classes s' = vm_classes s" "linkable s \<Longrightarrow> linkable s'"
  shows "rooted_at D ob c s \<Longrightarrow> rooted_at D ob c s'"
  using assms by (simp add: rooted_at_def)

lemma linkable_cong:
  "intern_map s' = intern_map s \<Longrightarrow> intern_tab s' = intern_tab s \<Longrightarrow> hot_ids s' = hot_ids s \<Longrightarrow>
   linkable s' = linkable s"
  by (simp add: linkable_def intern_ok_def object_named_def spelled_def)

lemma esc_cong: "intern_tab s' = intern_tab s \<Longrightarrow> esc s' = esc s"
  by (simp add: esc_def)

lemma rooted_intern:
  assumes "rooted_at D ob c s"
  shows "esc (snd (intern str s)) \<or> rooted_at D ob c (snd (intern str s))"
proof (cases "esc (snd (intern str s))")
  case False
  have "esc (snd (intern str s)) \<or> linkable (snd (intern str s))"
    using names.I_intern [of str] assms by (auto simp: keeps_def rooted_at_def)
  moreover have "class_by_desc (snd (intern str s)) = class_by_desc s"
    "vm_classes (snd (intern str s)) = vm_classes s" "hot_ids (snd (intern str s)) = hot_ids s"
    "dexes (snd (intern str s)) = dexes s"
    by (auto simp: intern_def Let_def split: option.split)
  ultimately show ?thesis using False rooted_cong [OF _ _ _ _ _ assms] by simp
qed simp

interpretation root: object_inv "\<lambda>s. esc s \<or> rooted_at D ob c s" for D ob c
proof unfold_locales
  show "keeps (\<lambda>s. esc s \<or> rooted_at D ob c s) (intern str)" for str
    using rooted_intern escp.I_intern [of str] by (auto simp: keeps_def)
qed (auto intro!: keeps_alloc_obj
    simp: rooted_at_def esc_def linkable_def intern_ok_def object_named_def spelled_def)

lemma held_reads [held_intros]:
  "held D ob c whatever (asks g)" "held D ob c whatever (check b e)" "held D ob c whatever (unwrap m)"
  "held D ob c whatever (str_of i)" "held D ob c whatever (the_class k)"
  "held D ob c whatever class_count" "held D ob c whatever (class_location desc)"
  "held D ob c whatever (proto_sig d p)" "held D ob c whatever (shim_or_native T desc)"
  "held D ob c whatever object_id" "held D ob c whatever (intern str)"
  "held D ob c whatever (alloc_obj cls fs n)" "held D ob c whatever (dex_string dx sid)"
  "held D ob c whatever (superclass_data sc)" "held D ob c whatever (add_static dx cl acc ef)"
  "held D ob c whatever (add_instance dx acc2 ef')" "held D ob c whatever (add_shim_static cl acc3 sd)"
  "held D ob c whatever (add_shim_field acc4 sf)"
  by (rule held_keeps; (intro keeps_intros escp.intern_kept escp.reads escp.members_kept
      escp.strings_kept escp.object_prims(1) root.intern_kept root.reads root.members_kept
      root.strings_kept root.object_prims(1)))+

lemma held_dex_at [held_intros]: "held D ob c decodable_dex (dex_at dx)"
  unfolding held_def
proof (intro conjI allI impI)
  show "keeps esc (dex_at dx)" by (rule escp.reads)
  show "esc (snd (dex_at dx s)) \<or> rooted_at D ob c (snd (dex_at dx s)) \<and>
      (\<forall>x. fst (dex_at dx s) = Ok x \<longrightarrow> decodable_dex x)" if "rooted_at D ob c s" for s
    using that by (auto simp: dex_at_def bnd_def asks_def unwrap_def ret_def panic_def rooted_at_def
        nth_opt_Some_iff split: option.splits)
qed

lemma held_set_by_type [held_intros]: "held D ob c whatever (set_by_type dx t i)"
  unfolding set_by_type_def
  by (rule held_keeps; rule keeps_modify)
    (auto simp: rooted_at_def esc_def linkable_def intern_ok_def object_named_def spelled_def)

lemma held_tables [held_intros]:
  "held D ob c whatever (modify (\<lambda>s. s\<lparr>array_classes := ga s\<rparr>))"
  "held D ob c whatever (modify (\<lambda>s. s\<lparr>loading := gl s\<rparr>))"
  by (rule held_keeps; rule keeps_modify;
      auto simp: rooted_at_def esc_def linkable_def intern_ok_def object_named_def spelled_def)+

lemma held_set_by_desc: "d \<noteq> ob \<Longrightarrow> held D ob c whatever (set_by_desc d i)"
  unfolding set_by_desc_def
  by (rule held_keeps; rule keeps_modify)
    (auto simp: rooted_at_def esc_def linkable_def intern_ok_def object_named_def spelled_def)

lemma held_push_class: "cls_methods k = [] \<Longrightarrow> held D ob c whatever (push_class k)"
  unfolding push_class_def
  by (rule held_keeps; rule keeps_modify)
    (auto simp: rooted_at_def esc_def linkable_def intern_ok_def object_named_def spelled_def
      nth_opt_Some_iff nth_append decodable_class_def)

text \<open>An update of the members of a class.\<close>

definition member_update :: "(jclass \<Rightarrow> jclass) \<Rightarrow> bool" where
  "member_update f \<longleftrightarrow> keeps_links f \<and> (\<forall>k. decodable_class k \<longrightarrow> decodable_class (f k))"

lemma held_upd_class: "member_update f \<Longrightarrow> held D ob c whatever (upd_class i f)"
  unfolding upd_class_def
proof (rule held_keeps; rule keeps_modify)
  fix s assume f: "member_update f" and s: "esc s \<or> rooted_at D ob c s"
  let ?s = "s\<lparr>vm_classes := (vm_classes s)[unat i := f (vm_classes s ! unat i)]\<rparr>"
  have "rooted_at D ob c ?s" if r: "rooted_at D ob c s"
  proof -
    obtain k where k: "nth_opt (vm_classes s) (unat c) = Some k" "root_class k"
      using r by (auto simp: rooted_at_def)
    have "\<exists>k. nth_opt (vm_classes ?s) (unat c) = Some k \<and> root_class k"
      using k f by (cases "unat c = unat i")
        (auto simp: nth_opt_Some_iff member_update_def keeps_links_def root_class_def)
    moreover have "\<forall>k \<in> set (vm_classes ?s). decodable_class k"
    proof (cases "unat i < length (vm_classes s)")
      case True
      then show ?thesis using r f
        by (auto simp: rooted_at_def member_update_def dest!: set_update_subset_insert [THEN subsetD])
    qed (use r in \<open>simp add: rooted_at_def list_update_beyond not_less\<close>)
    moreover have "linkable ?s = linkable s" by (rule linkable_cong) simp_all
    ultimately show ?thesis using r by (simp add: rooted_at_def)
  qed
  with s show "esc ?s \<or> rooted_at D ob c ?s" by (auto simp: esc_def)
qed (simp add: esc_def)

text \<open>A descriptor without a class is not that of the root.\<close>

lemma held_absent:
  assumes "\<And>m. keeps esc (f m)" and "\<And>i. held D ob c P (f (Some i))"
    and "d \<noteq> ob \<Longrightarrow> held D ob c P (f None)"
  shows "held D ob c P (bnd (asks (\<lambda>s. class_by_desc s d)) f)"
  unfolding held_def
proof (intro conjI allI impI)
  show "keeps esc (bnd (asks (\<lambda>s. class_by_desc s d)) f)" by (intro keeps_intros assms)
  fix s assume s: "rooted_at D ob c s"
  then have "class_by_desc s d = None \<Longrightarrow> d \<noteq> ob" by (auto simp: rooted_at_def)
  then have "held D ob c P (f (class_by_desc s d))"
    using assms(2,3) by (cases "class_by_desc s d") auto
  then show "esc (snd (bnd (asks (\<lambda>s. class_by_desc s d)) f s)) \<or>
      rooted_at D ob c (snd (bnd (asks (\<lambda>s. class_by_desc s d)) f s)) \<and>
      (\<forall>x. fst (bnd (asks (\<lambda>s. class_by_desc s d)) f s) = Ok x \<longrightarrow> P x)"
    using s by (simp add: bnd_def asks_def held_def)
qed

text \<open>The id of another string is not that of the root.\<close>

lemma held_intern_other:
  assumes "str \<noteq> ''Ljava/lang/Object;''" and "\<And>i. keeps esc (f i)"
    and "\<And>i. i \<noteq> ob \<Longrightarrow> held D ob c P (f i)"
  shows "held D ob c P (bnd (intern str) f)"
proof (rule held_bnd [where P = "\<lambda>i. i \<noteq> ob"])
  show "held D ob c (\<lambda>i. i \<noteq> ob) (intern str)"
    unfolding held_def
  proof (intro conjI allI impI)
    fix s assume s: "rooted_at D ob c s"
    then have "intern_ok s" by (simp add: rooted_at_def linkable_def)
    from intern_step [OF this, of str] rooted_intern [OF s, of str]
    show "esc (snd (intern str s)) \<or> rooted_at D ob c (snd (intern str s)) \<and>
        (\<forall>x. fst (intern str s) = Ok x \<longrightarrow> x \<noteq> ob)"
      using assms(1) by (auto simp: rooted_at_def linkable_def object_named_def spelled_def)
  qed (rule escp.intern_kept)
qed (use assms in auto)

text \<open>Requests to the loader.\<close>

definition held_loader :: "dex_file list \<Rightarrow> u32 \<Rightarrow> u32 \<Rightarrow> loader \<Rightarrow> bool" where
  "held_loader D ob c ens \<longleftrightarrow> (\<forall>req. held D ob c whatever (ens req))"

lemma held_ens: "held_loader D ob c ens \<Longrightarrow> held D ob c whatever (ens req)"
  by (simp add: held_loader_def)

lemma esc_ens: "held_loader D ob c ens \<Longrightarrow> keeps esc (ens req)"
  by (simp add: held_loader_def held_def)

lemma held_by_name [held_intros]: "held_loader D ob c ens \<Longrightarrow> held D ob c whatever (ensure_by_name ens desc)"
  unfolding ensure_by_name_def by (intro held_intros held_ens)

text \<open>A new class under a descriptor that is not the root's.\<close>

lemma no_methods [simp]: "cls_methods (class_new i d sc ifs fl e) = []"
  by (simp add: class_new_def)

lemma held_push_array:
  "held_loader D ob c ens \<Longrightarrow> d \<noteq> ob \<Longrightarrow> held D ob c whatever (push_array_class ens d e)"
  unfolding push_array_class_def
  by (intro held_intros held_ens held_push_class held_set_by_desc; simp)

lemma held_array_class [held_intros]:
  assumes "held_loader D ob c ens"
  shows "held D ob c whatever (array_class ens dx t)"
proof -
  note esc = escp.array_kept(1) [OF esc_ens [OF assms]]
  show ?thesis unfolding array_class_def
    by (intro held_intros held_any [OF held_dex_at] held_intern_other held_push_array assms)
      (auto intro!: keeps_intros esc simp: esc_def)
qed

lemma held_synth [held_intros]:
  assumes "held_loader D ob c ens"
  shows "held D ob c whatever (synth_array_class ens d)"
proof -
  note esc = escp.array_kept(1) [OF esc_ens [OF assms]]
  show ?thesis unfolding synth_array_class_def
    by (rule held_absent) (auto intro!: held_intros held_push_array assms keeps_intros esc split: option.split)
qed

lemma held_class_obj [held_intros]:
  assumes "held_loader D ob c ens"
  shows "held D ob c whatever (class_obj ens k)"
proof -
  have "member_update (\<lambda>k. k\<lparr>class_object := Some i\<rparr>)" for i
    by (simp add: member_update_def keeps_links_def decodable_class_def)
  then show ?thesis unfolding class_obj_def by (intro held_intros held_upd_class assms TrueI)
qed

lemma held_enc [held_intros]:
  "held_loader D ob c ens \<Longrightarrow> held D ob c whatever (enc_to_value ens dx ev)"
  by (cases ev) (auto simp: enc_to_value_def intro!: held_intros dest: held_ens)

text \<open>The methods a class gets.\<close>

abbreviation decodable_table :: "method_rec list \<times> (key2 \<rightharpoonup> u32) \<Rightarrow> bool" where
  "decodable_table acc \<equiv> \<forall>m \<in> set (fst acc). decodable m"

lemma held_add_method:
  assumes "decodable_table acc"
    and "\<forall>ci. code em = Some ci \<longrightarrow> decode_all (code_insns ci) \<noteq> Diverge"
  shows "held D ob c decodable_table (add_method dx cl acc em)"
  unfolding add_method_def
  by (intro held_intros held_any [OF held_dex_at])
    (use assms in \<open>auto simp: decodable_def Let_def intro!: held_intros\<close>)

lemma held_unwrap_bnd:
  "(\<And>x. m = Some x \<Longrightarrow> held D ob c P (f x)) \<Longrightarrow> held D ob c P (bnd (unwrap m) f)"
  by (cases m) (auto simp: unwrap_def bnd_def ret_def panic_def held_def keeps_def)

lemma held_add_native:
  assumes "decodable_table acc"
  shows "held D ob c decodable_table (add_native cl desc_id acc ne)"
  unfolding add_native_def native_method_def
  apply (rule held_branch(3))
  apply (rule held_seq, rule held_reads)+
  apply (rule held_branch(2))
   apply (intro held_intros)
   apply (use assms in \<open>simp add: decodable_def\<close>)
  apply (rule held_unwrap_bnd)
  apply (intro held_intros)
   apply (use assms in \<open>auto simp: decodable_def nth_opt_Some_iff
      dest!: set_update_subset_insert [THEN subsetD] dest: nth_mem\<close>)
  done

lemma held_add_shim_method:
  assumes "decodable_table acc"
  shows "held D ob c decodable_table (add_shim_method cl desc_id acc ne)"
  unfolding add_shim_method_def native_method_def
  by (intro held_intros) (use assms in \<open>auto simp: decodable_def Let_def intro!: held_intros\<close>)

section \<open>The loader\<close>

lemma held_static_value:
  "held_loader D ob c ens \<Longrightarrow> held D ob c whatever (set_static_value ens dx sfs vals iev)"
  unfolding set_static_value_def by (intro held_intros held_any [OF held_dex_at] TrueI)

lemma held_members:
  assumes ens: "held_loader D ob c ens"
    and def: "\<And>k em ci. class_data_of df = Some k \<Longrightarrow>
      em \<in> set (direct_methods k) \<union> set (virtual_methods k) \<Longrightarrow> code em = Some ci \<Longrightarrow>
      decode_all (code_insns ci) \<noteq> Diverge"
  shows "held D ob c member_update (load_members T ens dx df cl desc_id desc sc)"
proof -
  note esc = escp.enc_kept [OF esc_ens [OF ens]]
  have m1: "held D ob c decodable_table
      (afold (add_method dx cl) acc ms)" if "decodable_table acc"
      "\<And>em ci. em \<in> set ms \<Longrightarrow> code em = Some ci \<Longrightarrow> decode_all (code_insns ci) \<noteq> Diverge" for acc ms
    by (rule held_afold [OF that(1) held_add_method escp.members_kept(5)]) (use that(2) in auto)
  have m2: "held D ob c decodable_table (afold (add_native cl desc_id) acc nes)"
    if "decodable_table acc" for acc nes
    by (rule held_afold [OF that held_add_native escp.members_kept(6)])
  show ?thesis
    unfolding load_members_def
    apply (rule held_seq, rule held_reads)
    apply (rule held_branch(3))+
    apply (rule held_bnd [where P = "\<lambda>(vals, stats, ifs, offs, ms, disp). decodable_table (ms, disp)"])
      apply (rule held_branch(2))
       apply (rule held_ret, simp)
      apply (rule held_seq, rule held_afold [where P = whatever], simp, rule held_reads,
        rule escp.members_kept, rule held_branch(3))+
      apply (rule held_seq, rule held_afold [where P = whatever], simp, rule held_static_value [OF ens])
       apply (unfold set_static_value_def, intro keeps_intros escp.reads escp.intern_kept esc)[1]
      apply (rule held_bnd [OF m1], simp)
        apply (use def in blast)[1]
       apply (intro keeps_intros escp.members_kept)
      apply (rule held_bnd [OF m1], assumption)
        apply (use def in blast)[1]
       apply (intro keeps_intros)
      apply (rule held_branch(3), rule held_ret, simp)
     apply (intro keeps_intros escp.members_kept)
    apply (rule held_branch(3))+
    apply (rule held_seq, rule held_reads)
    apply (rule held_bnd [OF m2], simp)
     apply (intro keeps_intros)
    apply (rule held_branch(3), rule held_ret)
    apply (simp add: member_update_def keeps_links_def decodable_class_def)
    done
qed

text \<open>The part of both loaders that enters the class.\<close>

lemma held_new_class:
  assumes "d \<noteq> ob" and "\<And>i. held D ob c Q (rest i)"
  shows "held D ob c Q (bnd class_count (\<lambda>i.
    bnd (push_class (class_new i d sc ifs fl e)) (\<lambda>_. bnd (set_by_desc d i) (\<lambda>_. rest i))))"
  by (intro held_intros held_push_class held_set_by_desc assms no_methods)

lemma held_load_dex_class:
  assumes ens: "held_loader D ob c ens"
  shows "held D ob c whatever (load_dex_class T ens dx k)"
proof -
  note esc = esc_ens [OF ens]
  note kept = keeps_intros escp.reads escp.intern_kept escp.link_prims escp.load_members_kept esc
  show ?thesis
    unfolding load_dex_class_def
    apply (rule held_bnd [OF held_dex_at], (intro kept; assumption)[1])
    apply (rule held_unwrap_bnd)
    apply (rule held_seq, rule held_reads)
    apply (rule held_branch(2))
     apply (rule held_branch(4))
     apply (rule held_seq, rule held_reads)
     apply (rule held_absent, (intro kept; assumption)[1])
      apply (simp, intro held_intros TrueI)
     apply simp
     apply (rule held_seq, rule held_reads)
     apply (rule held_seq, rule held_reads)
     apply (rule held_seq, rule held_tables)
     apply (rule held_seq, rule held_reads)
     apply (rule held_seq, (intro held_intros held_ens [OF ens] TrueI)[1])
     apply (rule held_seq, (intro held_intros held_ens [OF ens] TrueI)[1])
     apply (rule held_new_class, assumption)
     apply (rule held_seq, rule held_set_by_type)
     apply (rule held_bnd [OF held_members [OF ens]])
       prefer 2
       apply (intro kept; assumption)[1]
      prefer 2
      apply (rule held_seq, rule held_upd_class, assumption)
      apply (rule held_seq, rule held_tables)
      apply (intro held_intros TrueI)
     apply (fastforce simp: decodable_dex_def nth_opt_Some_iff)
    apply (intro held_intros TrueI)
    done
qed

lemma held_load_shim_class:
  assumes ens: "held_loader D ob c ens" and "d \<noteq> ob"
  shows "held D ob c whatever (load_shim_class T ens d)"
proof -
  note kept = keeps_intros escp.reads escp.members_kept
  show ?thesis
    unfolding load_shim_class_def
    apply (rule held_seq, rule held_reads)
    apply (rule held_branch(4))
    apply (rule held_seq, (intro held_intros ens TrueI)[1])
    apply (rule held_seq, (intro held_intros ens TrueI)[1])
    apply (rule held_new_class [OF assms(2)])
    apply (rule held_seq, rule held_reads)
    apply (rule held_bnd [OF held_afold [where P = decodable_table]], simp, rule held_add_shim_method,
        assumption, rule escp.members_kept)
     apply (intro kept escp.link_prims)
    apply (rule held_branch(3))
    apply (rule held_seq, rule held_afold [where P = whatever], simp, rule held_reads,
        rule escp.members_kept, (rule held_branch(3))+)
    apply (rule held_seq, rule held_reads, (rule held_branch(3))+)
    apply (rule held_seq, rule held_afold [where P = whatever], simp, rule held_reads,
        rule escp.members_kept, (rule held_branch(3))+)
    apply (rule held_seq, rule held_upd_class)
     apply (simp add: member_update_def keeps_links_def decodable_class_def)
    apply (intro held_intros TrueI)
    done
qed

lemma held_then_by_type:
  "held D ob c whatever m \<Longrightarrow> held D ob c whatever (bnd m (\<lambda>i. bnd (set_by_type dx t i) (\<lambda>_. ret i)))"
  by (intro held_intros TrueI)

lemma held_ensure:
  assumes ens: "held_loader D ob c ens"
  shows "held D ob c whatever (ensure_by_type T ens dx t)" (is ?type)
    and "held D ob c whatever (ensure_by_desc T ens d)" (is ?desc)
proof -
  note kept = keeps_intros escp.reads escp.intern_kept escp.link_prims escp.array_kept
    escp.load_dex_class_kept escp.load_shim_class_kept esc_ens [OF ens]
  note loads = held_then_by_type held_load_dex_class held_load_shim_class held_array_class held_synth ens
  show ?type
    unfolding ensure_by_type_def
    apply (rule held_seq, rule held_reads)
    apply (rule held_branch(2))
     apply (rule held_seq, rule held_any [OF held_dex_at])
     apply (rule held_branch(4))
     apply (rule held_seq, rule held_reads)
     apply (rule held_absent, (intro kept)[1])
      apply (simp, intro held_intros TrueI)
     apply simp
     apply (intro held_bracket held_branch loads held_stop held_seq held_reads; assumption)
    apply (intro held_intros TrueI)
    done
  show ?desc
    unfolding ensure_by_desc_def
    apply (rule held_absent, (intro kept)[1])
     apply (simp, intro held_intros TrueI)
    apply simp
    apply (rule held_seq, rule held_reads)
    apply (intro held_bracket held_branch loads held_stop held_seq held_reads; assumption)
    done
qed

lemma held_ensure_depth: "held_loader D ob c (ensure_depth n T)"
proof (induction n)
  case 0
  show ?case by (simp add: held_loader_def held_def keeps_def)
next
  case (Suc n)
  then have "held D ob c whatever (ensure_depth (Suc n) T req)" for req
    by (cases req) (simp_all add: held_ensure)
  then show ?case by (simp add: held_loader_def)
qed

lemma held_loads: "held_loader D ob c (ensure T)"
  using held_ensure_depth [of D ob c] by (auto simp: held_loader_def held_def ensure_def keeps_def)

text \<open>So it is an invariant of everything that resolves and loads.\<close>

interpretation rooted: resolve_inv "\<lambda>s. esc s \<or> rooted_at D ob c s" for D ob c
proof unfold_locales
  have esc: "keeps esc (ensure T req)" for T req by (rule escp.ensure_kept)
  have kept: "keeps (\<lambda>s. esc s \<or> rooted_at D ob c s) m" if "held D ob c whatever m" for m :: "'x vm_act"
    using that by (auto simp: held_def keeps_def)
  show "keeps (\<lambda>s. esc s \<or> rooted_at D ob c s) (ensure T req)" for T req
    by (intro kept held_ens held_loads)
  show "keeps (\<lambda>s. esc s \<or> rooted_at D ob c s) (array_class (ensure T) dx t)" for T dx t
    by (intro kept held_array_class held_loads)
  show "keeps (\<lambda>s. esc s \<or> rooted_at D ob c s) (class_obj (ensure T) k)" for T k
    by (intro kept held_class_obj held_loads)
  show "keeps (\<lambda>s. esc s \<or> rooted_at D ob c s) (upd_class i f)" if "keeps_members f" for i f
  proof (rule kept, rule held_upd_class)
    show "member_update f" using that
      by (simp add: member_update_def keeps_members_def decodable_class_def)
  qed
qed (auto simp: rooted_at_def esc_def linkable_def intern_ok_def object_named_def spelled_def)

end
