(* ===== verification/RunInv.thy ===== *)
theory RunInv
  imports ClassGraph Interp
begin

text \<open>
  Invariants of running code. The locale \<open>run_inv\<close> extends the interface of the linker by the
  writes of the interpreter (frames, budget, depth, trace, monitors, objects); a predicate that
  these keep, and that the natives and lazy statics of the host keep, is kept by every
  instruction, by unwinding, by calls and by \<open>run\<close> as a whole, whatever happens on the way.
\<close>

section \<open>The search for a handler\<close>

context resolve_inv
begin

lemma match_kept [keeps_intros]: "keeps I (match_handlers T dx exc hs)"
proof (induction hs)
  case (Cons h hs)
  obtain t addr where "h = (t, addr)" by (cases h)
  with Cons show ?case by (auto intro!: keeps_intros split: jvalue.split)
qed (auto intro: keeps_intros)

lemma find_handler_kept [keeps_intros]: "keeps I (find_handler T dx exc a ts)"
  by (induction ts) (auto intro!: keeps_intros split: option.split)

end

section \<open>The interface\<close>

text \<open>What a write to an object never changes.\<close>

definition obj_shape :: "jobject \<Rightarrow> u32 \<times> nat" where
  "obj_shape b = (obj_class b, length (obj_fields b))"

locale run_inv = resolve_inv +
  assumes I_frames: "I s \<Longrightarrow> I (s\<lparr>frames := fs\<rparr>)"
    and I_budget: "I s \<Longrightarrow> I (s\<lparr>budget := budget s - 1\<rparr>)"
    and I_depth: "I s \<Longrightarrow> I (s\<lparr>recursion_depth := d\<rparr>)"
    and I_trace: "I s \<Longrightarrow> I (s\<lparr>trace_ring := tr\<rparr>)"
    and I_monitors: "I s \<Longrightarrow> I (s\<lparr>monitors := mo\<rparr>)"
    and I_object: "(\<And>b. obj_shape (g b) = obj_shape b) \<Longrightarrow> keeps I (upd_object ob g)"

text \<open>The natives and the lazy static values of a host.\<close>


definition host_keeps :: "(vm \<Rightarrow> bool) \<Rightarrow> host \<Rightarrow> bool" where
  "host_keeps I H \<longleftrightarrow>
     (\<forall>nf args s. I s \<longrightarrow> I (snd (call_fn H nf args s))) \<and> (\<forall>lf. keeps I (lazy_fn H lf))"

section \<open>Instructions\<close>

context run_inv
begin

lemmas run_writes [keeps_intros] = I_frames I_budget I_depth I_trace I_monitors

lemma part_writes [keeps_intros]:
  "keeps I (upd_object ob (\<lambda>b. b\<lparr>obj_native := p\<rparr>))"
  "keeps I (upd_object ob (\<lambda>b. b\<lparr>obj_fields := (obj_fields b)[k := v]\<rparr>))"
  by (simp_all add: I_object obj_shape_def)

lemma frame_reads [keeps_intros]:
  "keeps I (reg f i)" "keeps I (set_reg f i v)" "keeps I (arg_reg f a r)" "keeps I (go_on f)"
  "keeps I (set_go f dr v)" "keeps I (jump_to f t)"
  unfolding reg_def set_reg_def arg_reg_def go_on_def set_go_def jump_to_def
  by (intro keeps_intros)+

lemma throw_new_kept [keeps_intros]: "keeps I mk \<Longrightarrow> keeps I (throw_new mk f)"
  unfolding throw_new_def by (intro keeps_intros)

lemma with_obj_kept [keeps_intros]: "(\<And>i. keeps I (k i)) \<Longrightarrow> keeps I (with_obj T f r k)"
  unfolding with_obj_def by (auto split: jvalue.split intro!: keeps_intros)

lemma object_writes [keeps_intros]:
  "keeps I (monitor_count ob)" "keeps I (monitor_enter ob)"
  "keeps I (monitor_exit ob)" "keeps I (array_of ob)" "keeps I (put_array ob ad)"
  unfolding monitor_count_def monitor_enter_def monitor_exit_def array_of_def put_array_def
  by (intro keeps_intros | assumption)+

lemma step_move_kept: "keeps I (step_move f i)"
  unfolding step_move_def by (cases i) (auto intro!: keeps_intros)

lemma step_const_kept: "keeps I (step_const T f i)"
  unfolding step_const_def step_string_def by (cases i) (auto intro!: keeps_intros)

lemma fill_kept [keeps_intros]:
  "keeps I (fill_args f a wide n r j arr)" "keeps I (fill_array ob d)" "keeps I (new_array T f t arr)"
proof -
  show "keeps I (fill_args f a wide n r j arr)"
    by (induction f a wide n r j arr rule: fill_args.induct) (auto intro!: keeps_intros)
qed (unfold fill_array_def new_array_def, (intro keeps_intros)+)

lemma step_object_kept: "keeps I (step_object T f i)"
  unfolding step_object_def
  by (cases i) (auto intro!: keeps_intros simp: Let_def split: jvalue.split)

lemma step_branch_kept: "keeps I (step_branch f i)"
  unfolding step_branch_def
  by (cases i) (auto intro!: keeps_intros simp: Let_def split: sum.split)

lemma array_access_kept: "keeps I rd \<Longrightarrow> keeps I (array_access T f ar ix rd)"
  unfolding array_access_def by (auto intro!: keeps_intros split: jvalue.split)

lemma step_array_kept: "keeps I (step_array T f i)"
  unfolding step_array_def
  by (cases i) (auto intro!: keeps_intros array_access_kept split: sum.split)

lemma native_fn_kept [keeps_intros]: "keeps I (native_fn k)"
  unfolding native_fn_def by (intro keeps_intros)

lemma keeps_members_simps:
  "keeps_members (\<lambda>k. k\<lparr>clinit_state := n\<rparr>)" "keeps_members (\<lambda>k. k\<lparr>statics := g k\<rparr>)"
  "keeps_members (\<lambda>k. k\<lparr>statics_lazy := h k\<rparr>)"
  by (simp_all add: keeps_members_def keeps_links_def)

lemma statics_kept [keeps_intros]:
  "keeps I (set_clinit c n)" "keeps I (static_slot c off')" "keeps I (put_static c off' v)"
  "keeps I (clear_lazy c off')" "keeps I (lazy_of c off')"
  unfolding set_clinit_def static_slot_def put_static_def clear_lazy_def lazy_of_def
  by (intro keeps_intros I_links keeps_members_simps)+

lemma initialized_kept:
  assumes "\<And>c slot args. keeps I (go c slot args)"
  shows "keeps I (ensure_class_initialized go c)"
  unfolding ensure_class_initialized_def by (intro keeps_intros assms)

lemma static_access_kept:
  assumes "host_keeps I H" "\<And>c slot args. keeps I (go c slot args)"
  shows "keeps I (static_field_get H go fr)" "keeps I (static_field_put H go fr v)"
proof -
  have lazy: "keeps I (lazy_fn H lf)" for lf using assms(1) by (simp add: host_keeps_def)
  show "keeps I (static_field_get H go fr)" "keeps I (static_field_put H go fr v)"
    unfolding static_field_get_def static_field_put_def
    by (intro keeps_intros initialized_kept assms lazy)+
qed

lemma field_slot_kept [keeps_intros]: "keeps I (field_slot f oc fidx)"
  unfolding field_slot_def by (intro keeps_intros)

lemma fields_kept [keeps_intros]:
  "keeps I (get_field T f d obr fidx)" "keeps I (put_field T is_obj f s obr fidx)"
proof -
  have "keeps I (boxed_value T ty v)" for ty v
    unfolding boxed_value_def by (cases v) (auto intro!: keeps_intros)
  then have "keeps I (stored_field T is_obj fr v)" for fr v
    unfolding stored_field_def by (intro keeps_intros)
  then show "keeps I (put_field T is_obj f s obr fidx)"
    unfolding put_field_def by (intro keeps_intros)
qed (unfold get_field_def, intro keeps_intros)

lemma step_field_kept:
  assumes "host_keeps I H" "\<And>c slot args. keeps I (go c slot args)"
  shows "keeps I (step_field H go f i)"
  unfolding step_field_def get_static_def step_put_static_def
  by (cases i) (auto intro!: keeps_intros static_access_kept assms)

lemma step_invoke_kept:
  assumes "\<And>c slot args. keeps I (go c slot args)"
  shows "keeps I (step_invoke H go f next_pc kind midx a)"
  unfolding step_invoke_def
  by (auto intro!: keeps_intros initialized_kept assms split: sum.split target.split)

lemma step_arith_kept: "keeps I (step_arith T f i)"
proof -
  have "keeps I (arith_result T f d r)" for d r
    unfolding arith_result_def
    by (cases r) (auto intro!: keeps_intros simp: keeps_def [of _ "\<lambda>s. (Diverge, s)"])
  then show ?thesis
    unfolding step_arith_def by (cases i) (auto intro!: keeps_intros)
qed

lemma step_insn_kept:
  assumes "host_keeps I H" "\<And>c slot args. keeps I (go c slot args)"
  shows "keeps I (step_insn H go f next_pc i)"
  unfolding step_insn_def
  by (auto intro!: step_move_kept step_const_kept step_object_kept step_branch_kept step_array_kept
      step_field_kept step_invoke_kept step_arith_kept keeps_panic assms split: group.split insn.split)

lemma step_kept:
  assumes "host_keeps I H" "\<And>c slot args. keeps I (go c slot args)"
  shows "keeps I (step H go f)"
  unfolding step_def past_end_def Let_def
  by (intro keeps_intros step_insn_kept assms)

section \<open>Unwinding, calls and the loop\<close>

lemma stack_kept [keeps_intros]: "keeps I (set_top g)" "keeps I drop_top" "keeps I (push_top f)"
  unfolding set_top_def drop_top_def push_top_def by (intro keeps_intros; assumption)+

lemma unwind_kept [keeps_intros]: "keeps I (unwind T)"
proof -
  have "keeps I (unwind_loop n T carried)" for n carried
  proof (induction n arbitrary: carried)
    case 0
    show ?case by (simp add: keeps_def)
  next
    case (Suc n)
    show ?case unfolding unwind_loop.simps by (intro keeps_intros Suc)
  qed
  then show ?thesis unfolding unwind_def by (intro keeps_intros)
qed

lemma args_kept [keeps_intros]:
  "keeps I (native_args f a r ts)" "keeps I (bytecode_args f a r ts)" "keeps I (receiver_of f kind a)"
  "keeps I (pop_frame e)" "keeps I (raise_in T f exc u)" "keeps I (adopt_payload mref rv v)"
proof -
  show "keeps I (native_args f a r ts)" "keeps I (bytecode_args f a r ts)"
    by (induction ts arbitrary: r) (auto intro!: keeps_intros)
  show p: "keeps I (pop_frame e)" for e unfolding pop_frame_def by (intro keeps_intros)
  show "keeps I (raise_in T f exc u)" unfolding raise_in_def by (intro keeps_intros p)
  show "keeps I (receiver_of f kind a)" unfolding receiver_of_def by (intro keeps_intros)
  show "keeps I (adopt_payload mref rv v)"
    unfolding adopt_payload_def
    by (auto intro!: keeps_intros split: option.split jvalue.split)
qed

lemma call_native_kept:
  assumes "host_keeps I H"
  shows "keeps I (call_native H f kind mref k a ret_pc)"
proof -
  have "keeps I (\<lambda>s. case call_fn H nf vs s of
            (Err (NThrow ex), s') \<Rightarrow> (Ok (Inl ex), s')
          | (r, s') \<Rightarrow> (obind (omap_err from_nat_err r) (\<lambda>v. Ok (Inr v)), s'))" for nf vs
    using assms
    by (auto simp: keeps_def host_keeps_def split: prod.split outcome.split nat_err.split)
      (metis snd_conv)+
  then show ?thesis
    unfolding call_native_def by (auto intro!: keeps_intros split: sum.split)
qed

lemma do_call_kept: "host_keeps I H \<Longrightarrow> keeps I (do_call H f kind mref t a ret_pc)"
  unfolding do_call_def call_bytecode_def
  by (cases t) (auto intro!: call_native_kept keeps_intros)

lemma iteration_kept:
  assumes "host_keeps I H" "\<And>c slot args. keeps I (go c slot args)"
  shows "keeps I (iteration H go f)"
  unfolding iteration_def do_return_def
  by (auto intro!: keeps_intros step_kept do_call_kept assms split: step_outcome.split flow.split)

lemma push_frame_kept [keeps_intros]: "keeps I (push_frame c slot args)"
  unfolding push_frame_def frame_line_def by (intro keeps_intros)

lemma run_method_kept:
  assumes H: "host_keeps I H" and loop: "\<And>f. keeps I (loop f)"
  shows "keeps I (run_method H loop c slot args)"
proof -
  have native: "keeps I (run_native H nf vs)" for nf vs
    using H by (auto simp: keeps_def host_keeps_def run_native_def split: prod.split) (metis snd_conv)
  have "keeps I (bnd (push_frame c slot args) (\<lambda>_. run_loop loop))"
    unfolding run_loop_def by (intro keeps_intros loop)
  then have body: "keeps I (\<lambda>s. case bnd (push_frame c slot args) (\<lambda>_. run_loop loop) (s\<lparr>frames := []\<rparr>) of
      (r, s') \<Rightarrow> (r, s'\<lparr>frames := frames s, recursion_depth := recursion_depth s' - 1\<rparr>))"
    by (auto simp: keeps_def I_frames I_depth split: prod.split)
      (metis I_frames I_depth snd_conv)
  have note': "keeps I (note_entry c slot)"
    unfolding note_entry_def method_desc_str_def by (intro keeps_intros)
  show ?thesis
    unfolding run_method_def no_jni_def
    by (intro keeps_intros native body note')
qed

lemma interp_kept:
  assumes "host_keeps I H"
  shows "keeps I (interp n H t)"
proof (induction n arbitrary: t)
  case 0
  show ?case by (simp add: keeps_def)
next
  case (Suc n)
  show ?case
    by (cases t) (auto intro!: run_method_kept iteration_kept keeps_bnd Suc assms split: sum.split
        intro: keeps_ret)
qed

lemma run_kept: "host_keeps I H \<Longrightarrow> keeps I (run H c slot args)"
  using interp_kept by (simp add: run_def keeps_def)

end

section \<open>Invariants of every run\<close>

text \<open>The environment, the budget and the limit.\<close>

interpretation budl: link_inv "\<lambda>s. budget s \<le> b" for b
  by unfold_locales (auto simp: prim_defs intro!: keeps_modify keeps_alloc_obj keeps_intern)

lemma keeps_upd_object:
  "(\<And>s h. I s \<Longrightarrow> I (s\<lparr>heap := h\<rparr>)) \<Longrightarrow> keeps I (upd_object ob g)"
  by (auto simp: upd_object_def intro!: keeps_modify)

interpretation budr: run_inv "\<lambda>s. budget s \<le> b" for b
  by unfold_locales (simp_all add: keeps_upd_object)

interpretation liml: link_inv "\<lambda>s. depth_limit s = n" for n
  by unfold_locales (auto simp: prim_defs intro!: keeps_modify keeps_alloc_obj keeps_intern)

interpretation limr: run_inv "\<lambda>s. depth_limit s = n" for n
  by unfold_locales (simp_all add: keeps_upd_object)

interpretation envr: run_inv "\<lambda>s. env_part s = x" for x
  by unfold_locales (simp_all add: env_part_def keeps_upd_object)

interpretation idr: run_inv "interned str i" for str i
  by unfold_locales (auto simp: interned_def intro!: keeps_upd_object)

interpretation textr: run_inv "spelled i str" for i str
  by unfold_locales (auto simp: spelled_def intro!: keeps_upd_object)

interpretation growr: run_inv "\<lambda>s. n \<le> length (vm_classes s)" for n
  by unfold_locales (simp_all add: keeps_upd_object)

interpretation clsrun: run_inv "\<lambda>s. class_inv s \<and> n \<le> ncls s" for n
  by unfold_locales (simp_all add: class_inv_def keeps_upd_object)

text \<open>
  An object in use: its slot is not free, and it has the class and the number of fields given.
\<close>

definition shaped :: "u32 \<Rightarrow> u32 \<times> nat \<Rightarrow> vm \<Rightarrow> bool" where
  "shaped i sh s \<longleftrightarrow>
     i \<notin> set (free_ids (heap s)) \<and>
     map_option obj_shape (arena_get (heap s) i) = Some sh"

lemma shaped_heap: "shaped i sh s \<Longrightarrow> heap s' = heap s \<Longrightarrow> shaped i sh s'"
  by (simp add: shaped_def)

lemma shaped_alloc: "keeps (shaped i sh) (alloc_obj c fs n)"
  unfolding keeps_def
proof (intro allI impI)
  fix s assume s: "shaped i sh s"
  show "shaped i sh (snd (alloc_obj c fs n s))"
  proof (cases "free_ids (heap s) = []")
    case True
    with s show ?thesis
      by (auto simp: alloc_obj_def alloc_def shaped_def arena_get_def nth_opt_def nth_append
          split: if_splits)
  next
    case False
    then have "last (free_ids (heap s)) \<noteq> i" using s last_in_set by (auto simp: shaped_def)
    then have "unat (last (free_ids (heap s))) \<noteq> unat i" by (simp add: word_unat_eq_iff)
    with False s show ?thesis
      by (auto simp: alloc_obj_def alloc_def Let_def shaped_def arena_get_def nth_opt_def
          dest: in_set_butlastD split: if_splits)
  qed
qed

lemma shaped_object:
  assumes "\<And>b. obj_shape (g b) = obj_shape b"
  shows "keeps (shaped i sh) (upd_object ob g)"
proof -
  have "obj_shape (bs[k := g (bs ! k)] ! j) = obj_shape (bs ! j)" if "j < length bs" for bs k j
    using that assms by (cases "j = k") simp_all
  then show ?thesis
    by (auto simp: keeps_def upd_object_def modify_def shaped_def arena_get_def nth_opt_def
        split: if_splits)
qed

lemma shaped_intern: "keeps (shaped i sh) (intern str)"
  by (rule keeps_intern) (simp add: shaped_def)

interpretation shapes: link_inv "shaped i sh" for i sh
  by unfold_locales
    (auto simp: prim_defs intro!: keeps_modify shaped_intern shaped_alloc elim!: shaped_heap)

interpretation shaper: run_inv "shaped i sh" for i sh
  by unfold_locales (auto intro!: shaped_object elim!: shaped_heap)

text \<open>A host whose natives return null at once.\<close>

definition quiet_host :: "tables \<Rightarrow> host" where
  "quiet_host T = \<lparr>shim_classes = shim_classes T, native_entries = native_entries T,
     call_fn = (\<lambda>nf args s. (Ok VNull, s)), lazy_fn = (\<lambda>lf s. (Ok VNull, s))\<rparr>"

lemma quiet_keeps: "host_keeps I (quiet_host T)"
  by (simp add: host_keeps_def quiet_host_def keeps_def)

text \<open>A machine with one class, whose one method has the code and registers given.\<close>

definition code_method :: "u16 \<Rightarrow> u16 list \<Rightarrow> method_rec" where
  "code_method n ws =
     \<lparr>m_slot = 0, m_class = 0, m_name = 0, m_sig = 0, m_ret = 0, m_args = [], m_access_flags = 8,
      static_method = True, m_dex_idx = 0, native_key = None, native_decl = False,
      m_code = Some \<lparr>registers_size = n, ins_size = 0, outs_size = 0, code_insns = ws, tries = []\<rparr>\<rparr>"

definition code_vm :: "u16 \<Rightarrow> u16 list \<Rightarrow> vm" where
  "code_vm n ws = (vm_empty [])\<lparr>intern_tab := [''f''], intern_map := [''f'' \<mapsto> 0], budget := 1,
     vm_classes := [(class_new 0 0 None [] 0 None)\<lparr>cls_methods := [code_method n ws]\<rparr>]\<rparr>"

lemma code_vm_inv: "class_inv (code_vm n ws)"
  by (simp add: class_inv_def code_vm_def vm_empty_def graph_ok_def refers_below_def class_new_def
      entries_below_def)

text \<open>\<open>return-void\<close>.\<close>

lemma empty_runs:
  "(case run (quiet_host small_tables) 0 0 [] (code_vm 0 [0x000e]) of
     (r, s) \<Rightarrow> r = Ok VNull \<and> budget s = 0)"
  by code_simp

text \<open>
  C14: Running code keeps the machine sound. Whatever a method does and however it ends, and as
  long as the natives of the host do the same, the class graph stays well-founded, no class
  disappears, the budget never grows, and the limit of frames, the DEX files, the well-known ids
  and the native tables stay what they were.
\<close>

theorem run_keeps_machine:
  assumes "class_inv s" and "\<And>k. host_keeps (\<lambda>s. class_inv s \<and> k \<le> ncls s) H"
    and "\<And>b. host_keeps (\<lambda>s. budget s \<le> b) H" and "\<And>x. host_keeps (\<lambda>s. env_part s = x) H"
    and "\<And>n. host_keeps (\<lambda>s. depth_limit s = n) H"
    and "run H c slot args s = (r, s')"
  shows "class_inv s' \<and> ncls s \<le> ncls s' \<and> budget s' \<le> budget s \<and> env_part s' = env_part s \<and>
    depth_limit s' = depth_limit s"
proof (intro conjI)
  note r = assms(6)
  show "class_inv s'" "ncls s \<le> ncls s'"
    using keepsD [OF clsrun.run_kept [OF assms(2) [of "ncls s"]] _ r] assms(1) by simp_all
  show "budget s' \<le> budget s"
    using keepsD [OF budr.run_kept [OF assms(3) [of "budget s"]] _ r] by simp
  show "env_part s' = env_part s"
    using keepsD [OF envr.run_kept [OF assms(4) [of "env_part s"]] _ r] by simp
  show "depth_limit s' = depth_limit s"
    using keepsD [OF limr.run_kept [OF assms(5) [of "depth_limit s"]] _ r] by simp
qed

theorem run_keeps_machine_witness:
  "\<exists>s'. run (quiet_host small_tables) 0 0 [] (code_vm 0 [0x000e]) = (Ok VNull, s') \<and>
     class_inv s' \<and> budget s' = 0 \<and> dexes s' = [] \<and> depth_limit s' = depth_limit (vm_empty [])"
proof -
  obtain s' where r: "run (quiet_host small_tables) 0 0 [] (code_vm 0 [0x000e]) = (Ok VNull, s')"
      "budget s' = 0"
    using empty_runs by (cases "run (quiet_host small_tables) 0 0 [] (code_vm 0 [0x000e])") auto
  from run_keeps_machine [OF code_vm_inv quiet_keeps quiet_keeps quiet_keeps quiet_keeps r(1)] r show ?thesis
    by (auto simp: env_part_def code_vm_def vm_empty_def)
qed

text \<open>
  C15: A string keeps its id and an id its string for as long as the machine runs: no method can
  make an id the linker has handed out mean something else.
\<close>

theorem run_keeps_strings:
  assumes "host_keeps (interned str i) H" and "host_keeps (spelled (unat i) str) H"
    and "run H c slot args s = (r, s')" and "interned str i s" "spelled (unat i) str s"
  shows "interned str i s' \<and> spelled (unat i) str s'"
  using keepsD [OF idr.run_kept [OF assms(1)] assms(4,3)]
    keepsD [OF textr.run_kept [OF assms(2)] assms(5,3)] by simp

theorem run_keeps_strings_witness:
  "\<exists>s'. run (quiet_host small_tables) 0 0 [] (code_vm 0 [0x000e]) = (Ok VNull, s') \<and>
     intern_map s' ''f'' = Some 0"
proof -
  obtain s' where r: "run (quiet_host small_tables) 0 0 [] (code_vm 0 [0x000e]) = (Ok VNull, s')"
    using empty_runs by (cases "run (quiet_host small_tables) 0 0 [] (code_vm 0 [0x000e])") auto
  have "interned ''f'' 0 (code_vm 0 [0x000e])" "spelled (unat (0 :: u32)) ''f'' (code_vm 0 [0x000e])"
    by (simp_all add: interned_def spelled_def code_vm_def nth_opt_def)
  from run_keeps_strings [OF quiet_keeps quiet_keeps r this] r show ?thesis
    by (auto simp: interned_def)
qed

text \<open>
  C16: An object keeps its type while the machine runs. Whatever a method does and however it
  ends, an object in use stays in its slot, with its class and as many fields as its class gave
  it, as long as the natives of the host leave it there. So the offset of a field found once
  stays one of the object.
\<close>

theorem run_keeps_shapes:
  assumes "host_keeps (shaped i (obj_shape ob)) H" and "run H c slot args s = (r, s')"
    and "arena_get (heap s) i = Some ob" "i \<notin> set (free_ids (heap s))"
  shows "\<exists>ob'. arena_get (heap s') i = Some ob' \<and> i \<notin> set (free_ids (heap s')) \<and>
    obj_class ob' = obj_class ob \<and> length (obj_fields ob') = length (obj_fields ob)"
proof -
  have "shaped i (obj_shape ob) s" using assms(3,4) by (simp add: shaped_def)
  from keepsD [OF shaper.run_kept [OF assms(1)] this assms(2)] show ?thesis
    by (auto simp: shaped_def obj_shape_def)
qed

text \<open>A machine with one object and the code \<open>const/4 v0, 3\<close> and \<open>return-void\<close>.\<close>

definition one_object :: vm where
  "one_object = (code_vm 1 [0x3012, 0x000e])\<lparr>budget := 2, heap :=
     \<lparr>objects = [\<lparr>obj_class = 0, obj_fields = [VInt 7], obj_native = None\<rparr>], free_ids = []\<rparr>\<rparr>"

theorem run_keeps_shapes_witness:
  "\<exists>s' ob'. run (quiet_host small_tables) 0 0 [] one_object = (Ok VNull, s') \<and>
     arena_get (heap s') 0 = Some ob' \<and> length (obj_fields ob') = 1"
proof -
  have "(case run (quiet_host small_tables) 0 0 [] one_object of (r, s) \<Rightarrow> r = Ok VNull)"
    by code_simp
  then obtain s' where r: "run (quiet_host small_tables) 0 0 [] one_object = (Ok VNull, s')"
    by (cases "run (quiet_host small_tables) 0 0 [] one_object") auto
  have "arena_get (heap one_object) 0 = Some \<lparr>obj_class = 0, obj_fields = [VInt 7], obj_native = None\<rparr>"
      "0 \<notin> set (free_ids (heap one_object))"
    by (simp_all add: one_object_def arena_get_def nth_opt_def)
  from run_keeps_shapes [OF quiet_keeps r this] r show ?thesis by auto
qed

end
