(* ===== verification/Unwind.thy ===== *)
theory Unwind
  imports RunInv
begin

text \<open>
  Exceptions and entries of the interpreter: where unwinding goes on, which exception it
  carries, and what \<open>run\<close> does to the frames and the depth counter of the machine.
\<close>

section \<open>Unwinding\<close>

lemma find_handler_frames: "find_handler T dx exc a ts s = (r, s') \<Longrightarrow> frames s' = frames s"
  using keepsD [OF runp.find_handler_kept refl] by (simp add: run_part_def)

lemma match_handlers_sound:
  "match_handlers T dx exc hs s = (Ok (Some addr), s') \<Longrightarrow> addr \<in> snd ` set hs"
proof (induction hs arbitrary: s)
  case (Cons h hs)
  then show ?case by (cases h) (force simp: bnd_Ok ret_def split: if_splits)
qed (simp add: ret_def)

text \<open>A handler of one of the regions around the address.\<close>

definition handles :: "frame \<Rightarrow> u32 \<Rightarrow> bool" where
  "handles f addr \<longleftrightarrow> (\<exists>t \<in> set (f_tries f). covers_addr t (err_addr f) \<and>
     (addr \<in> snd ` set (handlers t) \<or> catch_all t = Some addr))"

lemma find_handler_sound:
  "find_handler T dx exc a ts s = (Ok (Some addr), s') \<Longrightarrow>
   \<exists>t \<in> set ts. covers_addr t a \<and> (addr \<in> snd ` set (handlers t) \<or> catch_all t = Some addr)"
proof (induction ts arbitrary: s)
  case (Cons t ts)
  show ?case
  proof (cases "covers_addr t a")
    case True
    then obtain m s1 where m: "match_handlers T dx exc (handlers t) s = (Ok m, s1)"
        "(case (case m of None \<Rightarrow> catch_all t | Some _ \<Rightarrow> m) of
            Some addr \<Rightarrow> ret (Some addr) | None \<Rightarrow> find_handler T dx exc a ts) s1 = (Ok (Some addr), s')"
      using Cons.prems by (auto simp: bnd_Ok)
    show ?thesis
      using m True Cons.IH [of s1] match_handlers_sound [of T dx exc "handlers t" s]
      by (cases m; cases "catch_all t") (auto simp: ret_def)
  next
    case False
    with Cons show ?thesis by auto
  qed
qed (simp add: ret_def)

lemma set_top_at: "set_top g s = (Ok (), s\<lparr>frames := butlast (frames s) @ [g (last (frames s))]\<rparr>)"
  by (simp add: set_top_def modify_def)

lemma drop_top_at: "drop_top s = (Ok (), s\<lparr>frames := butlast (frames s)\<rparr>)"
  by (simp add: drop_top_def modify_def)

lemma unwind_loop_lands:
  assumes "unwind_loop n T carried s = (Ok caught, s')"
  shows "if caught then \<exists>fs f gs e addr. frames s = fs @ f # gs \<and> handles f addr \<and>
      frames s' = fs @ [f\<lparr>pc := unat addr, pending_exc := Some e\<rparr>] \<and>
      (Some e \<in> pending_exc ` set (f # gs) \<or> carried = Some e)
    else frames s' = []"
  using assms
proof (induction n arbitrary: carried s)
  case (Suc n)
  show ?case
  proof (cases "frames s = []")
    case True
    with Suc.prems show ?thesis by (auto simp: bnd_def asks_def ret_def)
  next
    case False
    define f where "f = last (frames s)"
    define s1 where "s1 = s\<lparr>frames := butlast (frames s) @ [f\<lparr>pending_exc := None\<rparr>]\<rparr>"
    have fs: "frames s = butlast (frames s) @ [f]" using False by (simp add: f_def)
    obtain exc where exc: "(case pending_exc f of Some e \<Rightarrow> Some e | None \<Rightarrow> carried) = Some exc"
      using Suc.prems False
      by (auto simp: bnd_def asks_def set_top_at fail_def f_def Let_def split: option.splits)
    obtain m s2 where m: "find_handler T (f_dex f) exc (err_addr f) (f_tries f) s1 = (Ok m, s2)"
        and rest: "(case m of
            Some addr \<Rightarrow>
              bnd (set_top (\<lambda>f. f\<lparr>pc := unat addr, pending_exc := Some exc\<rparr>)) (\<lambda>_. ret True)
          | None \<Rightarrow> bnd drop_top (\<lambda>_. unwind_loop n T (Some exc))) s2 = (Ok caught, s')"
      using Suc.prems False exc
      by (auto simp: bnd_Ok asks_def set_top_at f_def s1_def Let_def)
    have s2: "frames s2 = butlast (frames s) @ [f\<lparr>pending_exc := None\<rparr>]"
      using find_handler_frames [OF m] by (simp add: s1_def)
    show ?thesis
    proof (cases m)
      case None
      then obtain s3 where s3: "unwind_loop n T (Some exc) s3 = (Ok caught, s')"
          "frames s3 = butlast (frames s)"
        using rest s2 by (auto simp: bnd_Ok drop_top_at)
      show ?thesis
      proof (cases caught)
        case True
        then obtain fs f' gs e addr where r: "butlast (frames s) = fs @ f' # gs" "handles f' addr"
            "frames s' = fs @ [f'\<lparr>pc := unat addr, pending_exc := Some e\<rparr>]"
            "Some e \<in> pending_exc ` set (f' # gs) \<or> exc = e"
          using Suc.IH [OF s3(1)] s3(2) by (simp only: if_True option.inject) blast
        have "frames s = fs @ f' # (gs @ [f])" using fs r(1) by simp
        moreover have "Some e \<in> pending_exc ` set (f' # gs @ [f]) \<or> carried = Some e"
          using r(4) exc by (auto split: option.splits)
        ultimately show ?thesis using r(2,3) by (simp only: True if_True) blast
      qed (use Suc.IH [OF s3(1)] in simp)
    next
      case (Some addr)
      then have "caught" "frames s' = butlast (frames s) @ [f\<lparr>pc := unat addr, pending_exc := Some exc\<rparr>]"
        using rest s2 by (auto simp: bnd_def set_top_at ret_def)
      moreover have "handles f addr"
        using find_handler_sound [of T "f_dex f" exc "err_addr f" "f_tries f" s1] m Some
        by (auto simp: handles_def)
      moreover have "Some exc \<in> pending_exc ` set [f] \<or> carried = Some exc"
        using exc by (auto split: option.splits)
      ultimately show ?thesis using fs by (simp only: if_True) blast
    qed
  qed
qed simp

text \<open>
  C13: Unwinding only lands where a handler is. If it catches, the frames above some frame are
  gone, that frame alone continues, at an address that a \<open>try\<close> region around its faulting
  instruction declares as handler, with an exception that was pending in it or above; every
  frame below is untouched. If it does not catch, no frame is left.
\<close>

theorem unwind_lands:
  assumes "unwind T s = (Ok caught, s')"
  shows "if caught then \<exists>fs f gs e addr. frames s = fs @ f # gs \<and> handles f addr \<and>
      frames s' = fs @ [f\<lparr>pc := unat addr, pending_exc := Some e\<rparr>] \<and>
      Some e \<in> pending_exc ` set (f # gs)
    else frames s' = []"
proof -
  have "unwind_loop (Suc (length (frames s))) T None s = (Ok caught, s')"
    using assms by (simp add: unwind_def bnd_def asks_def del: unwind_loop.simps)
  from unwind_loop_lands [OF this] show ?thesis by (simp only: option.distinct(1) simp_thms)
qed

text \<open>
  A frame whose one region covers its first instruction and catches everything at unit 5, and
  one without regions.
\<close>

definition catching :: "jvalue option \<Rightarrow> frame" where
  "catching e = (new_frame 0 0 0 \<lparr>insns = [Nop], units = [0], sizes = [1], words = 1\<rparr>
     [\<lparr>start_addr = 0, insn_count = 1, handlers = [], catch_all = Some 5\<rparr>] [])\<lparr>pending_exc := e\<rparr>"

definition throwing :: "jvalue \<Rightarrow> frame" where
  "throwing e = (new_frame 0 0 0 \<lparr>insns = [Nop], units = [0], sizes = [1], words = 1\<rparr> [] [])
     \<lparr>pending_exc := Some e\<rparr>"

definition stack_vm :: "frame list \<Rightarrow> vm" where
  "stack_vm fs = (vm_empty [])\<lparr>frames := fs\<rparr>"

lemma caught_below:
  "(case unwind small_tables (stack_vm [catching None, throwing (VInt 1)]) of
     (r, s) \<Rightarrow> r = Ok True \<and> map pc (frames s) = [5])"
  by code_simp

theorem unwind_lands_witness:
  "\<exists>s' f e. unwind small_tables (stack_vm [catching None, throwing (VInt 1)]) = (Ok True, s') \<and>
     frames s' = [f\<lparr>pc := 5, pending_exc := Some e\<rparr>] \<and> e = VInt 1"
proof -
  let ?s = "stack_vm [catching None, throwing (VInt 1)]"
  obtain s' where s': "unwind small_tables ?s = (Ok True, s')" "map pc (frames s') = [5]"
    using caught_below by (cases "unwind small_tables ?s") auto
  have fs: "frames ?s = [catching None, throwing (VInt 1)]" by (simp add: stack_vm_def)
  obtain xs f gs e addr where u: "frames ?s = xs @ f # gs"
      "frames s' = xs @ [f\<lparr>pc := unat (addr :: u32), pending_exc := Some e\<rparr>]"
      "Some e \<in> pending_exc ` set (f # gs)"
    using unwind_lands [OF s'(1)] by (simp only: if_True) blast
  have "xs = []" using u(2) s'(2) by (cases xs) auto
  with u s'(2) fs show ?thesis
    using s'(1) u(3) by (intro exI [of _ s'] exI [of _ f] exI [of _ e])
      (auto simp: stack_vm_def catching_def throwing_def new_frame_def)
qed

text \<open>
  A forgotten exception comes back. A handler that does not start with \<open>move-exception\<close>
  leaves the caught exception pending in its frame; when a method called from there throws, and
  has no handler of its own, unwinding takes the old exception for the new one: what was
  thrown makes no difference.
\<close>

theorem stale_exception_wins:
  assumes "frames s = fs @ [f, g]" and "pending_exc f = Some old" and "pending_exc g = Some new"
    and "f_tries g = []"
  shows "unwind T s = unwind T (s\<lparr>frames := fs @ [f]\<rparr>)"
proof -
  have carried: "unwind_loop (Suc n) T c s1 = unwind_loop (Suc n) T c' s1"
    if "frames s1 = fs @ [f]" for n c c' s1
    using that assms(2) by (simp add: bnd_def asks_def Let_def set_top_at)
  have "unwind T s = unwind_loop (Suc (Suc (length fs))) T (Some new) (s\<lparr>frames := fs @ [f]\<rparr>)"
    using assms
    by (simp add: unwind_def bnd_def asks_def Let_def set_top_at drop_top_at ret_def butlast_append
        del: unwind_loop.simps(2) add: unwind_loop.simps(2) [of "Suc (Suc (length fs))"])
  then show ?thesis
    using carried [of "s\<lparr>frames := fs @ [f]\<rparr>" "Suc (length fs)" "Some new" None]
    by (simp add: unwind_def bnd_def asks_def del: unwind_loop.simps)
qed

lemma stale_caught:
  "(case unwind small_tables (stack_vm [catching (Some (VInt 7))]) of
     (r, s) \<Rightarrow> r = Ok True \<and> map pending_exc (frames s) = [Some (VInt 7)])"
  by code_simp

theorem stale_exception_wins_witness:
  "\<exists>s'. unwind small_tables (stack_vm [catching (Some (VInt 7)), throwing (VInt 1)]) = (Ok True, s') \<and>
     map pending_exc (frames s') = [Some (VInt 7)]"
proof -
  have "unwind small_tables (stack_vm [catching (Some (VInt 7)), throwing (VInt 1)]) =
      unwind small_tables (stack_vm [catching (Some (VInt 7))])"
    using stale_exception_wins [of "stack_vm [catching (Some (VInt 7)), throwing (VInt 1)]" "[]"
        "catching (Some (VInt 7))" "throwing (VInt 1)" "VInt 7" "VInt 1" small_tables]
    by (simp add: stack_vm_def catching_def throwing_def new_frame_def)
  with stale_caught show ?thesis
    by (cases "unwind small_tables (stack_vm [catching (Some (VInt 7))])") auto
qed

end
