(* ===== verification/RunTotal.thy ===== *)
theory RunTotal
  imports Rooted Unwind
begin

text \<open>
  Running a method ends. Every iteration of the interpreter takes one unit of the budget, every
  nested entry comes from an iteration, and everything an instruction does in between ends. The
  locale \<open>halting\<close> is what the interpreter needs of the linker for that: requests end, walks up
  the class hierarchy end, and the code of a method can be decoded.
\<close>

section \<open>Actions that end whatever the machine is like\<close>

lemma ends_lift: "r \<noteq> Diverge \<Longrightarrow> ends (lift r)"
  by (simp add: ends_def lift_def)

lemma ends_catch [ends_intros]:
  assumes "ends m" "\<And>e. ends (h e)"
  shows "ends (catch m h)"
  unfolding ends_def
proof
  fix s
  show "fst (catch m h s) \<noteq> Diverge"
    using assms by (cases "m s"; cases "fst (m s)") (auto simp: catch_def ends_def dest: spec [of _ s])
qed

lemma ends_frame [ends_intros]:
  "ends (reg f i)" "ends (set_reg f i v)" "ends (arg_reg f a r)" "ends (go_on f)"
  "ends (set_go f dr v)" "ends (jump_to f t)"
  unfolding reg_def set_reg_def arg_reg_def go_on_def set_go_def jump_to_def reg_def
  by (intro ends_intros)+

lemma ends_objects [ends_intros]:
  "ends (upd_object ob g)" "ends (monitor_count ob)" "ends (monitor_enter ob)"
  "ends (monitor_exit ob)" "ends (array_of ob)" "ends (put_array ob ad)"
  "ends (fill_args f a wide n r j arr)" "ends (fill_array ob d)"
proof -
  show a: "ends (upd_object ob g)" "ends (monitor_count ob)" "ends (array_of ob)" for ob g
    unfolding upd_object_def monitor_count_def array_of_def the_object_def by (intro ends_intros)+
  show p: "ends (put_array ob ad)" for ob ad unfolding put_array_def by (rule a)
  show "ends (monitor_enter ob)" "ends (monitor_exit ob)"
    unfolding monitor_enter_def monitor_exit_def by (intro ends_intros a)+
  show "ends (fill_args f a wide n r j arr)"
    by (induction f a wide n r j arr rule: fill_args.induct) (auto intro!: ends_intros)
  show "ends (fill_array ob d)" unfolding fill_array_def by (intro ends_intros a p)
qed

lemma ends_statics [ends_intros]:
  "ends (set_clinit c n)" "ends (static_slot c off')" "ends (put_static c off' v)"
  "ends (clear_lazy c off')" "ends (lazy_of c off')" "ends (native_fn k)"
  unfolding set_clinit_def static_slot_def put_static_def clear_lazy_def lazy_of_def upd_class_def
    native_fn_def static_slot_def
  by (intro ends_intros)+

lemma ends_refs [ends_intros]: "ends (resolve_field_ref dx fidx)" "ends (resolve_method_ref dx midx)"
  unfolding resolve_field_ref_def resolve_method_ref_def by (intro ends_intros)+

lemma ends_stack [ends_intros]:
  "ends (set_top g)" "ends drop_top" "ends (push_top f)" "ends (pop_frame e)"
  "ends (native_args f a r ts)" "ends (bytecode_args f a r ts)" "ends (receiver_of f kind a)"
  "ends (adopt_payload mref rv v)" "ends (do_return v)" "ends (note_entry c slot)"
  "ends (frame_line c slot)" "ends (no_jni m)" "ends (past_end f)"
proof -
  show t: "ends (set_top g)" "ends drop_top" "ends (push_top f)" for g f
    unfolding set_top_def drop_top_def push_top_def by (intro ends_intros)+
  show p: "ends (pop_frame e)" for e unfolding pop_frame_def by (intro ends_intros t)
  show "ends (native_args f a r ts)" "ends (bytecode_args f a r ts)"
    by (induction ts arbitrary: r) (auto intro!: ends_intros)
  show "ends (receiver_of f kind a)" "ends (do_return v)" "ends (note_entry c slot)"
      "ends (frame_line c slot)" "ends (no_jni m)" "ends (past_end f)"
    unfolding receiver_of_def do_return_def note_entry_def method_desc_str_def frame_line_def
      no_jni_def past_end_def
    by (intro ends_intros t p)+
  show "ends (adopt_payload mref rv v)"
    unfolding adopt_payload_def upd_object_def
    by (auto intro!: ends_intros split: option.split jvalue.split)
qed

lemma ends_step_move: "ends (step_move f i)"
  unfolding step_move_def by (cases i) (auto intro!: ends_intros)

lemma ends_step_branch: "ends (step_branch f i)"
  unfolding step_branch_def
  by (cases i) (auto intro!: ends_intros simp: Let_def split: sum.split)

text \<open>The search over the interfaces: every round drops an entry, and a class adds its own once.\<close>

definition unseen :: "jclass list \<Rightarrow> u32 list \<Rightarrow> nat" where
  "unseen cs seen = (\<Sum>i \<in> {i. i < length cs \<and> i \<notin> unat ` set seen}. length (cls_interfaces (cs ! i)))"

lemma unseen_step:
  assumes "i \<notin> set seen" "unat i < length cs"
  shows "unseen cs seen = length (cls_interfaces (cs ! unat i)) + unseen cs (seen @ [i])"
proof -
  have i: "unat i \<notin> unat ` set seen" using assms(1) by (auto dest: unat_inj)
  have "{j. j < length cs \<and> j \<notin> unat ` set seen} =
      insert (unat i) {j. j < length cs \<and> j \<notin> unat ` set (seen @ [i])}"
    using assms(2) i by auto
  then show ?thesis unfolding unseen_def by (simp add: sum.insert)
qed

lemma search_loop_ends: "length q + unseen cs seen \<le> n \<Longrightarrow> search_loop n cs key q seen \<noteq> Diverge"
proof (induction n cs key q seen rule: search_loop.induct)
  case (3 n cs key x xs seen)
  let ?i = "last (x # xs)"
  show ?case
  proof (cases "?i \<in> set seen")
    case True
    then show ?thesis using 3 by (simp add: Let_def)
  next
    case False
    show ?thesis
    proof (cases "unat ?i < length cs \<and> dispatch (cs ! unat ?i) key = None")
      case True
      then have "unseen cs seen = length (cls_interfaces (cs ! unat ?i)) + unseen cs (seen @ [?i])"
        using unseen_step False by simp
      then have "length (butlast (x # xs) @ cls_interfaces (cs ! unat ?i)) +
          unseen cs (seen @ [?i]) \<le> n"
        using "3.prems" by (simp del: last.simps butlast.simps)
      then show ?thesis
        using "3.IH"(2) [of ?i "butlast (x # xs)" "cs ! unat ?i"] True False
        by (simp add: Let_def nth_opt_def del: last.simps butlast.simps)
    qed (use False in \<open>auto simp: Let_def nth_opt_def split: option.splits\<close>)
  qed
qed auto

lemma ends_search [ends_intros]: "ends (search_interfaces c key)"
proof -
  have "unseen cs [] = sum_list (map (\<lambda>k. length (cls_interfaces k)) cs)" for cs
    by (simp add: unseen_def sum_list_sum_nth atLeast0LessThan lessThan_def)
  then have "search_loop (length q + sum_list (map (\<lambda>k. length (cls_interfaces k)) cs)) cs key q []
      \<noteq> Diverge" for q cs
    by (intro search_loop_ends) simp
  then show ?thesis unfolding search_interfaces_def by (intro ends_intros ends_lift)
qed

section \<open>What the interpreter needs\<close>

definition halts :: "(vm \<Rightarrow> bool) \<Rightarrow> 'a vm_act \<Rightarrow> bool" where
  "halts I m \<longleftrightarrow> (\<forall>s. I s \<longrightarrow> esc (snd (m s)) \<or> fst (m s) \<noteq> Diverge)"

text \<open>\<open>tame I m\<close>: \<open>m\<close> ends and keeps the invariant.\<close>

definition tame :: "(vm \<Rightarrow> bool) \<Rightarrow> 'a vm_act \<Rightarrow> bool" where
  "tame I m \<longleftrightarrow> keeps I m \<and> keeps esc m \<and> halts I m"

named_theorems tame_intros

lemma tame_ends: "ends m \<Longrightarrow> keeps I m \<Longrightarrow> keeps esc m \<Longrightarrow> tame I m"
  by (simp add: tame_def halts_def ends_def)

lemma tame_bnd [tame_intros]:
  assumes "tame I m" and "\<And>x. tame I (f x)"
  shows "tame I (bnd m f)"
proof -
  have "halts I (bnd m f)"
    unfolding halts_def
  proof (intro allI impI)
    fix s assume s: "I s"
    obtain r s' where r: "m s = (r, s')" by (cases "m s")
    have s': "I s'" "esc s' \<or> r \<noteq> Diverge"
      using assms(1) s r keepsD [of I m s r s'] by (auto simp: tame_def halts_def dest: spec [of _ s])
    show "esc (snd (bnd m f s)) \<or> fst (bnd m f s) \<noteq> Diverge"
      using s' assms(2) r by (cases r) (auto simp: bnd_def tame_def halts_def)
  qed
  with assms show ?thesis by (auto simp: tame_def intro: keeps_bnd)
qed

lemma tame_catch [tame_intros]:
  assumes "tame I m" and "\<And>e. tame I (h e)"
  shows "tame I (catch m h)"
proof -
  have "halts I (catch m h)"
    unfolding halts_def
  proof (intro allI impI)
    fix s assume s: "I s"
    obtain r s' where r: "m s = (r, s')" by (cases "m s")
    have s': "I s'" "esc s' \<or> r \<noteq> Diverge"
      using assms(1) s r keepsD [of I m s r s'] by (auto simp: tame_def halts_def dest: spec [of _ s])
    show "esc (snd (catch m h s)) \<or> fst (catch m h s) \<noteq> Diverge"
      using s' assms(2) r by (cases r) (auto simp: catch_def tame_def halts_def)
  qed
  with assms show ?thesis by (auto simp: tame_def intro: keeps_catch)
qed

lemma tame_basic [tame_intros]:
  "tame I (ret x)" "tame I (fail e)" "tame I panic" "tame I (asks g)" "tame I (check b e)"
  "tame I (unwrap m)" "tame I (lift (ok_or e m))"
  by (rule tame_ends; intro ends_intros keeps_ret keeps_fail keeps_panic keeps_asks keeps_check
      keeps_unwrap keeps_lift)+

lemma bnd_lift: "bnd (lift (Ok x)) g = g x" "bnd (lift (Err e)) g = fail e"
  by (simp_all add: bnd_def lift_def fail_def)

lemma tame_lift: "r \<noteq> Diverge \<Longrightarrow> tame I (lift r)"
  by (rule tame_ends; intro ends_lift keeps_lift)

lemma tame_branch [tame_intros]:
  "(b \<Longrightarrow> tame I p) \<Longrightarrow> (\<not> b \<Longrightarrow> tame I q) \<Longrightarrow> tame I (if b then p else q)"
  "(m = None \<Longrightarrow> tame I p) \<Longrightarrow> (\<And>x. m = Some x \<Longrightarrow> tame I (g x)) \<Longrightarrow>
    tame I (case m of None \<Rightarrow> p | Some x \<Rightarrow> g x)"
  "(\<And>x y. tame I (h x y)) \<Longrightarrow> tame I (case z of (x, y) \<Rightarrow> h x y)"
  "tame I (k v) \<Longrightarrow> tame I (Let v k)"
  by (auto split: option.splits prod.splits)

lemma tame_modify: "(\<And>s. I s \<Longrightarrow> I (g s)) \<Longrightarrow> (\<And>s. esc s \<Longrightarrow> esc (g s)) \<Longrightarrow> tame I (modify g)"
  by (rule tame_ends; intro ends_intros keeps_modify)

interpretation escr: run_inv esc
  by unfold_locales (auto simp: esc_def intro!: keeps_upd_object)

locale halting = run_inv +
  fixes T :: tables
  assumes H_ensure: "halts I (ensure T req)"
    and H_array_class: "halts I (array_class (ensure T) dx t)"
    and H_class_obj: "halts I (class_obj (ensure T) c)"
    and H_offset: "halts I (field_offset c nm ty)"
    and H_owner: "halts I (static_field_owner c fr)"
    and H_walk: "halts I (dispatch_walk 2 T key c)"
    and H_decodes: "I s \<Longrightarrow> the_method c slot s = (Ok m, s') \<Longrightarrow> esc s' \<or> decodable m"
begin

lemma tame_linker [tame_intros]:
  "tame I (ensure T req)" "tame I (array_class (ensure T) dx t)" "tame I (class_obj (ensure T) c)"
  "tame I (field_offset c nm ty)" "tame I (static_field_owner c fr)" "tame I (dispatch_walk 2 T key c)"
  by (simp_all add: tame_def H_ensure H_array_class H_class_obj H_offset H_owner H_walk)
    (intro conjI keeps_intros)+

lemma tame_leaves [tame_intros]:
  "tame I (str_of i)" "tame I (the_class k)" "tame I (dex_at dx)" "tame I (the_object j)"
  "tame I (the_method k slot)" "tame I object_id" "tame I (class_desc_str k)" "tame I (intern str)"
  "tame I (alloc_obj k fs n)" "tame I (alloc_string str)" "tame I (reg f r)" "tame I (set_reg f r v)"
  "tame I (arg_reg f a ar)" "tame I (go_on f)" "tame I (set_go f dr v)" "tame I (jump_to f tg)"
  by (rule tame_ends; intro ends_intros keeps_intros)+

lemma tame_objects [tame_intros]:
  "tame I (upd_object ob (\<lambda>b. b\<lparr>obj_native := p\<rparr>))"
  "tame I (upd_object ob (\<lambda>b. b\<lparr>obj_fields := (obj_fields b)[n := v]\<rparr>))" "tame I (monitor_enter ob)"
  "tame I (monitor_exit ob)" "tame I (array_of ob)" "tame I (put_array ob ad)"
  "tame I (fill_args f a wide n r j arr)" "tame I (fill_array ob d)"
  "tame I (set_clinit c st)" "tame I (static_slot c off')" "tame I (put_static c off' v)"
  "tame I (clear_lazy c off')" "tame I (lazy_of c off')" "tame I (native_fn k)"
  "tame I (resolve_field_ref dx fidx)" "tame I (resolve_method_ref dx midx)"
  "tame I (search_interfaces c key)"
  by (rule tame_ends; intro ends_intros keeps_intros)+

end

text \<open>The natives and lazy statics of a host end too.\<close>

definition host_tame :: "(vm \<Rightarrow> bool) \<Rightarrow> host \<Rightarrow> bool" where
  "host_tame I H \<longleftrightarrow> host_keeps I H \<and> host_keeps esc H \<and>
     (\<forall>nf args s. I s \<longrightarrow> esc (snd (call_fn H nf args s)) \<or> fst (call_fn H nf args s) \<noteq> Diverge) \<and>
     (\<forall>lf. halts I (lazy_fn H lf))"

section \<open>Resolution and instructions end\<close>

lemma arith_total: "binop_val op v w \<noteq> Diverge"
proof (induction op v w rule: binop_val.induct)
  case (1 op x y)
  show ?case by (cases op) (auto simp: binop_int_def obind_Diverge_iff Let_def)
next
  case (2 op x y)
  show ?case by (cases op) (auto simp: binop_long_def obind_Diverge_iff Let_def)
qed simp_all

context halting
begin

lemma tame_by_desc [tame_intros]: "tame I (ensure_class_by_desc T desc)"
  unfolding ensure_class_by_desc_def ensure_by_name_def by (intro tame_intros)

lemma tame_throwable [tame_intros]:
  "tame I (throwable_of T d m)" "tame I (err_npe T)" "tame I (err_arithmetic T m)"
  "tame I (err_aioobe T i n)" "tame I (err_cce T m)" "tame I (err_neg_arr_size T)"
  "tame I (alloc_native T d p)"
  unfolding throwable_of_def err_npe_def err_arithmetic_def err_aioobe_def err_cce_def
    err_neg_arr_size_def throwable_of_def alloc_native_def
  by (intro tame_intros)+

lemma tame_any_interface: "(\<And>i t. tame I (rec i t)) \<Longrightarrow> tame I (any_interface rec t is)"
  by (induction "is") (auto intro!: tame_intros)

lemma tame_assign_walk: "(\<And>i t. tame I (rec i t)) \<Longrightarrow> tame I (assign_walk n T rec t te c)"
proof (induction n arbitrary: c)
  case 0
  show ?case by (auto intro!: tame_intros)
next
  case (Suc n)
  show ?case unfolding assign_walk.simps assign_arrays_def
    by (intro tame_intros tame_any_interface Suc)
qed

lemma tame_assignable [tame_intros]: "tame I (is_assignable T c t)"
proof -
  have "tame I (assignable n T c t)" for n c t
  proof (induction n arbitrary: c t)
    case 0
    show ?case by (auto intro!: tame_intros)
  next
    case (Suc n)
    show ?case unfolding assignable.simps by (intro tame_intros tame_assign_walk Suc)
  qed
  then show ?thesis by (simp add: is_assignable_def)
qed

lemma tame_the_method:
  assumes "\<And>m. decodable m \<Longrightarrow> tame I (f m)" and "\<And>m. keeps I (f m)" and "\<And>m. keeps esc (f m)"
  shows "tame I (bnd (the_method c slot) f)"
proof -
  have "halts I (bnd (the_method c slot) f)"
    unfolding halts_def
  proof (intro allI impI)
    fix s assume s: "I s"
    have k: "keeps I (the_method c slot)" "ends (the_method c slot)" by (intro keeps_intros ends_intros)+
    obtain r s' where r: "the_method c slot s = (r, s')" by (cases "the_method c slot s")
    have "I s'" "r \<noteq> Diverge" using keepsD [OF k(1) s r] k(2) r by (auto simp: ends_def dest: spec [of _ s])
    moreover have "esc s' \<or> decodable m" if "r = Ok m" for m using H_decodes [OF s] r that by simp
    moreover have "esc (snd (f m s'))" if "esc s'" for m using assms(3) that by (simp add: keeps_def)
    ultimately show "esc (snd (bnd (the_method c slot) f s)) \<or> fst (bnd (the_method c slot) f s) \<noteq> Diverge"
      using assms(1) r by (cases r) (auto simp: bnd_def tame_def halts_def)
  qed
  then show ?thesis unfolding tame_def by (intro conjI keeps_intros assms)
qed

lemma tame_decode:
  "decodable m \<Longrightarrow> m_code m = Some ci \<Longrightarrow> tame I (lift (omap_err from_dex_error (decode_all (code_insns ci))))"
  by (rule tame_lift) (cases "decode_all (code_insns ci)"; auto simp: decodable_def)

lemma tame_with_code:
  assumes "decodable m" and "\<And>ci d. m_code m = Some ci \<Longrightarrow> tame I (f ci d)"
  shows "tame I (bnd (lift (ok_or e (m_code m))) (\<lambda>ci.
    bnd (lift (omap_err from_dex_error (decode_all (code_insns ci)))) (f ci)))"
proof (cases "m_code m")
  case None
  then show ?thesis by (simp add: bnd_lift tame_basic)
next
  case (Some ci)
  then show ?thesis using tame_bnd [OF tame_decode [OF assms(1) Some] assms(2)] by (simp add: bnd_lift)
qed

end

context halting
begin

lemma tame_method_target [tame_intros]: "tame I (method_target c slot)"
proof -
  have k: "keeps J (case native_key m of Some k \<Rightarrow> ret (TNative k) | None \<Rightarrow>
      bnd (lift (ok_or (Resolution ''method has no code'') (m_code m))) (\<lambda>ci.
      bnd (lift (omap_err from_dex_error (decode_all (code_insns ci)))) (\<lambda>d.
      ret (TBytecode c slot d (Some ci) (ins_size ci) (registers_size ci) (m_ret m) (m_args m)
                (static_method m)))))" for J m
    by (intro keeps_intros)
  have n: "tame I (no_jni m)" for m
    unfolding no_jni_def by (intro tame_intros)
  show ?thesis
    unfolding method_target_def
  proof (rule tame_the_method)
    fix m assume "decodable m"
    then show "tame I (if native_decl m then bnd (no_jni m) fail
        else case native_key m of Some k \<Rightarrow> ret (TNative k) | None \<Rightarrow>
          bnd (lift (ok_or (Resolution ''method has no code'') (m_code m))) (\<lambda>ci.
          bnd (lift (omap_err from_dex_error (decode_all (code_insns ci)))) (\<lambda>d.
          ret (TBytecode c slot d (Some ci) (ins_size ci) (registers_size ci) (m_ret m) (m_args m)
                (static_method m)))))"
      by (intro tame_branch tame_with_code tame_bnd n tame_basic)
  qed (unfold no_jni_def, (intro keeps_intros)+)
qed

lemma tame_resolve_target [tame_intros]: "tame I (resolve_target T kind mref r cur)"
proof -
  have "tame I (target_start T kind mref r cur)"
    unfolding target_start_def by (intro tame_intros)
  then show ?thesis unfolding resolve_target_def by (intro tame_intros)
qed

lemma tame_throw_new [tame_intros]: "tame I mk \<Longrightarrow> tame I (throw_new mk f)"
  unfolding throw_new_def by (intro tame_intros)

lemma tame_with_obj [tame_intros]: "(\<And>i. tame I (k i)) \<Longrightarrow> tame I (with_obj T f r k)"
  unfolding with_obj_def by (auto split: jvalue.split intro!: tame_intros)

lemma tame_step_move: "tame I (step_move f i)"
  by (rule tame_ends [OF ends_step_move step_move_kept escr.step_move_kept])

lemma tame_step_branch: "tame I (step_branch f i)"
  by (rule tame_ends [OF ends_step_branch step_branch_kept escr.step_branch_kept])

lemma tame_step_const: "tame I (step_const T f i)"
  unfolding step_const_def step_string_def by (cases i) (auto intro!: tame_intros)

lemma tame_new_array [tame_intros]: "tame I (new_array T f t arr)"
  unfolding new_array_def by (intro tame_intros)

lemma tame_step_object: "tame I (step_object T f i)"
  unfolding step_object_def
  by (cases i) (auto intro!: tame_intros simp: Let_def split: jvalue.split)

lemma tame_step_array: "tame I (step_array T f i)"
proof -
  have "tame I rd \<Longrightarrow> tame I (array_access T f ar ix rd)" for ar ix rd
    unfolding array_access_def by (auto intro!: tame_intros split: jvalue.split)
  then show ?thesis unfolding step_array_def
    by (cases i) (auto intro!: tame_intros split: sum.split)
qed

lemma tame_initialized:
  assumes "\<And>c slot args. tame I (go c slot args)"
  shows "tame I (ensure_class_initialized go c)"
  unfolding ensure_class_initialized_def by (intro tame_intros assms)

lemma tame_static_access:
  assumes "host_tame I H" "tabs H = T" "\<And>c slot args. tame I (go c slot args)"
  shows "tame I (static_field_get H go fr)" "tame I (static_field_put H go fr v)"
proof -
  have lazy: "tame I (lazy_fn H lf)" for lf
    using assms(1) by (simp add: host_tame_def host_keeps_def tame_def)
  show "tame I (static_field_get H go fr)" "tame I (static_field_put H go fr v)"
    unfolding static_field_get_def static_field_put_def assms(2)
    by (intro tame_intros tame_initialized assms(3) lazy)+
qed

lemma tame_fields [tame_intros]:
  "tame I (get_field T f d obr fidx)" "tame I (put_field T is_obj f s obr fidx)"
proof -
  have slot: "tame I (field_slot f oc fidx)" for oc unfolding field_slot_def by (intro tame_intros)
  have "tame I (boxed_value T ty v)" for ty v
    unfolding boxed_value_def by (cases v) (auto intro!: tame_intros)
  then have "tame I (stored_field T is_obj fr v)" for fr v
    unfolding stored_field_def by (intro tame_intros)
  then show "tame I (put_field T is_obj f s obr fidx)"
    unfolding put_field_def by (intro tame_intros slot)
  show "tame I (get_field T f d obr fidx)" unfolding get_field_def by (intro tame_intros slot)
qed

lemma tame_step_field:
  assumes "host_tame I H" "tabs H = T" "\<And>c slot args. tame I (go c slot args)"
  shows "tame I (step_field H go f i)"
  unfolding step_field_def get_static_def step_put_static_def assms(2)
  by (cases i) (auto intro!: tame_intros tame_static_access assms)

lemma tame_step_invoke:
  assumes "tabs H = T" "\<And>c slot args. tame I (go c slot args)"
  shows "tame I (step_invoke H go f next_pc kind midx a)"
  unfolding step_invoke_def assms(1)
  by (auto intro!: tame_intros tame_initialized assms split: sum.split target.split)

lemma tame_step_arith: "tame I (step_arith T f i)"
proof -
  have "tame I (arith_result T f d (binop_val op v w))" for d op v w
    unfolding arith_result_def using arith_total [of op v w]
    by (cases "binop_val op v w") (auto intro!: tame_intros)
  then show ?thesis
    unfolding step_arith_def by (cases i) (auto intro!: tame_intros)
qed

lemma tame_step:
  assumes "host_tame I H" "tabs H = T" "\<And>c slot args. tame I (go c slot args)"
  shows "tame I (step H go f)"
proof -
  have "tame I (step_insn H go f next_pc i)" for f next_pc i
    unfolding step_insn_def assms(2)
    by (auto intro!: tame_step_move tame_step_const tame_step_object tame_step_branch tame_step_array
        tame_step_field tame_step_invoke tame_step_arith tame_basic assms split: group.split insn.split)
  moreover have "tame I (past_end f)" for f unfolding past_end_def by (intro tame_intros)
  ultimately show ?thesis unfolding step_def by (intro tame_intros)
qed

end

section \<open>Unwinding and calls end\<close>

context halting
begin

lemma tame_stack [tame_intros]:
  "tame I (set_top g)" "tame I drop_top" "tame I (push_top f)" "tame I (pop_frame e)"
  "tame I (native_args f a r ts)" "tame I (bytecode_args f a r ts)" "tame I (receiver_of f kind a)"
  "tame I (adopt_payload mref rv v)"
  by (rule tame_ends; intro ends_intros keeps_intros)+

lemma tame_find_handler: "tame I (find_handler T dx exc a ts)"
proof -
  have m: "tame I (match_handlers T dx exc hs)" for hs
  proof (induction hs)
    case (Cons h hs)
    obtain t addr where "h = (t, addr)" by (cases h)
    with Cons show ?case by (auto intro!: tame_intros split: jvalue.split)
  qed (auto intro: tame_intros)
  show ?thesis by (induction ts) (auto intro!: tame_intros m split: option.split)
qed

text \<open>Every round of unwinding takes a frame away.\<close>

lemma unwind_loop_ends:
  "I s \<Longrightarrow> length (frames s) < n \<Longrightarrow>
   esc (snd (unwind_loop n T carried s)) \<or> fst (unwind_loop n T carried s) \<noteq> Diverge"
proof (induction n arbitrary: carried s)
  case (Suc n)
  show ?case
  proof (cases "frames s = []")
    case True
    then show ?thesis by (simp add: bnd_def asks_def ret_def)
  next
    case False
    define f where "f = last (frames s)"
    define s1 where "s1 = s\<lparr>frames := butlast (frames s) @ [f\<lparr>pending_exc := None\<rparr>]\<rparr>"
    have I1: "I s1" unfolding s1_def by (rule I_frames [OF Suc.prems(1)])
    show ?thesis
    proof (cases "case pending_exc f of Some e \<Rightarrow> Some e | None \<Rightarrow> carried")
      case None
      with False show ?thesis
        by (simp add: bnd_def asks_def set_top_at f_def [symmetric] fail_def Let_def)
    next
      case (Some exc)
      obtain r s2 where r: "find_handler T (f_dex f) exc (err_addr f) (f_tries f) s1 = (r, s2)"
        by (cases "find_handler T (f_dex f) exc (err_addr f) (f_tries f) s1")
      have u: "unwind_loop (Suc n) T carried s = bnd (\<lambda>_. (r, s2)) (\<lambda>m. case m of
            Some addr \<Rightarrow>
              bnd (set_top (\<lambda>f. f\<lparr>pc := unat addr, pending_exc := Some exc\<rparr>)) (\<lambda>_. ret True)
          | None \<Rightarrow> bnd drop_top (\<lambda>_. unwind_loop n T (Some exc))) s1"
        using False Some r
        by (cases r) (auto simp: bnd_def asks_def set_top_at f_def [symmetric] s1_def [symmetric]
            Let_def split: option.split)
      have fh: "tame I (find_handler T (f_dex f) exc (err_addr f) (f_tries f))"
        by (rule tame_find_handler)
      have I2: "I s2" and ok: "esc s2 \<or> r \<noteq> Diverge"
        using fh I1 r keepsD [of I _ s1 r s2] by (auto simp: tame_def halts_def dest: spec [of _ s1])
      show ?thesis
      proof (cases "r = Ok None")
        case True
        then have "frames s2 = butlast (frames s) @ [f\<lparr>pending_exc := None\<rparr>]"
          using find_handler_frames [OF r [unfolded True]] by (simp add: s1_def)
        then have "length (frames (s2\<lparr>frames := butlast (frames s2)\<rparr>)) < n"
          using Suc.prems(2) False by (cases "frames s") simp_all
        from Suc.IH [OF I_frames [OF I2] this] show ?thesis
          unfolding u using True by (simp add: bnd_def drop_top_at)
      next
        case F: False
        show ?thesis
        proof (cases "esc s2")
          case True
          then have "esc (snd (bnd (\<lambda>_. (r, s2)) (\<lambda>m. case m of
              Some addr \<Rightarrow>
                bnd (set_top (\<lambda>f. f\<lparr>pc := unat addr, pending_exc := Some exc\<rparr>)) (\<lambda>_. ret True)
            | None \<Rightarrow> bnd drop_top (\<lambda>_. unwind_loop n T (Some exc))) s1))"
            using F by (cases r) (auto simp: bnd_def set_top_at ret_def esc_def split: option.splits)
          then show ?thesis unfolding u by simp
        next
          case False
          then show ?thesis unfolding u using F ok
            by (cases r) (auto simp: bnd_def set_top_at ret_def split: option.splits)
        qed
      qed
    qed
  qed
qed simp

lemma tame_unwind [tame_intros]: "tame I (unwind T)"
  using unwind_kept escr.unwind_kept unwind_loop_ends
  by (simp add: tame_def halts_def unwind_def bnd_def asks_def del: unwind_loop.simps)

lemma tame_raise [tame_intros]: "tame I (raise_in T f exc u)"
  unfolding raise_in_def by (intro tame_intros)

lemma tame_call_native:
  assumes H: "host_tame I H" "tabs H = T"
  shows "tame I (call_native H f kind mref k a ret_pc)"
proof -
  have "tame I (\<lambda>s. case call_fn H nf vs s of
            (Err (NThrow ex), s') \<Rightarrow> (Ok (Inl ex), s')
          | (r, s') \<Rightarrow> (obind (omap_err from_nat_err r) (\<lambda>v. Ok (Inr v)), s'))" for nf vs
  proof -
    have "esc (snd (call_fn H nf vs s)) \<or> fst (call_fn H nf vs s) \<noteq> Diverge"
        "I (snd (call_fn H nf vs s))" if "I s" for s
      using H(1) that by (auto simp: host_tame_def host_keeps_def)
    moreover have "esc (snd (call_fn H nf vs s))" if "esc s" for s
      using H(1) that by (auto simp: host_tame_def host_keeps_def)
    ultimately show ?thesis
      by (auto simp: tame_def keeps_def halts_def obind_Diverge_iff
          split: prod.split outcome.split nat_err.split)
        (metis (no_types, lifting) fst_conv snd_conv)+
  qed
  then show ?thesis
    unfolding call_native_def H(2) by (auto intro!: tame_intros split: sum.split)
qed

lemma tame_do_call:
  assumes "host_tame I H" "tabs H = T"
  shows "tame I (do_call H f kind mref t a ret_pc)"
  unfolding do_call_def call_bytecode_def
  by (cases t) (auto intro!: tame_call_native tame_intros assms)

text \<open>An iteration once its unit of the budget is paid.\<close>

lemma tame_paid_iteration:
  assumes H: "host_tame I H" "tabs H = T" and go: "\<And>c slot args. tame I (go c slot args)"
  shows "tame I (bnd (step H go f) (\<lambda>(out, f). case out of
       Done (Next p) \<Rightarrow> ret (Inl (f\<lparr>pc := p\<rparr>))
     | Done (Jump t) \<Rightarrow> ret (Inl (f\<lparr>pc := t\<rparr>))
     | Done (FRet v) \<Rightarrow> do_return v
     | Done (FCall kind mref t a ret_pc) \<Rightarrow>
         bnd (do_call H f kind mref t a ret_pc) (\<lambda>f. ret (Inl f))
     | Thrown ex \<Rightarrow>
         bnd (raise_in (tabs H) f ex (case ex of VObj i \<Rightarrow> i | _ \<Rightarrow> 0)) (\<lambda>f. ret (Inl f))))"
  unfolding H(2) do_return_def
  by (auto intro!: tame_intros tame_step tame_do_call assms split: step_outcome.split flow.split)

lemma tame_push_frame: "tame I (push_frame c slot args)"
proof -
  have l: "tame I (frame_line c slot)" for c slot
    unfolding frame_line_def by (intro tame_intros)
  have d: "tame I (amap (\<lambda>f. frame_line (f_class f) (f_slot f)) fs)" for fs :: "frame list"
    by (induction fs) (auto intro!: tame_intros l)
  have k: "keeps J (push_top f) \<Longrightarrow> keeps J (push_top f)" for J f by assumption
  show ?thesis
    unfolding push_frame_def
    by (intro tame_bnd tame_branch tame_basic l d tame_the_method tame_with_code tame_stack
        keeps_intros; assumption)
qed

end

context halting
begin

lemma tame_run_method:
  assumes H: "host_tame I H" "tabs H = T" and loop: "\<And>f. tame I (loop f)"
  shows "tame I (run_method H loop c slot args)"
proof -
  have native: "tame I (run_native H nf vs)" for nf vs
    using H(1) by (auto simp: tame_def keeps_def halts_def host_tame_def host_keeps_def run_native_def
        split: prod.split) (metis fst_conv omap_err.elims outcome.distinct snd_conv)+
  have body: "tame I (\<lambda>s. case m (s\<lparr>frames := []\<rparr>) of
      (r, s') \<Rightarrow> (r, s'\<lparr>frames := frames s, recursion_depth := recursion_depth s' - 1\<rparr>))"
    if m: "tame I m" for m :: "jvalue vm_act"
  proof -
    have "I (s'\<lparr>frames := frames s, recursion_depth := recursion_depth s' - 1\<rparr>)"
      "esc s' \<or> r \<noteq> Diverge" if "I s" "m (s\<lparr>frames := []\<rparr>) = (r, s')" for s r s'
    proof -
      have s0: "I (s\<lparr>frames := []\<rparr>)" by (rule I_frames [OF that(1)])
      have "keeps I m" using m by (simp add: tame_def)
      from keepsD [OF this s0 that(2)] have "I s'" .
      from I_depth [OF I_frames [OF this]]
      show "I (s'\<lparr>frames := frames s, recursion_depth := recursion_depth s' - 1\<rparr>)" by simp
      show "esc s' \<or> r \<noteq> Diverge"
        using m s0 that(2) by (auto simp: tame_def halts_def dest: spec [of _ "s\<lparr>frames := []\<rparr>"])
    qed
    moreover have "esc s'" if "esc s" "m (s\<lparr>frames := []\<rparr>) = (r, s')" for s r s'
      using m that keepsD [of esc m "s\<lparr>frames := []\<rparr>" r s'] by (simp add: tame_def esc_def)
    ultimately show ?thesis
      by (auto simp: tame_def keeps_def halts_def esc_def split: prod.split)
  qed
  have n: "tame I (note_entry c slot)"
    by (rule tame_ends; (intro ends_intros)?; unfold note_entry_def method_desc_str_def, intro keeps_intros)
  have j: "tame I (no_jni m)" for m unfolding no_jni_def by (intro tame_intros)
  have run: "tame I (bnd (push_frame c slot args) (\<lambda>_. run_loop loop))"
    unfolding run_loop_def by (intro tame_push_frame tame_intros loop)
  show ?thesis
    unfolding run_method_def
    by (intro tame_intros n j native body [OF run])
qed

end

section \<open>The linker provides it\<close>

text \<open>The machine of a run: strings within their ids or lost, a sound class graph, a budget.\<close>

definition sane :: "dex_file list \<Rightarrow> u32 \<Rightarrow> u32 \<Rightarrow> int \<Rightarrow> vm \<Rightarrow> bool" where
  "sane D ob c b s \<longleftrightarrow> (esc s \<or> rooted_at D ob c s) \<and> (class_inv s \<and> 0 \<le> ncls s) \<and> budget s \<le> b"

interpretation rootr: run_inv "\<lambda>s. esc s \<or> rooted_at D ob c s" for D ob c
  by unfold_locales
    (auto simp: rooted_at_def esc_def linkable_def intern_ok_def object_named_def spelled_def
      intro!: keeps_upd_object)

lemma run_inv_conj: "run_inv I \<Longrightarrow> run_inv J \<Longrightarrow> run_inv (\<lambda>s. I s \<and> J s)"
  by (auto simp: run_inv_def run_inv_axioms_def resolve_inv_def resolve_inv_axioms_def
      object_inv_def object_inv_axioms_def intern_inv_def keeps_def)

interpretation saner: run_inv "sane D ob c b" for D ob c b
  unfolding sane_def
  by (intro run_inv_conj rootr.run_inv_axioms clsrun.run_inv_axioms budr.run_inv_axioms)

lemma halts_settled:
  assumes "\<And>L. settled D L L m"
  shows "halts (sane D ob c b) m"
  unfolding halts_def
proof (intro allI impI)
  fix s assume s: "sane D ob c b s"
  show "esc (snd (m s)) \<or> fst (m s) \<noteq> Diverge"
  proof (cases "esc s")
    case True
    then show ?thesis using assms by (auto simp: settled_def keeps_def)
  next
    case False
    with s have "lstate D (loading s) s" by (simp add: sane_def rooted_at_def lstate_iff)
    then show ?thesis using settled_fin [OF assms] by (auto simp: fin_def)
  qed
qed

lemma settled_requests:
  assumes "acyclic_shims T"
  shows "settled D L L (array_class (ensure T) dx t)" "settled D L L (class_obj (ensure T) k)"
  unfolding array_class_def push_array_class_def class_obj_def ensure_by_name_def object_id_def
  by (intro settled_intros assms)+

lemma climb_halts: "class_inv s \<Longrightarrow> fst (climb f k s) \<noteq> Diverge"
proof (cases "unat k < ncls s")
  case True
  assume "class_inv s"
  from climb_ends [OF this True, of f] show ?thesis by auto
qed (simp add: climb_def bnd_def asks_def lift_def nth_opt_def)

lemma dispatch_chain_ends:
  assumes "graph_ok cs"
  shows "unat k < n \<Longrightarrow> dispatch_chain n cs key k \<noteq> Diverge \<and>
    (\<forall>k'. dispatch_chain n cs key k = Ok (None, k') \<longrightarrow> unat k' < length cs)"
proof (induction n arbitrary: k)
  case (Suc n)
  show ?case
  proof (cases "unat k < length cs \<and> dispatch (cs ! unat k) key = None")
    case True
    then have k: "unat k < length cs" "nth_opt cs (unat k) = Some (cs ! unat k)" by (auto simp: nth_opt_def)
    show ?thesis
    proof (cases "superclass (cs ! unat k)")
      case (Some p)
      then have "unat p < unat k" using assms k by (auto simp: graph_ok_def refers_below_def)
      then show ?thesis using Suc.IH [of p] Suc.prems True Some k(1) by (simp add: nth_opt_def)
    qed (use True in \<open>auto simp: nth_opt_def\<close>)
  qed (auto simp: nth_opt_def split: option.splits)
qed simp

lemma ensure_present: "class_by_desc s d = Some k \<Longrightarrow> ensure T (ByDesc d) s = (Ok k, s)"
proof -
  assume d: "class_by_desc s d = Some k"
  obtain n where "load_depth T s = Suc n" by (cases "load_depth T s") (auto simp: load_depth_def)
  with d show ?thesis by (simp add: ensure_def ensure_by_desc_def bnd_def asks_def ret_def)
qed

text \<open>A chain that ends at an interface goes on at the root, and ends there.\<close>

lemma dispatch_walk_step:
  assumes "nth_opt (vm_classes s) (unat k') = Some cl"
    and "dispatch_chain (Suc (ncls s)) (vm_classes s) key k = Ok (None, k')"
  shows "dispatch_walk (Suc n) T key k s =
    (if is_interface cl then
       bnd object_id (\<lambda>o'. bnd (ensure T (ByDesc o')) (\<lambda>oc. dispatch_walk n T key oc)) s
     else (Ok (None, k'), s))"
  using assms
  by (simp add: bnd_def asks_def lift_def the_class_def unwrap_def ret_def
      del: dispatch_chain.simps nth_opt_Some_iff)

lemma walk_halts:
  assumes "rooted_at D ob c s" and "class_inv s"
  shows "fst (dispatch_walk 2 T key k s) \<noteq> Diverge"
proof -
  let ?cs = "vm_classes s"
  have g: "graph_ok ?cs" using assms(2) by (simp add: class_inv_def)
  obtain r where r: "nth_opt ?cs (unat c) = Some r" "root_class r" "class_by_desc s ob = Some c"
      "hot_object (hot_ids s) = ob"
    using assms(1) by (auto simp: rooted_at_def)
  have chain: "fst (dispatch_walk (Suc n) T key j s) \<noteq> Diverge"
    if "\<not> (\<exists>k'. dispatch_chain (Suc (ncls s)) ?cs key j = Ok (None, k'))"
      "dispatch_chain (Suc (ncls s)) ?cs key j \<noteq> Diverge" for n j
    using that by (cases "dispatch_chain (Suc (ncls s)) ?cs key j")
      (auto simp: bnd_def asks_def lift_def ret_def simp del: dispatch_chain.simps split: option.split)
  have one: "fst (dispatch_walk (Suc 0) T key c s) \<noteq> Diverge"
  proof (cases "dispatch r key")
    case None
    then have "dispatch_chain (Suc (ncls s)) ?cs key c = Ok (None, c)"
      using r(1,2) by (simp add: root_class_def del: nth_opt_Some_iff)
    from dispatch_walk_step [OF r(1) this] r(2) show ?thesis by (simp add: root_class_def)
  next
    case (Some slot)
    then show ?thesis using r(1) by (intro chain) (simp_all del: nth_opt_Some_iff)
  qed
  show ?thesis
  proof (cases "unat k < length ?cs")
    case True
    let ?d = "dispatch_chain (Suc (length ?cs)) ?cs key k"
    have d: "?d \<noteq> Diverge" "\<And>k'. ?d = Ok (None, k') \<Longrightarrow> unat k' < length ?cs"
      using dispatch_chain_ends [OF g, of k "Suc (length ?cs)" key] True by auto
    show ?thesis
    proof (cases "\<exists>k'. ?d = Ok (None, k')")
      case True
      then obtain k' where k': "?d = Ok (None, k')" by blast
      have n: "nth_opt ?cs (unat k') = Some (?cs ! unat k')" using d(2) [OF k'] by (simp add: nth_opt_def)
      have "bnd object_id (\<lambda>o'. bnd (ensure T (ByDesc o')) (\<lambda>oc. dispatch_walk n T key oc)) s =
          dispatch_walk n T key c s" for n
        using r(3,4) by (simp add: bnd_def asks_def object_id_def ensure_present)
      then show ?thesis using one
        unfolding numeral_2_eq_2 dispatch_walk_step [OF n k']
        by (cases "is_interface (?cs ! unat k')") (simp_all only: if_True if_False fst_conv outcome.distinct
              not_False_eq_True)
    next
      case False
      show ?thesis unfolding numeral_2_eq_2 by (rule chain [OF False d(1)])
    qed
  next
    case False
    then show ?thesis unfolding numeral_2_eq_2 by (intro chain) (simp_all add: nth_opt_def)
  qed
qed

lemma bnd_then_ends: "fst (m s) \<noteq> Diverge \<Longrightarrow> (\<And>x. ends (f x)) \<Longrightarrow> fst (bnd m f s) \<noteq> Diverge"
  by (cases "m s"; cases "fst (m s)") (auto simp: bnd_def ends_def)

interpretation sanely: halting "sane D ob c b" "if acyclic_shims T then T else small_tables" for D ob c b T
proof unfold_locales
  let ?T = "if acyclic_shims T then T else small_tables"
  have T: "acyclic_shims ?T" using small_acyclic by simp
  show "halts (sane D ob c b) (ensure ?T req)" for req
    by (rule halts_settled) (rule settled_ensure [OF T])
  show "halts (sane D ob c b) (array_class (ensure ?T) dx t)" for dx t
    by (rule halts_settled) (rule settled_requests(1) [OF T])
  show "halts (sane D ob c b) (class_obj (ensure ?T) k)" for k
    by (rule halts_settled) (rule settled_requests(2) [OF T])
  show "halts (sane D ob c b) (field_offset k nm ty)" for k nm ty
    by (simp add: halts_def field_offset_def sane_def climb_halts)
  show "halts (sane D ob c b) (static_field_owner k fr)" for k fr
    unfolding halts_def static_field_owner_def
    by (intro allI impI disjI2 bnd_then_ends climb_halts ends_intros) (simp add: sane_def)
  show "halts (sane D ob c b) (dispatch_walk 2 ?T key k)" for key k
    unfolding halts_def
  proof (intro allI impI)
    fix s assume s: "sane D ob c b s"
    show "esc (snd (dispatch_walk 2 ?T key k s)) \<or> fst (dispatch_walk 2 ?T key k s) \<noteq> Diverge"
    proof (cases "esc s")
      case True
      then show ?thesis using escp.dispatch_walk_kept by (auto simp: keeps_def)
    next
      case False
      with s show ?thesis using walk_halts [of D ob c s ?T key k] by (simp add: sane_def)
    qed
  qed
  show "esc s' \<or> decodable m" if "sane D ob c b s" "the_method k slot s = (Ok m, s')" for s k slot m s'
    using that
    by (auto simp: sane_def the_method_def the_class_def bnd_Ok asks_def unwrap_def ret_def panic_def
        rooted_at_def decodable_class_def nth_opt_Some_iff split: option.splits)
      (metis nth_mem)
qed

section \<open>Running ends\<close>

lemma host_tame_keeps: "host_tame I H \<Longrightarrow> host_keeps I H \<and> host_keeps esc H"
  by (simp add: host_tame_def)

lemma sane_budget: "sane D ob c b s \<Longrightarrow> sane D ob c (budget s) s"
  by (simp add: sane_def)

lemma interp_halts:
  assumes T: "acyclic_shims (tabs H)" and H: "\<And>b. host_tame (sane D ob c b) H"
  shows "(case t of Run _ _ _ \<Rightarrow> 2 * nat b + 2 \<le> n | Loop _ \<Rightarrow> 2 * nat b + 1 \<le> n) \<Longrightarrow>
    tame (sane D ob c b) (interp n H t)"
proof (induction n arbitrary: t b)
  case (Suc n)
  have kept: "tame (sane D ob c b) (interp (Suc n) H t)" if "halts (sane D ob c b) (interp (Suc n) H t)"
    using that saner.interp_kept escr.interp_kept host_tame_keeps [OF H]
    unfolding tame_def by blast
  have hT: "(if acyclic_shims (tabs H) then tabs H else small_tables) = tabs H" using T by simp
  note tame = sanely.tame_paid_iteration [where T = "tabs H", unfolded hT, OF H refl]
  show ?case
  proof (cases t)
    case (Loop f)
    let ?rest = "\<lambda>r. case r of Inl f' \<Rightarrow> interp n H (Loop f') | Inr v \<Rightarrow> ret v"
    have "halts (sane D ob c b) (interp (Suc n) H t)"
      unfolding halts_def
    proof (intro allI impI)
      fix s assume s: "sane D ob c b s"
      show "esc (snd (interp (Suc n) H t s)) \<or> fst (interp (Suc n) H t s) \<noteq> Diverge"
      proof (cases "0 < budget s")
        case False
        then show ?thesis
          by (simp add: Loop iteration_def bnd_def asks_def check_def fail_def)
      next
        case True
        let ?s = "s\<lparr>budget := budget s - 1\<rparr>"
        have "0 < b" using True s by (simp add: sane_def)
        then have b: "nat b = Suc (nat (b - 1))" by simp
        have sane: "sane D ob c (b - 1) ?s"
          using saner.I_budget [OF s] s by (simp add: sane_def)
        have run: "tame (sane D ob c (b - 1)) (interp n H (Run k slot args))" for k slot args
          using Suc.prems b by (intro Suc.IH) (simp add: Loop)
        have loop: "tame (sane D ob c (b - 1)) (interp n H (Loop f'))" for f'
          using Suc.prems b by (intro Suc.IH) (simp add: Loop)
        have rest: "tame (sane D ob c (b - 1)) (?rest r)" for r
          by (cases r) (auto intro: loop tame_basic)
        have "interp (Suc n) H t s = bnd (bnd (step H (\<lambda>k slot args. interp n H (Run k slot args)) f)
            (\<lambda>(out, f). case out of
               Done (Next p) \<Rightarrow> ret (Inl (f\<lparr>pc := p\<rparr>))
             | Done (Jump t) \<Rightarrow> ret (Inl (f\<lparr>pc := t\<rparr>))
             | Done (FRet v) \<Rightarrow> do_return v
             | Done (FCall kind mref t a ret_pc) \<Rightarrow>
                 bnd (do_call H f kind mref t a ret_pc) (\<lambda>f. ret (Inl f))
             | Thrown ex \<Rightarrow>
                 bnd (raise_in (tabs H) f ex (case ex of VObj i \<Rightarrow> i | _ \<Rightarrow> 0)) (\<lambda>f. ret (Inl f))))
            ?rest ?s"
          using True by (simp add: Loop iteration_def bnd_def asks_def check_def ret_def modify_def)
        then show ?thesis
          using tame_bnd [OF tame [OF run] rest] sane by (simp add: tame_def halts_def)
      qed
    qed
    then show ?thesis by (rule kept)
  next
    case (Run k slot args)
    have "tame (sane D ob c b) (interp n H (Loop f))" for f
      using Suc.prems by (intro Suc.IH) (simp add: Run)
    then show ?thesis
      using sanely.tame_run_method [where T = "tabs H", unfolded hT, OF H refl] by (simp add: Run)
  qed
qed (simp split: task.splits)

text \<open>
  C22: Running any method ends. On a machine whose strings have their ids, whose class graph is
  well-founded and whose root class is in its place, and with natives that end themselves and
  leave this as it is, a call of \<open>run\<close> returns a value, an error or a panic: the budget bounds
  the instructions of the call and of all calls nested in it, and no instruction, class
  initialisation, dispatch, handler search or unwinding goes on for ever (as long as the
  string table fits its 32 bit ids).
\<close>

theorem run_returns:
  assumes "acyclic_shims (tabs H)" and "rooted_at D ob c s" and "class_inv s"
    and "\<And>b. host_tame (sane D ob c b) H"
    and "run H k slot args s = (r, s')" and "length (intern_tab s') \<le> 2 ^ 32"
  shows "r \<noteq> Diverge"
proof -
  have "sane D ob c (budget s) s" using assms(2,3) by (simp add: sane_def)
  moreover have "tame (sane D ob c (budget s)) (interp (run_fuel (budget s)) H (Run k slot args))"
    by (rule interp_halts [OF assms(1,4)]) (simp add: run_fuel_def)
  ultimately show ?thesis using assms(5,6) by (auto simp: tame_def halts_def run_def esc_def)
qed

text \<open>A machine with one class, which is the root and has a static method with the code given.\<close>

definition root_vm :: "u16 list \<Rightarrow> vm" where
  "root_vm ws = (vm_empty [])\<lparr>intern_tab := [''Ljava/lang/Object;''],
     intern_map := [''Ljava/lang/Object;'' \<mapsto> 0], budget := 1, class_by_desc := [0 \<mapsto> 0],
     vm_classes := [(class_new 0 0 None [] 0 None)\<lparr>cls_methods := [code_method 0 ws]\<rparr>]\<rparr>"

lemma root_runs:
  "(case run (quiet_host small_tables) 0 0 [] (root_vm [0x000e]) of
     (r, s) \<Rightarrow> r = Ok VNull \<and> length (intern_tab s) < 9)"
  by code_simp

lemma root_vm_rooted: "rooted_at [] 0 0 (root_vm [0x000e])" "class_inv (root_vm [0x000e])"
proof -
  have "decode_all [0x000e] \<noteq> Diverge" by code_simp
  then show "rooted_at [] 0 0 (root_vm [0x000e])"
    by (auto simp: rooted_at_def root_vm_def linkable_def intern_ok_def object_named_def spelled_def
        vm_empty_def hot_zero_def nth_opt_def root_class_def decodable_class_def decodable_def
        code_method_def split: if_splits)
  show "class_inv (root_vm [0x000e])"
    by (simp add: class_inv_def root_vm_def vm_empty_def graph_ok_def refers_below_def class_new_def
        entries_below_def)
qed

lemma quiet_tame: "host_tame I (quiet_host T)"
  by (auto simp: host_tame_def quiet_keeps halts_def) (simp_all add: quiet_host_def)

theorem run_returns_witness:
  "fst (run (quiet_host small_tables) 0 0 [] (root_vm [0x000e])) \<noteq> Diverge"
proof -
  obtain r s' where r: "run (quiet_host small_tables) 0 0 [] (root_vm [0x000e]) = (r, s')"
      "length (intern_tab s') < 9"
    using root_runs by (cases "run (quiet_host small_tables) 0 0 [] (root_vm [0x000e])") auto
  have "tabs (quiet_host small_tables) = small_tables" by (simp add: tabs_def quiet_host_def)
  then have "acyclic_shims (tabs (quiet_host small_tables))" using small_acyclic by simp
  from run_returns [OF this root_vm_rooted quiet_tame r(1)] r show ?thesis by simp
qed

end
