(* ===== verification/Shims.thy ===== *)
theory Shims
  imports Arith Resolve
begin

text \<open>
  What the native methods of the shim classes share: \<open>src/src/vm/native/mod.rs\<close> and the collection
  helpers of \<open>java/util/mod.rs\<close>. A native is a state action with \<open>NatErr\<close> as its error; the tables
  of the machine and the interpreter it calls back into are its environment. An index into the
  argument slice that is out of range is a panic.
\<close>

section \<open>Actions of natives\<close>

type_synonym 'a shim_act = "(vm, nat_err, 'a) act"

type_synonym env = "host \<times> runner"

definition tb :: "env \<Rightarrow> tables" where
  "tb E = tabs (fst E)"

fun nat_fatal :: "jvm_error \<Rightarrow> nat_err" where
  "nat_fatal (Uncaught t) = NThrow t"
| "nat_fatal e = NFatal e"

text \<open>A method of the machine under \<open>map_err(nat_fatal)\<close>.\<close>

definition via :: "'a vm_act \<Rightarrow> 'a shim_act" where
  "via m = (\<lambda>s. case m s of (r, s') \<Rightarrow> (omap_err nat_fatal r, s'))"

definition arg :: "jvalue list \<Rightarrow> nat \<Rightarrow> jvalue shim_act" where
  "arg args i = unwrap (nth_opt args i)"

definition throw :: "env \<Rightarrow> string \<Rightarrow> string \<Rightarrow> 'a shim_act" where
  "throw E desc m = bnd (via (throwable_of (tb E) desc m)) (\<lambda>t. fail (NThrow t))"

definition npe :: "env \<Rightarrow> 'a shim_act" where
  "npe E = throw E ''Ljava/lang/NullPointerException;'' []"

definition iae :: "env \<Rightarrow> string \<Rightarrow> 'a shim_act" where
  "iae E m = throw E ''Ljava/lang/IllegalArgumentException;'' m"

definition uoe :: "env \<Rightarrow> string \<Rightarrow> 'a shim_act" where
  "uoe E m = throw E ''Ljava/lang/UnsupportedOperationException;'' m"

definition ioobe :: "env \<Rightarrow> i32 \<Rightarrow> 'a shim_act" where
  "ioobe E i = throw E ''Ljava/lang/IndexOutOfBoundsException;'' (''Index '' @ show_int (sint i))"

definition no_such_elem :: "env \<Rightarrow> 'a shim_act" where
  "no_such_elem E = throw E ''Ljava/util/NoSuchElementException;'' ''No value present''"

section \<open>Payloads\<close>

definition payload :: "vm \<Rightarrow> jvalue \<Rightarrow> native option" where
  "payload s v =
     (case v of VObj i \<Rightarrow> Option.bind (arena_get (heap s) i) obj_native | _ \<Rightarrow> None)"

definition the_payload :: "jvalue \<Rightarrow> native option shim_act" where
  "the_payload v = asks (\<lambda>s. payload s v)"

text \<open>The payload a fresh object of a shim class, or of a subclass, starts with.\<close>

definition empty_filter :: native where
  "empty_filter = SFilter [] 0 False [] [] []"

definition default_payloads :: "(string \<times> native) list" where
  "default_payloads =
    [(''Ljava/lang/Enum;'', Leaf ''Enum''),
     (''Ljava/lang/Throwable;'', Throwable None VNull),
     (''Leu/kanade/tachiyomi/source/model/Filter;'', empty_filter),
     (''Leu/kanade/tachiyomi/source/model/Filter$Header;'', empty_filter),
     (''Leu/kanade/tachiyomi/source/model/Filter$Separator;'', empty_filter),
     (''Leu/kanade/tachiyomi/source/model/Filter$Select;'', empty_filter),
     (''Leu/kanade/tachiyomi/source/model/Filter$Sort;'', empty_filter),
     (''Leu/kanade/tachiyomi/source/model/Filter$Text;'', empty_filter),
     (''Leu/kanade/tachiyomi/source/model/Filter$TriState;'', empty_filter),
     (''Leu/kanade/tachiyomi/source/model/Filter$Group;'', empty_filter),
     (''Ljava/lang/String;'', Str []),
     (''Ljava/lang/StringBuilder;'', Leaf ''StringBuilder''),
     (''Ljava/lang/StringBuffer;'', Leaf ''StringBuilder''),
     (''Ljava/lang/Integer;'', IntBox 0),
     (''Ljava/lang/Long;'', LongBox 0),
     (''Ljava/lang/Short;'', ShortBox 0),
     (''Ljava/lang/Byte;'', ByteBox 0),
     (''Ljava/lang/Character;'', CharBox 0),
     (''Ljava/lang/Boolean;'', BoolBox False),
     (''Ljava/lang/Float;'', FloatBox 0),
     (''Ljava/lang/Double;'', DoubleBox 0),
     (''Ljava/util/ArrayList;'', JList []),
     (''Ljava/util/concurrent/CopyOnWriteArrayList;'', JList []),
     (''Lkotlinx/serialization/internal/PluginGeneratedSerialDescriptor;'', SerialDescriptor [] [] []),
     (''Lkotlinx/serialization/internal/ArrayListSerializer;'', ArrayListSerializer VNull),
     (''Lkotlinx/serialization/json/internal/StreamingJsonEncoder;'', Leaf ''JsonEncoder''),
     (''Ljava/util/ArrayDeque;'', ArrayDeque []),
     (''Ljava/lang/ThreadLocal;'', Lazy VNull),
     (''Ljava/util/concurrent/atomic/AtomicReference;'', Lazy VNull),
     (''Lkotlin/ranges/IntRange;'', IntRange 0 0),
     (''Lkotlin/ranges/IntProgression;'', IntProgression 0 0 1),
     (''Lkotlin/ranges/CharRange;'', CharRange 0 0),
     (''Lkotlin/ranges/LongRange;'', LongRange 0 0),
     (''Lkotlin/text/HexFormat;'', Leaf ''HexFormat''),
     (''Lkotlin/text/HexFormat$Builder;'', Leaf ''HexFormat''),
     (''Lokhttp3/FormBody$Builder;'', Leaf ''FormBody''),
     (''Lokhttp3/CacheControl$Builder;'', Leaf ''CacheControlBuilder''),
     (''Lokhttp3/Request$Builder;'', RequestBuilder [] [] [] None),
     (''Ljava/util/HashMap;'', JMap []),
     (''Ljava/util/LinkedHashMap;'', JMap []),
     (''Ljava/util/concurrent/ConcurrentHashMap;'', JMap []),
     (''Ljava/util/HashSet;'', JSet []),
     (''Ljava/util/LinkedHashSet;'', JSet []),
     (''Ljava/util/zip/Inflater;'', Leaf ''Inflater''),
     (''Ljava/util/regex/Pattern;'', Leaf ''Pattern''),
     (''Lkotlin/text/Regex;'', Leaf ''Pattern''),
     (''Ljava/util/regex/Matcher;'', Leaf ''Matcher''),
     (''Ljava/util/Random;'', Random 0),
     (''Ljava/util/Date;'', Leaf ''Date''),
     (''Ljava/util/Calendar;'', Leaf ''Calendar''),
     (''Ljava/util/GregorianCalendar;'', Leaf ''Calendar''),
     (''Ljava/text/SimpleDateFormat;'', Leaf ''DateFormatter''),
     (''Ljava/time/format/DateTimeFormatterBuilder;'', Leaf ''DateFormatter''),
     (''Ljava/text/ParsePosition;'', Leaf ''ParsePosition''),
     (''Ljava/util/Locale;'', Leaf ''Opaque''),
     (''Ljava/io/PrintStream;'', Leaf ''PrintStream''),
     (''Ljava/io/File;'', Leaf ''File''),
     (''Landroid/content/Intent;'', Intent None None []),
     (''Landroid/app/Activity;'', Activity VNull False),
     (''Ljava/lang/Thread;'', Thread ''Thread-0'' False False False False VNull),
     (''Ljava/util/Map$Entry;'', MapEntry 0 0),
     (''Ljava/util/concurrent/locks/ReentrantLock;'', Leaf ''ReentrantLock''),
     (''Ljava/util/concurrent/atomic/AtomicBoolean;'', AtomicBool False),
     (''Ljava/util/concurrent/atomic/AtomicInteger;'', AtomicInt 0),
     (''Ljava/util/concurrent/CountDownLatch;'', Leaf ''CountDownLatch''),
     (''Ljava/util/concurrent/Semaphore;'', Leaf ''Semaphore''),
     (''Ljava/time/LocalDate;'', Leaf ''LocalDay''),
     (''Ljava/time/ZonedDateTime;'', Leaf ''EpochMillis''),
     (''Ljava/time/Instant;'', Leaf ''EpochMillis''),
     (''Ljava/time/ZoneId;'', Leaf ''Opaque''),
     (''Ljava/time/format/DateTimeFormatter;'', Leaf ''DateFormatter''),
     (''Leu/kanade/tachiyomi/source/model/SManga;'', SManga [] None None None None 0 [] [] VNull VNull),
     (''Leu/kanade/tachiyomi/source/model/SChapter;'', SChapter [] [] 0 [] 0 VNull),
     (''Leu/kanade/tachiyomi/source/model/Page;'', Leaf ''SPPage''),
     (''Leu/kanade/tachiyomi/source/model/MangasPage;'', SMangasPage [] False),
     (''Leu/kanade/tachiyomi/source/model/FilterList;'', SFilterList [])]"

text \<open>The answer of a class on the way up; \<open>Some None\<close> is a descriptor that is not interned.\<close>

definition class_payload :: "string list \<Rightarrow> jclass \<Rightarrow> native option option" where
  "class_payload tab cl =
     (case nth_opt tab (unat (descriptor cl)) of
        None \<Rightarrow> Some None
      | Some d \<Rightarrow> map_option Some (map_of default_payloads d))"

definition default_native_for :: "u32 \<Rightarrow> native option shim_act" where
  "default_native_for i =
     bnd (asks (\<lambda>s. arena_get (heap s) i)) (\<lambda>m. case m of
       None \<Rightarrow> ret None
     | Some ob \<Rightarrow>
         bnd (asks intern_tab) (\<lambda>tab.
         bnd (via (climb (class_payload tab) (obj_class ob))) (\<lambda>r. case r of
           Some None \<Rightarrow> panic
         | Some (Some n) \<Rightarrow> ret (Some n)
         | None \<Rightarrow> ret None)))"

definition put_payload :: "u32 \<Rightarrow> native \<Rightarrow> unit shim_act" where
  "put_payload i n = modify (\<lambda>s. s\<lparr>heap := (heap s)\<lparr>objects :=
     (objects (heap s))[unat i := (objects (heap s) ! unat i)\<lparr>obj_native := Some n\<rparr>]\<rparr>\<rparr>)"

text \<open>The payload to write to and its object; a fresh object gets its default first.\<close>

definition payload_mut :: "jvalue \<Rightarrow> (u32 \<times> native) option shim_act" where
  "payload_mut v = (case v of
     VObj i \<Rightarrow>
       bnd (the_payload v) (\<lambda>m. case m of
         Some n \<Rightarrow> ret (Some (i, n))
       | None \<Rightarrow>
           bnd (default_native_for i) (\<lambda>d. case d of
             Some n \<Rightarrow> bnd (put_payload i n) (\<lambda>_. ret (Some (i, n)))
           | None \<Rightarrow> ret None))
   | _ \<Rightarrow> ret None)"

section \<open>Conversions and allocation\<close>

definition box_int :: "native option \<Rightarrow> i32" where
  "box_int m = (case m of
     Some (IntBox i) \<Rightarrow> i
   | Some (LongBox l) \<Rightarrow> ucast l
   | Some (ShortBox x) \<Rightarrow> scast x
   | Some (ByteBox x) \<Rightarrow> scast x
   | Some (CharBox c) \<Rightarrow> ucast c
   | Some (FloatBox f) \<Rightarrow> f2i (f32_of f)
   | Some (DoubleBox d) \<Rightarrow> f2i (f64_of d)
   | Some (BoolBox b) \<Rightarrow> int_of_bool b
   | _ \<Rightarrow> 0)"

definition int_of :: "vm \<Rightarrow> jvalue \<Rightarrow> i32" where
  "int_of s v = (case v of
     VInt i \<Rightarrow> i
   | VLong l \<Rightarrow> ucast l
   | VFloat f \<Rightarrow> f2i (f32_of f)
   | VDouble d \<Rightarrow> f2i (f64_of d)
   | VNull \<Rightarrow> 0
   | VObj _ \<Rightarrow> box_int (payload s v))"

definition box_long :: "native option \<Rightarrow> i64" where
  "box_long m = (case m of
     Some (LongBox l) \<Rightarrow> l
   | Some (IntBox i) \<Rightarrow> scast i
   | Some (ShortBox x) \<Rightarrow> scast x
   | Some (ByteBox x) \<Rightarrow> scast x
   | Some (CharBox c) \<Rightarrow> ucast c
   | Some (FloatBox f) \<Rightarrow> f2l (f32_of f)
   | Some (DoubleBox d) \<Rightarrow> f2l (f64_of d)
   | _ \<Rightarrow> 0)"

definition long_of :: "vm \<Rightarrow> jvalue \<Rightarrow> i64" where
  "long_of s v = (case v of
     VLong l \<Rightarrow> l
   | VInt i \<Rightarrow> scast i
   | VFloat f \<Rightarrow> f2l (f32_of f)
   | VDouble d \<Rightarrow> f2l (f64_of d)
   | VNull \<Rightarrow> 0
   | VObj _ \<Rightarrow> box_long (payload s v))"

definition bool_of :: "vm \<Rightarrow> jvalue \<Rightarrow> bool" where
  "bool_of s v = (case v of
     VInt i \<Rightarrow> i \<noteq> 0
   | VLong l \<Rightarrow> l \<noteq> 0
   | VObj _ \<Rightarrow> (case payload s v of Some (BoolBox b) \<Rightarrow> b | _ \<Rightarrow> False)
   | _ \<Rightarrow> False)"

definition arg_int :: "jvalue list \<Rightarrow> nat \<Rightarrow> i32 shim_act" where
  "arg_int args i = bnd (arg args i) (\<lambda>v. asks (\<lambda>s. int_of s v))"

definition arg_long :: "jvalue list \<Rightarrow> nat \<Rightarrow> i64 shim_act" where
  "arg_long args i = bnd (arg args i) (\<lambda>v. asks (\<lambda>s. long_of s v))"

definition alloc_shim :: "env \<Rightarrow> string \<Rightarrow> native \<Rightarrow> jvalue shim_act" where
  "alloc_shim E desc n = via (alloc_native (tb E) desc n)"

definition list_alloc :: "env \<Rightarrow> jvalue list \<Rightarrow> jvalue shim_act" where
  "list_alloc E items = alloc_shim E ''Ljava/util/ArrayList;'' (JList items)"

definition set_alloc :: "env \<Rightarrow> jvalue list \<Rightarrow> jvalue shim_act" where
  "set_alloc E items = alloc_shim E ''Ljava/util/HashSet;'' (JSet items)"

section \<open>Calls back into the interpreter\<close>

definition inv_virt :: "env \<Rightarrow> jvalue \<Rightarrow> string \<Rightarrow> string \<Rightarrow> jvalue list \<Rightarrow> jvalue shim_act" where
  "inv_virt E recv name sg extra =
     bnd (via (name_ref name sg 0)) (\<lambda>mref.
     bnd (unwrap (as_obj recv)) (\<lambda>r.
     bnd (via (resolve_target (tb E) Virtual mref (Some r) 0)) (\<lambda>t.
     via (call_target (fst E) (snd E) t (recv # extra)))))"

text \<open>Anything but an int, errors included, counts as unequal and hashes to 0.\<close>

definition java_equals :: "env \<Rightarrow> jvalue \<Rightarrow> jvalue \<Rightarrow> bool shim_act" where
  "java_equals E a b = (case (a, b) of
     (VNull, VNull) \<Rightarrow> ret True
   | (VNull, _) \<Rightarrow> ret False
   | (_, VNull) \<Rightarrow> ret False
   | (VInt x, VInt y) \<Rightarrow> ret (x = y)
   | (VLong x, VLong y) \<Rightarrow> ret (x = y)
   | (VFloat x, VFloat y) \<Rightarrow> ret (x = y)
   | (VDouble x, VDouble y) \<Rightarrow> ret (x = y)
   | _ \<Rightarrow>
       bnd (catch (inv_virt E a ''equals'' ''(Ljava/lang/Object;)Z'' [b]) (\<lambda>_. ret VNull)) (\<lambda>v.
       ret (case v of VInt i \<Rightarrow> i \<noteq> 0 | _ \<Rightarrow> False)))"

definition java_hash :: "env \<Rightarrow> jvalue \<Rightarrow> i32 shim_act" where
  "java_hash E v = (case v of
     VNull \<Rightarrow> ret 0
   | VInt i \<Rightarrow> ret i
   | VLong l \<Rightarrow> ret (ucast (l XOR signed_drop_bit 32 l))
   | VFloat f \<Rightarrow> ret f
   | VDouble d \<Rightarrow> ret (ucast (d XOR drop_bit 32 d))
   | VObj _ \<Rightarrow>
       bnd (catch (inv_virt E v ''hashCode'' ''()I'' []) (\<lambda>_. ret VNull)) (\<lambda>r.
       ret (case r of VInt i \<Rightarrow> i | _ \<Rightarrow> 0)))"

section \<open>Facts about payloads\<close>

definition with_payload :: "jvalue \<Rightarrow> native \<Rightarrow> vm \<Rightarrow> vm" where
  "with_payload v n s = (case v of
     VObj i \<Rightarrow> s\<lparr>heap := (heap s)\<lparr>objects :=
       (objects (heap s))[unat i := (objects (heap s) ! unat i)\<lparr>obj_native := Some n\<rparr>]\<rparr>\<rparr>
   | _ \<Rightarrow> s)"

lemma payload_Some_iff:
  "payload s v = Some n \<longleftrightarrow> (\<exists>i. v = VObj i \<and> unat i < length (objects (heap s)) \<and>
     obj_native (objects (heap s) ! unat i) = Some n)"
  by (cases v) (auto simp: payload_def arena_get_def nth_opt_def bind_eq_Some_conv split: if_splits)

lemma payload_with_payload [simp]: "payload s v = Some n \<Longrightarrow> payload (with_payload v m s) v = Some m"
  by (auto simp: with_payload_def payload_Some_iff)

lemma payload_other [simp]: "w \<noteq> v \<Longrightarrow> payload (with_payload v m s) w = payload s w"
  by (cases v; cases w) (auto simp: with_payload_def payload_def arena_get_def nth_opt_def nth_list_update word_unat_eq_iff)

lemma with_payload_twice [simp]: "with_payload v m (with_payload v n s) = with_payload v m s"
proof (cases v)
  case (VObj i)
  show ?thesis
  proof (cases "unat i < length (objects (heap s))")
    case True
    then show ?thesis by (simp add: VObj with_payload_def)
  next
    case False
    then show ?thesis by (simp add: VObj with_payload_def list_update_beyond)
  qed
qed (simp_all add: with_payload_def)

lemma with_payload_same: "payload s v = Some n \<Longrightarrow> with_payload v n s = s"
proof -
  assume "payload s v = Some n"
  then obtain i where i: "v = VObj i" "unat i < length (objects (heap s))"
    and n: "obj_native (objects (heap s) ! unat i) = Some n" by (auto simp: payload_Some_iff)
  have "(objects (heap s) ! unat i)\<lparr>obj_native := Some n\<rparr> = objects (heap s) ! unat i"
    using n by simp
  then show ?thesis by (simp add: i with_payload_def)
qed

lemma bnd_asks [simp]: "bnd (asks f) g s = g (f s) s"
  by (simp add: bnd_def asks_def)

lemma bnd_ret_run [simp]: "bnd (ret x) g s = g x s"
  by (simp add: bnd_def ret_def)

lemma arg_nth [simp]: "i < length args \<Longrightarrow> arg args i = ret (args ! i)"
  by (simp add: arg_def unwrap_def nth_opt_def)

lemma payload_mut_at: "payload s v = Some n \<Longrightarrow> payload_mut v s = (Ok (Some (case v of VObj i \<Rightarrow> i | _ \<Rightarrow> 0, n)), s)"
  by (frule payload_Some_iff [THEN iffD1]) (auto simp: payload_mut_def the_payload_def ret_def)

lemma put_payload_at: "payload s v = Some n \<Longrightarrow> put_payload (case v of VObj i \<Rightarrow> i | _ \<Rightarrow> 0) m s = (Ok (), with_payload v m s)"
  by (auto simp: payload_Some_iff put_payload_def with_payload_def modify_def)

lemma put_payload_obj: "payload s (VObj i) = Some n \<Longrightarrow> put_payload i m s = (Ok (), with_payload (VObj i) m s)"
  using put_payload_at [of s "VObj i"] by simp

end
