(* ===== verification/Loops.thy ===== *)
theory Loops
  imports Prelude "HOL-Library.While_Combinator"
begin

text \<open>
  What the parsers of byte streams share: loops that may not end, and the bytes that stand at an
  offset. \<open>run_while\<close> gives \<open>Diverge\<close> to a loop that goes on for ever.
\<close>

section \<open>Loops\<close>

text \<open>\<open>while b { .. }\<close> with early returns, and \<open>for x in xs { .. }\<close>.\<close>

definition run_while :: "('s \<Rightarrow> bool) \<Rightarrow> ('s \<Rightarrow> ('e, 's) outcome) \<Rightarrow> 's \<Rightarrow> ('e, 's) outcome" where
  "run_while b f s =
     (case while_option (\<lambda>r. case r of Ok s \<Rightarrow> b s | _ \<Rightarrow> False) (\<lambda>r. obind r f) (Ok s) of
        Some r \<Rightarrow> r
      | None \<Rightarrow> Diverge)"

fun ofold :: "('s \<Rightarrow> 'a \<Rightarrow> ('e, 's) outcome) \<Rightarrow> 's \<Rightarrow> 'a list \<Rightarrow> ('e, 's) outcome" where
  "ofold f s [] = Ok s"
| "ofold f s (x # xs) = obind (f s x) (\<lambda>s'. ofold f s' xs)"

lemma run_while_unfold: "run_while b f s = (if b s then obind (f s) (run_while b f) else Ok s)"
proof -
  let ?b = "\<lambda>r. case r of Ok s \<Rightarrow> b s | _ \<Rightarrow> False" and ?f = "\<lambda>r. obind r f"
  have "while_option ?b ?f (Ok s) = (if b s then while_option ?b ?f (f s) else Some (Ok s))"
    by (subst while_option_unfold) simp
  moreover have "(case while_option ?b ?f r of Some r \<Rightarrow> r | None \<Rightarrow> Diverge) = obind r (run_while b f)" for r
    by (cases r) (simp_all add: run_while_def while_option_unfold [of ?b ?f "Err _"]
        while_option_unfold [of ?b ?f Panic] while_option_unfold [of ?b ?f Diverge])
  ultimately show ?thesis by (simp add: run_while_def)
qed

lemma run_while_ends:
  assumes "\<And>s s'. I s \<Longrightarrow> b s \<Longrightarrow> f s = Ok s' \<Longrightarrow> I s' \<and> m s' < (m s :: nat)"
    and "\<And>s. I s \<Longrightarrow> b s \<Longrightarrow> f s \<noteq> Diverge"
  shows "I s \<Longrightarrow> run_while b f s \<noteq> Diverge"
proof (induction "m s" arbitrary: s rule: less_induct)
  case less
  then show ?case using assms by (subst run_while_unfold) (auto simp: obind_Diverge_iff)
qed

lemma run_while_stuck:
  assumes "b s" and "f s = Ok s"
  shows "run_while b f s = Diverge"
proof -
  have "((\<lambda>r. obind r f) ^^ k) (Ok s) = Ok s" for k using assms by (induction k) auto
  then show ?thesis using assms by (simp add: run_while_def while_option_def)
qed

lemma ofold_ends: "(\<And>s x. f s x \<noteq> Diverge) \<Longrightarrow> ofold f s xs \<noteq> Diverge"
  by (induction xs arbitrary: s) (auto simp: obind_Diverge_iff)

section \<open>Bytes at an offset\<close>

text \<open>Some bytes stand at an offset of the file.\<close>

definition found :: "u8 list \<Rightarrow> nat \<Rightarrow> u8 list \<Rightarrow> bool" where
  "found d i bs \<longleftrightarrow> i + length bs \<le> length d \<and> take (length bs) (drop i d) = bs"

lemma found_append: "found d i (xs @ ys) \<longleftrightarrow> found d i xs \<and> found d (i + length xs) ys"
proof -
  have "take (length xs + length ys) (drop i d) = xs @ ys \<longleftrightarrow>
      take (length xs) (drop i d) = xs \<and> take (length ys) (drop (i + length xs) d) = ys"
    if "i + length xs \<le> length d"
    using that by (simp add: take_add append_eq_append_conv add.commute)
  then show ?thesis by (auto simp: found_def)
qed

lemma found_byte: "found d i bs \<Longrightarrow> k < length bs \<Longrightarrow> nth_opt d (i + k) = Some (bs ! k)"
proof -
  assume f: "found d i bs" and k: "k < length bs"
  have fits: "i + length bs \<le> length d" and eq: "bs = take (length bs) (drop i d)"
    using f by (simp_all only: found_def)
  have "bs ! k = take (length bs) (drop i d) ! k" by (subst eq) (rule refl)
  also have "\<dots> = d ! (i + k)" using k fits by simp
  finally show "nth_opt d (i + k) = Some (bs ! k)" using k fits by (simp add: nth_opt_def)
qed

lemma found_sub: "found d i bs \<Longrightarrow> sub d i (i + length bs) = bs"
  by (simp add: found_def sub_def)

lemma found_fits: "found d i bs \<Longrightarrow> i + length bs \<le> length d"
  by (simp add: found_def)

lemma found_concat:
  "found d i (concat (map f xs)) \<Longrightarrow> k < length xs \<Longrightarrow>
     found d (i + length (concat (map f (take k xs)))) (f (xs ! k))"
proof (induction xs arbitrary: i k)
  case (Cons x xs)
  then show ?case by (cases k) (auto simp: found_append simp flip: add.assoc)
qed simp

lemma found_middle: "found (xs @ bs @ ys) (length xs) bs"
  by (simp add: found_def)

section \<open>Little-endian integers\<close>

text \<open>\<open>to_le_bytes\<close>, and \<open>u32::from_le_bytes\<close> of a slice of four bytes.\<close>

definition to_le_bytes :: "nat \<Rightarrow> 'a::len word \<Rightarrow> u8 list" where
  "to_le_bytes n w = map (\<lambda>k. ucast (drop_bit (8 * k) w)) [0..<n]"

fun u32_of :: "u8 list \<Rightarrow> u32" where
  "u32_of [a, b, c, d] = u32_le a b c d"
| "u32_of _ = 0"

lemma length_to_le_bytes [simp]: "length (to_le_bytes n w) = n"
  by (simp add: to_le_bytes_def)

lemma to_le_bytes_Suc: "to_le_bytes (Suc n) w = ucast w # to_le_bytes n (drop_bit 8 w)"
proof -
  have "[0..<Suc n] = 0 # map Suc [0..<n]" by (simp only: upt_conv_Cons map_Suc_upt)
  then show ?thesis by (simp add: to_le_bytes_def drop_bit_drop_bit add.commute del: upt_Suc)
qed

lemma u64_le_to_le: "u64_le (to_le_bytes n w) = take_bit (8 * n) (w :: u64)"
proof (induction n arbitrary: w)
  case (Suc n)
  have "ucast (ucast w :: u8) OR push_bit 8 (take_bit (8 * n) (drop_bit 8 w)) = take_bit (8 * Suc n) w"
  proof (rule bit_word_eqI)
    fix k assume "k < LENGTH(64)"
    then show "bit (ucast (ucast w :: u8) OR push_bit 8 (take_bit (8 * n) (drop_bit 8 w))) k =
        bit (take_bit (8 * Suc n) w) k"
      by (cases "k < 8") (auto simp: bit_simps)
  qed
  then show ?case by (simp add: to_le_bytes_Suc Suc.IH)
qed (simp add: to_le_bytes_def)

lemma fixed64_bytes: "u64_le (to_le_bytes 8 w) = (w :: u64)"
  by (rule bit_word_eqI) (simp add: u64_le_to_le bit_take_bit_iff)

lemma upt4: "[0..<4] = [0, 1, 2, 3 :: nat]"
  by (simp add: upt_rec)

lemma fixed32_bytes: "u32_of (to_le_bytes 4 w) = (w :: u32)"
proof (rule bit_word_eqI)
  fix n assume "n < LENGTH(32)"
  then consider "n < 8" | "8 \<le> n" "n < 16" | "16 \<le> n" "n < 24" | "24 \<le> n" "n < 32" by force
  then show "bit (u32_of (to_le_bytes 4 w)) n = bit w n"
    by cases (auto simp: to_le_bytes_def upt4 u32_le_def bit_simps)
qed

end
