(* ===== verification/Prefs.thy ===== *)
theory Prefs
  imports DexRead Loops "HOL-Library.Finite_Map" "HOL-Library.List_Lexorder" "HOL-Library.Char_ord"
begin

text \<open>
  The values of Android's \<open>SharedPreferences\<close> and the file a host keeps them in
  (\<open>vm/native/android/mod.rs\<close>, \<open>vm/object.rs\<close>). A file of preferences maps keys to typed values,
  and the machine keeps one map per file name. Shown: what is saved is what is loaded, and that an
  edit does to a map what Android's editor promises.
\<close>

section \<open>Values\<close>

text \<open>A float is its 32 bits.\<close>

datatype preference_value =
  PrefBool bool | PrefString string | PrefInt i32 | PrefLong i64 | PrefFloat u32

type_synonym preferences = "(string, preference_value) fmap"

type_synonym preference_files = "(string, preferences) fmap"

datatype preference_edit = Put string preference_value | Remove string

section \<open>Writing\<close>

definition pref_invalid :: string where
  "pref_invalid = ''invalid dexvm SharedPreferences file''"

definition PREFS_MAGIC :: "u8 list" where
  "PREFS_MAGIC = map char_byte ''DEXVM-PREFS'' @ [0, 1]"

definition pref_u32 :: "nat \<Rightarrow> (string, u8 list) outcome" where
  "pref_u32 n =
     (if n < 2 ^ 32 then Ok (to_le_bytes 4 (of_nat n :: u32))
      else Err ''SharedPreferences value too large'')"

definition pref_bytes :: "string \<Rightarrow> (string, u8 list) outcome" where
  "pref_bytes s = obind (pref_u32 (length s)) (\<lambda>n. Ok (n @ map char_byte s))"

fun encode_pref :: "preference_value \<Rightarrow> (string, u8 list) outcome" where
  "encode_pref (PrefBool b) = Ok [0, if b then 1 else 0]"
| "encode_pref (PrefString s) = obind (pref_bytes s) (\<lambda>b. Ok (1 # b))"
| "encode_pref (PrefInt i) = Ok (2 # to_le_bytes 4 i)"
| "encode_pref (PrefLong l) = Ok (3 # to_le_bytes 8 l)"
| "encode_pref (PrefFloat f) = Ok (4 # to_le_bytes 4 f)"

text \<open>The entries of a hash map, sorted by key.\<close>

definition sorted_entries :: "('k::linorder, 'v) fmap \<Rightarrow> ('k \<times> 'v) list" where
  "sorted_entries m = map (\<lambda>k. (k, the (fmlookup m k))) (sorted_list_of_fset (fmdom m))"

text \<open>The two nested loops: a count, then every key with its value.\<close>

definition encode_entry :: "('v \<Rightarrow> (string, u8 list) outcome) \<Rightarrow> string \<times> 'v \<Rightarrow> (string, u8 list) outcome" where
  "encode_entry f e = obind (pref_bytes (fst e)) (\<lambda>k. obind (f (snd e)) (\<lambda>v. Ok (k @ v)))"

definition encode_map :: "('v \<Rightarrow> (string, u8 list) outcome) \<Rightarrow> (string, 'v) fmap \<Rightarrow>
  (string, u8 list) outcome" where
  "encode_map f m =
     (let es = sorted_entries m in
      obind (pref_u32 (length es)) (\<lambda>n. obind (omap (encode_entry f) es) (\<lambda>bs. Ok (n @ concat bs))))"

definition encode_shared_preferences :: "preference_files \<Rightarrow> (string, u8 list) outcome" where
  "encode_shared_preferences prefs =
     obind (encode_map (encode_map encode_pref) prefs) (\<lambda>b. Ok (PREFS_MAGIC @ b))"

section \<open>Reading\<close>

record pref_reader =
  rd_bytes :: "u8 list"
  rd_pos :: nat

type_synonym 'a pref_read = "pref_reader \<Rightarrow> (string, 'a \<times> pref_reader) outcome"

definition take_bytes :: "nat \<Rightarrow> u8 list pref_read" where
  "take_bytes len r =
     (let last' = rd_pos r + len in
      if last' \<le> length (rd_bytes r) then Ok (sub (rd_bytes r) (rd_pos r) last', r\<lparr>rd_pos := last'\<rparr>)
      else Err pref_invalid)"

definition pref_read_u8 :: "u8 pref_read" where
  "pref_read_u8 r = obind (take_bytes 1 r) (\<lambda>(bs, r). Ok (hd bs, r))"

definition pref_read_u32 :: "u32 pref_read" where
  "pref_read_u32 r = obind (take_bytes 4 r) (\<lambda>(bs, r). Ok (u32_of bs, r))"

text \<open>\<open>String::from_utf8\<close> accepts the bytes the lossy conversion leaves alone.\<close>

definition pref_read_string :: "string pref_read" where
  "pref_read_string r =
     obind (pref_read_u32 r) (\<lambda>(n, r).
     obind (take_bytes (unat n) r) (\<lambda>(bs, r).
     if from_utf8_lossy bs = bs then Ok (map byte_char bs, r) else Err pref_invalid))"

definition decode_pref :: "preference_value pref_read" where
  "decode_pref r =
     obind (pref_read_u8 r) (\<lambda>(t, r).
     if t = 0 then
       obind (pref_read_u8 r) (\<lambda>(b, r).
       if b = 0 then Ok (PrefBool False, r) else if b = 1 then Ok (PrefBool True, r) else Err pref_invalid)
     else if t = 1 then obind (pref_read_string r) (\<lambda>(s, r). Ok (PrefString s, r))
     else if t = 2 then obind (take_bytes 4 r) (\<lambda>(bs, r). Ok (PrefInt (u32_of bs), r))
     else if t = 3 then obind (take_bytes 8 r) (\<lambda>(bs, r). Ok (PrefLong (u64_le bs), r))
     else if t = 4 then obind (take_bytes 4 r) (\<lambda>(bs, r). Ok (PrefFloat (u32_of bs), r))
     else Err pref_invalid)"

text \<open>The loops insert into a map, so a later entry of the same key wins.\<close>

definition insert_all :: "('k \<times> 'v) list \<Rightarrow> ('k, 'v) fmap" where
  "insert_all es = foldl (\<lambda>m (k, v). fmupd k v m) fmempty es"

definition decode_entry :: "'v pref_read \<Rightarrow> (string \<times> 'v) pref_read" where
  "decode_entry p r = obind (pref_read_string r) (\<lambda>(k, r). obind (p r) (\<lambda>(v, r). Ok ((k, v), r)))"

definition decode_map :: "'v pref_read \<Rightarrow> (string, 'v) fmap pref_read" where
  "decode_map p r =
     obind (pref_read_u32 r) (\<lambda>(n, r).
     obind (orep (unat n) (decode_entry p) r) (\<lambda>(es, r). Ok (insert_all es, r)))"

definition decode_shared_preferences :: "u8 list \<Rightarrow> (string, preference_files) outcome" where
  "decode_shared_preferences bytes =
     (if take (length PREFS_MAGIC) bytes = PREFS_MAGIC then
        obind (decode_map (decode_map decode_pref) \<lparr>rd_bytes = drop (length PREFS_MAGIC) bytes, rd_pos = 0\<rparr>)
          (\<lambda>(prefs, r). if rd_pos r \<noteq> length (rd_bytes r) then Err pref_invalid else Ok prefs)
      else Err pref_invalid)"

section \<open>Edits\<close>

fun apply_edit :: "preference_edit \<Rightarrow> preferences \<Rightarrow> preferences" where
  "apply_edit (Put k v) values = fmupd k v values"
| "apply_edit (Remove k) values = fmdrop k values"

definition edited_preferences :: "string \<Rightarrow> preference_edit list \<Rightarrow> bool \<Rightarrow> preference_files \<Rightarrow> preference_files" where
  "edited_preferences name edits clear prefs =
     (let values = (case fmlookup prefs name of Some m \<Rightarrow> m | None \<Rightarrow> fmempty);
          values = (if clear then fmempty else values)
      in fmupd name (fold apply_edit edits values) prefs)"

section \<open>What is written is read back\<close>

definition reads_back :: "'a pref_read \<Rightarrow> u8 list \<Rightarrow> 'a \<Rightarrow> bool" where
  "reads_back p b x \<longleftrightarrow> (\<forall>d i. found d i b \<longrightarrow>
     p \<lparr>rd_bytes = d, rd_pos = i\<rparr> = Ok (x, \<lparr>rd_bytes = d, rd_pos = i + length b\<rparr>))"

lemma reads_backD:
  "reads_back p b x \<Longrightarrow> found d i b \<Longrightarrow>
     p \<lparr>rd_bytes = d, rd_pos = i\<rparr> = Ok (x, \<lparr>rd_bytes = d, rd_pos = i + length b\<rparr>)"
  by (simp add: reads_back_def)

lemma reads_take: "reads_back (take_bytes (length b)) b b"
  using found_sub [of _ _ b] by (auto simp: reads_back_def take_bytes_def Let_def dest: found_fits)

lemma reads_u8: "reads_back pref_read_u8 [b] b"
  using reads_take [of "[b]"] by (simp add: reads_back_def pref_read_u8_def)

lemma reads_u32: "reads_back pref_read_u32 (to_le_bytes 4 w) w"
  using reads_take [of "to_le_bytes 4 w"] by (simp add: reads_back_def pref_read_u32_def fixed32_bytes)

lemma reads_tag:
  assumes "\<And>d i. found d i [t] \<Longrightarrow> found d (i + 1) b \<Longrightarrow>
    p \<lparr>rd_bytes = d, rd_pos = i\<rparr> = Ok (x, \<lparr>rd_bytes = d, rd_pos = i + 1 + length b\<rparr>)"
  shows "reads_back p (t # b) x"
  using assms found_append [of _ _ "[t]" b] by (simp add: reads_back_def)

definition text_ok :: "string \<Rightarrow> bool" where
  "text_ok s \<longleftrightarrow> length s < 2 ^ 32 \<and> from_utf8_lossy (map char_byte s) = map char_byte s"

lemma byte_char_byte [simp]: "byte_char (char_byte c) = c"
proof -
  have "unat (of_nat (of_char c) :: u8) = of_char c" by (rule unat_byte) (rule nat_of_char_less_256)
  then have "unat (of_char c :: u8) = of_char c" by (simp only: of_nat_of_char)
  then show ?thesis by (simp add: byte_char_def char_byte_def)
qed

lemma pref_u32_Ok: "n < 2 ^ 32 \<Longrightarrow> pref_u32 n = Ok (to_le_bytes 4 (of_nat n :: u32))"
  by (simp add: pref_u32_def)

lemma unat_small: "n < 2 ^ 32 \<Longrightarrow> unat (of_nat n :: u32) = n"
  by (simp add: unat_of_nat)

lemma text_written:
  assumes "text_ok s"
  shows "\<exists>b. pref_bytes s = Ok b \<and> reads_back pref_read_string b s"
proof (intro exI conjI)
  let ?b = "to_le_bytes 4 (of_nat (length s) :: u32) @ map char_byte s"
  show "pref_bytes s = Ok ?b" using assms by (simp add: pref_bytes_def pref_u32_Ok text_ok_def)
  show "reads_back pref_read_string ?b s"
    using assms reads_backD [OF reads_u32] reads_backD [OF reads_take [of "map char_byte s"]]
    by (auto simp: reads_back_def found_append pref_read_string_def text_ok_def unat_small comp_def)
qed

text \<open>
  A codec writes the values that are \<open>ok\<close> in a way its reader reads back; then so does the map of
  such values, which is the codec of the next level.
\<close>

definition map_ok :: "('v \<Rightarrow> bool) \<Rightarrow> (string, 'v) fmap \<Rightarrow> bool" where
  "map_ok ok m \<longleftrightarrow> length (sorted_entries m) < 2 ^ 32 \<and> (\<forall>(k, v) \<in> set (sorted_entries m). text_ok k \<and> ok v)"

lemma insert_all_lookup: "fmlookup (insert_all es) k = map_of (rev es) k"
proof (induction es rule: rev_induct)
  case (snoc e es)
  then show ?case by (cases e) (auto simp: insert_all_def)
qed (simp add: insert_all_def)

lemma insert_sorted: "insert_all (sorted_entries m) = m"
proof (rule fmap_ext)
  fix k
  have "distinct (map fst (sorted_entries m))"
    by (simp add: sorted_entries_def comp_def sorted_list_of_fset.rep_eq)
  then have "map_of (rev (sorted_entries m)) k = Some v \<longleftrightarrow> map_of (sorted_entries m) k = Some v" for v
    by (simp add: map_of_eq_Some_iff flip: rev_map)
  then have "map_of (rev (sorted_entries m)) k = map_of (sorted_entries m) k"
    by (metis option.exhaust)
  also have "\<dots> = fmlookup m k"
    by (auto simp: sorted_entries_def map_of_map_restrict restrict_map_def fmlookup_dom_iff)
  finally show "fmlookup (insert_all (sorted_entries m)) k = fmlookup m k" by (simp add: insert_all_lookup)
qed

locale codec =
  fixes enc :: "'v \<Rightarrow> (string, u8 list) outcome" and dec :: "'v pref_read" and ok :: "'v \<Rightarrow> bool"
  assumes written: "ok v \<Longrightarrow> \<exists>b. enc v = Ok b \<and> reads_back dec b v"
begin

lemma entry_written:
  assumes "text_ok k" and "ok v"
  shows "\<exists>b. encode_entry enc (k, v) = Ok b \<and> reads_back (decode_entry dec) b (k, v)"
proof -
  obtain a b where "pref_bytes k = Ok a" "reads_back pref_read_string a k" "enc v = Ok b" "reads_back dec b v"
    using text_written [OF assms(1)] written [OF assms(2)] by auto
  then show ?thesis
    by (auto simp: encode_entry_def decode_entry_def reads_back_def found_append add.assoc)
qed

lemma entries_written:
  "\<forall>(k, v) \<in> set es. text_ok k \<and> ok v \<Longrightarrow>
     \<exists>bs. omap (encode_entry enc) es = Ok bs \<and> reads_back (orep (length es) (decode_entry dec)) (concat bs) es"
proof (induction es)
  case Nil
  then show ?case by (simp add: reads_back_def)
next
  case (Cons e es)
  obtain k v where e: "e = (k, v)" by (cases e)
  obtain bs where bs: "omap (encode_entry enc) es = Ok bs"
    "reads_back (orep (length es) (decode_entry dec)) (concat bs) es"
    using Cons by auto
  obtain b where b: "encode_entry enc (k, v) = Ok b" "reads_back (decode_entry dec) b (k, v)"
    using entry_written [of k v] Cons.prems by (auto simp: e)
  have "reads_back (orep (length (e # es)) (decode_entry dec)) (concat (b # bs)) (e # es)"
    using bs(2) b(2) by (auto simp: reads_back_def found_append e add.assoc)
  moreover have "omap (encode_entry enc) (e # es) = Ok (b # bs)" using bs(1) b(1) by (simp add: e)
  ultimately show ?case by blast
qed

lemma map_written:
  assumes "map_ok ok m"
  shows "\<exists>b. encode_map enc m = Ok b \<and> reads_back (decode_map dec) b m"
proof -
  let ?es = "sorted_entries m"
  have n: "length ?es < 2 ^ 32" and "\<forall>(k, v) \<in> set ?es. text_ok k \<and> ok v" using assms by (auto simp: map_ok_def)
  then obtain bs where bs: "omap (encode_entry enc) ?es = Ok bs"
    "reads_back (orep (length ?es) (decode_entry dec)) (concat bs) ?es"
    using entries_written [of ?es] by auto
  have "reads_back (decode_map dec) (to_le_bytes 4 (of_nat (length ?es) :: u32) @ concat bs) m"
    using reads_backD [OF reads_u32] bs(2) unat_small [OF n]
    by (auto simp: reads_back_def found_append decode_map_def insert_sorted add.assoc)
  then show ?thesis using bs(1) by (simp add: encode_map_def Let_def pref_u32_Ok [OF n])
qed

end

fun pref_ok :: "preference_value \<Rightarrow> bool" where
  "pref_ok (PrefString s) = text_ok s"
| "pref_ok _ = True"

lemma pref_written: "pref_ok v \<Longrightarrow> \<exists>b. encode_pref v = Ok b \<and> reads_back decode_pref b v"
proof (cases v)
  case (PrefString s)
  moreover assume "pref_ok v"
  ultimately obtain b where b: "pref_bytes s = Ok b" "reads_back pref_read_string b s"
    using text_written by auto
  have "reads_back decode_pref (1 # b) (PrefString s)"
    by (rule reads_tag) (simp add: decode_pref_def reads_backD [OF reads_u8] reads_backD [OF b(2)])
  then show ?thesis using b(1) by (simp add: PrefString)
next
  case (PrefBool x)
  have "reads_back decode_pref [0, if x then 1 else 0] (PrefBool x)"
    by (rule reads_tag) (auto simp: decode_pref_def reads_backD [OF reads_u8])
  then show ?thesis by (simp add: PrefBool)
next
  case (PrefInt i)
  have "reads_back decode_pref (2 # to_le_bytes 4 i) (PrefInt i)"
    by (rule reads_tag) (use reads_backD [OF reads_take [of "to_le_bytes 4 i"]] in
        \<open>simp add: decode_pref_def reads_backD [OF reads_u8] fixed32_bytes\<close>)
  then show ?thesis by (simp add: PrefInt)
next
  case (PrefLong l)
  have "reads_back decode_pref (3 # to_le_bytes 8 l) (PrefLong l)"
    by (rule reads_tag) (use reads_backD [OF reads_take [of "to_le_bytes 8 l"]] in
        \<open>simp add: decode_pref_def reads_backD [OF reads_u8] fixed64_bytes\<close>)
  then show ?thesis by (simp add: PrefLong)
next
  case (PrefFloat f)
  have "reads_back decode_pref (4 # to_le_bytes 4 f) (PrefFloat f)"
    by (rule reads_tag) (use reads_backD [OF reads_take [of "to_le_bytes 4 f"]] in
        \<open>simp add: decode_pref_def reads_backD [OF reads_u8] fixed32_bytes\<close>)
  then show ?thesis by (simp add: PrefFloat)
qed

interpretation pref_values: codec encode_pref decode_pref pref_ok
  by unfold_locales (rule pref_written)

interpretation pref_files: codec "encode_map encode_pref" "decode_map decode_pref" "map_ok pref_ok"
  by unfold_locales (rule pref_values.map_written)

text \<open>
  C38: What is saved is what is loaded: reading back the file written for any preferences, of any
  number of files with any typed values, gives exactly these preferences, if the texts are UTF-8
  and no count or length exceeds 32 bits.
\<close>

theorem prefs_roundtrip:
  assumes "map_ok (map_ok pref_ok) prefs"
  shows "\<exists>b. encode_shared_preferences prefs = Ok b \<and> decode_shared_preferences b = Ok prefs"
proof -
  obtain b where b: "encode_map (encode_map encode_pref) prefs = Ok b"
    "reads_back (decode_map (decode_map decode_pref)) b prefs"
    using pref_files.map_written [OF assms] by auto
  have "found b 0 b" using found_middle [of "[]" b "[]"] by simp
  then have "decode_map (decode_map decode_pref) \<lparr>rd_bytes = b, rd_pos = 0\<rparr> =
      Ok (prefs, \<lparr>rd_bytes = b, rd_pos = length b\<rparr>)"
    using reads_backD [OF b(2)] by simp
  then show ?thesis using b(1)
    by (simp add: encode_shared_preferences_def decode_shared_preferences_def)
qed

theorem prefs_roundtrip_witness:
  "\<exists>b. encode_shared_preferences (fmupd ''a'' (fmupd ''k'' (PrefInt 5) fmempty) fmempty) = Ok b \<and>
     decode_shared_preferences b = Ok (fmupd ''a'' (fmupd ''k'' (PrefInt 5) fmempty) fmempty)"
proof (rule prefs_roundtrip)
  have one: "sorted_entries (fmupd k v fmempty) = [(k, v)]" for k :: string and v :: 'b
    by (simp add: sorted_entries_def sorted_list_of_fset.rep_eq)
  show "map_ok (map_ok pref_ok) (fmupd ''a'' (fmupd ''k'' (PrefInt 5) fmempty) fmempty)"
    by (simp add: map_ok_def one text_ok_def) code_simp
qed

section \<open>What an edit does\<close>

lemma edits_lookup:
  "fmlookup (fold apply_edit edits m) k =
     (case find (\<lambda>e. case e of Put k' _ \<Rightarrow> k' = k | Remove k' \<Rightarrow> k' = k) (rev edits) of
        Some (Put _ v) \<Rightarrow> Some v | Some (Remove _) \<Rightarrow> None | None \<Rightarrow> fmlookup m k)"
proof (induction edits arbitrary: m rule: rev_induct)
  case (snoc e edits)
  then show ?case by (cases e) (auto split: preference_edit.splits)
qed simp

text \<open>
  The last edit of a key decides its value, a cleared file keeps nothing but the edits, and the
  other files stay as they were.
\<close>

theorem edit_decides:
  "\<exists>m. (\<forall>file. fmlookup (edited_preferences name edits clear prefs) file =
         (if file = name then Some m else fmlookup prefs file)) \<and>
     fmlookup m k =
       (case find (\<lambda>e. case e of Put k' _ \<Rightarrow> k' = k | Remove k' \<Rightarrow> k' = k) (rev edits) of
          Some (Put _ v) \<Rightarrow> Some v
        | Some (Remove _) \<Rightarrow> None
        | None \<Rightarrow> if clear then None else Option.bind (fmlookup prefs name) (\<lambda>m. fmlookup m k))"
  by (rule exI [of _ "fold apply_edit edits
        (if clear then fmempty else case fmlookup prefs name of Some m \<Rightarrow> m | None \<Rightarrow> fmempty)"])
    (simp add: edited_preferences_def Let_def edits_lookup split: option.splits preference_edit.splits)

end
