(* ===== verification/Ctx.thy ===== *)
theory Ctx
  imports RunTotal Permission Collector DexFile Shims Prefs "HOL-Library.Multiset"
begin

text \<open>
  The embedding interface of \<open>context.rs\<close>: a context is a machine, the grants of its sandbox and
  the instance the last call left. It is built from a DEX file or an archive of them; reading an
  archive is the \<open>zip\<close> crate's and an argument here. So are reading and replacing the file of the
  preferences; the calls of the host's callback are the result of an update. Shown: what a new
  context is, and in which order its DEX files come.
\<close>

section \<open>Contents of an archive\<close>

datatype context_error = BadArchive string | CtxDex string | CtxJvm jvm_error

text \<open>An entry: its name, whether it is a directory, and its bytes or the error of reading them.\<close>

type_synonym zip_entry = "string \<times> bool \<times> (string, u8 list) outcome"

type_synonym zip_reader = "u8 list \<Rightarrow> (string, zip_entry list) outcome"

definition strip_suffix :: "string \<Rightarrow> string \<Rightarrow> string option" where
  "strip_suffix p s = (if suffix p s then Some (take (length s - length p) s) else None)"

text \<open>\<open>str::parse::<u32>\<close>: an optional plus sign and digits that fit.\<close>

definition digit_value :: "char \<Rightarrow> nat" where
  "digit_value c = of_char c - 48"

definition parse_u32 :: "string \<Rightarrow> nat option" where
  "parse_u32 s =
     (let ds = (case s of CHR ''+'' # t \<Rightarrow> t | _ \<Rightarrow> s) in
      if ds = [] \<or> \<not> list_all ascii_digit ds then None
      else let n = foldl (\<lambda>n c. 10 * n + digit_value c) 0 ds in if n < 2 ^ 32 then Some n else None)"

text \<open>The number in \<open>classes<n>.dex\<close>, or 0.\<close>

definition dex_number :: "string \<Rightarrow> nat" where
  "dex_number name =
     (case Option.bind (Option.bind (strip_prefix ''classes'' name) (strip_suffix ''.dex'')) parse_u32 of
        Some n \<Rightarrow> n
      | None \<Rightarrow> 0)"

definition is_classes_dex :: "string \<Rightarrow> bool" where
  "is_classes_dex name \<longleftrightarrow> prefix ''classes'' name \<and> suffix ''.dex'' name"

definition read_failed :: "string \<Rightarrow> string \<Rightarrow> context_error" where
  "read_failed name e = BadArchive (''read '' @ name @ '': '' @ e)"

text \<open>One round of the loop over the entries.\<close>

definition take_entry :: "(string \<times> u8 list) list \<times> (string \<rightharpoonup> u8 list) \<Rightarrow> zip_entry \<Rightarrow>
  (context_error, (string \<times> u8 list) list \<times> (string \<rightharpoonup> u8 list)) outcome" where
  "take_entry acc e = (case (acc, e) of ((entries, resources), (name, dir, bytes)) \<Rightarrow>
     if is_classes_dex name then
       obind (omap_err (read_failed name) bytes) (\<lambda>b. Ok (entries @ [(name, b)], resources))
     else if \<not> dir then
       obind (omap_err (read_failed name) bytes) (\<lambda>b. Ok (entries, resources(name \<mapsto> b)))
     else Ok acc)"

fun take_entries :: "(string \<times> u8 list) list \<times> (string \<rightharpoonup> u8 list) \<Rightarrow> zip_entry list \<Rightarrow>
  (context_error, (string \<times> u8 list) list \<times> (string \<rightharpoonup> u8 list)) outcome" where
  "take_entries acc [] = Ok acc"
| "take_entries acc (e # es) = obind (take_entry acc e) (\<lambda>acc'. take_entries acc' es)"

definition contents_from_apk :: "zip_reader \<Rightarrow> u8 list \<Rightarrow>
  (context_error, u8 list list \<times> (string \<rightharpoonup> u8 list)) outcome" where
  "contents_from_apk unzip bytes =
     obind (omap_err BadArchive (unzip bytes)) (\<lambda>es.
     obind (take_entries ([], Map.empty) es) (\<lambda>(entries, resources).
     if entries = [] then Err (BadArchive ''no classes*.dex entry'')
     else Ok (map snd (sort_key (\<lambda>(name, b). dex_number name) entries), resources)))"

definition container_contents :: "zip_reader \<Rightarrow> u8 list \<Rightarrow>
  (context_error, u8 list list \<times> (string \<rightharpoonup> u8 list)) outcome" where
  "container_contents unzip bytes =
     (if prefix [0x50, 0x4b, 3, 4] bytes \<or> prefix [0x50, 0x4b, 5, 6] bytes
      then contents_from_apk unzip bytes
      else Ok ([bytes], Map.empty))"

text \<open>The application first, then the libraries; a resource of an earlier container wins.\<close>

fun with_libraries :: "zip_reader \<Rightarrow> u8 list list \<times> (string \<rightharpoonup> u8 list) \<Rightarrow> u8 list list \<Rightarrow>
  (context_error, u8 list list \<times> (string \<rightharpoonup> u8 list)) outcome" where
  "with_libraries unzip acc [] = Ok acc"
| "with_libraries unzip (ds0, rs0) (lib # libs) =
     obind (container_contents unzip lib) (\<lambda>(ds, rs).
     with_libraries unzip (ds0 @ ds, rs ++ rs0) libs)"

section \<open>Contexts\<close>

record sandbox_options =
  opt_network :: "network_permission option"
  opt_filesystem :: "filesystem_permission option"
  opt_process :: "process_permission option"
  opt_env :: bool

definition deny_all :: sandbox_options where
  "deny_all = \<lparr>opt_network = None, opt_filesystem = None, opt_process = None, opt_env = False\<rparr>"

definition allow_all :: sandbox_options where
  "allow_all = \<lparr>opt_network = Some NetAny, opt_filesystem = Some FsAny, opt_process = Some ProcAny,
     opt_env = True\<rparr>"


record ctx =
  machine :: vm
  sandbox :: permissions
  last_instance :: "u32 option"
  resources :: "string \<rightharpoonup> u8 list"
  shared_preferences :: preference_files
  preferences_path :: "string option"
  preferences_loaded :: bool

definition apply_options :: "host_fs \<Rightarrow> sandbox_options \<Rightarrow> permissions \<Rightarrow> permissions" where
  "apply_options F opts ps =
     (let ps = (case opt_network opts of Some p \<Rightarrow> grant F (Network p) ps | None \<Rightarrow> ps);
          ps = (case opt_filesystem opts of Some p \<Rightarrow> grant F (Filesystem p) ps | None \<Rightarrow> ps);
          ps = (case opt_process opts of Some p \<Rightarrow> grant F (Process p) ps | None \<Rightarrow> ps)
      in if opt_env opts then grant F Env ps else ps)"

definition new_with_libraries :: "zip_reader \<Rightarrow> host_fs \<Rightarrow> tables \<Rightarrow> u8 list \<Rightarrow> u8 list list \<Rightarrow>
  sandbox_options \<Rightarrow> (context_error, ctx) outcome" where
  "new_with_libraries unzip F T bytes libraries opts =
     obind (container_contents unzip bytes) (\<lambda>contents.
     obind (with_libraries unzip contents libraries) (\<lambda>(ds, rs).
     obind (omap (\<lambda>d. omap_err (\<lambda>e. CtxDex (dex_error_text e)) (parse d)) ds) (\<lambda>files.
     obind (omap_err CtxJvm (vm_new T files)) (\<lambda>m.
     Ok \<lparr>machine = m, sandbox = apply_options F opts no_permissions, last_instance = None,
         resources = rs, shared_preferences = fmempty, preferences_path = None,
         preferences_loaded = False\<rparr>))))"

definition new_with :: "zip_reader \<Rightarrow> host_fs \<Rightarrow> tables \<Rightarrow> u8 list \<Rightarrow> sandbox_options \<Rightarrow>
  (context_error, ctx) outcome" where
  "new_with unzip F T bytes opts = new_with_libraries unzip F T bytes [] opts"

definition ctx_new :: "zip_reader \<Rightarrow> host_fs \<Rightarrow> tables \<Rightarrow> u8 list \<Rightarrow> (context_error, ctx) outcome" where
  "ctx_new unzip F T bytes = new_with unzip F T bytes deny_all"

definition ctx_grant :: "host_fs \<Rightarrow> permission \<Rightarrow> ctx \<Rightarrow> ctx" where
  "ctx_grant F p c = c\<lparr>sandbox := grant F p (sandbox c)\<rparr>"

definition ctx_revoke :: "host_fs \<Rightarrow> permission \<Rightarrow> ctx \<Rightarrow> ctx" where
  "ctx_revoke F p c = c\<lparr>sandbox := revoke F p (sandbox c)\<rparr>"

definition ctx_has_permission :: "host_fs \<Rightarrow> ctx \<Rightarrow> permission \<Rightarrow> bool" where
  "ctx_has_permission F c p = has_permission F (sandbox c) p"

section \<open>Calls\<close>

type_synonym 'a ctx_act = "(ctx, jvm_error, 'a) act"

text \<open>A method of the machine.\<close>

definition on_vm :: "'a vm_act \<Rightarrow> 'a ctx_act" where
  "on_vm m = (\<lambda>c. case m (machine c) of (r, s) \<Rightarrow> (r, c\<lparr>machine := s\<rparr>))"

definition retain :: "u32 \<Rightarrow> unit ctx_act" where
  "retain ob = modify (\<lambda>c. c\<lparr>last_instance := Some ob\<rparr>)"

text \<open>The extra root is the retained instance, or an id no object has.\<close>

definition ctx_gc :: "nat ctx_act" where
  "ctx_gc = bnd (asks last_instance) (\<lambda>m. on_vm (gc [case m of Some i \<Rightarrow> i | None \<Rightarrow> - 1]))"

text \<open>The position of the first method of a name; every name on the way must be there.\<close>

fun position_named :: "nat \<Rightarrow> string \<Rightarrow> method_rec list \<Rightarrow> nat option vm_act" where
  "position_named k name [] = ret None"
| "position_named k name (m # ms) =
     bnd (str_of (m_name m)) (\<lambda>n. if n = name then ret (Some k) else position_named (k + 1) name ms)"

definition with_semicolon :: "string \<Rightarrow> string" where
  "with_semicolon cls = (if suffix '';'' cls then cls else cls @ '';'')"

text \<open>The instance retained if it is of exactly this class, or a new one.\<close>

definition receiver_for :: "string \<Rightarrow> u32 \<Rightarrow> u32 ctx_act" where
  "receiver_for cls cid =
     bnd (asks last_instance) (\<lambda>m. case m of
       None \<Rightarrow> on_vm (alloc_instance cid)
     | Some ob \<Rightarrow>
         bnd (on_vm (bnd (the_object ob) (\<lambda>b. bnd (the_class (obj_class b)) (\<lambda>cl.
           bnd (intern cls) (\<lambda>d. ret (descriptor cl = d)))))) (\<lambda>same.
         if same then ret ob else on_vm (alloc_instance cid)))"

text \<open>Everything before the method runs: the class, the slot and the arguments.\<close>

definition prepare_call :: "tables \<Rightarrow> string \<Rightarrow> string \<Rightarrow> jvalue list \<Rightarrow> (u32 \<times> u32 \<times> jvalue list) ctx_act" where
  "prepare_call T cls method args =
     (let cls = with_semicolon cls in
      bnd (on_vm (ensure_class_by_desc T cls)) (\<lambda>cid.
      bnd (on_vm (the_class cid)) (\<lambda>cl.
      bnd (on_vm (position_named 0 method (cls_methods cl))) (\<lambda>p.
      bnd (lift (ok_or (Resolution (''no method '' @ method @ '' in '' @ cls)) p)) (\<lambda>slot.
      bnd (on_vm (unwrap (nth_opt (cls_methods cl) slot))) (\<lambda>m.
      bnd (asks (\<lambda>c. frames (machine c))) (\<lambda>fs.
      bnd (if fs = [] then bnd ctx_gc (\<lambda>_. ret ()) else ret ()) (\<lambda>_.
      bnd (if static_method m then ret []
           else bnd (receiver_for cls cid) (\<lambda>ob. bnd (retain ob) (\<lambda>_. ret [VObj ob]))) (\<lambda>rcv.
      ret (cid, of_nat slot, rcv @ args))))))))))"

definition ctx_call :: "host \<Rightarrow> string \<Rightarrow> string \<Rightarrow> jvalue list \<Rightarrow> jvalue ctx_act" where
  "ctx_call H cls method args =
     bnd (prepare_call (tabs H) cls method args) (\<lambda>(cid, slot, call_args).
     on_vm (run H cid slot call_args))"

definition ctx_invoke :: "host \<Rightarrow> string \<Rightarrow> jvalue list \<Rightarrow> jvalue ctx_act" where
  "ctx_invoke H method args =
     bnd (asks last_instance) (\<lambda>m.
     bnd (lift (ok_or (Resolution
       ''no instance from a previous call; call an instance method first'') m)) (\<lambda>ob.
     bnd (on_vm (the_object ob)) (\<lambda>b.
     bnd (on_vm (the_class (obj_class b))) (\<lambda>cl.
     bnd (on_vm (position_named 0 method (cls_methods cl))) (\<lambda>p.
     bnd (lift (ok_or (Resolution (''no method '' @ method)) p)) (\<lambda>slot.
     bnd (on_vm (run H (obj_class b) (of_nat slot) (VObj ob # args))) (\<lambda>v.
     bnd (case v of
            VObj o' \<Rightarrow>
              bnd (on_vm (the_object o')) (\<lambda>b'.
              bnd (on_vm (asks (\<lambda>s. hot_string (hot_ids s)))) (\<lambda>hs.
              if obj_class b' \<noteq> hs then retain o' else ret ()))
          | _ \<Rightarrow> ret ()) (\<lambda>_. ret v))))))))"

definition ctx_invoke_on :: "host \<Rightarrow> u32 \<Rightarrow> string \<Rightarrow> string \<Rightarrow> jvalue list \<Rightarrow> jvalue ctx_act" where
  "ctx_invoke_on H ob name sg args =
     bnd (on_vm (name_ref name sg 0)) (\<lambda>mref.
     bnd (catch (on_vm (resolve_target (tabs H) Virtual mref (Some ob) 0))
            (\<lambda>e. fail (Resolution (''invoke_on '' @ name @ sg @ '': '' @ jvm_error_text e)))) (\<lambda>t.
     bnd (on_vm (call_target H (run H) t (VObj ob # args))) (\<lambda>v.
     bnd (retain ob) (\<lambda>_. ret v))))"

section \<open>Preferences\<close>

datatype file_read = Content "u8 list" | NotFound | ReadFailed string

definition ioe :: "env \<Rightarrow> string \<Rightarrow> 'a shim_act" where
  "ioe E m = throw E ''Ljava/io/IOException;'' m"

text \<open>A native's action on the machine of a context.\<close>

definition in_vm :: "'a shim_act \<Rightarrow> (ctx, nat_err, 'a) act" where
  "in_vm m = (\<lambda>c. case m (machine c) of (r, s) \<Rightarrow> (r, c\<lparr>machine := s\<rparr>))"

definition load_shared_preferences :: "env \<Rightarrow> (string \<Rightarrow> file_read) \<Rightarrow> (ctx, nat_err, unit) act" where
  "load_shared_preferences E read =
     bnd (asks (\<lambda>c. (preferences_loaded c, preferences_path c))) (\<lambda>(loaded, path).
     if loaded then ret ()
     else (case path of
         None \<Rightarrow> modify (\<lambda>c. c\<lparr>preferences_loaded := True\<rparr>)
       | Some p \<Rightarrow> (case read p of
           NotFound \<Rightarrow> modify (\<lambda>c. c\<lparr>preferences_loaded := True\<rparr>)
         | ReadFailed e \<Rightarrow> in_vm (ioe E (''read '' @ p @ '': '' @ e))
         | Content b \<Rightarrow>
             (case decode_shared_preferences b of
                Ok prefs \<Rightarrow> modify (\<lambda>c. c\<lparr>shared_preferences := prefs, preferences_loaded := True\<rparr>)
              | Err e \<Rightarrow> in_vm (ioe E (''read '' @ p @ '': '' @ e))
              | Panic \<Rightarrow> panic
              | Diverge \<Rightarrow> lift Diverge))))"

text \<open>An error of loading is dropped.\<close>

definition get_settings :: "env \<Rightarrow> (string \<Rightarrow> file_read) \<Rightarrow> string \<Rightarrow> (ctx, nat_err, preferences) act" where
  "get_settings E read preference_file =
     bnd (catch (load_shared_preferences E read) (\<lambda>_. ret ())) (\<lambda>_.
     asks (\<lambda>c. case fmlookup (shared_preferences c) preference_file of Some m \<Rightarrow> m | None \<Rightarrow> fmempty))"

definition preference_file_names :: "ctx \<Rightarrow> string fset" where
  "preference_file_names c = fmdom (shared_preferences c)"

definition file_of :: "preference_files \<Rightarrow> string \<Rightarrow> preferences" where
  "file_of prefs name = (case fmlookup prefs name of Some m \<Rightarrow> m | None \<Rightarrow> fmempty)"

text \<open>
  The map is updated first, then saved if there is a path, and only then is the callback told the
  key and the value.
\<close>

definition update_setting :: "(string \<Rightarrow> u8 list \<Rightarrow> (string, unit) outcome) \<Rightarrow> string \<Rightarrow> string \<Rightarrow>
  preference_value \<Rightarrow> (ctx, string, (string \<times> preference_value) list) act" where
  "update_setting save preference_file key val =
     bnd (modify (\<lambda>c. c\<lparr>shared_preferences :=
       fmupd preference_file (fmupd key val (file_of (shared_preferences c) preference_file)) (shared_preferences c)\<rparr>)) (\<lambda>_.
     bnd (asks (\<lambda>c. (preferences_path c, shared_preferences c))) (\<lambda>(path, prefs).
     bnd (case path of
            Some p \<Rightarrow> lift (obind (encode_shared_preferences prefs) (save p))
          | None \<Rightarrow> ret ()) (\<lambda>_.
     ret (case Option.bind (fmlookup prefs preference_file) (\<lambda>m. fmlookup m key) of
            Some v \<Rightarrow> [(key, v)] | None \<Rightarrow> []))))"

definition seed_preferences :: "string \<Rightarrow> preferences \<Rightarrow> ctx \<Rightarrow> ctx" where
  "seed_preferences preference_file vals c =
     c\<lparr>shared_preferences := fmupd preference_file vals (shared_preferences c)\<rparr>"

definition set_shared_preferences_path :: "string \<Rightarrow> ctx \<Rightarrow> ctx" where
  "set_shared_preferences_path path c =
     c\<lparr>preferences_path := Some path, shared_preferences := fmempty, preferences_loaded := False\<rparr>"

definition disable_persistence :: "ctx \<Rightarrow> ctx" where
  "disable_persistence c = c\<lparr>preferences_path := None, preferences_loaded := True\<rparr>"

section \<open>What a new context is\<close>

definition options_grants :: "sandbox_options \<Rightarrow> permission list" where
  "options_grants opts =
     (case opt_network opts of Some p \<Rightarrow> [Network p] | None \<Rightarrow> []) @
     (case opt_filesystem opts of Some p \<Rightarrow> [Filesystem p] | None \<Rightarrow> []) @
     (case opt_process opts of Some p \<Rightarrow> [Process p] | None \<Rightarrow> []) @
     (if opt_env opts then [Env] else [])"

lemma options_granted: "grants (apply_options F opts no_permissions) = options_grants opts"
  by (simp add: apply_options_def options_grants_def grant_def no_permissions_def Let_def
      split: option.splits)

text \<open>
  C39: A new context is sound and sandboxed: its machine has a well-founded class graph, no load in
  progress, and every load on it ends; it has no instance, and it may do what the options of the
  host cover and nothing else.
\<close>

theorem new_context_sound:
  assumes new: "new_with_libraries unzip F T bytes libs opts = Ok c" and shims: "acyclic_shims T"
    and small: "length (intern_tab (machine c)) \<le> 2 ^ 32"
  shows "class_inv (machine c) \<and> linkable (machine c) \<and> loading (machine c) = [] \<and> last_instance c = None \<and>
    (ctx_has_permission F c p \<longleftrightarrow> (\<exists>g \<in> set (options_grants opts). covers F g p))"
proof -
  obtain ds s where vm: "vm_new T ds = Ok s" and c: "machine c = s" "last_instance c = None"
      "sandbox c = apply_options F opts no_permissions"
    using new by (auto simp: new_with_libraries_def obind_Ok_iff)
  then have boot: "boot T (vm_empty ds) = (Ok (), s)"
    by (auto simp: vm_new_def obind_Ok_iff split: prod.splits)
  have "class_inv s" using good_boot [of T "vm_empty ds"] class_inv_empty [of ds] boot by (auto simp: good_def)
  moreover have "intern_ok (vm_empty ds)" by (simp add: intern_ok_def vm_empty_def)
  from boot_fin [OF shims this] boot small have "linkable s \<and> loading s = []"
    by (auto simp: fin_def esc_def lstate_iff vm_empty_def c)
  ultimately show ?thesis
    by (simp add: c ctx_has_permission_def has_permission_def options_granted list_ex_iff)
qed

definition tiny_dex :: dex_file where
  "tiny_dex = \<lparr>dex_data = minimal_dex, strings = [''hi''], types = [], protos = [], dex_fields = [],
     methods = [], classes = []\<rparr>"

lemma tiny_boots:
  "(case vm_new small_tables [tiny_dex] of Ok s \<Rightarrow> length (intern_tab s) < 100 | _ \<Rightarrow> False)"
  by code_simp

lemma tiny_contents: "container_contents unzip minimal_dex = Ok ([minimal_dex], Map.empty)"
proof -
  have "\<not> prefix [0x50, 0x4b, 3, 4] minimal_dex" "\<not> prefix [0x50, 0x4b, 5, 6] minimal_dex" by code_simp+
  then show ?thesis by (simp add: container_contents_def)
qed

theorem new_context_sound_witness:
  "\<forall>unzip F. \<exists>c. new_with_libraries unzip F small_tables minimal_dex [] (deny_all\<lparr>opt_env := True\<rparr>) = Ok c \<and>
     class_inv (machine c) \<and> linkable (machine c) \<and> ctx_has_permission F c Env \<and>
     \<not> ctx_has_permission F c (Network NetAny)"
proof (intro allI)
  fix unzip F
  let ?opts = "deny_all\<lparr>opt_env := True\<rparr>"
  obtain s where s: "vm_new small_tables [tiny_dex] = Ok s" "length (intern_tab s) < 100"
    using tiny_boots by (cases "vm_new small_tables [tiny_dex]") auto
  obtain c where c: "new_with_libraries unzip F small_tables minimal_dex [] ?opts = Ok c" "machine c = s"
    using s(1) minimal_dex_parses [folded tiny_dex_def] by (simp add: new_with_libraries_def tiny_contents)
  have "length (intern_tab (machine c)) \<le> 2 ^ 32" using s(2) c(2) by simp
  note new_context_sound [OF c(1) small_acyclic this]
  then show "\<exists>c. new_with_libraries unzip F small_tables minimal_dex [] ?opts = Ok c \<and>
      class_inv (machine c) \<and> linkable (machine c) \<and> ctx_has_permission F c Env \<and>
      \<not> ctx_has_permission F c (Network NetAny)"
    using c(1) by (auto simp: options_grants_def deny_all_def)
qed

section \<open>The DEX files of an archive\<close>

text \<open>The names of the code of an application: \<open>classes.dex\<close>, \<open>classes2.dex\<close>, \<open>classes3.dex\<close> and so on.\<close>

definition dex_name :: "nat \<Rightarrow> string" where
  "dex_name k = (if k = 1 then ''classes.dex'' else ''classes'' @ show_nat k @ ''.dex'')"

definition names_code :: "string \<Rightarrow> bool" where
  "names_code n \<longleftrightarrow> (\<exists>m. n = ''classes'' @ m @ ''.dex'')"

text \<open>The entries of an archive that hold code, and those that are resources.\<close>

definition code_entries :: "zip_entry list \<Rightarrow> (string \<times> u8 list) list" where
  "code_entries es = [(n, b). (n, dir, Ok b) \<leftarrow> es, names_code n]"

definition resource_entries :: "zip_entry list \<Rightarrow> (string \<times> u8 list) list" where
  "resource_entries es = [(n, b). (n, dir, Ok b) \<leftarrow> es, \<not> names_code n \<and> \<not> dir]"

lemma suffix_of_append: "suffix (CHR ''.'' # e) (p @ q) \<Longrightarrow> CHR ''.'' \<notin> set p \<Longrightarrow> suffix (CHR ''.'' # e) q"
  by (auto simp: suffix_def append_eq_append_conv2 Cons_eq_append_conv append_eq_Cons_conv)

lemma is_classes_dex_iff: "is_classes_dex n \<longleftrightarrow> names_code n"
proof
  assume "is_classes_dex n"
  then obtain r where n: "n = ''classes'' @ r" "suffix ''.dex'' (''classes'' @ r)"
    by (auto simp: is_classes_dex_def prefix_def)
  have "suffix ''.dex'' r" by (rule suffix_of_append [OF n(2)]) simp
  with n(1) show "names_code n" by (auto simp: names_code_def suffix_def)
next
  assume "names_code n"
  then obtain m where "n = ''classes'' @ m @ ''.dex''" by (auto simp: names_code_def)
  then show "is_classes_dex n"
    using suffix_appendI [OF suffix_order.refl, of "''.dex''" "''classes'' @ m"] by (simp add: is_classes_dex_def)
qed

text \<open>What one entry needs for the archive to be read: its bytes, unless it is skipped.\<close>

definition readable :: "zip_entry \<Rightarrow> bool" where
  "readable e = (case e of (n, dir, r) \<Rightarrow> (dir \<and> \<not> names_code n) \<or> (\<exists>b. r = Ok b))"

lemma take_entries_reads:
  "list_all readable es \<Longrightarrow>
     take_entries (cs, rs) es = Ok (cs @ code_entries es, rs ++ map_of (rev (resource_entries es)))"
proof (induction es arbitrary: cs rs)
  case (Cons e es)
  obtain n d r where e: "e = (n, d, r)" by (cases e)
  have "take_entry (cs, rs) e =
      Ok (cs @ code_entries [e], rs ++ map_of (rev (resource_entries [e])))"
    using Cons.prems
    by (auto simp: e readable_def take_entry_def code_entries_def resource_entries_def is_classes_dex_iff
        split: outcome.split)
  moreover have "code_entries (e # es) = code_entries [e] @ code_entries es"
    "resource_entries (e # es) = resource_entries [e] @ resource_entries es"
    by (simp_all add: code_entries_def resource_entries_def)
  ultimately show ?case using Cons by simp
qed (simp add: code_entries_def resource_entries_def)

text \<open>Reading the number back from a name.\<close>

lemma ascii_digit_char: "d < 10 \<Longrightarrow> ascii_digit (char_of (48 + d)) \<and> digit_value (char_of (48 + d :: nat)) = d"
  by (simp add: ascii_digit_def digit_value_def less_eq_char_def)

lemma show_base_digits:
  "n < f \<Longrightarrow> list_all ascii_digit (show_base f 10 n) \<and> show_base f 10 n \<noteq> [] \<and>
     foldl (\<lambda>n c. 10 * n + digit_value c) 0 (show_base f 10 n) = n"
proof (induction f arbitrary: n)
  case (Suc f)
  show ?case
  proof (cases "n < 10")
    case True
    then show ?thesis using ascii_digit_char [of n] by (simp add: digit_char_def)
  next
    case False
    then have "n div 10 < f" using Suc.prems by auto
    then show ?thesis
      using Suc.IH [of "n div 10"] ascii_digit_char [of "n mod 10"] False by (simp add: digit_char_def)
  qed
qed simp

lemma parse_digits:
  assumes "list_all ascii_digit ds" and "ds \<noteq> []"
  shows "parse_u32 ds = (let n = foldl (\<lambda>n c. 10 * n + digit_value c) 0 ds in if n < 2 ^ 32 then Some n else None)"
proof -
  obtain c t where ds: "ds = c # t" using assms(2) by (cases ds) auto
  then have "c \<noteq> CHR ''+''" using assms(1) by (auto simp: ascii_digit_def less_eq_char_def)
  then have "(case ds of CHR ''+'' # t \<Rightarrow> t | _ \<Rightarrow> ds) = ds"
    by (auto simp: ds split: char.split bool.split)
  then show ?thesis using assms by (simp add: parse_u32_def)
qed

lemma parse_show: "k < 2 ^ 32 \<Longrightarrow> parse_u32 (show_nat k) = Some k"
  using show_base_digits [of k "Suc k"]
  by (simp add: show_nat_def parse_digits Let_def del: show_base.simps)

lemma strip_suffix_append: "strip_suffix p (x @ p) = Some x"
  by (simp add: strip_suffix_def suffix_def)

lemma dex_number_name:
  assumes "k < 2 ^ 32"
  shows "dex_number (dex_name k) = (if k = 1 then 0 else k)"
proof (cases "k = 1")
  case True
  then show ?thesis
    by (simp add: dex_number_def dex_name_def strip_prefix_def strip_suffix_def parse_u32_def suffix_to_prefix)
next
  case False
  have "strip_prefix ''classes'' (dex_name k) = Some (show_nat k @ ''.dex'')"
    using False by (simp add: strip_prefix_def dex_name_def)
  then show ?thesis using False assms by (simp add: dex_number_def strip_suffix_append parse_show)
qed

lemma dex_name_code: "names_code (dex_name k)"
proof (cases "k = 1")
  case True
  then show ?thesis by (auto simp: names_code_def dex_name_def intro: exI [of _ "[]"])
next
  case False
  then show ?thesis by (auto simp: names_code_def dex_name_def)
qed

text \<open>
  C40: The DEX files of an archive come in the order of their numbers. When the entries of an
  archive that hold code are, in any order, \<open>classes.dex\<close>, \<open>classes2.dex\<close>, \<open>classes3.dex\<close> and so on
  (numbers below 2 to the 32, gaps allowed), its DEX files are their bytes, \<open>classes.dex\<close> first
  and then by ascending number. Every other file is a resource, the last of a name winning.
\<close>

theorem dexes_in_order:
  assumes "unzip bytes = Ok es" and "list_all readable es"
    and "mset (code_entries es) = mset (map (\<lambda>(k, b). (dex_name k, b)) kds)" and "kds \<noteq> []"
    and "sorted_wrt (<) (map fst kds)" and "\<forall>k \<in> fst ` set kds. 0 < k \<and> k < 2 ^ 32"
  shows "contents_from_apk unzip bytes = Ok (map snd kds, map_of (rev (resource_entries es)))"
proof -
  let ?name = "\<lambda>(k, b). (dex_name k, b :: u8 list)" and ?num = "\<lambda>(name, b :: u8 list). dex_number name"
  have num: "?num (?name p) = (if fst p = 1 then 0 else fst p)" if "p \<in> set kds" for p
    using that assms(6) dex_number_name [of "fst p"] by (auto simp: split_beta)
  have dist: "distinct (map fst kds)" using assms(5) by (simp add: strict_sorted_iff)
  have set: "set (code_entries es) = ?name ` set kds" using mset_eq_setD [OF assms(3)] by simp
  have "inj_on ?num (set (code_entries es))"
  proof (unfold set, rule inj_onI)
    fix x y
    assume xy: "x \<in> ?name ` set kds" "y \<in> ?name ` set kds" "?num x = ?num y"
    then obtain p q where p: "p \<in> set kds" "q \<in> set kds" and x: "x = ?name p" "y = ?name q" by blast
    have "fst p = fst q" using xy(3) num [OF p(1)] num [OF p(2)] assms(6) p unfolding x
      by (auto split: if_splits)
    then have "p = q" using p dist by (metis distinct_map inj_onD)
    then show "x = y" using x by simp
  qed
  moreover have "sorted (map ?num (map ?name kds))"
  proof -
    have "map ?num (map ?name kds) = map (\<lambda>k. if k = 1 then 0 else k) (map fst kds)"
      unfolding map_map using num by (intro map_cong) simp_all
    moreover have "sorted (map (\<lambda>k. if k = 1 then 0 else k) (map fst kds))"
      using assms(5,6) by (auto simp: sorted_map sorted_wrt_map intro: sorted_wrt_mono_rel [rotated])
    ultimately show ?thesis by (simp only:)
  qed
  ultimately have "sort_key ?num (code_entries es) = map ?name kds"
    by (rule sort_key_inj_key_eq [OF assms(3)])
  moreover have "code_entries es \<noteq> []" using set assms(4) by auto
  moreover have "map snd (map ?name kds) = map snd kds" by (simp add: split_beta)
  ultimately show ?thesis
    using assms(1) take_entries_reads [OF assms(2), of "[]" Map.empty]
    by (simp add: contents_from_apk_def)
qed

text \<open>An archive reader for the witness: three entries, out of order.\<close>

definition three_entries :: zip_reader where
  "three_entries bytes =
     Ok [(dex_name 2, False, Ok [2]), (''a'', False, Ok [7]), (''classes.dex'', False, Ok [1])]"

theorem dexes_in_order_witness:
  "contents_from_apk three_entries [] = Ok ([[1], [2]], [''a'' \<mapsto> [7]])"
proof -
  let ?es = "[(dex_name 2, False, Ok [2]), (''a'', False, Ok [7]), (''classes.dex'', False, Ok [1])]"
  have one: "dex_name (Suc 0) = ''classes.dex''" by (simp add: dex_name_def)
  have "\<not> names_code ''a''" by (simp add: names_code_def)
  then have es: "code_entries ?es = [(dex_name 2, [2]), (''classes.dex'', [1])]"
    "resource_entries ?es = [(''a'', [7])]"
    using dex_name_code [of 1] dex_name_code [of 2]
    by (simp_all add: code_entries_def resource_entries_def one)
  show ?thesis
    using dexes_in_order [of three_entries "[]" ?es "[(1, [1]), (2, [2])]"]
    by (simp add: three_entries_def es readable_def one)
qed

end
