(* ===== verification/Lists.thy ===== *)
theory Lists
  imports Shims "HOL-Library.While_Combinator"
begin

text \<open>
  \<open>java.util.ArrayList\<close> (\<open>vm/native/java/util/arraylist.rs\<close>) and the reading of any collection
  (\<open>coll_elems\<close> of \<open>java/util/mod.rs\<close>). The payload of a list is the vector of its elements; the
  last section states that the natives are the operations of a sequence.
\<close>

section \<open>Reading and writing the payload\<close>

definition get_list :: "env \<Rightarrow> jvalue \<Rightarrow> jvalue list shim_act" where
  "get_list E v = bnd (the_payload v) (\<lambda>m. case m of Some (JList xs) \<Rightarrow> ret xs | _ \<Rightarrow> npe E)"

text \<open>\<open>match payload_mut(..) { List(dst) => .. }\<close>: the body may fail before it writes.\<close>

definition with_list :: "env \<Rightarrow> jvalue \<Rightarrow> (jvalue list \<Rightarrow> (jvalue list \<times> 'a) shim_act) \<Rightarrow> 'a shim_act" where
  "with_list E v f = bnd (payload_mut v) (\<lambda>m. case m of
     Some (i, JList xs) \<Rightarrow> bnd (f xs) (\<lambda>(ys, r). bnd (put_payload i (JList ys)) (\<lambda>_. ret r))
   | _ \<Rightarrow> npe E)"

definition put_list :: "env \<Rightarrow> jvalue \<Rightarrow> jvalue list \<Rightarrow> unit shim_act" where
  "put_list E v ys = with_list E v (\<lambda>_. ret (ys, ()))"

text \<open>\<open>i as usize\<close> of an \<open>i32\<close>: a negative index becomes a huge one.\<close>

definition as_usize :: "i32 \<Rightarrow> nat" where
  "as_usize i = unat (scast i :: u64)"

definition vlen :: "'a list \<Rightarrow> jvalue" where
  "vlen xs = VInt (of_nat (length xs))"

definition insert_at :: "nat \<Rightarrow> 'a \<Rightarrow> 'a list \<Rightarrow> 'a list" where
  "insert_at i x xs = take i xs @ x # drop i xs"

definition remove_nth :: "nat \<Rightarrow> 'a list \<Rightarrow> 'a list" where
  "remove_nth i xs = take i xs @ drop (Suc i) xs"

section \<open>The elements of a collection\<close>

text \<open>
  The loop over a progression adds the step with the wrap-around of a release build; \<open>None\<close> is a
  loop that does not end.
\<close>

definition progression_while :: "i32 \<Rightarrow> i32 \<Rightarrow> i32 \<Rightarrow> (i32 \<times> jvalue list) option" where
  "progression_while first last' step =
     (if 0 <s step
      then while_option (\<lambda>(f, out). f \<le>s last') (\<lambda>(f, out). (f + step, out @ [VInt f])) (first, [])
      else while_option (\<lambda>(f, out). last' \<le>s f) (\<lambda>(f, out). (f + step, out @ [VInt f])) (first, []))"

definition progression_elems :: "i32 \<Rightarrow> i32 \<Rightarrow> i32 \<Rightarrow> jvalue list shim_act" where
  "progression_elems first last' step = (case progression_while first last' step of
     Some (_, out) \<Rightarrow> ret out
   | None \<Rightarrow> lift Diverge)"

definition coll_elems :: "env \<Rightarrow> jvalue \<Rightarrow> jvalue list shim_act" where
  "coll_elems E v = (case v of
     VObj _ \<Rightarrow>
       bnd (the_payload v) (\<lambda>m. case m of
         Some (JList xs) \<Rightarrow> ret xs
       | Some (JSet xs) \<Rightarrow> ret xs
       | Some (ArrayDeque xs) \<Rightarrow> ret xs
       | Some (SFilterList xs) \<Rightarrow> ret xs
       | Some (IntRange f l) \<Rightarrow> ret (map (\<lambda>i. VInt (of_int i)) [sint f..sint l])
       | Some (IntProgression f l st) \<Rightarrow> progression_elems f l st
       | Some (CharRange f l) \<Rightarrow>
           ret (map (\<lambda>i. VInt (ucast (of_int i :: u16))) [sint f..sint l])
       | Some (LongRange f l) \<Rightarrow> ret (map (\<lambda>i. VLong (of_int i)) [sint f..sint l])
       | Some (Arr (ObjArr xs)) \<Rightarrow> ret xs
       | Some (JsoupElements ids) \<Rightarrow>
           amap (\<lambda>_. alloc_shim E ''Lorg/jsoup/nodes/Element;'' (Leaf ''JsoupElement'')) ids
       | _ \<Rightarrow> iae E ''not a collection'')
   | VNull \<Rightarrow> npe E
   | _ \<Rightarrow> iae E ''not a collection'')"

text \<open>The collection a constructor copies.\<close>

definition init_elems :: "env \<Rightarrow> jvalue list \<Rightarrow> jvalue list shim_act" where
  "init_elems E args =
     (case nth_opt args 1 of Some (VObj i) \<Rightarrow> coll_elems E (VObj i) | _ \<Rightarrow> ret [])"

section \<open>The natives of ArrayList\<close>

definition list_init :: "env \<Rightarrow> jvalue list \<Rightarrow> jvalue shim_act" where
  "list_init E args =
     bnd (init_elems E args) (\<lambda>items.
     bnd (arg args 0) (\<lambda>this.
     bnd (put_list E this items) (\<lambda>_. ret VNull)))"

definition list_size :: "env \<Rightarrow> jvalue list \<Rightarrow> jvalue shim_act" where
  "list_size E args = bnd (arg args 0) (\<lambda>this. bnd (get_list E this) (\<lambda>xs. ret (vlen xs)))"

definition list_is_empty :: "env \<Rightarrow> jvalue list \<Rightarrow> jvalue shim_act" where
  "list_is_empty E args =
     bnd (arg args 0) (\<lambda>this. bnd (get_list E this) (\<lambda>xs. ret (VInt (int_of_bool (xs = [])))))"

definition list_get :: "env \<Rightarrow> jvalue list \<Rightarrow> jvalue shim_act" where
  "list_get E args =
     bnd (arg_int args 1) (\<lambda>i.
     bnd (arg args 0) (\<lambda>this.
     bnd (get_list E this) (\<lambda>xs.
     case nth_opt xs (as_usize i) of Some v \<Rightarrow> ret v | None \<Rightarrow> ioobe E i)))"

definition list_set :: "env \<Rightarrow> jvalue list \<Rightarrow> jvalue shim_act" where
  "list_set E args =
     bnd (arg_int args 1) (\<lambda>i.
     bnd (arg args 2) (\<lambda>new_v.
     bnd (arg args 0) (\<lambda>this.
     bnd (get_list E this) (\<lambda>xs.
     case nth_opt xs (as_usize i) of
       None \<Rightarrow> ioobe E i
     | Some old \<Rightarrow>
         bnd (with_list E this (\<lambda>dst. ret (dst[as_usize i := new_v], ()))) (\<lambda>_. ret old)))))"

definition list_add :: "env \<Rightarrow> jvalue list \<Rightarrow> jvalue shim_act" where
  "list_add E args =
     bnd (arg args 1) (\<lambda>v.
     bnd (arg args 0) (\<lambda>this.
     bnd (with_list E this (\<lambda>dst. ret (dst @ [v], ()))) (\<lambda>_. ret (VInt 1))))"

definition list_add_at :: "env \<Rightarrow> jvalue list \<Rightarrow> jvalue shim_act" where
  "list_add_at E args =
     bnd (arg_int args 1) (\<lambda>i.
     bnd (arg args 2) (\<lambda>v.
     bnd (arg args 0) (\<lambda>this.
     bnd (with_list E this (\<lambda>dst.
       if sint i < 0 \<or> as_usize i > length dst then ioobe E i
       else ret (insert_at (as_usize i) v dst, ()))) (\<lambda>_. ret VNull))))"

definition list_remove_at :: "env \<Rightarrow> jvalue list \<Rightarrow> jvalue shim_act" where
  "list_remove_at E args =
     bnd (arg_int args 1) (\<lambda>i.
     bnd (arg args 0) (\<lambda>this.
     bnd (get_list E this) (\<lambda>xs.
     case nth_opt xs (as_usize i) of
       None \<Rightarrow> ioobe E i
     | Some old \<Rightarrow>
         bnd (with_list E this (\<lambda>dst. ret (remove_nth (as_usize i) dst, ()))) (\<lambda>_. ret old))))"

text \<open>The first position, counted from \<open>k\<close>, of an element equal to \<open>target\<close>.\<close>

fun first_equal :: "env \<Rightarrow> jvalue \<Rightarrow> nat \<Rightarrow> jvalue list \<Rightarrow> nat option shim_act" where
  "first_equal E target k [] = ret None"
| "first_equal E target k (x # xs) =
     bnd (java_equals E x target) (\<lambda>b. if b then ret (Some k) else first_equal E target (k + 1) xs)"

definition list_remove_obj :: "env \<Rightarrow> jvalue list \<Rightarrow> jvalue shim_act" where
  "list_remove_obj E args =
     bnd (arg args 1) (\<lambda>target.
     bnd (arg args 0) (\<lambda>this.
     bnd (get_list E this) (\<lambda>items.
     bnd (first_equal E target 0 items) (\<lambda>m. case m of
       Some i \<Rightarrow>
         bnd (with_list E this (\<lambda>dst. if i < length dst then ret (remove_nth i dst, ()) else panic)) (\<lambda>_.
         ret (VInt 1))
     | None \<Rightarrow> ret (VInt 0)))))"

definition list_clear :: "env \<Rightarrow> jvalue list \<Rightarrow> jvalue shim_act" where
  "list_clear E args = bnd (arg args 0) (\<lambda>this. bnd (put_list E this []) (\<lambda>_. ret VNull))"

definition list_contains :: "env \<Rightarrow> jvalue list \<Rightarrow> jvalue shim_act" where
  "list_contains E args =
     bnd (arg args 1) (\<lambda>target.
     bnd (arg args 0) (\<lambda>this.
     bnd (get_list E this) (\<lambda>items.
     bnd (first_equal E target 0 items) (\<lambda>m. ret (VInt (int_of_bool (m \<noteq> None)))))))"

definition list_index_of :: "env \<Rightarrow> jvalue list \<Rightarrow> jvalue shim_act" where
  "list_index_of E args =
     bnd (arg args 1) (\<lambda>target.
     bnd (arg args 0) (\<lambda>this.
     bnd (get_list E this) (\<lambda>items.
     bnd (first_equal E target 0 items) (\<lambda>m. ret (VInt (case m of Some i \<Rightarrow> of_nat i | None \<Rightarrow> - 1))))))"

definition list_last_index_of :: "env \<Rightarrow> jvalue list \<Rightarrow> jvalue shim_act" where
  "list_last_index_of E args =
     bnd (arg args 1) (\<lambda>target.
     bnd (arg args 0) (\<lambda>this.
     bnd (get_list E this) (\<lambda>items.
     bnd (first_equal E target 0 (rev items)) (\<lambda>m.
     ret (VInt (case m of Some i \<Rightarrow> of_nat (length items - 1 - i) | None \<Rightarrow> - 1))))))"

definition list_iterator :: "env \<Rightarrow> jvalue list \<Rightarrow> jvalue shim_act" where
  "list_iterator E args =
     bnd (arg args 0) (\<lambda>this. bnd (unwrap (as_obj this)) (\<lambda>l.
     alloc_shim E ''Ljava/util/Iterator;'' (Iter (IterList l 0))))"

definition list_iterator_at :: "env \<Rightarrow> jvalue list \<Rightarrow> jvalue shim_act" where
  "list_iterator_at E args =
     bnd (arg args 0) (\<lambda>this. bnd (unwrap (as_obj this)) (\<lambda>l.
     bnd (arg_int args 1) (\<lambda>i.
     alloc_shim E ''Ljava/util/ListIterator;'' (Iter (IterList l (nat (sint i)))))))"

definition list_sublist :: "env \<Rightarrow> jvalue list \<Rightarrow> jvalue shim_act" where
  "list_sublist E args =
     bnd (arg_int args 1) (\<lambda>from'.
     bnd (arg_int args 2) (\<lambda>to'.
     bnd (arg args 0) (\<lambda>this.
     bnd (get_list E this) (\<lambda>items.
     if sint from' < 0 \<or> sint to' < sint from' \<or> as_usize to' > length items then ioobe E to'
     else list_alloc E (sub items (as_usize from') (as_usize to'))))))"

definition list_ensure_capacity :: "env \<Rightarrow> jvalue list \<Rightarrow> jvalue shim_act" where
  "list_ensure_capacity E args = ret VNull"

definition list_to_array :: "env \<Rightarrow> jvalue list \<Rightarrow> jvalue shim_act" where
  "list_to_array E args =
     bnd (arg args 0) (\<lambda>this.
     bnd (get_list E this) (\<lambda>items.
     alloc_shim E ''[Ljava/lang/Object;'' (Arr (ObjArr items))))"

text \<open>A large enough array is filled, with a null behind the last element; else a new one is made.\<close>

definition list_to_array_typed :: "env \<Rightarrow> jvalue list \<Rightarrow> jvalue shim_act" where
  "list_to_array_typed E args =
     bnd (arg args 0) (\<lambda>this.
     bnd (get_list E this) (\<lambda>items.
     bnd (arg args 1) (\<lambda>target.
     bnd (the_payload target) (\<lambda>m. case m of
       Some (Arr (ObjArr dst)) \<Rightarrow>
         if length items \<le> length dst then
           let out = items @ drop (length items) dst;
               out = (if length items < length out then out[length items := VNull] else out) in
           bnd (payload_mut target) (\<lambda>n. case n of
             Some (i, Arr (ObjArr d)) \<Rightarrow> bnd (put_payload i (Arr (ObjArr out))) (\<lambda>_. ret target)
           | _ \<Rightarrow> npe E)
         else
           bnd (unwrap (as_obj target)) (\<lambda>i.
           bnd (via (the_object i)) (\<lambda>ob.
           bnd (via (alloc_obj (obj_class ob) [] (Some (Arr (ObjArr items))))) (\<lambda>r. ret (VObj r))))
     | _ \<Rightarrow> list_to_array E args))))"

definition list_add_all :: "env \<Rightarrow> jvalue list \<Rightarrow> jvalue shim_act" where
  "list_add_all E args =
     bnd (arg args 1) (\<lambda>c.
     bnd (coll_elems E c) (\<lambda>extra.
     bnd (if 2 < length args then bnd (arg_int args 2) (\<lambda>i. ret (Some i)) else ret None) (\<lambda>pos.
     bnd (arg args 0) (\<lambda>this.
     bnd (with_list E this (\<lambda>dst. case pos of
         Some i \<Rightarrow>
           if sint i < 0 \<or> as_usize i > length dst then ioobe E i
           else ret (fold (\<lambda>(k, v) d. insert_at (as_usize i + k) v d) (enumerate 0 extra) dst, ())
       | None \<Rightarrow> ret (dst @ extra, ()))) (\<lambda>_. ret (VInt 1))))))"

text \<open>Whether some element of a collection equals \<open>x\<close>, which is asked first.\<close>

fun equals_any :: "env \<Rightarrow> jvalue \<Rightarrow> jvalue list \<Rightarrow> bool shim_act" where
  "equals_any E x [] = ret False"
| "equals_any E x (c # cs) = bnd (java_equals E x c) (\<lambda>b. if b then ret True else equals_any E x cs)"

fun keep_where :: "env \<Rightarrow> bool \<Rightarrow> jvalue list \<Rightarrow> jvalue list \<Rightarrow> jvalue list shim_act" where
  "keep_where E present coll [] = ret []"
| "keep_where E present coll (x # xs) =
     bnd (equals_any E x coll) (\<lambda>b. bnd (keep_where E present coll xs) (\<lambda>ys.
     ret (if b = present then x # ys else ys)))"

text \<open>Whether the list changed is read off its payload after the calls.\<close>

definition list_remove_all :: "env \<Rightarrow> jvalue list \<Rightarrow> jvalue shim_act" where
  "list_remove_all E args =
     bnd (arg args 1) (\<lambda>c.
     bnd (coll_elems E c) (\<lambda>coll.
     bnd (arg args 0) (\<lambda>this.
     bnd (get_list E this) (\<lambda>items.
     bnd (keep_where E False coll items) (\<lambda>out.
     bnd (the_payload this) (\<lambda>m.
     bnd (put_list E this out) (\<lambda>_.
     ret (VInt (int_of_bool (length out \<noteq> (case m of Some (JList xs) \<Rightarrow> length xs | _ \<Rightarrow> 0)))))))))))"

definition list_retain_all :: "env \<Rightarrow> jvalue list \<Rightarrow> jvalue shim_act" where
  "list_retain_all E args =
     bnd (arg args 1) (\<lambda>c.
     bnd (coll_elems E c) (\<lambda>coll.
     bnd (arg args 0) (\<lambda>this.
     bnd (get_list E this) (\<lambda>items.
     bnd (keep_where E True coll items) (\<lambda>out.
     bnd (put_list E this out) (\<lambda>_. ret VNull))))))"

section \<open>A list is a sequence\<close>

text \<open>
  The operations that do not compare elements, as calls of the natives on a list \<open>v\<close> and as
  operations of a sequence whose only error is an index.
\<close>

datatype list_op =
    OpSize | OpIsEmpty | OpGet i32 | OpSet i32 jvalue | OpAdd jvalue | OpInsert i32 jvalue
  | OpRemove i32 | OpClear

fun run_op :: "env \<Rightarrow> jvalue \<Rightarrow> list_op \<Rightarrow> jvalue shim_act" where
  "run_op E v OpSize = list_size E [v]"
| "run_op E v OpIsEmpty = list_is_empty E [v]"
| "run_op E v (OpGet i) = list_get E [v, VInt i]"
| "run_op E v (OpSet i x) = list_set E [v, VInt i, x]"
| "run_op E v (OpAdd x) = list_add E [v, x]"
| "run_op E v (OpInsert i x) = list_add_at E [v, VInt i, x]"
| "run_op E v (OpRemove i) = list_remove_at E [v, VInt i]"
| "run_op E v OpClear = list_clear E [v]"

type_synonym seq_act = "(jvalue list, i32, jvalue) act"

definition in_bounds :: "i32 \<Rightarrow> int \<Rightarrow> bool" where
  "in_bounds i n \<longleftrightarrow> 0 \<le> sint i \<and> sint i < n"

fun seq_op :: "list_op \<Rightarrow> seq_act" where
  "seq_op OpSize = asks (\<lambda>xs. VInt (of_nat (length xs)))"
| "seq_op OpIsEmpty = asks (\<lambda>xs. VInt (if xs = [] then 1 else 0))"
| "seq_op (OpGet i) = (\<lambda>xs.
     if in_bounds i (int (length xs)) then (Ok (xs ! nat (sint i)), xs) else (Err i, xs))"
| "seq_op (OpSet i x) = (\<lambda>xs.
     if in_bounds i (int (length xs)) then (Ok (xs ! nat (sint i)), xs[nat (sint i) := x]) else (Err i, xs))"
| "seq_op (OpAdd x) = (\<lambda>xs. (Ok (VInt 1), xs @ [x]))"
| "seq_op (OpInsert i x) = (\<lambda>xs.
     if in_bounds i (int (length xs) + 1)
     then (Ok VNull, take (nat (sint i)) xs @ x # drop (nat (sint i)) xs) else (Err i, xs))"
| "seq_op (OpRemove i) = (\<lambda>xs.
     if in_bounds i (int (length xs))
     then (Ok (xs ! nat (sint i)), take (nat (sint i)) xs @ drop (nat (sint i) + 1) xs) else (Err i, xs))"
| "seq_op OpClear = (\<lambda>xs. (Ok VNull, []))"

lemma as_usize_eq: "as_usize i = nat (sint i mod 2 ^ 64)"
proof -
  have "uint (scast i :: u64) = sint i mod 2 ^ 64"
    by (simp only: scast_eq uint_word_of_int len_num1 len_bit0 mult_2) simp
  then show ?thesis by (simp only: as_usize_def unat_eq_nat_uint)
qed

lemma as_usize_nonneg: "0 \<le> sint i \<Longrightarrow> as_usize i = nat (sint i)"
  using sint_less [of i] by (simp add: as_usize_eq)

lemma as_usize_neg: "sint i < 0 \<Longrightarrow> 2 ^ 63 \<le> as_usize i"
proof -
  assume i: "sint i < 0"
  have "- (2 ^ 31) \<le> sint i" using sint_ge [of i] by simp
  then have "(sint i + 2 ^ 64) mod 2 ^ 64 = sint i + 2 ^ 64"
    using i by (intro mod_pos_pos_trivial) simp_all
  then have "sint i mod 2 ^ 64 = sint i + 2 ^ 64" by simp
  then show ?thesis using \<open>- (2 ^ 31) \<le> sint i\<close> by (simp add: as_usize_eq le_nat_iff)
qed

lemma index_eq:
  assumes "length xs < 2 ^ 63"
  shows "nth_opt xs (as_usize i) =
    (if in_bounds i (int (length xs)) then Some (xs ! nat (sint i)) else None)"
proof (cases "0 \<le> sint i")
  case True
  then show ?thesis by (auto simp: as_usize_nonneg in_bounds_def nth_opt_def nat_less_iff)
next
  case False
  then have "length xs \<le> as_usize i" using as_usize_neg [of i] assms by linarith
  with False show ?thesis by (simp add: in_bounds_def)
qed

lemma ret_run [simp]: "ret x s = (Ok x, s)"
  by (simp add: ret_def)

lemma get_list_bnd: "payload s v = Some (JList xs) \<Longrightarrow> bnd (get_list E v) f s = f xs s"
  by (simp add: get_list_def the_payload_def bnd_def asks_def ret_def)

lemma with_list_bnd:
  "payload s v = Some (JList xs) \<Longrightarrow>
   bnd (with_list E v f) k s =
     bnd (f xs) (\<lambda>(ys, r). bnd (bnd (put_payload (case v of VObj i \<Rightarrow> i | _ \<Rightarrow> 0) (JList ys)) (\<lambda>_. ret r)) k) s"
  by (simp add: with_list_def bnd_def payload_mut_at split: outcome.splits prod.splits)

lemma put_payload_bnd:
  "payload s v = Some n \<Longrightarrow>
   bnd (put_payload (case v of VObj i \<Rightarrow> i | _ \<Rightarrow> 0) m) f s = f () (with_payload v m s)"
  by (simp add: bnd_def put_payload_at)

lemma bnd_assoc_run: "bnd (bnd m f) g s = bnd m (\<lambda>x. bnd (f x) g) s"
  by (simp add: bnd_def split: outcome.splits prod.splits)

lemma bnd_ioobe: "bnd (ioobe E i) f s = ioobe E i s"
  by (simp add: ioobe_def throw_def bnd_def fail_def split: outcome.splits prod.splits)

text \<open>One native is one step of the sequence, and an index error leaves everything as it was.\<close>

definition seq_result :: "env \<Rightarrow> jvalue \<Rightarrow> vm \<Rightarrow> (i32, 'a) outcome \<times> jvalue list \<Rightarrow> (nat_err, 'a) outcome \<times> vm" where
  "seq_result E v s r = (case r of
     (Ok x, ys) \<Rightarrow> (Ok x, with_payload v (JList ys) s)
   | (Err i, ys) \<Rightarrow> ioobe E i (with_payload v (JList ys) s)
   | (Panic, ys) \<Rightarrow> (Panic, with_payload v (JList ys) s)
   | (Diverge, ys) \<Rightarrow> (Diverge, with_payload v (JList ys) s))"

lemma arg_int_nth [simp]: "i < length args \<Longrightarrow> args ! i = VInt x \<Longrightarrow> arg_int args i = ret x"
  by (simp add: arg_int_def int_of_def fun_eq_iff) (simp add: asks_def ret_def)

lemma run_op_step:
  assumes p: "payload s v = Some (JList xs)" and len: "length xs < 2 ^ 63 - 1"
  shows "run_op E v op s = seq_result E v s (seq_op op xs)"
proof -
  note sim = get_list_bnd [OF p] with_list_bnd [OF p] put_payload_bnd [OF p] bnd_assoc_run bnd_ioobe
    with_payload_same [OF p] seq_result_def
  note ix = index_eq [of xs]
  show ?thesis
  proof (cases op)
    case (OpGet i)
    then show ?thesis using len ix [of i]
      by (simp add: list_get_def sim del: nth_opt_Some_iff nth_opt_None_iff)
  next
    case (OpSet i x)
    then show ?thesis using len ix [of i] as_usize_nonneg [of i]
      by (simp add: list_set_def sim in_bounds_def del: nth_opt_Some_iff nth_opt_None_iff)
  next
    case (OpInsert i x)
    have "(sint i < 0 \<or> as_usize i > length xs) \<longleftrightarrow> \<not> in_bounds i (int (length xs) + 1)"
      by (cases "0 \<le> sint i") (auto simp: in_bounds_def as_usize_nonneg)
    then show ?thesis using OpInsert as_usize_nonneg [of i]
      by (simp add: list_add_at_def sim insert_at_def in_bounds_def)
  next
    case (OpRemove i)
    then show ?thesis using len ix [of i] as_usize_nonneg [of i]
      by (simp add: list_remove_at_def sim in_bounds_def remove_nth_def
          del: nth_opt_Some_iff nth_opt_None_iff)
  qed (simp_all add: list_size_def list_is_empty_def list_add_def list_clear_def put_list_def
      sim vlen_def int_of_bool_def asks_def)
qed

lemma seq_op_length: "seq_op op xs = (r, ys) \<Longrightarrow> length ys \<le> length xs + 1"
  by (cases op) (auto simp: asks_def split: if_splits)

text \<open>
  C27: A guest list behaves as a sequence: any series of \<open>ArrayList\<close> calls returns what the sequence
  operations return and leaves a list with the same elements, nothing else of the machine changed;
  the first index out of range, negative ones included, raises \<open>IndexOutOfBoundsException\<close> with
  that index after exactly the effects of the calls before it.
\<close>

theorem list_calls_refine:
  assumes "payload s v = Some (JList xs)" and "length xs + length ops < 2 ^ 63 - 1"
  shows "amap (run_op E v) ops s = seq_result E v s (amap seq_op ops xs)"
  using assms
proof (induction ops arbitrary: s xs)
  case Nil
  then show ?case by (simp add: seq_result_def ret_def with_payload_same)
next
  case (Cons op ops)
  obtain r ys where r: "seq_op op xs = (r, ys)" by fastforce
  have step: "run_op E v op s = seq_result E v s (r, ys)"
    using run_op_step [OF Cons.prems(1)] Cons.prems(2) r by simp
  show ?case
  proof (cases r)
    case (Ok x)
    let ?s = "with_payload v (JList ys) s"
    have p: "payload ?s v = Some (JList ys)" using Cons.prems(1) by simp
    have "length ys + length ops < 2 ^ 63 - 1"
      using seq_op_length [OF r] Cons.prems(2) by simp
    from Cons.IH [OF p this] step Ok r show ?thesis
      by (cases "amap seq_op ops ys"; cases "fst (amap seq_op ops ys)")
        (auto simp: bnd_def seq_result_def ret_def ioobe_def throw_def fail_def
          split: outcome.splits prod.splits)
  qed (use step r in \<open>simp_all add: bnd_def seq_result_def bnd_ioobe [unfolded bnd_def]\<close>)
qed

definition list_vm :: "native \<Rightarrow> vm" where
  "list_vm n = (vm_empty [])\<lparr>heap :=
     \<lparr>objects = [\<lparr>obj_class = 0, obj_fields = [], obj_native = Some n\<rparr>], free_ids = []\<rparr>\<rparr>"

lemma list_vm_payload [simp]: "payload (list_vm n) (VObj 0) = Some n"
  by (simp add: list_vm_def payload_def arena_get_def nth_opt_def)

lemma list_calls_refine_witness:
  "\<forall>E. amap (run_op E (VObj 0)) [OpAdd (VInt 7), OpInsert 0 VNull, OpGet 2, OpSize, OpGet (- 1)] (list_vm (JList [VInt 5])) =
     ioobe E (- 1) (with_payload (VObj 0) (JList [VNull, VInt 5, VInt 7]) (list_vm (JList [VInt 5])))"
proof
  fix E
  show "amap (run_op E (VObj 0)) [OpAdd (VInt 7), OpInsert 0 VNull, OpGet 2, OpSize, OpGet (- 1)] (list_vm (JList [VInt 5])) =
      ioobe E (- 1) (with_payload (VObj 0) (JList [VNull, VInt 5, VInt 7]) (list_vm (JList [VInt 5])))"
    by (subst list_calls_refine [of _ _ "[VInt 5]"])
      (simp_all add: seq_result_def bnd_def asks_def in_bounds_def)
qed

end
