(* ===== verification/Maps.thy ===== *)
theory Maps
  imports Lists
begin

text \<open>
  \<open>java.util.HashMap\<close>, \<open>java.util.HashSet\<close> and \<open>java.util.Map$Entry\<close>
  (\<open>vm/native/java/util/{hashmap,hashset,map_entry}.rs\<close>). The payload of a map is the vector of
  its entries in insertion order, searched from the front with the hash and the equality of the
  guest; that of a set is the vector of its elements.
\<close>

section \<open>Entries\<close>

definition get_map :: "env \<Rightarrow> jvalue \<Rightarrow> (jvalue \<times> jvalue) list shim_act" where
  "get_map E v = bnd (the_payload v) (\<lambda>m. case m of Some (JMap es) \<Rightarrow> ret es | _ \<Rightarrow> npe E)"

definition put_map :: "env \<Rightarrow> jvalue \<Rightarrow> (jvalue \<times> jvalue) list \<Rightarrow> unit shim_act" where
  "put_map E v es = bnd (payload_mut v) (\<lambda>m. case m of
     Some (i, JMap _) \<Rightarrow> put_payload i (JMap es)
   | _ \<Rightarrow> npe E)"

text \<open>A key matches an entry: the hash of the entry's key first, then its \<open>equals\<close>.\<close>

definition same_key :: "env \<Rightarrow> i32 \<Rightarrow> jvalue \<Rightarrow> jvalue \<Rightarrow> bool shim_act" where
  "same_key E kh ek key =
     bnd (java_hash E ek) (\<lambda>eh. if eh = kh then java_equals E ek key else ret False)"

fun find_from :: "env \<Rightarrow> i32 \<Rightarrow> jvalue \<Rightarrow> nat \<Rightarrow> (jvalue \<times> jvalue) list \<Rightarrow> nat option shim_act" where
  "find_from E kh key k [] = ret None"
| "find_from E kh key k (e # es) =
     bnd (same_key E kh (fst e) key) (\<lambda>b. if b then ret (Some k) else find_from E kh key (k + 1) es)"

definition map_find :: "env \<Rightarrow> (jvalue \<times> jvalue) list \<Rightarrow> jvalue \<Rightarrow> nat option shim_act" where
  "map_find E es key = bnd (java_hash E key) (\<lambda>kh. find_from E kh key 0 es)"

section \<open>The natives of HashMap\<close>

definition map_init :: "env \<Rightarrow> jvalue list \<Rightarrow> jvalue shim_act" where
  "map_init E args =
     bnd (asks (\<lambda>s. case nth_opt args 1 of
            Some v \<Rightarrow> if is_null v then [] else (case payload s v of Some (JMap src) \<Rightarrow> src | _ \<Rightarrow> [])
          | None \<Rightarrow> [])) (\<lambda>entries.
     bnd (arg args 0) (\<lambda>this.
     bnd (put_map E this entries) (\<lambda>_. ret VNull)))"

definition map_size :: "env \<Rightarrow> jvalue list \<Rightarrow> jvalue shim_act" where
  "map_size E args = bnd (arg args 0) (\<lambda>this. bnd (get_map E this) (\<lambda>es. ret (vlen es)))"

definition map_is_empty :: "env \<Rightarrow> jvalue list \<Rightarrow> jvalue shim_act" where
  "map_is_empty E args =
     bnd (arg args 0) (\<lambda>this. bnd (get_map E this) (\<lambda>es. ret (VInt (int_of_bool (es = [])))))"

definition map_get :: "env \<Rightarrow> jvalue list \<Rightarrow> jvalue shim_act" where
  "map_get E args =
     bnd (arg args 0) (\<lambda>this.
     bnd (get_map E this) (\<lambda>es.
     bnd (arg args 1) (\<lambda>key.
     bnd (map_find E es key) (\<lambda>m. case m of
       Some i \<Rightarrow> bnd (unwrap (nth_opt es i)) (\<lambda>e. ret (snd e))
     | None \<Rightarrow> ret VNull))))"

definition map_get_default :: "env \<Rightarrow> jvalue list \<Rightarrow> jvalue shim_act" where
  "map_get_default E args =
     bnd (arg args 0) (\<lambda>this.
     bnd (get_map E this) (\<lambda>es.
     bnd (arg args 1) (\<lambda>key.
     bnd (map_find E es key) (\<lambda>m. case m of
       Some i \<Rightarrow> bnd (unwrap (nth_opt es i)) (\<lambda>e. ret (snd e))
     | None \<Rightarrow> arg args 2))))"

text \<open>The loop of \<open>put\<close>: every matching entry gets the value, the last one's old value is returned.\<close>

fun put_loop :: "env \<Rightarrow> i32 \<Rightarrow> jvalue \<Rightarrow> jvalue \<Rightarrow> jvalue \<times> bool \<Rightarrow> (jvalue \<times> jvalue) list \<Rightarrow>
  ((jvalue \<times> jvalue) list \<times> jvalue \<times> bool) shim_act" where
  "put_loop E kh key val acc [] = ret ([], acc)"
| "put_loop E kh key val acc ((ek, ev) # es) =
     bnd (same_key E kh ek key) (\<lambda>b.
     bnd (put_loop E kh key val (if b then (ev, True) else acc) es) (\<lambda>(out, acc').
     ret ((ek, if b then val else ev) # out, acc')))"

definition map_put :: "env \<Rightarrow> jvalue list \<Rightarrow> jvalue shim_act" where
  "map_put E args =
     bnd (arg args 1) (\<lambda>key.
     bnd (arg args 2) (\<lambda>val.
     bnd (arg args 0) (\<lambda>this.
     bnd (get_map E this) (\<lambda>es.
     bnd (java_hash E key) (\<lambda>kh.
     bnd (put_loop E kh key val (VNull, False) es) (\<lambda>(out, replaced, found).
     bnd (put_map E this (if found then out else out @ [(key, val)])) (\<lambda>_.
     ret replaced)))))))"

definition put_entry_of :: "env \<Rightarrow> (jvalue \<times> jvalue) list \<Rightarrow> jvalue \<times> jvalue \<Rightarrow> (jvalue \<times> jvalue) list shim_act" where
  "put_entry_of E out e =
     bnd (map_find E out (fst e)) (\<lambda>m. case m of
       Some i \<Rightarrow> if i < length out then ret (out[i := e]) else panic
     | None \<Rightarrow> ret (out @ [e]))"

definition map_put_all :: "env \<Rightarrow> jvalue list \<Rightarrow> jvalue shim_act" where
  "map_put_all E args =
     bnd (arg args 1) (\<lambda>other.
     bnd (bnd (the_payload other) (\<lambda>m. case m of Some (JMap src) \<Rightarrow> ret src | _ \<Rightarrow> iae E ''not a map'')) (\<lambda>src.
     bnd (arg args 0) (\<lambda>this.
     bnd (get_map E this) (\<lambda>es.
     bnd (afold (put_entry_of E) es src) (\<lambda>out.
     bnd (put_map E this out) (\<lambda>_. ret VNull))))))"

definition map_put_if_absent :: "env \<Rightarrow> jvalue list \<Rightarrow> jvalue shim_act" where
  "map_put_if_absent E args =
     bnd (arg args 0) (\<lambda>this.
     bnd (get_map E this) (\<lambda>es.
     bnd (arg args 1) (\<lambda>key.
     bnd (map_find E es key) (\<lambda>m. case m of
       Some i \<Rightarrow> bnd (unwrap (nth_opt es i)) (\<lambda>e. ret (snd e))
     | None \<Rightarrow>
         bnd (arg args 2) (\<lambda>val.
         bnd (put_map E this (es @ [(key, val)])) (\<lambda>_. ret VNull))))))"

definition map_contains_key :: "env \<Rightarrow> jvalue list \<Rightarrow> jvalue shim_act" where
  "map_contains_key E args =
     bnd (arg args 0) (\<lambda>this.
     bnd (get_map E this) (\<lambda>es.
     bnd (arg args 1) (\<lambda>key.
     bnd (map_find E es key) (\<lambda>m. ret (VInt (int_of_bool (m \<noteq> None)))))))"

definition map_contains_value :: "env \<Rightarrow> jvalue list \<Rightarrow> jvalue shim_act" where
  "map_contains_value E args =
     bnd (arg args 0) (\<lambda>this.
     bnd (get_map E this) (\<lambda>es.
     bnd (arg args 1) (\<lambda>target.
     bnd (first_equal E target 0 (map snd es)) (\<lambda>m. ret (VInt (int_of_bool (m \<noteq> None)))))))"

text \<open>Until something is removed the hashes of the entry and of the key are both asked again.\<close>

definition remove_test :: "env \<Rightarrow> jvalue \<Rightarrow> bool \<Rightarrow> jvalue \<Rightarrow> bool shim_act" where
  "remove_test E key did ek =
     (if did then ret False
      else bnd (java_hash E ek) (\<lambda>eh. bnd (java_hash E key) (\<lambda>kh.
        if eh = kh then java_equals E ek key else ret False)))"

fun remove_loop :: "env \<Rightarrow> jvalue \<Rightarrow> jvalue option \<Rightarrow> jvalue \<times> bool \<Rightarrow> (jvalue \<times> jvalue) list \<Rightarrow>
  ((jvalue \<times> jvalue) list \<times> jvalue \<times> bool) shim_act" where
  "remove_loop E key must acc [] = ret ([], acc)"
| "remove_loop E key must acc ((ek, ev) # es) =
     bnd (remove_test E key (snd acc) ek) (\<lambda>b.
     bnd (case must of Some mv \<Rightarrow> if b then java_equals E ev mv else ret b | None \<Rightarrow> ret b) (\<lambda>drop'.
     bnd (remove_loop E key must (if drop' then (ev, True) else acc) es) (\<lambda>(out, acc').
     ret (if drop' then out else (ek, ev) # out, acc'))))"

definition map_remove :: "env \<Rightarrow> jvalue list \<Rightarrow> jvalue shim_act" where
  "map_remove E args =
     bnd (arg args 0) (\<lambda>this.
     bnd (get_map E this) (\<lambda>es.
     bnd (arg args 1) (\<lambda>key.
     bnd (remove_loop E key (nth_opt args 2) (VNull, False) es) (\<lambda>(out, removed, did).
     bnd (put_map E this out) (\<lambda>_.
     ret (if nth_opt args 2 \<noteq> None then VInt (int_of_bool did) else removed))))))"

definition map_clear :: "env \<Rightarrow> jvalue list \<Rightarrow> jvalue shim_act" where
  "map_clear E args = bnd (arg args 0) (\<lambda>this. bnd (put_map E this []) (\<lambda>_. ret VNull))"

definition map_keys :: "env \<Rightarrow> jvalue list \<Rightarrow> jvalue shim_act" where
  "map_keys E args =
     bnd (arg args 0) (\<lambda>this. bnd (get_map E this) (\<lambda>es. set_alloc E (map fst es)))"

definition map_values :: "env \<Rightarrow> jvalue list \<Rightarrow> jvalue shim_act" where
  "map_values E args =
     bnd (arg args 0) (\<lambda>this. bnd (get_map E this) (\<lambda>es. set_alloc E (map snd es)))"

definition map_entries :: "env \<Rightarrow> jvalue list \<Rightarrow> jvalue shim_act" where
  "map_entries E args =
     bnd (arg args 0) (\<lambda>this.
     bnd (unwrap (as_obj this)) (\<lambda>map_id.
     bnd (get_map E (VObj map_id)) (\<lambda>es.
     bnd (amap (\<lambda>i. alloc_shim E ''Ljava/util/Map$Entry;'' (MapEntry map_id i)) [0..<length es]) (\<lambda>out.
     set_alloc E out))))"

section \<open>The natives of Map.Entry\<close>

text \<open>An entry is a position in the map it was taken from.\<close>

definition entry_at :: "env \<Rightarrow> jvalue \<Rightarrow> (u32 \<times> nat) shim_act" where
  "entry_at E v = bnd (the_payload v) (\<lambda>m. case m of Some (MapEntry mp i) \<Rightarrow> ret (mp, i) | _ \<Rightarrow> npe E)"

definition entry_get_key :: "env \<Rightarrow> jvalue list \<Rightarrow> jvalue shim_act" where
  "entry_get_key E args =
     bnd (arg args 0) (\<lambda>this.
     bnd (entry_at E this) (\<lambda>(mp, i).
     bnd (get_map E (VObj mp)) (\<lambda>es.
     ret (case nth_opt es i of Some (k, _) \<Rightarrow> k | None \<Rightarrow> VNull))))"

definition entry_get_value :: "env \<Rightarrow> jvalue list \<Rightarrow> jvalue shim_act" where
  "entry_get_value E args =
     bnd (arg args 0) (\<lambda>this.
     bnd (entry_at E this) (\<lambda>(mp, i).
     bnd (get_map E (VObj mp)) (\<lambda>es.
     ret (case nth_opt es i of Some (_, v) \<Rightarrow> v | None \<Rightarrow> VNull))))"

definition entry_set_value :: "env \<Rightarrow> jvalue list \<Rightarrow> jvalue shim_act" where
  "entry_set_value E args =
     bnd (arg args 0) (\<lambda>this.
     bnd (entry_at E this) (\<lambda>(mp, i).
     bnd (get_map E (VObj mp)) (\<lambda>es.
     bnd (arg args 1) (\<lambda>val.
     bnd (put_map E (VObj mp) (case nth_opt es i of Some (k, _) \<Rightarrow> es[i := (k, val)] | None \<Rightarrow> es)) (\<lambda>_.
     ret (case nth_opt es i of Some (_, v) \<Rightarrow> v | None \<Rightarrow> VNull))))))"

section \<open>The natives of HashSet\<close>

definition get_set :: "env \<Rightarrow> jvalue \<Rightarrow> jvalue list shim_act" where
  "get_set E v = bnd (the_payload v) (\<lambda>m. case m of Some (JSet xs) \<Rightarrow> ret xs | _ \<Rightarrow> npe E)"

definition with_set :: "env \<Rightarrow> jvalue \<Rightarrow> (jvalue list \<Rightarrow> jvalue list option) \<Rightarrow> unit shim_act" where
  "with_set E v f = bnd (payload_mut v) (\<lambda>m. case m of
     Some (i, JSet xs) \<Rightarrow> bnd (unwrap (f xs)) (\<lambda>ys. put_payload i (JSet ys))
   | _ \<Rightarrow> npe E)"

definition set_init :: "env \<Rightarrow> jvalue list \<Rightarrow> jvalue shim_act" where
  "set_init E args =
     bnd (init_elems E args) (\<lambda>items.
     bnd (arg args 0) (\<lambda>this.
     bnd (with_set E this (\<lambda>_. Some items)) (\<lambda>_. ret VNull)))"

definition set_size :: "env \<Rightarrow> jvalue list \<Rightarrow> jvalue shim_act" where
  "set_size E args = bnd (arg args 0) (\<lambda>this. bnd (get_set E this) (\<lambda>xs. ret (vlen xs)))"

definition set_is_empty :: "env \<Rightarrow> jvalue list \<Rightarrow> jvalue shim_act" where
  "set_is_empty E args =
     bnd (arg args 0) (\<lambda>this. bnd (get_set E this) (\<lambda>xs. ret (VInt (int_of_bool (xs = [])))))"

definition set_contains :: "env \<Rightarrow> jvalue list \<Rightarrow> jvalue shim_act" where
  "set_contains E args =
     bnd (arg args 1) (\<lambda>target.
     bnd (arg args 0) (\<lambda>this.
     bnd (get_set E this) (\<lambda>items.
     bnd (first_equal E target 0 items) (\<lambda>m. ret (VInt (int_of_bool (m \<noteq> None)))))))"

definition set_find :: "env \<Rightarrow> jvalue \<Rightarrow> jvalue list \<Rightarrow> nat option shim_act" where
  "set_find E v items = map_find E (map (\<lambda>x. (x, VNull)) items) v"

definition set_add :: "env \<Rightarrow> jvalue list \<Rightarrow> jvalue shim_act" where
  "set_add E args =
     bnd (arg args 1) (\<lambda>v.
     bnd (arg args 0) (\<lambda>this.
     bnd (get_set E this) (\<lambda>items.
     bnd (set_find E v items) (\<lambda>m.
     if m \<noteq> None then ret (VInt 0)
     else bnd (with_set E this (\<lambda>dst. Some (dst @ [v]))) (\<lambda>_. ret (VInt 1))))))"

definition set_remove :: "env \<Rightarrow> jvalue list \<Rightarrow> jvalue shim_act" where
  "set_remove E args =
     bnd (arg args 1) (\<lambda>target.
     bnd (arg args 0) (\<lambda>this.
     bnd (get_set E this) (\<lambda>items.
     bnd (first_equal E target 0 items) (\<lambda>m. case m of
       Some i \<Rightarrow>
         bnd (with_set E this (\<lambda>dst. if i < length dst then Some (remove_nth i dst) else None)) (\<lambda>_.
         ret (VInt 1))
     | None \<Rightarrow> ret (VInt 0)))))"

definition set_clear :: "env \<Rightarrow> jvalue list \<Rightarrow> jvalue shim_act" where
  "set_clear E args =
     bnd (arg args 0) (\<lambda>this. bnd (with_set E this (\<lambda>_. Some [])) (\<lambda>_. ret VNull))"

definition set_iterator :: "env \<Rightarrow> jvalue list \<Rightarrow> jvalue shim_act" where
  "set_iterator E args =
     bnd (arg args 0) (\<lambda>this. bnd (unwrap (as_obj this)) (\<lambda>l.
     alloc_shim E ''Ljava/util/Iterator;'' (Iter (IterSet l 0))))"

definition add_missing :: "env \<Rightarrow> jvalue list \<times> bool \<Rightarrow> jvalue \<Rightarrow> (jvalue list \<times> bool) shim_act" where
  "add_missing E acc v =
     bnd (set_find E v (fst acc)) (\<lambda>m. ret (if m \<noteq> None then acc else (fst acc @ [v], True)))"

definition set_add_all :: "env \<Rightarrow> jvalue list \<Rightarrow> jvalue shim_act" where
  "set_add_all E args =
     bnd (arg args 1) (\<lambda>c.
     bnd (coll_elems E c) (\<lambda>extra.
     bnd (arg args 0) (\<lambda>this.
     bnd (get_set E this) (\<lambda>items.
     bnd (afold (add_missing E) (items, False) extra) (\<lambda>(out, changed).
     bnd (with_set E this (\<lambda>_. Some out)) (\<lambda>_. ret (VInt (int_of_bool changed))))))))"

section \<open>A map is a finite map\<close>

text \<open>
  The operations of a guest map and the operations of a finite map. What a key stands for depends on
  the guest's \<open>equals\<close> and \<open>hashCode\<close>: the contract of a set \<open>K\<close> of keys is that both answer from the
  value \<open>key\<close> of the key. They may change the machine, but only within \<open>S es\<close>, the states in which
  the map \<open>v\<close> has the entries \<open>es\<close> and the contract goes on to hold.
\<close>

datatype map_op =
    MSize | MIsEmpty | MGet jvalue | MGetOr jvalue jvalue | MPut jvalue jvalue
  | MPutIfAbsent jvalue jvalue | MContains jvalue | MRemove jvalue | MClear

fun run_map_op :: "env \<Rightarrow> jvalue \<Rightarrow> map_op \<Rightarrow> jvalue shim_act" where
  "run_map_op E v MSize = map_size E [v]"
| "run_map_op E v MIsEmpty = map_is_empty E [v]"
| "run_map_op E v (MGet k) = map_get E [v, k]"
| "run_map_op E v (MGetOr k d) = map_get_default E [v, k, d]"
| "run_map_op E v (MPut k x) = map_put E [v, k, x]"
| "run_map_op E v (MPutIfAbsent k x) = map_put_if_absent E [v, k, x]"
| "run_map_op E v (MContains k) = map_contains_key E [v, k]"
| "run_map_op E v (MRemove k) = map_remove E [v, k]"
| "run_map_op E v MClear = map_clear E [v]"

fun op_keys :: "map_op \<Rightarrow> jvalue set" where
  "op_keys (MGet k) = {k}"
| "op_keys (MGetOr k _) = {k}"
| "op_keys (MPut k _) = {k}"
| "op_keys (MPutIfAbsent k _) = {k}"
| "op_keys (MContains k) = {k}"
| "op_keys (MRemove k) = {k}"
| "op_keys _ = {}"

definition or_null :: "jvalue option \<Rightarrow> jvalue" where
  "or_null m = (case m of Some x \<Rightarrow> x | None \<Rightarrow> VNull)"

fun fmap_op :: "(jvalue \<Rightarrow> 'k) \<Rightarrow> map_op \<Rightarrow> ('k \<rightharpoonup> jvalue) \<Rightarrow> jvalue \<times> ('k \<rightharpoonup> jvalue)" where
  "fmap_op key MSize m = (VInt (of_nat (card (dom m))), m)"
| "fmap_op key MIsEmpty m = (VInt (if m = Map.empty then 1 else 0), m)"
| "fmap_op key (MGet k) m = (or_null (m (key k)), m)"
| "fmap_op key (MGetOr k d) m = ((case m (key k) of Some x \<Rightarrow> x | None \<Rightarrow> d), m)"
| "fmap_op key (MPut k x) m = (or_null (m (key k)), m(key k \<mapsto> x))"
| "fmap_op key (MPutIfAbsent k x) m =
     (or_null (m (key k)), if m (key k) = None then m(key k \<mapsto> x) else m)"
| "fmap_op key (MContains k) m = (VInt (if m (key k) = None then 0 else 1), m)"
| "fmap_op key (MRemove k) m = (or_null (m (key k)), m(key k := None))"
| "fmap_op key MClear m = (VNull, Map.empty)"

fun fmap_ops :: "(jvalue \<Rightarrow> 'k) \<Rightarrow> map_op list \<Rightarrow> ('k \<rightharpoonup> jvalue) \<Rightarrow> jvalue list \<times> ('k \<rightharpoonup> jvalue)" where
  "fmap_ops key [] m = ([], m)"
| "fmap_ops key (op # ops) m =
     (case fmap_op key op m of (x, m') \<Rightarrow> case fmap_ops key ops m' of (xs, m'') \<Rightarrow> (x # xs, m''))"

text \<open>The finite map of a vector of entries, and the vectors that have one.\<close>

definition keyed :: "(jvalue \<Rightarrow> 'k) \<Rightarrow> (jvalue \<times> jvalue) list \<Rightarrow> ('k \<times> jvalue) list" where
  "keyed key es = map (\<lambda>(k, v). (key k, v)) es"

definition map_abs :: "(jvalue \<Rightarrow> 'k) \<Rightarrow> (jvalue \<times> jvalue) list \<Rightarrow> 'k \<rightharpoonup> jvalue" where
  "map_abs key es = map_of (keyed key es)"

definition wf_entries :: "(jvalue \<Rightarrow> 'k) \<Rightarrow> jvalue set \<Rightarrow> (jvalue \<times> jvalue) list \<Rightarrow> bool" where
  "wf_entries key K es \<longleftrightarrow> fst ` set es \<subseteq> K \<and> distinct (map fst (keyed key es))"

lemma keyed_simps [simp]:
  "keyed key [] = []" "keyed key (e # es) = (key (fst e), snd e) # keyed key es"
  "keyed key (es @ fs) = keyed key es @ keyed key fs" "length (keyed key es) = length es"
  by (auto simp: keyed_def split: prod.splits)

lemma map_abs_simps [simp]:
  "map_abs key [] = Map.empty"
  "map_abs key (e # es) = (map_abs key es)(key (fst e) \<mapsto> snd e)"
  by (simp_all add: map_abs_def)

lemma wf_entries_Cons [simp]:
  "wf_entries key K (e # es) \<longleftrightarrow>
     fst e \<in> K \<and> map_abs key es (key (fst e)) = None \<and> wf_entries key K es"
  by (auto simp: wf_entries_def map_abs_def map_of_eq_None_iff image_image)

lemma wf_entries_Nil [simp]: "wf_entries key K []"
  by (simp add: wf_entries_def)

lemma map_abs_snoc: "map_abs key (es @ [e]) = [key (fst e) \<mapsto> snd e] ++ map_abs key es"
  by (simp add: map_abs_def)

lemma finite_map_abs [simp]: "finite (dom (map_abs key es))"
  by (simp add: map_abs_def finite_dom_map_of)

lemma map_abs_card: "wf_entries key K es \<Longrightarrow> card (dom (map_abs key es)) = length es"
  by (induction es) (auto simp: domIff card_insert_if)

lemma map_abs_empty: "map_abs key es = Map.empty \<longleftrightarrow> es = []"
  by (cases es) auto

lemma get_map_bnd: "payload s v = Some (JMap es) \<Longrightarrow> bnd (get_map E v) f s = f es s"
  by (simp add: get_map_def the_payload_def bnd_def asks_def)

lemma put_map_bnd:
  "payload s v = Some (JMap es) \<Longrightarrow> bnd (put_map E v fs) k s = k () (with_payload v (JMap fs) s)"
  by (simp add: put_map_def bnd_def payload_mut_at put_payload_at)

locale hash_keys =
  fixes E :: env and v :: jvalue and K :: "jvalue set" and key :: "jvalue \<Rightarrow> 'k" and h :: "'k \<Rightarrow> i32"
    and S :: "(jvalue \<times> jvalue) list \<Rightarrow> vm \<Rightarrow> bool"
  assumes equals_run: "S es s \<Longrightarrow> a \<in> K \<Longrightarrow> b \<in> K \<Longrightarrow>
      \<exists>t. java_equals E a b s = (Ok (key a = key b), t) \<and> S es t"
    and hash_run: "S es s \<Longrightarrow> a \<in> K \<Longrightarrow> \<exists>t. java_hash E a s = (Ok (h (key a)), t) \<and> S es t"
    and holds: "S es s \<Longrightarrow> payload s v = Some (JMap es)"
    and updates: "S es s \<Longrightarrow> S fs (with_payload v (JMap fs) s)"
begin

lemma same_key_run:
  assumes "S fs s" and "a \<in> K" and "b \<in> K"
  shows "\<exists>t. same_key E (h (key b)) a b s = (Ok (key a = key b), t) \<and> S fs t"
proof -
  obtain t where t: "java_hash E a s = (Ok (h (key a)), t)" "S fs t"
    using hash_run [OF assms(1,2)] by blast
  then show ?thesis using equals_run [OF t(2) assms(2,3)]
    by (cases "h (key a) = h (key b)") (auto simp: same_key_def bnd_run ret_def)
qed

lemma find_from_run:
  assumes "k \<in> K"
  shows "S fs s \<Longrightarrow> fst ` set es \<subseteq> K \<Longrightarrow> \<exists>t. find_from E (h (key k)) k n es s =
    (Ok (position_from n (\<lambda>e. key (fst e) = key k) es), t) \<and> S fs t"
proof (induction es arbitrary: n s)
  case (Cons e es)
  obtain t where t: "same_key E (h (key k)) (fst e) k s = (Ok (key (fst e) = key k), t)" "S fs t"
    using same_key_run [OF Cons.prems(1) _ assms, of "fst e"] Cons.prems(2) by auto
  then show ?case using Cons.IH [OF t(2), of "n + 1"] Cons.prems(2) by (auto simp: bnd_run ret_def)
qed (simp add: ret_def)

lemma position_map_abs:
  "(case position_from n (\<lambda>e. key (fst e) = key k) es of Some i \<Rightarrow> Some (snd (es ! (i - n))) | None \<Rightarrow> None) =
     map_abs key es (key k)"
proof (induction es arbitrary: n)
  case (Cons e es)
  show ?case
  proof (cases "key (fst e) = key k")
    case False
    have "i - n = Suc (i - Suc n)" if "position_from (Suc n) (\<lambda>e. key (fst e) = key k) es = Some i" for i
      using that by (auto simp: position_from_Some_iff)
    then show ?thesis using False Cons.IH [of "Suc n"] by (auto split: option.splits)
  qed simp
qed simp

lemma map_find_run:
  assumes "S fs s" and "k \<in> K" and "wf_entries key K es"
  obtains t where "map_find E es k s = (Ok (position (\<lambda>e. key (fst e) = key k) es), t)" and "S fs t"
proof -
  obtain u where u: "java_hash E k s = (Ok (h (key k)), u)" "S fs u" using hash_run [OF assms(1,2)] by blast
  then show thesis using that find_from_run [OF assms(2) u(2), of es 0] assms(3)
    by (auto simp: map_find_def bnd_run wf_entries_def position_def)
qed

lemma found:
  "position (\<lambda>e. key (fst e) = key k) es = Some i \<Longrightarrow> nth_opt es i = Some (es ! i) \<and> map_abs key es (key k) = Some (snd (es ! i))"
  "position (\<lambda>e. key (fst e) = key k) es = None \<Longrightarrow> map_abs key es (key k) = None"
  using position_map_abs [where n = 0 and k = k and es = es] position_Some_iff
  by (fastforce simp: position_def)+

lemma wf_snoc:
  "wf_entries key K es \<Longrightarrow> k \<in> K \<Longrightarrow> map_abs key es (key k) = None \<Longrightarrow>
   wf_entries key K (es @ [(k, x)]) \<and> map_abs key (es @ [(k, x)]) = (map_abs key es)(key k \<mapsto> x)"
  by (induction es) (auto simp: map_abs_snoc map_add_def fun_eq_iff split: if_splits option.splits)

text \<open>The loops of \<open>put\<close> and \<open>remove\<close> on entries with distinct keys.\<close>

lemma put_loop_run:
  assumes "k \<in> K"
  shows "S fs s \<Longrightarrow> wf_entries key K es \<Longrightarrow> \<exists>t. put_loop E (h (key k)) k x acc es s =
    (Ok (map (\<lambda>e. if key (fst e) = key k then (fst e, x) else e) es,
         case map_abs key es (key k) of Some y \<Rightarrow> (y, True) | None \<Rightarrow> acc), t) \<and> S fs t"
proof (induction es arbitrary: acc s)
  case (Cons e es)
  obtain ek ev where e: "e = (ek, ev)" by (cases e)
  obtain t where t: "same_key E (h (key k)) ek k s = (Ok (key ek = key k), t)" "S fs t"
    using same_key_run [OF Cons.prems(1) _ assms, of ek] Cons.prems(2) e by auto
  obtain u where "put_loop E (h (key k)) k x (if key ek = key k then (ev, True) else acc) es t =
      (Ok (map (\<lambda>e. if key (fst e) = key k then (fst e, x) else e) es,
         case map_abs key es (key k) of Some y \<Rightarrow> (y, True)
         | None \<Rightarrow> if key ek = key k then (ev, True) else acc), u)" "S fs u"
    using Cons.IH [OF t(2), of "if key ek = key k then (ev, True) else acc"] Cons.prems(2) e by auto
  then show ?case using Cons.prems(2) t by (auto simp: e bnd_run ret_def split: option.splits)
qed (simp add: ret_def)

lemma put_map_abs:
  "wf_entries key K es \<Longrightarrow> map_abs key es (key k) \<noteq> None \<Longrightarrow>
   wf_entries key K (map (\<lambda>e. if key (fst e) = key k then (fst e, x) else e) es) \<and>
   map_abs key (map (\<lambda>e. if key (fst e) = key k then (fst e, x) else e) es) = (map_abs key es)(key k \<mapsto> x)"
proof (induction es)
  case (Cons e es)
  have same: "map (\<lambda>e. if key (fst e) = key k then (fst e, x) else e) es = es"
    if "map_abs key es (key k) = None" for es
    using that by (induction es) (auto split: if_splits)
  show ?case
    using Cons same [of es] by (cases "map_abs key es (key k) = None") (auto simp: fun_eq_iff split: if_splits)
qed simp

lemma remove_test_run:
  assumes "S fs s" and "a \<in> K" and "k \<in> K"
  shows "\<exists>t. remove_test E k did a s = (Ok (\<not> did \<and> key a = key k), t) \<and> S fs t"
proof (cases did)
  case False
  obtain t where t: "java_hash E a s = (Ok (h (key a)), t)" "S fs t" using hash_run [OF assms(1,2)] by blast
  obtain u where u: "java_hash E k t = (Ok (h (key k)), u)" "S fs u" using hash_run [OF t(2) assms(3)] by blast
  show ?thesis using t u False equals_run [OF u(2) assms(2,3)]
    by (cases "h (key a) = h (key k)") (auto simp: remove_test_def bnd_run ret_def)
qed (use assms(1) in \<open>simp add: remove_test_def ret_def\<close>)

lemma remove_loop_done:
  "remove_loop E k None (x, True) es s = (Ok (es, x, True), s)"
proof (induction es)
  case (Cons e es)
  then show ?case by (cases e) (simp add: bnd_def remove_test_def ret_def)
qed (simp add: ret_def)

lemma remove_loop_run:
  assumes "k \<in> K"
  shows "S fs s \<Longrightarrow> wf_entries key K es \<Longrightarrow> \<exists>t. remove_loop E k None (VNull, False) es s =
    (Ok (filter (\<lambda>e. key (fst e) \<noteq> key k) es,
         case map_abs key es (key k) of Some x \<Rightarrow> (x, True) | None \<Rightarrow> (VNull, False)), t) \<and> S fs t"
proof (induction es arbitrary: s)
  case (Cons e es)
  obtain ek ev where e: "e = (ek, ev)" by (cases e)
  obtain t where t: "remove_test E k False ek s = (Ok (key ek = key k), t)" "S fs t"
    using remove_test_run [OF Cons.prems(1) _ assms, of ek False] Cons.prems(2) e by auto
  have same: "filter (\<lambda>e. key (fst e) \<noteq> key k) es = es" if "map_abs key es (key k) = None"
    using that by (induction es) (auto split: if_splits)
  show ?case
  proof (cases "key ek = key k")
    case True
    then show ?thesis using t Cons.prems(2) same
      by (auto simp: e bnd_run ret_def remove_loop_done)
  next
    case False
    obtain u where "remove_loop E k None (VNull, False) es t =
        (Ok (filter (\<lambda>e. key (fst e) \<noteq> key k) es,
           case map_abs key es (key k) of Some x \<Rightarrow> (x, True) | None \<Rightarrow> (VNull, False)), u)" "S fs u"
      using Cons.IH [OF t(2)] Cons.prems(2) by auto
    then show ?thesis using t False by (auto simp: e bnd_run ret_def split: option.splits)
  qed
qed (simp add: ret_def)

lemma remove_map_abs:
  "wf_entries key K es \<Longrightarrow>
   wf_entries key K (filter (\<lambda>e. key (fst e) \<noteq> key k) es) \<and>
   map_abs key (filter (\<lambda>e. key (fst e) \<noteq> key k) es) = (map_abs key es)(key k := None)"
proof (induction es)
  case (Cons e es)
  then show ?case by (auto simp: fun_eq_iff split: if_splits)
qed (simp add: fun_eq_iff)

lemma map_op_step:
  assumes st: "S es s" and wf: "wf_entries key K es" and keys: "op_keys op \<subseteq> K"
  shows "\<exists>es' t. run_map_op E v op s = (Ok (fst (fmap_op key op (map_abs key es))), t) \<and> S es' t \<and>
    wf_entries key K es' \<and> map_abs key es' = snd (fmap_op key op (map_abs key es))"
proof -
  note sim = get_map_bnd [OF holds [OF st]] bnd_assoc_run bnd_run or_null_def ret_def
  show ?thesis
  proof (cases op)
    case MSize
    then show ?thesis using wf st
      by (intro exI [of _ es] exI [of _ s]) (simp add: map_size_def sim vlen_def map_abs_card)
  next
    case MIsEmpty
    then show ?thesis using wf st
      by (intro exI [of _ es] exI [of _ s]) (simp add: map_is_empty_def sim int_of_bool_def map_abs_empty)
  next
    case (MGet k)
    obtain t where t: "map_find E es k s = (Ok (position (\<lambda>e. key (fst e) = key k) es), t)" "S es t"
      using map_find_run [OF st _ wf, of k] keys MGet by auto
    then show ?thesis using MGet wf found [of k es]
      by (intro exI [of _ es] exI [of _ t])
        (auto simp: map_get_def sim unwrap_def split: option.splits)
  next
    case (MGetOr k d)
    obtain t where t: "map_find E es k s = (Ok (position (\<lambda>e. key (fst e) = key k) es), t)" "S es t"
      using map_find_run [OF st _ wf, of k] keys MGetOr by auto
    then show ?thesis using MGetOr wf found [of k es]
      by (intro exI [of _ es] exI [of _ t])
        (auto simp: map_get_default_def sim unwrap_def split: option.splits)
  next
    case (MContains k)
    obtain t where t: "map_find E es k s = (Ok (position (\<lambda>e. key (fst e) = key k) es), t)" "S es t"
      using map_find_run [OF st _ wf, of k] keys MContains by auto
    then show ?thesis using MContains wf found [of k es]
      by (intro exI [of _ es] exI [of _ t])
        (auto simp: map_contains_key_def sim int_of_bool_def split: option.splits)
  next
    case (MPutIfAbsent k x)
    then have k: "k \<in> K" using keys by simp
    obtain t where t: "map_find E es k s = (Ok (position (\<lambda>e. key (fst e) = key k) es), t)" "S es t"
      using map_find_run [OF st k wf] by auto
    show ?thesis
    proof (cases "position (\<lambda>e. key (fst e) = key k) es")
      case None
      then show ?thesis using MPutIfAbsent found(2) [of k es] wf_snoc [OF wf k, of x] t updates [OF t(2)]
        by (intro exI [of _ "es @ [(k, x)]"] exI [of _ "with_payload v (JMap (es @ [(k, x)])) t"])
          (simp add: map_put_if_absent_def sim put_map_bnd [OF holds [OF t(2)]])
    next
      case (Some i)
      then show ?thesis using MPutIfAbsent found(1) [of k es i] wf t
        by (intro exI [of _ es] exI [of _ t])
          (auto simp: map_put_if_absent_def sim unwrap_def nth_opt_def)
    qed
  next
    case (MPut k x)
    then have k: "k \<in> K" using keys by simp
    let ?put = "map (\<lambda>e. if key (fst e) = key k then (fst e, x) else e) es"
    obtain t where t: "java_hash E k s = (Ok (h (key k)), t)" "S es t" using hash_run [OF st k] by auto
    obtain u where u: "put_loop E (h (key k)) k x (VNull, False) es t = (Ok (?put,
        case map_abs key es (key k) of Some y \<Rightarrow> (y, True) | None \<Rightarrow> (VNull, False)), u)" "S es u"
      using put_loop_run [OF k t(2) wf] by blast
    note put = put_map_bnd [OF holds [OF u(2)]]
    show ?thesis
    proof (cases "map_abs key es (key k)")
      case None
      then have "?put = es" by (induction es) (auto split: if_splits)
      then show ?thesis using MPut None wf_snoc [OF wf k None, of x] t u updates [OF u(2)]
        by (intro exI [of _ "es @ [(k, x)]"] exI [of _ "with_payload v (JMap (es @ [(k, x)])) u"])
          (simp add: map_put_def sim put)
    next
      case (Some y)
      then show ?thesis using MPut put_map_abs [OF wf, of k x] t u updates [OF u(2)]
        by (intro exI [of _ ?put] exI [of _ "with_payload v (JMap ?put) u"])
          (simp add: map_put_def sim put)
    qed
  next
    case (MRemove k)
    then have k: "k \<in> K" using keys by simp
    let ?out = "filter (\<lambda>e. key (fst e) \<noteq> key k) es"
    obtain t where t: "remove_loop E k None (VNull, False) es s = (Ok (?out,
        case map_abs key es (key k) of Some x \<Rightarrow> (x, True) | None \<Rightarrow> (VNull, False)), t)" "S es t"
      using remove_loop_run [OF k st wf] by blast
    have "nth_opt [v, k] 2 = None" by simp
    then show ?thesis using MRemove remove_map_abs [OF wf, of k] t updates [OF t(2)]
      by (intro exI [of _ ?out] exI [of _ "with_payload v (JMap ?out) t"])
        (simp add: map_remove_def sim put_map_bnd [OF holds [OF t(2)]] del: nth_opt_None_iff split: option.splits)
  next
    case MClear
    then show ?thesis using updates [OF st]
      by (intro exI [of _ "[]"] exI [of _ "with_payload v (JMap []) s"])
        (simp add: map_clear_def sim put_map_bnd [OF holds [OF st]])
  qed
qed

lemma map_ops_run:
  assumes "S es s" and "wf_entries key K es" and "\<forall>op \<in> set ops. op_keys op \<subseteq> K"
  shows "\<exists>es' t. amap (run_map_op E v) ops s = (Ok (fst (fmap_ops key ops (map_abs key es))), t) \<and> S es' t \<and>
    wf_entries key K es' \<and> map_abs key es' = snd (fmap_ops key ops (map_abs key es))"
  using assms
proof (induction ops arbitrary: s es)
  case Nil
  then show ?case by (intro exI [of _ es] exI [of _ s]) simp
next
  case (Cons op ops)
  obtain fs t where step: "run_map_op E v op s = (Ok (fst (fmap_op key op (map_abs key es))), t)" "S fs t"
    and wf: "wf_entries key K fs" and fs: "map_abs key fs = snd (fmap_op key op (map_abs key es))"
    using map_op_step [OF Cons.prems(1,2), of op] Cons.prems(3) by auto
  obtain gs u where "amap (run_map_op E v) ops t = (Ok (fst (fmap_ops key ops (map_abs key fs))), u)"
    and "S gs u" "wf_entries key K gs" "map_abs key gs = snd (fmap_ops key ops (map_abs key fs))"
    using Cons.IH [OF step(2) wf] Cons.prems(3) by auto
  then show ?case using step fs
    by (intro exI [of _ gs] exI [of _ u]) (simp add: bnd_run split: prod.splits)
qed

end

text \<open>Null and the unboxed ints answer for themselves.\<close>

definition int_keys :: "jvalue set" where
  "int_keys = {k. case k of VNull \<Rightarrow> True | VInt _ \<Rightarrow> True | _ \<Rightarrow> False}"

text \<open>The machine \<open>s0\<close> with the entries of a map replaced, and nothing else changed.\<close>

definition only_entries :: "jvalue \<Rightarrow> vm \<Rightarrow> (jvalue \<times> jvalue) list \<Rightarrow> vm \<Rightarrow> bool" where
  "only_entries v s0 es s \<longleftrightarrow>
     (\<exists>es0. payload s0 v = Some (JMap es0)) \<and> s = with_payload v (JMap es) s0"

lemma only_entries_simps:
  "only_entries v s0 es s \<Longrightarrow> payload s v = Some (JMap es)"
  "only_entries v s0 es s \<Longrightarrow> only_entries v s0 fs (with_payload v (JMap fs) s)"
  "payload s v = Some (JMap es) \<Longrightarrow> only_entries v s es s"
  by (auto simp: only_entries_def with_payload_same)

interpretation int_map: hash_keys E v int_keys id "\<lambda>k. case k of VInt i \<Rightarrow> i | _ \<Rightarrow> 0" "only_entries v s0" for E v s0
  by unfold_locales (auto simp: int_keys_def java_equals_def java_hash_def ret_def only_entries_simps
      split: jvalue.splits)

text \<open>
  A set is made from a collection without looking for duplicates, although \<open>add\<close> never makes one.
\<close>

definition pair_vm :: "native \<Rightarrow> native \<Rightarrow> vm" where
  "pair_vm m n = (vm_empty [])\<lparr>heap := \<lparr>objects =
     [\<lparr>obj_class = 0, obj_fields = [], obj_native = Some m\<rparr>,
      \<lparr>obj_class = 0, obj_fields = [], obj_native = Some n\<rparr>], free_ids = []\<rparr>\<rparr>"

lemma pair_vm_payload [simp]:
  "payload (pair_vm m n) (VObj 0) = Some m" "payload (pair_vm m n) (VObj 1) = Some n"
  by (simp_all add: pair_vm_def payload_def arena_get_def nth_opt_def)

theorem set_of_duplicates:
  "bnd (set_init E [VObj 0, VObj 1]) (\<lambda>_. set_size E [VObj 0]) (pair_vm (JSet []) (JList [VInt 5, VInt 5])) =
     (Ok (VInt 2), with_payload (VObj 0) (JSet [VInt 5, VInt 5]) (pair_vm (JSet []) (JList [VInt 5, VInt 5])))"
  by (simp add: set_init_def init_elems_def nth_opt_def coll_elems_def the_payload_def with_set_def
      bnd_assoc_run unwrap_def set_size_def get_set_def vlen_def bnd_def payload_mut_at put_payload_obj asks_def)

end
