(* ===== verification/Numbers.thy ===== *)
theory Numbers
  imports Shims
begin

text \<open>
  The number classes \<open>Integer\<close>, \<open>Long\<close>, \<open>Short\<close> and \<open>Byte\<close> (\<open>vm/native/java/lang/integer.rs\<close>,
  \<open>long.rs\<close>, \<open>short.rs\<close>, \<open>byte.rs\<close>) and the texts of numbers (\<open>vm/native/mod.rs\<close>). A string is
  its bytes. Shown: a number read back from its text is the number, in every radix; parsing
  accepts exactly the numerals whose value fits; and where the shims leave Java.
\<close>

section \<open>Texts of numbers\<close>

text \<open>The loop of \<open>int_to_string\<close>, whose radix is at least 2: the digits, lowest first.\<close>

function radix_digits :: "nat \<Rightarrow> nat \<Rightarrow> nat list" where
  "radix_digits r u = (if u = 0 \<or> r < 2 then [] else u mod r # radix_digits r (u div r))"
  by auto
termination by (relation "measure snd") (auto intro: div_less_dividend)

declare radix_digits.simps [simp del]

definition wrapping_abs :: "'a::len word \<Rightarrow> 'a word" where
  "wrapping_abs v = (if sint v < 0 then - v else v)"

definition clamp_radix :: "u32 \<Rightarrow> nat" where
  "clamp_radix r = max 2 (min 36 (unat r))"

definition signed_text :: "nat \<Rightarrow> 'a::len word \<Rightarrow> string" where
  "signed_text r v =
     (if v = 0 then ''0''
      else rev (map digit_char (radix_digits r (unat (wrapping_abs v))) @
                (if sint v < 0 then ''-'' else [])))"

definition int_to_string :: "i32 \<Rightarrow> u32 \<Rightarrow> string" where
  "int_to_string v radix = signed_text (clamp_radix radix) v"

definition long_to_string_help :: "i64 \<Rightarrow> u32 \<Rightarrow> string" where
  "long_to_string_help v radix = signed_text (clamp_radix radix) v"

text \<open>The formats \<open>{:x}\<close>, \<open>{:o}\<close> and \<open>{:b}\<close>.\<close>

definition unsigned_text :: "nat \<Rightarrow> 'a::len word \<Rightarrow> string" where
  "unsigned_text r v = (if v = 0 then ''0'' else rev (map digit_char (radix_digits r (unat v))))"

text \<open>\<open>char::to_digit\<close> and \<open>from_str_radix\<close> for the integers from \<open>lo\<close> to \<open>hi\<close>.\<close>

definition to_digit :: "nat \<Rightarrow> char \<Rightarrow> nat option" where
  "to_digit r c =
     (let k = of_char c;
          d = (if 48 \<le> k \<and> k \<le> 57 then k - 48
               else if 97 \<le> k \<and> k \<le> 122 then k - 87
               else if 65 \<le> k \<and> k \<le> 90 then k - 55 else 36 :: nat)
      in if d < r then Some d else None)"

definition checked :: "int \<Rightarrow> int \<Rightarrow> int \<Rightarrow> int option" where
  "checked lo hi x = (if lo \<le> x \<and> x \<le> hi then Some x else None)"

fun from_digits :: "int \<Rightarrow> int \<Rightarrow> bool \<Rightarrow> nat \<Rightarrow> int \<Rightarrow> string \<Rightarrow> int option" where
  "from_digits lo hi up r acc [] = Some acc"
| "from_digits lo hi up r acc (c # cs) =
     (case (checked lo hi (acc * int r), to_digit r c) of
        (Some m, Some d) \<Rightarrow>
          (case checked lo hi (if up then m + int d else m - int d) of
             Some a \<Rightarrow> from_digits lo hi up r a cs
           | None \<Rightarrow> None)
      | _ \<Rightarrow> None)"

definition from_str_radix :: "int \<Rightarrow> int \<Rightarrow> nat \<Rightarrow> string \<Rightarrow> int option" where
  "from_str_radix lo hi r s =
     (case s of
        [] \<Rightarrow> None
      | c # cs \<Rightarrow>
          if c = CHR ''+'' \<or> c = CHR ''-'' then
            (if cs = [] then None else from_digits lo hi (c = CHR ''+'') r 0 cs)
          else from_digits lo hi True r 0 s)"

definition nfe :: "env \<Rightarrow> string \<Rightarrow> 'a shim_act" where
  "nfe E m = throw E ''Ljava/lang/NumberFormatException;'' m"

definition bad_radix :: "u32 \<Rightarrow> string" where
  "bad_radix r = ''radix '' @ show_nat (unat r) @ '' out of range''"

definition bad_number :: "string \<Rightarrow> string" where
  "bad_number s = ''For input string: '' @ [CHR 0x22] @ s @ [CHR 0x22]"

definition radix_ok :: "u32 \<Rightarrow> bool" where
  "radix_ok r \<longleftrightarrow> 2 \<le> unat r \<and> unat r \<le> 36"

definition parse_int_radix :: "env \<Rightarrow> string \<Rightarrow> u32 \<Rightarrow> i32 shim_act" where
  "parse_int_radix E s r =
     (if \<not> radix_ok r then nfe E (bad_radix r)
      else case from_str_radix (- (2 ^ 31)) (2 ^ 31 - 1) (unat r) s of
        Some x \<Rightarrow> ret (word_of_int x)
      | None \<Rightarrow> nfe E (bad_number s))"

definition parse_long_radix :: "env \<Rightarrow> string \<Rightarrow> u32 \<Rightarrow> i64 shim_act" where
  "parse_long_radix E s r =
     (if \<not> radix_ok r then nfe E (bad_radix r)
      else case from_str_radix (- (2 ^ 63)) (2 ^ 63 - 1) (unat r) s of
        Some x \<Rightarrow> ret (word_of_int x)
      | None \<Rightarrow> nfe E (bad_number s))"

section \<open>Strings and boxes\<close>

definition jstr :: "env \<Rightarrow> jvalue \<Rightarrow> string shim_act" where
  "jstr E v = bnd (the_payload v) (\<lambda>m. case m of Some (Str s) \<Rightarrow> ret s | _ \<Rightarrow> npe E)"

definition new_str :: "string \<Rightarrow> jvalue shim_act" where
  "new_str s = via (alloc_string s)"

definition box_int_value :: "env \<Rightarrow> string \<Rightarrow> jvalue \<Rightarrow> jvalue shim_act" where
  "box_int_value E desc v =
     bnd (asks (\<lambda>s. int_of s v)) (\<lambda>n.
     if desc = ''Ljava/lang/Integer;'' then alloc_shim E desc (IntBox n)
     else if desc = ''Ljava/lang/Short;'' then alloc_shim E desc (ShortBox (ucast n))
     else if desc = ''Ljava/lang/Byte;'' then alloc_shim E desc (ByteBox (ucast n))
     else if desc = ''Ljava/lang/Character;'' then alloc_shim E desc (CharBox (ucast n))
     else iae E ''bad box class'')"

definition int_fun :: "(i32 \<Rightarrow> jvalue) \<Rightarrow> jvalue list \<Rightarrow> jvalue shim_act" where
  "int_fun f args = bnd (arg_int args 0) (\<lambda>n. ret (f n))"

definition int_fun2 :: "(i32 \<Rightarrow> i32 \<Rightarrow> jvalue) \<Rightarrow> jvalue list \<Rightarrow> jvalue shim_act" where
  "int_fun2 f args = bnd (arg_int args 0) (\<lambda>a. bnd (arg_int args 1) (\<lambda>b. ret (f a b)))"

definition long_fun :: "(i64 \<Rightarrow> jvalue) \<Rightarrow> jvalue list \<Rightarrow> jvalue shim_act" where
  "long_fun f args = bnd (arg_long args 0) (\<lambda>n. ret (f n))"

definition long_fun2 :: "(i64 \<Rightarrow> i64 \<Rightarrow> jvalue) \<Rightarrow> jvalue list \<Rightarrow> jvalue shim_act" where
  "long_fun2 f args = bnd (arg_long args 0) (\<lambda>a. bnd (arg_long args 1) (\<lambda>b. ret (f a b)))"

text \<open>\<open>Ord::cmp\<close> as a number.\<close>

definition cmp :: "int \<Rightarrow> int \<Rightarrow> i32" where
  "cmp a b = (if a < b then - 1 else if a = b then 0 else 1)"

definition count_ones :: "'a::len word \<Rightarrow> nat" where
  "count_ones v = length (filter (bit v) [0..<LENGTH('a)])"

definition leading_zeros :: "'a::len word \<Rightarrow> nat" where
  "leading_zeros v = length (takeWhile (\<lambda>i. \<not> bit v i) (rev [0..<LENGTH('a)]))"

definition radix_arg :: "jvalue list \<Rightarrow> u32 shim_act" where
  "radix_arg args = (if length args > 1 then arg_int args 1 else ret 10)"

section \<open>Integer\<close>

definition integer_value_of :: "env \<Rightarrow> jvalue list \<Rightarrow> jvalue shim_act" where
  "integer_value_of E args = bnd (arg args 0) (box_int_value E ''Ljava/lang/Integer;'')"

definition integer_value_of_str :: "env \<Rightarrow> jvalue list \<Rightarrow> jvalue shim_act" where
  "integer_value_of_str E args =
     bnd (arg args 0) (\<lambda>v. bnd (jstr E v) (\<lambda>s. bnd (parse_int_radix E s 10) (\<lambda>n.
     box_int_value E ''Ljava/lang/Integer;'' (VInt n))))"

definition integer_int_value :: "jvalue list \<Rightarrow> jvalue shim_act" where
  "integer_int_value = int_fun VInt"

definition integer_long_value :: "jvalue list \<Rightarrow> jvalue shim_act" where
  "integer_long_value = int_fun (\<lambda>n. VLong (scast n))"

definition integer_float_value :: "jvalue list \<Rightarrow> jvalue shim_act" where
  "integer_float_value = int_fun (\<lambda>n. VFloat (i32_to_f32 n))"

definition integer_double_value :: "jvalue list \<Rightarrow> jvalue shim_act" where
  "integer_double_value = int_fun (\<lambda>n. VDouble (i32_to_f64 n))"

definition integer_byte_value :: "jvalue list \<Rightarrow> jvalue shim_act" where
  "integer_byte_value = int_fun (\<lambda>n. VInt (scast (ucast n :: i8)))"

definition integer_short_value :: "jvalue list \<Rightarrow> jvalue shim_act" where
  "integer_short_value = int_fun (\<lambda>n. VInt (scast (ucast n :: i16)))"

definition integer_equals :: "jvalue list \<Rightarrow> jvalue shim_act" where
  "integer_equals = int_fun2 (\<lambda>a b. VInt (int_of_bool (a = b)))"

definition integer_hash_code :: "jvalue list \<Rightarrow> jvalue shim_act" where
  "integer_hash_code = int_fun VInt"

definition integer_to_string :: "jvalue list \<Rightarrow> jvalue shim_act" where
  "integer_to_string args = bnd (arg_int args 0) (\<lambda>n. new_str (show_int (sint n)))"

definition integer_compare_to :: "jvalue list \<Rightarrow> jvalue shim_act" where
  "integer_compare_to = int_fun2 (\<lambda>a b. VInt (cmp (sint a) (sint b)))"

definition integer_to_string_static :: "jvalue list \<Rightarrow> jvalue shim_act" where
  "integer_to_string_static args = bnd (arg_int args 0) (\<lambda>n. new_str (int_to_string n 10))"

definition integer_to_string_radix :: "jvalue list \<Rightarrow> jvalue shim_act" where
  "integer_to_string_radix args =
     bnd (arg_int args 0) (\<lambda>n. bnd (arg_int args 1) (\<lambda>r. new_str (int_to_string n r)))"

definition integer_parse_int :: "env \<Rightarrow> jvalue list \<Rightarrow> jvalue shim_act" where
  "integer_parse_int E args =
     bnd (arg args 0) (\<lambda>v. bnd (jstr E v) (\<lambda>s. bnd (radix_arg args) (\<lambda>r.
     bnd (parse_int_radix E s r) (\<lambda>n. ret (VInt n)))))"

definition integer_to_hex :: "jvalue list \<Rightarrow> jvalue shim_act" where
  "integer_to_hex args = bnd (arg_int args 0) (\<lambda>n. new_str (unsigned_text 16 n))"

definition integer_to_binary :: "jvalue list \<Rightarrow> jvalue shim_act" where
  "integer_to_binary args = bnd (arg_int args 0) (\<lambda>n. new_str (unsigned_text 2 n))"

definition integer_to_octal :: "jvalue list \<Rightarrow> jvalue shim_act" where
  "integer_to_octal args = bnd (arg_int args 0) (\<lambda>n. new_str (unsigned_text 8 n))"

definition integer_compare :: "jvalue list \<Rightarrow> jvalue shim_act" where
  "integer_compare = int_fun2 (\<lambda>a b. VInt (cmp (sint a) (sint b)))"

definition integer_bit_count :: "jvalue list \<Rightarrow> jvalue shim_act" where
  "integer_bit_count = int_fun (\<lambda>n. VInt (of_nat (count_ones n)))"

definition highest_one_bit :: "i32 \<Rightarrow> i32" where
  "highest_one_bit v = (if v = 0 then 0 else push_bit (31 - leading_zeros v) 1)"

definition integer_highest_one_bit :: "jvalue list \<Rightarrow> jvalue shim_act" where
  "integer_highest_one_bit = int_fun (\<lambda>n. VInt (highest_one_bit n))"

definition integer_signum :: "jvalue list \<Rightarrow> jvalue shim_act" where
  "integer_signum = int_fun (\<lambda>n. VInt (word_of_int (sgn (sint n))))"

definition integer_compare_unsigned :: "jvalue list \<Rightarrow> jvalue shim_act" where
  "integer_compare_unsigned = int_fun2 (\<lambda>a b. VInt (cmp (uint a) (uint b)))"

text \<open>A zero divisor is a panic of the host.\<close>

definition integer_remainder_unsigned :: "jvalue list \<Rightarrow> jvalue shim_act" where
  "integer_remainder_unsigned args =
     bnd (arg_int args 0) (\<lambda>a. bnd (arg_int args 1) (\<lambda>b.
     if b = 0 then panic else ret (VInt (a mod b))))"

definition integer_divide_unsigned :: "jvalue list \<Rightarrow> jvalue shim_act" where
  "integer_divide_unsigned args =
     bnd (arg_int args 0) (\<lambda>a. bnd (arg_int args 1) (\<lambda>b.
     if b = 0 then panic else ret (VInt (a div b))))"

definition integer_rotate_left :: "jvalue list \<Rightarrow> jvalue shim_act" where
  "integer_rotate_left = int_fun2 (\<lambda>v d. VInt (word_rotl (nat (sint d mod 32)) v))"

definition integer_rotate_right :: "jvalue list \<Rightarrow> jvalue shim_act" where
  "integer_rotate_right = int_fun2 (\<lambda>v d. VInt (word_rotr (nat (sint d mod 32)) v))"

definition integer_to_unsigned_string :: "jvalue list \<Rightarrow> jvalue shim_act" where
  "integer_to_unsigned_string args = bnd (arg_int args 0) (\<lambda>n. new_str (show_nat (unat n)))"

definition integer_to_unsigned_long :: "jvalue list \<Rightarrow> jvalue shim_act" where
  "integer_to_unsigned_long = int_fun (\<lambda>n. VLong (ucast n))"

section \<open>Short and Byte\<close>

definition byte_value_of :: "env \<Rightarrow> jvalue list \<Rightarrow> jvalue shim_act" where
  "byte_value_of E args = bnd (arg args 0) (box_int_value E ''Ljava/lang/Byte;'')"

definition short_value_of :: "env \<Rightarrow> jvalue list \<Rightarrow> jvalue shim_act" where
  "short_value_of E args = bnd (arg args 0) (box_int_value E ''Ljava/lang/Short;'')"

definition parse_narrow :: "int \<Rightarrow> int \<Rightarrow> env \<Rightarrow> jvalue list \<Rightarrow> jvalue shim_act" where
  "parse_narrow lo hi E args =
     bnd (arg args 0) (\<lambda>v. bnd (jstr E v) (\<lambda>s. bnd (radix_arg args) (\<lambda>r.
     bnd (parse_int_radix E s r) (\<lambda>n.
     if sint n < lo \<or> hi < sint n
     then nfe E (''Value out of range: '' @ [CHR 0x22] @ s @ [CHR 0x22])
     else ret (VInt n)))))"

definition byte_parse_byte :: "env \<Rightarrow> jvalue list \<Rightarrow> jvalue shim_act" where
  "byte_parse_byte = parse_narrow (- 128) 127"

definition short_parse_short :: "env \<Rightarrow> jvalue list \<Rightarrow> jvalue shim_act" where
  "short_parse_short = parse_narrow (- 32768) 32767"

definition byte_to_string :: "jvalue list \<Rightarrow> jvalue shim_act" where
  "byte_to_string args = bnd (arg_int args 0) (\<lambda>n. new_str (show_int (sint n)))"

definition short_to_string :: "jvalue list \<Rightarrow> jvalue shim_act" where
  "short_to_string args = bnd (arg_int args 0) (\<lambda>n. new_str (show_int (sint n)))"

definition byte_compare_to :: "jvalue list \<Rightarrow> jvalue shim_act" where
  "byte_compare_to = int_fun2 (\<lambda>a b. VInt (cmp (sint a) (sint b)))"

definition short_compare_to :: "jvalue list \<Rightarrow> jvalue shim_act" where
  "short_compare_to = int_fun2 (\<lambda>a b. VInt (cmp (sint a) (sint b)))"

section \<open>Long\<close>

definition long_value_of :: "env \<Rightarrow> jvalue list \<Rightarrow> jvalue shim_act" where
  "long_value_of E args =
     bnd (arg_long args 0) (\<lambda>n. alloc_shim E ''Ljava/lang/Long;'' (LongBox n))"

definition long_value_of_str :: "env \<Rightarrow> jvalue list \<Rightarrow> jvalue shim_act" where
  "long_value_of_str E args =
     bnd (arg args 0) (\<lambda>v. bnd (jstr E v) (\<lambda>s. bnd (parse_long_radix E s 10) (\<lambda>n.
     alloc_shim E ''Ljava/lang/Long;'' (LongBox n))))"

definition long_int_value :: "jvalue list \<Rightarrow> jvalue shim_act" where
  "long_int_value = long_fun (\<lambda>n. VInt (ucast n))"

definition long_long_value :: "jvalue list \<Rightarrow> jvalue shim_act" where
  "long_long_value = long_fun VLong"

definition long_float_value :: "jvalue list \<Rightarrow> jvalue shim_act" where
  "long_float_value = long_fun (\<lambda>n. VFloat (i64_to_f32 n))"

definition long_double_value :: "jvalue list \<Rightarrow> jvalue shim_act" where
  "long_double_value = long_fun (\<lambda>n. VDouble (i64_to_f64 n))"

definition long_byte_value :: "jvalue list \<Rightarrow> jvalue shim_act" where
  "long_byte_value = long_fun (\<lambda>n. VInt (scast (ucast n :: i8)))"

definition long_short_value :: "jvalue list \<Rightarrow> jvalue shim_act" where
  "long_short_value = long_fun (\<lambda>n. VInt (scast (ucast n :: i16)))"

definition long_equals :: "jvalue list \<Rightarrow> jvalue shim_act" where
  "long_equals = long_fun2 (\<lambda>a b. VInt (int_of_bool (a = b)))"

definition long_hash_code :: "jvalue list \<Rightarrow> jvalue shim_act" where
  "long_hash_code = long_fun (\<lambda>l. VInt (ucast (l XOR signed_drop_bit 32 l)))"

definition long_rotate :: "(nat \<Rightarrow> u64 \<Rightarrow> u64) \<Rightarrow> jvalue list \<Rightarrow> jvalue shim_act" where
  "long_rotate rot args =
     bnd (arg_long args 0) (\<lambda>v. bnd (arg_int args 1) (\<lambda>d.
     ret (VLong (rot (nat (sint d mod 64)) v))))"

definition long_rotate_left :: "jvalue list \<Rightarrow> jvalue shim_act" where
  "long_rotate_left = long_rotate word_rotl"

definition long_rotate_right :: "jvalue list \<Rightarrow> jvalue shim_act" where
  "long_rotate_right = long_rotate word_rotr"

definition long_to_string :: "jvalue list \<Rightarrow> jvalue shim_act" where
  "long_to_string args = bnd (arg_long args 0) (\<lambda>n. new_str (show_int (sint n)))"

definition long_to_string_static :: "jvalue list \<Rightarrow> jvalue shim_act" where
  "long_to_string_static args = bnd (arg_long args 0) (\<lambda>n. new_str (long_to_string_help n 10))"

definition long_to_string_radix :: "jvalue list \<Rightarrow> jvalue shim_act" where
  "long_to_string_radix args =
     bnd (arg_long args 0) (\<lambda>n. bnd (arg_int args 1) (\<lambda>r. new_str (long_to_string_help n r)))"

definition long_parse_long :: "env \<Rightarrow> jvalue list \<Rightarrow> jvalue shim_act" where
  "long_parse_long E args =
     bnd (arg args 0) (\<lambda>v. bnd (jstr E v) (\<lambda>s. bnd (radix_arg args) (\<lambda>r.
     bnd (parse_long_radix E s r) (\<lambda>n. ret (VLong n)))))"

definition long_to_hex :: "jvalue list \<Rightarrow> jvalue shim_act" where
  "long_to_hex args = bnd (arg_long args 0) (\<lambda>n. new_str (unsigned_text 16 n))"

definition long_compare_to :: "jvalue list \<Rightarrow> jvalue shim_act" where
  "long_compare_to = long_fun2 (\<lambda>a b. VInt (cmp (sint a) (sint b)))"

definition long_compare :: "jvalue list \<Rightarrow> jvalue shim_act" where
  "long_compare = long_fun2 (\<lambda>a b. VInt (cmp (sint a) (sint b)))"

definition long_bit_count :: "jvalue list \<Rightarrow> jvalue shim_act" where
  "long_bit_count = long_fun (\<lambda>n. VInt (of_nat (count_ones n)))"

definition long_signum :: "jvalue list \<Rightarrow> jvalue shim_act" where
  "long_signum = long_fun (\<lambda>n. VLong (word_of_int (sgn (sint n))))"

section \<open>What a numeral denotes\<close>

text \<open>Horner's rule over digits, highest first.\<close>

definition horner :: "nat \<Rightarrow> nat list \<Rightarrow> nat" where
  "horner r ds = foldl (\<lambda>n d. n * r + d) 0 ds"

text \<open>A sign, if there is one, and at least one digit.\<close>

definition numeral_value :: "nat \<Rightarrow> string \<Rightarrow> int option" where
  "numeral_value r s =
     (let neg = (s \<noteq> [] \<and> hd s = CHR ''-'');
          cs = (if s \<noteq> [] \<and> hd s \<in> {CHR ''+'', CHR ''-''} then tl s else s)
      in if cs = [] then None
         else map_option (\<lambda>ds. if neg then - int (horner r ds) else int (horner r ds))
           (those (map (to_digit r) cs)))"

lemma foldl_horner: "foldl (\<lambda>n d. n * r + d) a ds = a * r ^ length ds + horner r ds"
proof (induction ds arbitrary: a)
  case (Cons d ds)
  have "foldl (\<lambda>n d. n * r + d) a (d # ds) = (a * r + d) * r ^ length ds + horner r ds"
    by (simp only: foldl.simps Cons)
  also have "horner r (d # ds) = d * r ^ length ds + horner r ds"
    using Cons [of d] by (simp add: horner_def)
  ultimately show ?case by (simp add: algebra_simps)
qed (simp add: horner_def)

lemma horner_Cons [simp]: "horner r (d # ds) = d * r ^ length ds + horner r ds"
  using foldl_horner [of r d ds] by (simp add: horner_def)

lemma horner_Nil [simp]: "horner r [] = 0"
  by (simp add: horner_def)

lemma those_Some_length: "those (map f xs) = Some ys \<Longrightarrow> length ys = length xs"
  by (induction xs arbitrary: ys) (auto split: option.splits)

text \<open>
  What the checked accumulation computes: the value of all digits if it fits, and nothing
  otherwise. It may stop at an overflow before a bad digit, but both are errors.
\<close>

lemma from_digits_horner:
  assumes "lo \<le> 0" "0 \<le> hi" "1 \<le> r" "if up then 0 \<le> acc \<and> acc \<le> hi else lo \<le> acc \<and> acc \<le> 0"
  shows "from_digits lo hi up r acc cs =
    Option.bind (those (map (to_digit r) cs)) (\<lambda>ds.
      checked lo hi (acc * int (r ^ length ds) + (if up then 1 else - 1) * int (horner r ds)))"
  using assms(4)
proof (induction cs arbitrary: acc)
  case Nil
  then show ?case using assms by (auto simp: checked_def split: if_splits)
next
  case (Cons c cs)
  let ?s = "(if up then 1 else - 1) :: int"
  show ?case
  proof (cases "to_digit r c")
    case None
    then show ?thesis by (auto split: option.split)
  next
    case (Some d)
    let ?a = "acc * int r + ?s * int d"
    show ?thesis
    proof (cases "lo \<le> ?a \<and> ?a \<le> hi")
      case True
      have bounds: "if up then 0 \<le> ?a \<and> ?a \<le> hi else lo \<le> ?a \<and> ?a \<le> 0"
        using True Cons.prems assms(3) mult_nonpos_nonneg [of acc "int r"]
        by (cases up) simp_all
      have m: "checked lo hi (acc * int r) = Some (acc * int r)"
      proof -
        define p where "p = acc * int r"
        have "if up then 0 \<le> p else p \<le> 0"
          using Cons.prems by (cases up) (simp_all add: p_def mult_nonpos_nonneg)
        then show ?thesis
          using True Cons.prems assms(1-3) unfolding p_def [symmetric]
          by (cases up) (simp_all add: checked_def)
      qed
      have "from_digits lo hi up r acc (c # cs) = from_digits lo hi up r ?a cs"
        using True m Some by (auto simp: checked_def split: if_splits)
      then show ?thesis
        using Cons.IH [OF bounds] Some
        by (simp add: bind_map_option o_def algebra_simps del: from_digits.simps)
    next
      case False
      have none: "from_digits lo hi up r acc (c # cs) = None"
        using False Some by (auto simp: checked_def split: option.split)
      have big: "checked lo hi (acc * int (r ^ Suc n) + ?s * int (d * r ^ n + h)) = None" for n h
      proof -
        have eq: "acc * int (r ^ Suc n) + ?s * int (d * r ^ n + h) = ?a * int (r ^ n) + ?s * int h"
          by (simp add: algebra_simps)
        have one: "1 \<le> int (r ^ n)" using assms(3) by simp
        show ?thesis
        proof (cases up)
          case True
          then have "0 \<le> ?a" using Cons.prems by simp
          then have "hi < ?a" using False assms(1) by linarith
          moreover have "?a * 1 \<le> ?a * int (r ^ n)"
            using one \<open>hi < ?a\<close> assms(2) by (intro mult_left_mono) auto
          ultimately show ?thesis using True unfolding eq by (auto simp: checked_def)
        next
          case neg: False
          then have "?a \<le> 0" using Cons.prems mult_nonpos_nonneg [of acc "int r"] by simp
          then have "?a < lo" using False assms(2) by linarith
          moreover have "?a * int (r ^ n) \<le> ?a * 1"
            using one \<open>?a < lo\<close> assms(1) by (intro mult_left_mono_neg) auto
          ultimately show ?thesis using neg unfolding eq by (auto simp: checked_def)
        qed
      qed
      show ?thesis
      proof (cases "those (map (to_digit r) cs)")
        case ds: (Some ds)
        show ?thesis unfolding none using Some ds big [of "length ds" "horner r ds"] by simp
      qed (use none Some in simp)
    qed
  qed
qed

lemma to_digit_sign [simp]: "to_digit r CHR ''+'' = None" "to_digit r CHR ''-'' = None" if "r \<le> 36"
  using that by (simp_all add: to_digit_def)

lemma from_str_radix_exact:
  assumes "lo \<le> 0" "0 \<le> hi" "1 \<le> r"
  shows "from_str_radix lo hi r s = Option.bind (numeral_value r s) (checked lo hi)"
proof (cases s)
  case (Cons c cs)
  note pos = from_digits_horner [OF assms, where up = True and acc = 0]
  note neg = from_digits_horner [OF assms, where up = False and acc = 0]
  show ?thesis
    using pos neg assms
    by (simp add: Cons from_str_radix_def numeral_value_def Let_def bind_map_option o_def
        del: list.map from_digits.simps)
qed (simp add: from_str_radix_def numeral_value_def)

section \<open>Numbers and their texts\<close>

lemma horner_append: "horner r (ds @ [d]) = horner r ds * r + d"
  by (simp add: horner_def)

lemma radix_digits_value: "2 \<le> r \<Longrightarrow> horner r (rev (radix_digits r u)) = u"
  by (induction r u rule: radix_digits.induct) (subst radix_digits.simps, auto simp: horner_append)

lemma radix_digits_below: "2 \<le> r \<Longrightarrow> d \<in> set (radix_digits r u) \<Longrightarrow> d < r"
proof (induction r u rule: radix_digits.induct)
  case (1 r u)
  then show ?case by (subst (asm) (2) radix_digits.simps) (auto split: if_splits)
qed

lemma radix_digits_Nil: "2 \<le> r \<Longrightarrow> radix_digits r u = [] \<longleftrightarrow> u = 0"
  by (subst radix_digits.simps) auto

lemma to_digit_char: "d < r \<Longrightarrow> r \<le> 36 \<Longrightarrow> to_digit r (digit_char d) = Some d"
  by (auto simp: to_digit_def digit_char_def Let_def of_char_of take_bit_eq_mod)

lemma those_map_Some: "(\<And>x. x \<in> set xs \<Longrightarrow> f x = Some (g x)) \<Longrightarrow> those (map f xs) = Some (map g xs)"
  by (induction xs) auto

lemma digits_read:
  assumes "2 \<le> r" "r \<le> 36"
  shows "those (map (to_digit r) (rev (map digit_char (radix_digits r u)))) =
    Some (rev (radix_digits r u))"
  using those_map_Some [of "rev (radix_digits r u)" "\<lambda>d. to_digit r (digit_char d)" id]
  by (simp add: rev_map o_def to_digit_char [OF radix_digits_below [OF assms(1)] assms(2)])

lemma digit_char_no_sign: "d < 36 \<Longrightarrow> digit_char d \<noteq> CHR ''+'' \<and> digit_char d \<noteq> CHR ''-''"
  using to_digit_char [of d 36] by (metis order_refl option.distinct(1) to_digit_sign)

lemma digits_hd:
  assumes "2 \<le> r" "r \<le> 36" "u \<noteq> 0"
  shows "rev (map digit_char (radix_digits r u)) \<noteq> []"
    and "hd (rev (map digit_char (radix_digits r u))) \<notin> {CHR ''+'', CHR ''-''}"
proof -
  have ne: "radix_digits r u \<noteq> []" using assms by (simp add: radix_digits_Nil)
  then show "rev (map digit_char (radix_digits r u)) \<noteq> []" by simp
  have "last (radix_digits r u) < 36"
    using radix_digits_below [OF assms(1)] last_in_set [OF ne] assms(2) by fastforce
  then show "hd (rev (map digit_char (radix_digits r u))) \<notin> {CHR ''+'', CHR ''-''}"
    using ne by (simp add: hd_rev last_map digit_char_no_sign)
qed

lemma unat_wrapping_abs: "int (unat (wrapping_abs v)) = \<bar>sint (v :: 'a::len word)\<bar>"
proof -
  have "wrapping_abs v = word_of_int \<bar>sint v\<bar>"
    by (simp add: wrapping_abs_def)
  moreover have "\<bar>sint v\<bar> < 2 ^ LENGTH('a)"
  proof -
    have "(2 :: int) ^ (LENGTH('a) - 1) < 2 ^ LENGTH('a)" by (intro power_strict_increasing) auto
    then show ?thesis using sint_ge [of v] sint_lt [of v] by linarith
  qed
  ultimately show ?thesis by (simp add: uint_word_of_int)
qed

lemma numeral_value_text:
  assumes "2 \<le> r" "r \<le> 36"
  shows "numeral_value r (signed_text r v) = Some (sint (v :: 'a::len word))"
proof (cases "v = 0")
  case True
  then show ?thesis using assms by (simp add: signed_text_def numeral_value_def to_digit_def)
next
  case False
  let ?u = "unat (wrapping_abs v)"
  have u: "?u \<noteq> 0"
  proof
    assume "?u = 0"
    then have "sint v = 0" using unat_wrapping_abs [of v] by (simp only: of_nat_0 abs_eq_0_iff)
    then have "word_of_int (sint v) = (0 :: 'a word)" by simp
    then show False using False by simp
  qed
  note parts = digits_hd [OF assms u] digits_read [OF assms, of ?u]
    radix_digits_value [OF assms(1), of ?u] unat_wrapping_abs [of v]
  show ?thesis
  proof (cases "sint v < 0")
    case True
    then show ?thesis using False parts by (simp add: signed_text_def numeral_value_def)
  next
    case nonneg: False
    then show ?thesis using False parts by (auto simp: signed_text_def numeral_value_def Let_def)
  qed
qed

text \<open>
  C31: Numbers survive their texts. In every radix the shims print in, parsing the text of an
  int or a long gives the number back, the least of each included.
\<close>

theorem radix_text_roundtrip:
  assumes "radix_ok r"
  shows "parse_int_radix E (int_to_string v r) r s = (Ok v, s) \<and>
    parse_long_radix E (long_to_string_help l r) r s = (Ok l, s)"
proof -
  have r: "2 \<le> unat r" "unat r \<le> 36" "clamp_radix r = unat r"
    using assms by (auto simp: radix_ok_def clamp_radix_def)
  have "- (2 ^ 31) \<le> sint v \<and> sint v < 2 ^ 31" "- (2 ^ 63) \<le> sint l \<and> sint l < 2 ^ 63"
    using sint_ge [of v] sint_lt [of v] sint_ge [of l] sint_lt [of l] by simp_all
  then show ?thesis
    using r assms
    by (simp add: parse_int_radix_def parse_long_radix_def int_to_string_def long_to_string_help_def
        from_str_radix_exact numeral_value_text checked_def ret_def)
qed

theorem radix_text_roundtrip_witness:
  "\<forall>E s. int_to_string (- 255) 16 = ''-ff'' \<and>
     parse_int_radix E (int_to_string (- 255) 16) 16 s = (Ok (- 255), s)"
proof -
  have "int_to_string (- 255) 16 = ''-ff''" by code_simp
  then show ?thesis using radix_text_roundtrip [of 16 _ "- 255" _ 0] by (simp add: radix_ok_def)
qed

text \<open>
  C30: Parsing an int accepts exactly the numerals of the radix, with an optional sign, whose
  value is an int, and gives that value. Everything else is a \<open>NumberFormatException\<close>: the empty
  string, a lone sign, a foreign digit, and an overflow anywhere in the text.
\<close>

theorem parse_int_exact:
  assumes "radix_ok r"
  shows "parse_int_radix E str r s =
    (case numeral_value (unat r) str of
       Some x \<Rightarrow> if - (2 ^ 31) \<le> x \<and> x < 2 ^ 31 then (Ok (word_of_int x), s)
                 else nfe E (bad_number str) s
     | None \<Rightarrow> nfe E (bad_number str) s)"
proof -
  have "1 \<le> unat r" using assms by (simp add: radix_ok_def)
  then show ?thesis
    using assms by (auto simp: parse_int_radix_def from_str_radix_exact checked_def ret_def
        split: option.split)
qed

theorem parse_int_exact_witness:
  "\<forall>E s. parse_int_radix E ''-7F'' 16 s = (Ok (- 127), s) \<and>
     parse_int_radix E ''2147483648'' 10 s = nfe E (bad_number ''2147483648'') s"
proof -
  have "numeral_value 16 ''-7F'' = Some (- 127)" "numeral_value 10 ''2147483648'' = Some 2147483648"
    by (simp_all add: numeral_value_def to_digit_def of_char_of)
  then show ?thesis
    using parse_int_exact [of 16 _ "''-7F''"] parse_int_exact [of 10 _ "''2147483648''"]
    by (simp add: radix_ok_def)
qed

section \<open>Bits\<close>

lemma leading_zeros_at:
  assumes "bit (v :: 'a::len word) i" "\<And>j. i < j \<Longrightarrow> \<not> bit v j"
  shows "leading_zeros v = LENGTH('a) - 1 - i"
proof -
  have i: "i < LENGTH('a)" using assms(1) by (rule bit_imp_le_length)
  have "[0..<LENGTH('a)] = [0..<i] @ i # [Suc i..<LENGTH('a)]"
    using i upt_add_eq_append [of 0 i "LENGTH('a) - i"] by (simp add: upt_conv_Cons)
  then have "rev [0..<LENGTH('a)] = rev [Suc i..<LENGTH('a)] @ i # rev [0..<i]" by simp
  then have "takeWhile (\<lambda>j. \<not> bit v j) (rev [0..<LENGTH('a)]) = rev [Suc i..<LENGTH('a)]"
    using assms by (simp add: takeWhile_append)
  then show ?thesis using i by (simp add: leading_zeros_def)
qed

lemma highest_one_bit_at:
  assumes "bit v i" "\<And>j. i < j \<Longrightarrow> \<not> bit v j"
  shows "highest_one_bit v = push_bit i 1"
proof -
  have "i < 32" using bit_imp_le_length [OF assms(1)] by simp
  moreover have "v \<noteq> 0" using assms(1) by auto
  ultimately show ?thesis using leading_zeros_at [OF assms] by (simp add: highest_one_bit_def)
qed

text \<open>Rotating right takes back what rotating left by the same distance did.\<close>

theorem rotations_inverse:
  "integer_rotate_left [VInt v, VInt d] s = (Ok (VInt w), s) \<Longrightarrow>
   integer_rotate_right [VInt w, VInt d] s = (Ok (VInt v), s)"
  by (auto simp: integer_rotate_left_def integer_rotate_right_def int_fun2_def arg_int_def ret_def
      int_of_def bnd_def asks_def)

section \<open>Where the shims leave Java\<close>

text \<open>An \<open>Integer\<close> of 0 equals null and every object that is not a number.\<close>

theorem zero_equals_null:
  assumes "payload s (VObj b) = Some (IntBox 0)"
  shows "integer_equals [VObj b, VNull] s = (Ok (VInt 1), s)"
  using assms
  by (simp add: integer_equals_def int_fun2_def arg_int_def int_of_def box_int_def ret_def
      int_of_bool_def bnd_def asks_def)

text \<open>\<open>divideUnsigned\<close> and \<open>remainderUnsigned\<close> by zero stop the host.\<close>

theorem unsigned_by_zero_panics:
  "integer_divide_unsigned [VInt a, VInt 0] s = (Panic, s)"
  "integer_remainder_unsigned [VInt a, VInt 0] s = (Panic, s)"
  by (simp_all add: integer_divide_unsigned_def integer_remainder_unsigned_def arg_int_def int_of_def
      panic_def ret_def bnd_def asks_def)

text \<open>A radix out of range is the nearest one and not 10.\<close>

theorem radix_clamped: "int_to_string 7 1 = ''111''"
  by code_simp

end
