(* ===== verification/Keys.thy ===== *)
theory Keys
  imports Maps Numbers
begin

text \<open>
  What a guest map is for keys whose \<open>equals\<close> and \<open>hashCode\<close> are looked up by virtual dispatch. The
  contract \<open>hash_keys\<close> of \<open>Maps\<close> is discharged for the boxed integers of a machine, through
  \<open>inv_virt\<close> (\<open>java/util/mod.rs\<close>), the dispatch of their class and the natives of
  \<open>java.lang.Integer\<close>. Shown: any series of map calls is one on a finite map.
\<close>

section \<open>A call that ends in a native\<close>

text \<open>
  Looked up from the class \<open>c\<close>, the method is a native of the host that runs \<open>act\<close>.
\<close>

definition resolves :: "env \<Rightarrow> vm \<Rightarrow> u32 \<Rightarrow> string \<Rightarrow> string \<Rightarrow> (jvalue list \<Rightarrow> jvalue shim_act) \<Rightarrow> bool" where
  "resolves E s c name sg act \<longleftrightarrow> (\<exists>n g fc slot c' cl m k f.
     intern_map s name = Some n \<and> intern_map s sg = Some g \<and>
     dispatch_chain (Suc (length (vm_classes s))) (vm_classes s) (n, g) c = Ok (Some (fc, slot), c') \<and>
     nth_opt (vm_classes s) (unat fc) = Some cl \<and> nth_opt (cls_methods cl) (unat slot) = Some m \<and>
     \<not> native_decl m \<and> native_key m = Some k \<and> natives s k = Some f \<and> call_fn (fst E) f = act)"

lemma inv_virt_resolved:
  assumes "resolves E s (obj_class ob) name sg act" and "arena_get (heap s) i = Some ob"
  shows "inv_virt E (VObj i) name sg extra s =
    (case act (VObj i # extra) s of (r, t) \<Rightarrow> (omap_err nat_fatal (omap_err from_nat_err r), t))"
proof -
  obtain n g fc slot c' cl m k f where r:
    "intern_map s name = Some n" "intern_map s sg = Some g"
    "dispatch_chain (Suc (length (vm_classes s))) (vm_classes s) (n, g) (obj_class ob) = Ok (Some (fc, slot), c')"
    "nth_opt (vm_classes s) (unat fc) = Some cl" "nth_opt (cls_methods cl) (unat slot) = Some m"
    "\<not> native_decl m" "native_key m = Some k" "natives s k = Some f" "call_fn (fst E) f = act"
    using assms(1) unfolding resolves_def by (elim exE conjE)
  let ?ref = "\<lparr>mr_name = n, mr_sig = g, mr_ret = 0, mr_args = [], mr_class_desc = 0\<rparr>"
  have "name_ref name sg 0 s = (Ok ?ref, s)"
    by (simp add: name_ref_def bnd_def intern_def r(1,2) ret_def)
  moreover have "resolve_target (tb E) Virtual ?ref (Some i) 0 s = (Ok (TNative k), s)"
  proof -
    have "target_start (tb E) Virtual ?ref (Some i) 0 s = (Ok (obj_class ob), s)"
      using assms(2) by (simp add: target_start_def lift_def)
    moreover have "dispatch_walk 2 (tb E) (n, g) (obj_class ob) s = (Ok (Some (fc, slot), c'), s)"
      using r(3) by (simp add: numeral_2_eq_2 bnd_run lift_def ret_def del: dispatch_chain.simps)
    moreover have "method_target fc slot s = (Ok (TNative k), s)"
      using r(4-7) by (simp add: method_target_def the_method_def the_class_def unwrap_def bnd_def asks_def
          ret_def del: nth_opt_Some_iff)
    ultimately show ?thesis by (simp add: resolve_target_def Let_def bnd_run)
  qed
  moreover have "call_target (fst E) (snd E) (TNative k) args s =
      (case act args s of (x, t) \<Rightarrow> (omap_err from_nat_err x, t))" for args
    by (simp add: call_target_def native_fn_def bnd_def asks_def lift_def r(8,9) run_native_def)
  ultimately show ?thesis
    by (simp add: inv_virt_def bnd_def via_def unwrap_def ret_def split: prod.split)
qed

section \<open>Boxed integers\<close>

text \<open>The keys: null and every object of the heap that holds a boxed int, and what they stand for.\<close>

definition boxed_keys :: "vm \<Rightarrow> jvalue set" where
  "boxed_keys s = {w. w = VNull \<or> (\<exists>n. payload s w = Some (IntBox n))}"

definition boxed_key :: "vm \<Rightarrow> jvalue \<Rightarrow> i32 option" where
  "boxed_key s w = (case payload s w of Some (IntBox n) \<Rightarrow> Some n | _ \<Rightarrow> None)"

text \<open>\<open>Integer.equals\<close> and \<open>Integer.hashCode\<close> are what their classes dispatch to.\<close>

definition integers_dispatch :: "env \<Rightarrow> vm \<Rightarrow> bool" where
  "integers_dispatch E s \<longleftrightarrow> (\<forall>i ob n. arena_get (heap s) i = Some ob \<longrightarrow> obj_native ob = Some (IntBox n) \<longrightarrow>
     resolves E s (obj_class ob) ''equals'' ''(Ljava/lang/Object;)Z'' integer_equals \<and>
     resolves E s (obj_class ob) ''hashCode'' ''()I'' integer_hash_code)"

lemma integers_dispatch_iff:
  "integers_dispatch E s \<longleftrightarrow> (\<forall>c i n.
     (\<exists>ob. arena_get (heap s) i = Some ob \<and> obj_native ob = Some (IntBox n) \<and> obj_class ob = c) \<longrightarrow>
     resolves E s c ''equals'' ''(Ljava/lang/Object;)Z'' integer_equals \<and>
     resolves E s c ''hashCode'' ''()I'' integer_hash_code)"
  by (auto simp: integers_dispatch_def)

lemma integer_equals_run:
  "payload s a = Some (IntBox m) \<Longrightarrow> payload s b = Some (IntBox n) \<Longrightarrow>
   integer_equals [a, b] s = (Ok (VInt (int_of_bool (m = n))), s)"
  by (frule payload_Some_iff [THEN iffD1], frule payload_Some_iff [of s b, THEN iffD1])
    (auto simp: integer_equals_def int_fun2_def arg_int_def bnd_def asks_def ret_def int_of_def box_int_def)

lemma integer_hash_run:
  "payload s a = Some (IntBox n) \<Longrightarrow> integer_hash_code [a] s = (Ok (VInt n), s)"
  by (frule payload_Some_iff [THEN iffD1])
    (auto simp: integer_hash_code_def int_fun_def arg_int_def bnd_def asks_def ret_def int_of_def box_int_def)

lemma boxed_object:
  "payload s a = Some (IntBox n) \<Longrightarrow>
   \<exists>i ob. a = VObj i \<and> arena_get (heap s) i = Some ob \<and> obj_native ob = Some (IntBox n)"
  by (cases a) (auto simp: payload_def bind_eq_Some_conv)

lemma boxed_equals:
  assumes "integers_dispatch E s" and "a \<in> boxed_keys s" and "b \<in> boxed_keys s"
  shows "java_equals E a b s = (Ok (boxed_key s a = boxed_key s b), s)"
proof (cases "a = VNull \<or> b = VNull")
  case True
  then show ?thesis using assms(2,3) boxed_object [of s a] boxed_object [of s b]
    by (cases a; cases b)
      (auto simp: java_equals_def ret_def boxed_keys_def boxed_key_def payload_def split: option.splits)
next
  case False
  then obtain m n where p: "payload s a = Some (IntBox m)" "payload s b = Some (IntBox n)"
    using assms(2,3) by (auto simp: boxed_keys_def)
  obtain i ob where i: "a = VObj i" "arena_get (heap s) i = Some ob" "obj_native ob = Some (IntBox m)"
    using boxed_object [OF p(1)] by blast
  obtain k where k: "b = VObj k" using boxed_object [OF p(2)] by blast
  have "resolves E s (obj_class ob) ''equals'' ''(Ljava/lang/Object;)Z'' integer_equals"
    using assms(1) i by (simp add: integers_dispatch_def)
  note inv_virt_resolved [OF this i(2)]
  then show ?thesis using p integer_equals_run [of s "VObj i" m "VObj k" n]
    by (simp add: i(1) k java_equals_def bnd_def catch_def boxed_key_def ret_def int_of_bool_def)
qed

lemma boxed_hash:
  assumes "integers_dispatch E s" and "a \<in> boxed_keys s"
  shows "java_hash E a s = (Ok (case boxed_key s a of None \<Rightarrow> 0 | Some n \<Rightarrow> n), s)"
proof (cases "a = VNull")
  case True
  then show ?thesis by (simp add: java_hash_def ret_def boxed_key_def payload_def)
next
  case False
  then obtain n where p: "payload s a = Some (IntBox n)" using assms(2) by (auto simp: boxed_keys_def)
  obtain i ob where i: "a = VObj i" "arena_get (heap s) i = Some ob" "obj_native ob = Some (IntBox n)"
    using boxed_object [OF p] by blast
  have "resolves E s (obj_class ob) ''hashCode'' ''()I'' integer_hash_code"
    using assms(1) i by (simp add: integers_dispatch_def)
  note inv_virt_resolved [OF this i(2)]
  then show ?thesis using p integer_hash_run [of s "VObj i" n]
    by (simp add: i(1) java_hash_def bnd_def catch_def boxed_key_def ret_def)
qed

text \<open>New entries of a map leave the boxes of the heap and the methods of their classes alone.\<close>

lemma boxed_with_entries:
  assumes "payload s v = Some (JMap es)"
  shows "integers_dispatch E (with_payload v (JMap fs) s) = integers_dispatch E s"
    and "boxed_keys (with_payload v (JMap fs) s) = boxed_keys s"
    and "boxed_key (with_payload v (JMap fs) s) = boxed_key s"
proof -
  have other: "payload (with_payload v (JMap fs) s) w = payload s w \<or>
      payload (with_payload v (JMap fs) s) w = Some (JMap fs) \<and> payload s w = Some (JMap es)" for w
    using assms by (cases "w = v") simp_all
  show "boxed_keys (with_payload v (JMap fs) s) = boxed_keys s"
  proof (intro set_eqI)
    fix w show "w \<in> boxed_keys (with_payload v (JMap fs) s) \<longleftrightarrow> w \<in> boxed_keys s"
      using other [of w] by (elim disjE conjE) (simp_all add: boxed_keys_def)
  qed
  show "boxed_key (with_payload v (JMap fs) s) = boxed_key s"
  proof
    fix w show "boxed_key (with_payload v (JMap fs) s) w = boxed_key s w"
      using other [of w] by (auto simp: boxed_key_def)
  qed
  obtain j where v: "v = VObj j" "unat j < length (objects (heap s))"
      "obj_native (objects (heap s) ! unat j) = Some (JMap es)"
    using assms by (auto simp: payload_Some_iff)
  have same: "resolves E (with_payload v (JMap fs) s) c name sg act = resolves E s c name sg act" for c name sg act
    by (simp add: resolves_def with_payload_def v(1))
  have boxes: "(\<exists>ob. arena_get (heap (with_payload v (JMap fs) s)) i = Some ob \<and>
        obj_native ob = Some (IntBox n) \<and> obj_class ob = c) \<longleftrightarrow>
      (\<exists>ob. arena_get (heap s) i = Some ob \<and> obj_native ob = Some (IntBox n) \<and> obj_class ob = c)" for i n c
    using v by (cases "unat i = unat j") (auto simp: with_payload_def arena_get_def nth_opt_def split: if_splits)
  show "integers_dispatch E (with_payload v (JMap fs) s) = integers_dispatch E s"
    by (simp only: integers_dispatch_iff same boxes)
qed

text \<open>The machine \<open>s0\<close>, whose integers dispatch as they should, with the entries of a map replaced.\<close>

definition boxed_state :: "env \<Rightarrow> jvalue \<Rightarrow> vm \<Rightarrow> (jvalue \<times> jvalue) list \<Rightarrow> vm \<Rightarrow> bool" where
  "boxed_state E v s0 es s \<longleftrightarrow> integers_dispatch E s0 \<and> only_entries v s0 es s"

interpretation boxed: hash_keys E v "boxed_keys s0" "boxed_key s0"
  "\<lambda>k. case k of None \<Rightarrow> 0 | Some n \<Rightarrow> n" "boxed_state E v s0" for E v s0
proof
  fix es s a b fs
  assume st: "boxed_state E v s0 es s"
  then obtain es0 where o: "payload s0 v = Some (JMap es0)" "s = with_payload v (JMap es) s0"
    by (auto simp: boxed_state_def only_entries_def)
  have d: "integers_dispatch E s" "boxed_keys s = boxed_keys s0" "boxed_key s = boxed_key s0"
    using st boxed_with_entries [OF o(1)] o(2) by (simp_all add: boxed_state_def)
  show "payload s v = Some (JMap es)" "boxed_state E v s0 fs (with_payload v (JMap fs) s)"
    using st by (auto simp: boxed_state_def intro: only_entries_simps)
  assume a: "a \<in> boxed_keys s0"
  show "\<exists>t. java_hash E a s = (Ok (case boxed_key s0 a of None \<Rightarrow> 0 | Some n \<Rightarrow> n), t) \<and> boxed_state E v s0 es t"
    using boxed_hash [of E s a] d a st by simp
  assume "b \<in> boxed_keys s0"
  then show "\<exists>t. java_equals E a b s = (Ok (boxed_key s0 a = boxed_key s0 b), t) \<and> boxed_state E v s0 es t"
    using boxed_equals [of E s a b] d a st by simp
qed

text \<open>For boxed integers the whole of the machine but the entries of the map stays as it was.\<close>

lemma integer_map_run:
  assumes "integers_dispatch E s" and "payload s v = Some (JMap es)"
    and "wf_entries (boxed_key s) (boxed_keys s) es" and "\<forall>op \<in> set ops. op_keys op \<subseteq> boxed_keys s"
  shows "\<exists>es'. amap (run_map_op E v) ops s =
      (Ok (fst (fmap_ops (boxed_key s) ops (map_abs (boxed_key s) es))), with_payload v (JMap es') s) \<and>
    wf_entries (boxed_key s) (boxed_keys s) es' \<and>
    map_abs (boxed_key s) es' = snd (fmap_ops (boxed_key s) ops (map_abs (boxed_key s) es))"
proof -
  have "boxed_state E v s es s" using assms(1,2) by (simp add: boxed_state_def only_entries_simps)
  from boxed.map_ops_run [OF this assms(3,4)] show ?thesis
    by (elim exE conjE) (rule exI, auto simp only: boxed_state_def only_entries_def)
qed

section \<open>Properties\<close>

text \<open>
  C28: A guest map is a finite map. For a map object \<open>v\<close> and keys \<open>K\<close> whose \<open>equals\<close> and
  \<open>hashCode\<close>, as the machine runs them, answer from a value \<open>key\<close> of the key, any series of
  \<open>HashMap\<close> calls returns what the operations of the finite map from those values return, the old
  value or null included, and leaves entries with distinct keys that represent the resulting map.
  The calls of the guest may change the machine in any way that keeps \<open>S\<close>, which includes the
  entries of the map.
\<close>

theorem map_calls_refine:
  assumes "\<And>es s a b. S es s \<Longrightarrow> a \<in> K \<Longrightarrow> b \<in> K \<Longrightarrow>
      \<exists>t. java_equals E a b s = (Ok (key a = key b), t) \<and> S es t"
    and "\<And>es s a. S es s \<Longrightarrow> a \<in> K \<Longrightarrow> \<exists>t. java_hash E a s = (Ok (h (key a)), t) \<and> S es t"
    and "\<And>es s. S es s \<Longrightarrow> payload s v = Some (JMap es)"
    and "\<And>es s fs. S es s \<Longrightarrow> S fs (with_payload v (JMap fs) s)"
    and "S es s" and "wf_entries key K es" and "\<forall>op \<in> set ops. op_keys op \<subseteq> K"
  shows "\<exists>es' t. amap (run_map_op E v) ops s = (Ok (fst (fmap_ops key ops (map_abs key es))), t) \<and> S es' t \<and>
    wf_entries key K es' \<and> map_abs key es' = snd (fmap_ops key ops (map_abs key es))"
proof -
  have "hash_keys E v K key h S"
  proof (rule hash_keys.intro)
    show "\<exists>t. java_equals E a b s = (Ok (key a = key b), t) \<and> S es t"
      if "S es s" "a \<in> K" "b \<in> K" for es s a b by (rule assms(1) [OF that])
    show "\<exists>t. java_hash E a s = (Ok (h (key a)), t) \<and> S es t"
      if "S es s" "a \<in> K" for es s a by (rule assms(2) [OF that])
    show "payload s v = Some (JMap es)" if "S es s" for es s by (rule assms(3) [OF that])
    show "S fs (with_payload v (JMap fs) s)" if "S es s" for es s fs by (rule assms(4) [OF that])
  qed
  from hash_keys.map_ops_run [OF this assms(5-7)] show ?thesis .
qed

text \<open>
  A machine with a map and three boxed integers of a class whose two methods are natives of the
  host: two of the integers are equal.
\<close>

definition native_method :: "u32 \<Rightarrow> u32 \<Rightarrow> u32 \<Rightarrow> method_rec" where
  "native_method slot name sg =
     \<lparr>m_slot = slot, m_class = 0, m_name = name, m_sig = sg, m_ret = 0, m_args = [], m_access_flags = 1,
      static_method = False, m_dex_idx = 0, native_key = Some (0, name, sg), native_decl = False,
      m_code = None\<rparr>"

definition integer_class :: jclass where
  "integer_class = (class_new 0 0 None [] 1 None)\<lparr>
     cls_methods := [native_method 0 1 2, native_method 1 3 4],
     dispatch := [(1, 2) \<mapsto> 0, (3, 4) \<mapsto> 1]\<rparr>"

definition integers_vm :: vm where
  "integers_vm = (vm_empty [])\<lparr>
     heap := \<lparr>objects = map (\<lambda>n. \<lparr>obj_class = 0, obj_fields = [], obj_native = Some n\<rparr>)
       [JMap [], IntBox 5, IntBox 5, IntBox 6], free_ids = []\<rparr>,
     intern_tab := [''Ljava/lang/Integer;'', ''equals'', ''(Ljava/lang/Object;)Z'', ''hashCode'', ''()I''],
     intern_map := [''Ljava/lang/Integer;'' \<mapsto> 0, ''equals'' \<mapsto> 1, ''(Ljava/lang/Object;)Z'' \<mapsto> 2,
       ''hashCode'' \<mapsto> 3, ''()I'' \<mapsto> 4],
     vm_classes := [integer_class],
     natives := [(0, 1, 2) \<mapsto> 0, (0, 3, 4) \<mapsto> 1]\<rparr>"

definition integers_env :: env where
  "integers_env = (\<lparr>shim_classes = [], native_entries = [],
     call_fn = (\<lambda>f. if f = 0 then integer_equals else integer_hash_code),
     lazy_fn = (\<lambda>f s. (Ok VNull, s))\<rparr>, \<lambda>c slot args s. (Ok VNull, s))"

lemma integers_vm_parts:
  "vm_classes integers_vm = [integer_class]" "natives integers_vm = [(0, 1, 2) \<mapsto> 0, (0, 3, 4) \<mapsto> 1]"
  "intern_map integers_vm ''equals'' = Some 1" "intern_map integers_vm ''(Ljava/lang/Object;)Z'' = Some 2"
  "intern_map integers_vm ''hashCode'' = Some 3" "intern_map integers_vm ''()I'' = Some 4"
  "dispatch integer_class = [(1, 2) \<mapsto> 0, (3, 4) \<mapsto> 1]"
  "cls_methods integer_class = [native_method 0 1 2, native_method 1 3 4]"
  by (simp_all add: integers_vm_def integer_class_def)

lemma integers_resolve:
  "resolves integers_env integers_vm 0 ''equals'' ''(Ljava/lang/Object;)Z'' integer_equals"
  "resolves integers_env integers_vm 0 ''hashCode'' ''()I'' integer_hash_code"
proof -
  note parts = integers_vm_parts integers_env_def native_method_def nth_opt_def
  show "resolves integers_env integers_vm 0 ''equals'' ''(Ljava/lang/Object;)Z'' integer_equals"
    unfolding resolves_def
    by (rule exI [of _ 1], rule exI [of _ 2], rule exI [of _ 0], rule exI [of _ 0], rule exI [of _ 0],
        rule exI [of _ integer_class], rule exI [of _ "native_method 0 1 2"], rule exI [of _ "(0, 1, 2)"],
        rule exI [of _ 0]) (simp add: parts)
  show "resolves integers_env integers_vm 0 ''hashCode'' ''()I'' integer_hash_code"
    unfolding resolves_def
    by (rule exI [of _ 3], rule exI [of _ 4], rule exI [of _ 0], rule exI [of _ 1], rule exI [of _ 0],
        rule exI [of _ integer_class], rule exI [of _ "native_method 1 3 4"], rule exI [of _ "(0, 3, 4)"],
        rule exI [of _ 1]) (simp add: parts)
qed

lemma integers_vm_ready:
  "integers_dispatch integers_env integers_vm" "payload integers_vm (VObj 0) = Some (JMap [])"
  "payload integers_vm (VObj 1) = Some (IntBox 5)" "payload integers_vm (VObj 2) = Some (IntBox 5)"
  "payload integers_vm (VObj 3) = Some (IntBox 6)"
proof -
  have "heap integers_vm = \<lparr>objects = map (\<lambda>n. \<lparr>obj_class = 0, obj_fields = [], obj_native = Some n\<rparr>)
       [JMap [], IntBox 5, IntBox 5, IntBox 6], free_ids = []\<rparr>" (is "_ = \<lparr>objects = map ?f ?ns, free_ids = []\<rparr>")
    by (simp add: integers_vm_def)
  then have "\<exists>n. ob = ?f n" if "arena_get (heap integers_vm) i = Some ob" for i ob
    using that nth_map [of "unat i" ?ns ?f] by (simp only: arena_get_def nth_opt_Some_iff arena.simps length_map) blast
  then have "obj_class ob = 0" if "arena_get (heap integers_vm) i = Some ob" for i ob
    using that by fastforce
  then show "integers_dispatch integers_env integers_vm"
    using integers_resolve unfolding integers_dispatch_def by metis
qed (simp_all add: integers_vm_def payload_def arena_get_def nth_opt_def)

theorem map_calls_refine_witness:
  "fst (amap (run_map_op integers_env (VObj 0)) [MPut (VObj 1) (VInt 10), MPut (VObj 3) VNull,
       MPut (VObj 2) (VInt 11), MGet (VObj 1), MSize, MContains VNull, MRemove (VObj 2), MGet (VObj 1)] integers_vm) =
     Ok [VNull, VNull, VInt 10, VInt 11, VInt 2, VInt 0, VInt 11, VNull]"
proof -
  note ready = integers_vm_ready
  let ?K = "boxed_keys integers_vm" and ?key = "boxed_key integers_vm" and ?v = "VObj 0"
    and ?S = "boxed_state integers_env (VObj 0) integers_vm"
  let ?ops = "[MPut (VObj 1) (VInt 10), MPut (VObj 3) VNull,
       MPut (VObj 2) (VInt 11), MGet (VObj 1), MSize, MContains VNull, MRemove (VObj 2), MGet (VObj 1)]"
  have "?S [] integers_vm" using ready by (simp add: boxed_state_def only_entries_simps)
  moreover have "wf_entries ?key ?K []" by simp
  moreover have "\<forall>op \<in> set ?ops. op_keys op \<subseteq> ?K" using ready by (simp add: boxed_keys_def)
  ultimately have "\<exists>es' t. amap (run_map_op integers_env ?v) ?ops integers_vm =
      (Ok (fst (fmap_ops ?key ?ops (map_abs ?key []))), t) \<and> ?S es' t \<and> wf_entries ?key ?K es' \<and>
      map_abs ?key es' = snd (fmap_ops ?key ?ops (map_abs ?key []))"
    by (intro map_calls_refine [where h = "\<lambda>k. case k of None \<Rightarrow> 0 | Some n \<Rightarrow> n"])
      (assumption | rule boxed.equals_run boxed.hash_run boxed.holds boxed.updates)+
  then obtain t where
    "amap (run_map_op integers_env ?v) ?ops integers_vm = (Ok (fst (fmap_ops ?key ?ops (map_abs ?key []))), t)"
    by blast
  moreover have "?key (VObj 1) = Some 5" "?key (VObj 2) = Some 5" "?key (VObj 3) = Some 6" "?key VNull = None"
    using ready by (simp_all add: boxed_key_def payload_def)
  ultimately show ?thesis by (simp add: or_null_def card_insert_if)
qed

end
