(* ===== verification/Gcm.thy ===== *)
theory Gcm
  imports Prelude
begin

text \<open>
  \<open>src/src/vm/crypto.rs\<close>: AES-256-GCM with initialization vectors of any length. The block cipher
  is the \<open>aes\<close> crate's and the parameter \<open>encrypt\<close> of a context; a 16-byte block is the \<open>u128\<close> of
  its big-endian bytes, as everywhere in the source.
\<close>

section \<open>Bytes and blocks\<close>

text \<open>\<open>u128::from_be_bytes\<close>, \<open>to_be_bytes\<close> and \<open>chunks(16)\<close> of the standard library.\<close>

definition from_be_bytes :: "u8 list \<Rightarrow> u128" where
  "from_be_bytes bs = foldl (\<lambda>w b. push_bit 8 w OR ucast b) 0 bs"

definition to_be_bytes :: "nat \<Rightarrow> 'a::len word \<Rightarrow> u8 list" where
  "to_be_bytes n w = map (\<lambda>i. ucast (drop_bit (8 * i) w)) (rev [0..<n])"

fun chunks16 :: "'a list \<Rightarrow> 'a list list" where
  "chunks16 [] = []"
| "chunks16 (x # xs) = take 16 (x # xs) # chunks16 (drop 15 xs)"

definition pad16 :: "u8 list \<Rightarrow> u8 list" where
  "pad16 bs = bs @ replicate ((16 - length bs mod 16) mod 16) 0"

section \<open>The context and its operations\<close>

text \<open>One round of the multiplication: bit \<open>i\<close> of \<open>x\<close> selects \<open>v\<close>, then \<open>v\<close> is shifted and reduced.\<close>

definition mul_step :: "u128 \<Rightarrow> nat \<Rightarrow> u128 \<times> u128 \<Rightarrow> u128 \<times> u128" where
  "mul_step x i zv = (case zv of (z, v) \<Rightarrow>
     (if drop_bit i x AND 1 = 1 then z XOR v else z,
      if v AND 1 = 1 then drop_bit 1 v XOR push_bit 120 0xe1 else drop_bit 1 v))"

definition mul :: "u128 \<Rightarrow> u128 \<Rightarrow> u128" where
  "mul x y = fst (fold (mul_step x) (rev [0..<128]) (0, y))"

definition ghash :: "u128 \<Rightarrow> u8 list \<Rightarrow> u128" where
  "ghash h bs =
     fold (\<lambda>chunk y. mul (y XOR from_be_bytes (chunk @ replicate (16 - length chunk) 0)) h)
       (chunks16 bs) 0"

definition len_bits :: "nat \<Rightarrow> u8 list" where
  "len_bits x = to_be_bytes 8 (of_nat x * 8 :: u64)"

definition inc32 :: "u128 \<Rightarrow> u128" where
  "inc32 j0 = (let lo = ((j0 AND 0xffffffff) + 1) AND 0xffffffff
     in (j0 AND NOT 0xffffffff) OR lo)"

record gcm =
  hash_key :: u128
  encrypt :: "u128 \<Rightarrow> u128"

definition gcm_new :: "(u128 \<Rightarrow> u128) \<Rightarrow> gcm" where
  "gcm_new aes = \<lparr>hash_key = aes 0, encrypt = aes\<rparr>"

definition j0 :: "gcm \<Rightarrow> u8 list \<Rightarrow> u128" where
  "j0 g iv =
     (if length iv = 12 then from_be_bytes (iv @ [0, 0, 0, 1])
      else ghash (hash_key g) (pad16 iv @ len_bits (length iv)))"

definition block :: "gcm \<Rightarrow> u128 \<Rightarrow> u8 list" where
  "block g counter = to_be_bytes 16 (encrypt g counter)"

definition tag :: "gcm \<Rightarrow> u8 list \<Rightarrow> u8 list \<Rightarrow> u8 list \<Rightarrow> u8 list" where
  "tag g iv aad ct =
     (let s = ghash (hash_key g) (pad16 aad @ pad16 ct @ len_bits (length aad) @ len_bits (length ct))
      in to_be_bytes 16 (s XOR from_be_bytes (block g (j0 g iv))))"

text \<open>The loop \<open>seal\<close> and \<open>open\<close> share: a chunk is combined with the block of the next counter.\<close>

fun ctr_loop :: "gcm \<Rightarrow> u128 \<Rightarrow> u8 list list \<Rightarrow> u8 list" where
  "ctr_loop g counter [] = []"
| "ctr_loop g counter (chunk # rest) =
     (let counter = inc32 counter
      in map2 (XOR) (take (length chunk) (block g counter)) chunk @ ctr_loop g counter rest)"

definition seal :: "gcm \<Rightarrow> u8 list \<Rightarrow> u8 list \<Rightarrow> u8 list \<Rightarrow> u8 list" where
  "seal g iv aad plain =
     (let outp = ctr_loop g (j0 g iv) (chunks16 plain) in outp @ tag g iv aad outp)"

datatype gcm_error = TooShort | TagMismatch

definition open_sealed :: "gcm \<Rightarrow> u8 list \<Rightarrow> u8 list \<Rightarrow> u8 list \<Rightarrow> (gcm_error, u8 list) outcome" where
  "open_sealed g iv aad d =
     (if length d < 16 then Err TooShort
      else let ct = take (length d - 16) d; t = drop (length d - 16) d;
               outp = ctr_loop g (j0 g iv) (chunks16 ct)
        in if tag g iv aad ct = t then Ok outp else Err TagMismatch)"

section \<open>Sealing and opening\<close>

lemma length_to_be_bytes [simp]: "length (to_be_bytes n w) = n"
  by (simp add: to_be_bytes_def)

lemma length_tag [simp]: "length (tag g iv aad ct) = 16"
  by (simp add: tag_def Let_def)

lemma length_block [simp]: "length (block g c) = 16"
  by (simp add: block_def)

lemma block_not_Nil [simp]: "block g c \<noteq> []"
  by (metis length_block list.size(3) zero_neq_numeral)

lemma chunks16_full: "length a = 16 \<Longrightarrow> chunks16 (a @ b) = a # chunks16 b"
  by (cases a) auto

lemma chunks16_last: "a \<noteq> [] \<Longrightarrow> length a \<le> 16 \<Longrightarrow> chunks16 a = [a]"
  by (cases a) auto

lemma chunks16_split:
  "xs \<noteq> [] \<Longrightarrow> chunks16 xs = take 16 xs # chunks16 (drop 16 xs)"
  by (cases xs) auto

lemma length_ctr [simp]: "length (ctr_loop g c (chunks16 xs)) = length xs"
  by (induction xs arbitrary: c rule: chunks16.induct) (auto simp: Let_def)

lemma xor_twice: "length xs \<le> length ks \<Longrightarrow>
  map2 (XOR) (take (length xs) ks) (map2 (XOR) (take (length xs) ks) xs) = (xs :: u8 list)"
  by (rule nth_equalityI) (auto simp: ac_simps)

text \<open>The same key stream undoes itself.\<close>

lemma ctr_twice: "ctr_loop g c (chunks16 (ctr_loop g c (chunks16 xs))) = xs"
proof (induction xs arbitrary: c rule: chunks16.induct)
  case (2 x xs)
  let ?xs = "x # xs" and ?c = "inc32 c"
  let ?a = "map2 (XOR) (take (length (take 16 ?xs)) (block g ?c)) (take 16 ?xs)"
  let ?r = "ctr_loop g ?c (chunks16 (drop 16 ?xs))"
  have out: "ctr_loop g c (chunks16 ?xs) = ?a @ ?r" by (simp add: Let_def)
  have len: "length ?a = length (take 16 ?xs)" by simp
  have "chunks16 (?a @ ?r) = ?a # chunks16 ?r"
  proof (cases "length ?xs \<ge> 16")
    case True
    then show ?thesis by (intro chunks16_full) simp
  next
    case False
    then have "?r = []" by simp
    moreover have "chunks16 ?a = [?a]" by (rule chunks16_last) auto
    ultimately show ?thesis by simp
  qed
  then have "ctr_loop g c (chunks16 (?a @ ?r)) =
      map2 (XOR) (take (length ?a) (block g ?c)) ?a @ ctr_loop g ?c (chunks16 ?r)"
    by (simp add: Let_def)
  moreover have "map2 (XOR) (take (length ?a) (block g ?c)) ?a = take 16 ?xs"
    unfolding len by (rule xor_twice) simp
  moreover have "ctr_loop g ?c (chunks16 ?r) = drop 16 ?xs"
    using "2.IH" [of ?c] by simp
  ultimately show ?case unfolding out by (metis append_take_drop_id)
qed simp

text \<open>
  C32: Decryption succeeds on exactly what encryption produces: \<open>open\<close> returns a plaintext precisely
  for the sealed form of that plaintext under the same key, vector and associated data, so it
  inverts \<open>seal\<close> and any other input is refused.
\<close>

theorem gcm_open_seal: "open_sealed g iv aad d = Ok p \<longleftrightarrow> d = seal g iv aad p"
proof
  assume o: "open_sealed g iv aad d = Ok p"
  let ?ct = "take (length d - 16) d"
  from o have p: "p = ctr_loop g (j0 g iv) (chunks16 ?ct)"
    and t: "tag g iv aad ?ct = drop (length d - 16) d"
    by (auto simp: open_sealed_def Let_def split: if_splits)
  have "ctr_loop g (j0 g iv) (chunks16 p) = ?ct" unfolding p by (rule ctr_twice)
  then show "d = seal g iv aad p" using t by (simp add: seal_def Let_def)
qed (simp add: open_sealed_def seal_def Let_def ctr_twice)

section \<open>The multiplication\<close>

text \<open>Multiplication by the indeterminate: a shift and the reduction.\<close>

definition xtime :: "u128 \<Rightarrow> u128" where
  "xtime v = (if v AND 1 = 1 then drop_bit 1 v XOR push_bit 120 0xe1 else drop_bit 1 v)"

fun mul_acc :: "u128 \<Rightarrow> nat \<Rightarrow> u128 \<Rightarrow> u128" where
  "mul_acc x 0 v = 0"
| "mul_acc x (Suc i) v = (if bit x i then v else 0) XOR mul_acc x i (xtime v)"

lemma low_bit: "(w :: u128) AND 1 = 1 \<longleftrightarrow> bit w 0"
  by (simp add: and_one_eq bit_0 odd_iff_mod_2_eq_one)

lemma mul_fold: "fst (fold (mul_step x) (rev [0..<n]) (z, v)) = z XOR mul_acc x n v"
proof (induction n arbitrary: z v)
  case (Suc n)
  have "drop_bit n x AND 1 = 1 \<longleftrightarrow> bit x n"
    by (simp add: low_bit bit_drop_bit_eq)
  with Suc [of "if bit x n then z XOR v else z" "xtime v"] show ?case
    by (simp add: mul_step_def xtime_def ac_simps)
qed simp

lemma mul_eq: "mul x y = mul_acc x 128 y"
  by (simp add: mul_def mul_fold del: upt_rec_numeral)

text \<open>Maps that respect the addition of the field, which is \<open>XOR\<close>.\<close>

definition additive :: "(u128 \<Rightarrow> u128) \<Rightarrow> bool" where
  "additive f \<longleftrightarrow> (\<forall>x y. f (x XOR y) = f x XOR f y)"

lemma additiveD: "additive f \<Longrightarrow> f (x XOR y) = f x XOR f y"
  by (simp add: additive_def)

lemma additive_0: "additive f \<Longrightarrow> f 0 = 0"
  by (metis additiveD xor_self_eq)

definition basis :: "nat \<Rightarrow> u128" where
  "basis i = push_bit i 1"

lemma bit_basis [bit_simps]: "bit (basis i) k \<longleftrightarrow> i = k \<and> k < 128"
  by (auto simp: basis_def bit_simps)

lemma take_bit_step: "take_bit (Suc n) x = take_bit n x XOR (if bit x n then basis n else (0 :: u128))"
  by (rule bit_eqI) (auto simp: bit_simps less_Suc_eq dest: bit_imp_le_length)

lemma additive_ext:
  assumes "additive f" and "additive g" and "\<And>i. i < 128 \<Longrightarrow> f (basis i) = g (basis i)"
  shows "f x = g x"
proof -
  have "n \<le> 128 \<Longrightarrow> f (take_bit n x) = g (take_bit n x)" for n
  proof (induction n)
    case (Suc n)
    then show ?case
      using assms by (simp add: take_bit_step additiveD additive_0)
  qed (simp add: assms additive_0)
  from this [of 128] show ?thesis by (simp add: take_bit_word_eq_self)
qed

lemma additive_xtime: "additive xtime"
proof -
  have "xtime (x XOR y) = xtime x XOR xtime y" for x y
    unfolding xtime_def low_bit by (auto simp: bit_simps ac_simps)
  then show ?thesis by (simp add: additive_def)
qed

lemma additive_mul_acc: "additive (mul_acc x n)"
proof (induction n)
  case (Suc n)
  with additive_xtime show ?case by (auto simp: additive_def ac_simps)
qed (simp add: additive_def)

lemma additive_mul_acc_left: "additive (\<lambda>x. mul_acc x n v)"
proof (induction n arbitrary: v)
  case (Suc n)
  then show ?case by (auto simp: additive_def bit_simps ac_simps)
qed (simp add: additive_def)

lemma additive_mul: "additive (mul x)" "additive (\<lambda>x. mul x y)"
  using additive_mul_acc additive_mul_acc_left by (auto simp: mul_eq additive_def)

lemma additive_comp: "additive f \<Longrightarrow> additive g \<Longrightarrow> additive (\<lambda>x. f (g x))"
  by (simp add: additive_def)

lemma additive_power: "additive f \<Longrightarrow> additive (f ^^ n)"
  by (induction n) (auto simp: additive_def)

lemma mul_acc_basis: "i < 128 \<Longrightarrow> mul_acc (basis i) n v = (if i < n then (xtime ^^ (n - 1 - i)) v else 0)"
proof (induction n arbitrary: v)
  case (Suc n)
  have b: "bit (basis i :: u128) n \<longleftrightarrow> n = i" using Suc.prems by (auto simp: bit_simps)
  show ?case
  proof (cases "i = n")
    case False
    then have "i < n \<Longrightarrow> n - i = Suc (n - 1 - i)" by linarith
    with False b Suc show ?thesis by (auto simp: funpow_swap1)
  qed (use b Suc in auto)
qed simp

lemma mul_basis: "i < 128 \<Longrightarrow> mul (basis i) v = (xtime ^^ (127 - i)) v"
  by (simp add: mul_eq mul_acc_basis del: mul_acc.simps)

lemma xtime_basis: "i < 127 \<Longrightarrow> xtime (basis (Suc i)) = basis i"
  unfolding xtime_def low_bit by (simp add: bit_simps) (rule bit_eqI, auto simp: bit_simps)

declare mul_acc.simps [simp del]

lemma basis_power: "k \<le> 127 \<Longrightarrow> basis (127 - k) = (xtime ^^ k) (basis 127)"
proof (induction k)
  case (Suc k)
  then have "Suc (126 - k) = 127 - k" "127 - Suc k = 126 - k" "126 - k < 127" by linarith+
  then show ?case using Suc xtime_basis [of "126 - k"] by simp
qed simp

lemma basis_power': "i < 128 \<Longrightarrow> basis i = (xtime ^^ (127 - i)) (basis 127)"
  using basis_power [of "127 - i"] by simp

lemma xtime_powers: "(xtime ^^ m) ((xtime ^^ n) v) = (xtime ^^ n) ((xtime ^^ m) v)"
  by (metis comp_apply funpow_add add.commute)

lemma mul_commute: "mul x y = mul y x"
proof (rule additive_ext [where f = "\<lambda>x. mul x y" and g = "mul y"])
  fix i :: nat assume i: "i < 128"
  show "mul (basis i) y = mul y (basis i)"
  proof (rule additive_ext [where f = "mul (basis i)" and g = "\<lambda>y. mul y (basis i)"])
    fix j :: nat assume j: "j < 128"
    show "mul (basis i) (basis j) = mul (basis j) (basis i)"
      using i j basis_power' [of i] basis_power' [of j] xtime_powers by (metis mul_basis)
  qed (simp_all add: additive_mul)
qed (simp_all add: additive_mul)

lemma mul_xtime: "mul (xtime x) y = xtime (mul x y)"
proof -
  have "mul y (xtime x) = xtime (mul y x)"
  proof (rule additive_ext [where f = "\<lambda>y. mul y (xtime x)" and g = "\<lambda>y. xtime (mul y x)"])
    fix i :: nat assume "i < 128"
    then show "mul (basis i) (xtime x) = xtime (mul (basis i) x)"
      by (simp add: mul_basis funpow_swap1)
  qed (use additive_mul additive_comp [OF additive_xtime additive_mul(2)] in simp_all)
  then show ?thesis by (simp only: mul_commute [of _ y])
qed

lemma mul_xtime_power: "mul ((xtime ^^ n) x) y = (xtime ^^ n) (mul x y)"
  by (induction n) (simp_all add: mul_xtime)

lemma mul_assoc: "mul (mul x y) z = mul x (mul y z)"
proof (rule additive_ext [where f = "\<lambda>x. mul (mul x y) z" and g = "\<lambda>x. mul x (mul y z)"])
  fix i :: nat assume "i < 128"
  then show "mul (mul (basis i) y) z = mul (basis i) (mul y z)"
    by (simp add: mul_basis mul_xtime_power)
qed (use additive_mul additive_comp [OF additive_mul(2) additive_mul(2)] in simp_all)

text \<open>
  C33: The multiplication of the hash is that of a commutative ring over exclusive or: it commutes,
  associates and distributes, its unit is the block with only the first bit set, and the power
  \<open>x^128\<close> of the indeterminate is \<open>x^7 + x^2 + x + 1\<close>, which makes the ring the one of the standard.
\<close>

theorem mul_ring:
  "mul x y = mul y x \<and> mul (mul x y) z = mul x (mul y z) \<and>
   mul x (y XOR z) = mul x y XOR mul x z \<and> mul (basis 127) x = x \<and>
   mul (basis 126) (basis 0) = basis 127 XOR basis 126 XOR basis 125 XOR basis 120"
proof (intro conjI)
  show "mul x y = mul y x" by (rule mul_commute)
  show "mul (mul x y) z = mul x (mul y z)" by (rule mul_assoc)
  show "mul x (y XOR z) = mul x y XOR mul x z" by (rule additiveD) (rule additive_mul)
  show "mul (basis 127) x = x" by (simp add: mul_basis)
  show "mul (basis 126) (basis 0) =
      basis 127 XOR basis 126 XOR basis 125 XOR basis 120"
    by (subst mul_basis) (simp_all add: xtime_def basis_def)
qed

section \<open>Initialization vectors\<close>

text \<open>The initial counter block of SP 800-38D: the length is the low half of a block of its own.\<close>

definition nist_j0 :: "gcm \<Rightarrow> u8 list \<Rightarrow> u128" where
  "nist_j0 g iv =
     (if length iv = 12 then from_be_bytes (iv @ [0, 0, 0, 1])
      else ghash (hash_key g) (pad16 iv @ replicate 8 0 @ len_bits (length iv)))"

lemma from_be_snoc: "from_be_bytes (bs @ [b]) = push_bit 8 (from_be_bytes bs) OR ucast b"
  by (simp add: from_be_bytes_def)

lemma from_be_zeros: "from_be_bytes (bs @ replicate n 0) = push_bit (8 * n) (from_be_bytes bs)"
proof (induction n)
  case (Suc n)
  have "bs @ replicate (Suc n) 0 = (bs @ replicate n 0) @ [0]" by (simp add: replicate_append_same)
  then show ?case using Suc by (simp only: from_be_snoc) (simp add: add.commute)
qed simp

lemma zeros_from_be: "from_be_bytes (replicate n 0 @ bs) = from_be_bytes bs"
proof -
  have "foldl (\<lambda>w b. push_bit 8 w OR ucast b) 0 (replicate n (0 :: u8)) = (0 :: u128)" by (induction n) auto
  then show ?thesis by (simp add: from_be_bytes_def)
qed

lemma to_be_bytes_Suc: "to_be_bytes (Suc n) w = to_be_bytes n (drop_bit 8 w) @ [ucast w]"
proof -
  have "rev [0..<Suc n] = map Suc (rev [0..<n]) @ [0]"
    by (simp add: rev_map [symmetric] map_Suc_upt upt_conv_Cons del: upt_Suc)
  then show ?thesis by (simp add: to_be_bytes_def add.commute del: upt_Suc)
qed

lemma from_to_be: "8 * n \<le> 128 \<Longrightarrow> from_be_bytes (to_be_bytes n w) = ucast (take_bit (8 * n) (w :: u64))"
proof (induction n arbitrary: w)
  case (Suc n)
  show ?case
    unfolding to_be_bytes_Suc from_be_snoc using Suc
    by (intro bit_eqI) (auto simp: bit_simps)
qed (simp add: to_be_bytes_def from_be_bytes_def)

lemma from_be_length: "n < 2 ^ 61 \<Longrightarrow> from_be_bytes (len_bits n) = of_nat (8 * n)"
proof -
  assume n: "n < 2 ^ 61"
  have "of_nat n * 8 = (of_nat (8 * n) :: u64)" by simp
  then have "from_be_bytes (len_bits n) = ucast (of_nat (8 * n) :: u64)"
    unfolding len_bits_def by (subst from_to_be) (simp_all add: take_bit_word_eq_self del: of_nat_mult)
  also have "\<dots> = (of_nat (8 * n) :: u128)"
    using n by (simp add: word_unat_eq_iff unsigned_ucast_eq unsigned_of_nat take_bit_nat_eq_self del: of_nat_mult)
  finally show ?thesis .
qed

lemma ghash_append:
  assumes "16 dvd length a"
  shows "ghash h (a @ b) = fold (\<lambda>chunk y. mul (y XOR from_be_bytes (chunk @ replicate (16 - length chunk) 0)) h)
    (chunks16 b) (ghash h a)"
proof -
  have "chunks16 (a @ b) = chunks16 a @ chunks16 b"
    using assms
  proof (induction a rule: chunks16.induct)
    case (2 x xs)
    then have "16 \<le> length (x # xs)" by (intro dvd_imp_le) simp_all
    then have "length (take 16 (x # xs)) = 16" by simp
    moreover have "(x # xs) @ b = take 16 (x # xs) @ (drop 15 xs @ b)" by simp
    moreover have "16 dvd length (drop 15 xs)"
      using 2 \<open>16 \<le> length (x # xs)\<close> dvd_diff_nat [of 16 "length (x # xs)" 16] by simp
    ultimately show ?case using 2 by (metis append_Cons chunks16.simps(2) chunks16_full)
  qed simp
  then show ?thesis by (simp add: ghash_def)
qed

lemma length_pad16: "16 dvd length (pad16 bs)"
proof -
  let ?n = "length bs"
  have "?n + (16 - ?n mod 16) = 16 * (?n div 16) + 16"
    using div_mult_mod_eq [of ?n 16] mod_less_divisor [of 16 ?n] by linarith
  then have "(?n + (16 - ?n mod 16)) mod 16 = 0" by simp
  then have "(?n + (16 - ?n mod 16) mod 16) mod 16 = 0" by (simp only: mod_add_right_eq)
  then show ?thesis by (simp add: pad16_def mod_eq_0_iff_dvd)
qed

text \<open>
  For a vector that is not 12 bytes long the initial counter block is not the one of SP 800-38D:
  the length is hashed in the high half of the last block instead of the low one, so the two differ
  by the product of the hash key and the length in both halves.
\<close>

theorem long_iv_counter:
  assumes "length iv \<noteq> 12" and "length iv < 2 ^ 61"
  shows "j0 g iv XOR nist_j0 g iv =
    mul (push_bit 64 (of_nat (8 * length iv)) XOR of_nat (8 * length iv)) (hash_key g)"
proof -
  let ?h = "hash_key g" and ?L = "len_bits (length iv)" and ?p = "ghash (hash_key g) (pad16 iv)"
  have len: "length ?L = 8" by (simp add: len_bits_def)
  have L: "from_be_bytes ?L = of_nat (8 * length iv)" using assms(2) by (rule from_be_length)
  have "chunks16 ?L = [?L]" and "chunks16 (replicate 8 0 @ ?L) = [replicate 8 0 @ ?L]"
    by (rule chunks16_last; use len in force)+
  then have "j0 g iv = mul (?p XOR push_bit 64 (from_be_bytes ?L)) ?h"
    and "nist_j0 g iv = mul (?p XOR from_be_bytes ?L) ?h"
    using assms(1) len from_be_zeros [of ?L 8] zeros_from_be [of 8 ?L]
    by (simp_all add: j0_def nist_j0_def ghash_append length_pad16)
  then show ?thesis unfolding L
    by (simp add: additiveD [OF additive_mul(2)] ac_simps)
qed

lemma long_iv_counter_witness:
  "j0 (gcm_new (\<lambda>b. b XOR push_bit 127 1)) [7] \<noteq> nist_j0 (gcm_new (\<lambda>b. b XOR push_bit 127 1)) [7]"
proof
  let ?g = "gcm_new (\<lambda>b. b XOR push_bit 127 1)"
  assume "j0 ?g [7] = nist_j0 ?g [7]"
  then have "mul (push_bit 64 8 XOR 8) (push_bit 127 1) = 0"
    using long_iv_counter [of "[7]" ?g] by (simp add: gcm_new_def)
  then show False
    using mul_commute [of _ "basis 127"] mul_basis [of 127] by (simp add: basis_def)
qed

end
