(* ===== verification/Civil.thy ===== *)
theory Civil
  imports Main
begin

text \<open>
  Civil dates: \<open>vm/native/java/civil.rs\<close>, which \<open>java/util/calendar.rs\<close> repeats word for word. The
  integers are \<open>i32\<close> and \<open>i64\<close> with the wrap-around of a release build written out; \<open>/\<close> rounds
  towards zero.
\<close>

section \<open>Machine arithmetic\<close>

definition wrap :: "nat \<Rightarrow> int \<Rightarrow> int" where
  "wrap n x = (x + 2 ^ (n - 1)) mod 2 ^ n - 2 ^ (n - 1)"

definition w32 :: "int \<Rightarrow> int" where "w32 x = wrap 32 x"

definition w64 :: "int \<Rightarrow> int" where "w64 x = wrap 64 x"

definition tdiv :: "int \<Rightarrow> int \<Rightarrow> int" where
  "tdiv a b = sgn a * sgn b * (abs a div abs b)"

section \<open>Dates and days\<close>

definition days_from_civil :: "int \<Rightarrow> int \<Rightarrow> int \<Rightarrow> int" where
  "days_from_civil year month day =
     (let year = w32 (year - (if month \<le> 2 then 1 else 0));
          era = tdiv (if year \<ge> 0 then year else w32 (year - 399)) 400;
          yoe = w32 (year - w32 (era * 400));
          shifted_month = w32 (month + (if month > 2 then - 3 else 9));
          doy = w32 (w32 (tdiv (w32 (w32 (153 * shifted_month) + 2)) 5 + day) - 1);
          doe = w32 (w32 (w32 (w32 (yoe * 365) + tdiv yoe 4) - tdiv yoe 100) + doy)
      in w32 (w32 (w32 (era * 146097) + doe) - 719468))"

definition civil_from_days :: "int \<Rightarrow> int \<times> int \<times> int" where
  "civil_from_days days =
     (let z = w64 (days + 719468);
          era = tdiv (if z \<ge> 0 then z else w64 (z - 146096)) 146097;
          doe = w64 (z - w64 (era * 146097));
          yoe = tdiv (w64 (w64 (w64 (doe - tdiv doe 1460) + tdiv doe 36524) - tdiv doe 146096)) 365;
          year = w64 (yoe + w64 (era * 400));
          doy = w64 (doe - w64 (w64 (w64 (365 * yoe) + tdiv yoe 4) - tdiv yoe 100));
          mp = tdiv (w64 (w64 (5 * doy) + 2)) 153;
          day = w64 (w64 (doy - tdiv (w64 (w64 (153 * mp) + 2)) 5) + 1);
          month = w64 (mp + (if mp < 10 then 3 else - 9));
          year = w64 (year + (if month \<le> 2 then 1 else 0))
      in (w32 year, w32 month, w32 day))"

definition DAY_MS :: int where "DAY_MS = 86400000"

text \<open>Year, month from 1, day, hour, minute, second, millisecond.\<close>

type_synonym fields = "int \<times> int \<times> int \<times> int \<times> int \<times> int \<times> int"

definition components :: "int \<Rightarrow> fields" where
  "components millis =
     (let days = millis div DAY_MS;
          day_ms = millis mod DAY_MS
      in case civil_from_days days of (year, month, day) \<Rightarrow>
        (year, month, day, w32 (tdiv day_ms 3600000), w32 (tdiv (day_ms mod 3600000) 60000),
         w32 (tdiv (day_ms mod 60000) 1000), w32 (day_ms mod 1000)))"

definition compose :: "int \<Rightarrow> int \<Rightarrow> int \<Rightarrow> int \<Rightarrow> int \<Rightarrow> int \<Rightarrow> int \<Rightarrow> int" where
  "compose year month0 day hour minute second milli =
     (let year = w32 (year + month0 div 12);
          month = w32 (month0 mod 12 + 1)
      in w64 (w64 (w64 (w64 (w64 (days_from_civil year month day * DAY_MS) + w64 (hour * 3600000))
           + w64 (minute * 60000)) + w64 (second * 1000)) + milli))"

section \<open>Without overflow\<close>

lemma wrap_id: "- (2 ^ (n - 1)) \<le> x \<Longrightarrow> x < 2 ^ (n - 1) \<Longrightarrow> 0 < n \<Longrightarrow> wrap n x = x"
proof -
  assume x: "- (2 ^ (n - 1)) \<le> x" "x < 2 ^ (n - 1)" and n: "0 < n"
  have "(2 :: int) ^ n = 2 * 2 ^ (n - 1)" using n by (cases n) simp_all
  then have "(x + 2 ^ (n - 1)) mod 2 ^ n = x + 2 ^ (n - 1)"
    using x by (intro mod_pos_pos_trivial) simp_all
  then show ?thesis by (simp add: wrap_def)
qed

lemma w32_id: "- 2147483648 \<le> x \<Longrightarrow> x \<le> 2147483647 \<Longrightarrow> w32 x = x"
  unfolding w32_def by (rule wrap_id) simp_all

lemma w64_id: "- 9223372036854775808 \<le> x \<Longrightarrow> x \<le> 9223372036854775807 \<Longrightarrow> w64 x = x"
  unfolding w64_def by (rule wrap_id) simp_all

lemma tdiv_nonneg: "0 \<le> a \<Longrightarrow> 0 < b \<Longrightarrow> tdiv a b = a div b"
  by (simp add: tdiv_def sgn_if)

text \<open>The adjusted truncating division of an era is the flooring one.\<close>

lemma tdiv_floor:
  assumes "0 < b" and "a < 0"
  shows "tdiv (a - (b - 1)) b = a div b"
proof -
  have "abs (a - (b - 1)) div b = - (a div b)"
  proof -
    have "abs (a - (b - 1)) = - a + (b - 1)" using assms by simp
    moreover have "(- a + (b - 1)) div b = - (a div b)"
    proof -
      have "- a + (b - 1) = (b - 1 - a mod b) + - (a div b) * b"
        using div_mult_mod_eq [of a b] by (simp add: algebra_simps)
      moreover have "(b - 1 - a mod b) div b = 0"
        using assms pos_mod_bound [of b a] pos_mod_sign [of b a] by (intro div_pos_pos_trivial) linarith+
      ultimately show ?thesis using assms by (simp only: div_mult_self1)
    qed
    ultimately show ?thesis by simp
  qed
  then show ?thesis using assms by (simp add: tdiv_def sgn_if)
qed

text \<open>Both routines over the unbounded integers, with flooring division.\<close>

definition year_start :: "int \<Rightarrow> int" where
  "year_start yoe = yoe * 365 + yoe div 4 - yoe div 100"

definition month_start :: "int \<Rightarrow> int" where
  "month_start sm = (153 * sm + 2) div 5"

text \<open>The year of the 400-year era that a day of the era lies in.\<close>

definition day_scale :: "int \<Rightarrow> int" where
  "day_scale doe = doe - doe div 1460 + doe div 36524 - doe div 146096"

lemma days_from_civil_exact:
  assumes y: "- 5000000 \<le> y" "y \<le> 5000000" and m: "1 \<le> m" "m \<le> 12" and d: "1 \<le> d" "d \<le> 31"
  defines "y' \<equiv> y - (if m \<le> 2 then 1 else 0)" and "sm \<equiv> m + (if m > 2 then - 3 else 9)"
  shows "days_from_civil y m d = y' div 400 * 146097 + year_start (y' mod 400) + month_start sm + d - 1 - 719468"
proof -
  have y': "- 5000001 \<le> y'" "y' \<le> 5000000" using y by (auto simp: y'_def)
  have sm: "0 \<le> sm" "sm \<le> 11" using m by (auto simp: sm_def)
  have wy: "w32 (y - (if m \<le> 2 then 1 else 0)) = y'" using y by (simp add: y'_def w32_id)
  have ws: "w32 (m + (if m > 2 then - 3 else 9)) = sm" using m by (simp add: sm_def w32_id)
  have era: "tdiv (if y' \<ge> 0 then y' else w32 (y' - 399)) 400 = y' div 400"
    using y' tdiv_floor [of 400 y'] by (auto simp: w32_id tdiv_nonneg)
  have eb: "- 12501 \<le> y' div 400" "y' div 400 \<le> 12500" using y' by linarith+
  have yoe: "w32 (y' - w32 (y' div 400 * 400)) = y' mod 400"
    using eb y' by (simp add: w32_id minus_div_mult_eq_mod)
  have yb: "0 \<le> y' mod 400" "y' mod 400 \<le> 399" by simp_all
  have ms: "0 \<le> month_start sm" "month_start sm \<le> 337" using sm by (simp_all add: month_start_def)
  have doy: "w32 (w32 (tdiv (w32 (w32 (153 * sm) + 2)) 5 + d) - 1) = month_start sm + d - 1"
  proof -
    have "tdiv (w32 (w32 (153 * sm) + 2)) 5 = month_start sm"
      using sm by (simp add: w32_id tdiv_nonneg month_start_def)
    then show ?thesis using ms d by (simp add: w32_id)
  qed
  obtain Y where Y: "y' mod 400 = Y" and yb: "0 \<le> Y" "Y \<le> 399" using yb by blast
  let ?doy = "month_start sm + d - 1"
  have ys: "0 \<le> Y div 4" "Y div 4 \<le> 99" "0 \<le> Y div 100" "Y div 100 \<le> 3"
    using yb by linarith+
  have doe: "w32 (w32 (w32 (w32 (Y * 365) + tdiv Y 4) - tdiv Y 100) + ?doy) = year_start Y + ?doy"
    using yb ys ms d by (simp add: w32_id tdiv_nonneg year_start_def)
  have rb: "0 \<le> year_start Y" "year_start Y \<le> 146097" using yb ys by (simp_all add: year_start_def)
  show ?thesis
    unfolding days_from_civil_def Let_def wy era yoe ws doy Y doe
    using eb rb ms d by (simp add: w32_id)
qed

lemma civil_from_days_exact:
  assumes n: "- 2000000000 \<le> n" "n \<le> 2000000000"
  defines "z \<equiv> n + 719468"
  defines "doe \<equiv> z mod 146097"
  defines "yoe \<equiv> day_scale doe div 365"
  defines "doy \<equiv> doe - year_start yoe"
  defines "mp \<equiv> (5 * doy + 2) div 153"
  defines "month \<equiv> mp + (if mp < 10 then 3 else - 9)"
  assumes yb: "0 \<le> yoe" "yoe \<le> 399" and db: "0 \<le> doy" "doy \<le> 366"
  shows "civil_from_days n =
    (yoe + z div 146097 * 400 + (if month \<le> 2 then 1 else 0), month, doy - month_start mp + 1)"
proof -
  have wz: "w64 (n + 719468) = z" using n by (simp add: z_def w64_id)
  have zb: "- 2000000000 \<le> z" "z \<le> 2000719468" using n by (simp_all add: z_def)
  have era: "tdiv (if z \<ge> 0 then z else w64 (z - 146096)) 146097 = z div 146097"
    using zb tdiv_floor [of 146097 z] by (auto simp: w64_id tdiv_nonneg)
  have eb: "- 14000 \<le> z div 146097" "z div 146097 \<le> 14000" using zb by linarith+
  have doe: "w64 (z - w64 (z div 146097 * 146097)) = doe"
    using eb zb by (simp add: w64_id doe_def minus_div_mult_eq_mod)
  have de: "0 \<le> doe" "doe \<le> 146096" by (simp_all add: doe_def)
  have q: "0 \<le> doe div 1460" "doe div 1460 \<le> 146096" "0 \<le> doe div 36524" "doe div 36524 \<le> 146096"
    "0 \<le> doe div 146096" "doe div 146096 \<le> 146096" using de by linarith+
  have sc: "0 \<le> day_scale doe" using yb(1) unfolding yoe_def by linarith
  have scale: "w64 (w64 (w64 (doe - tdiv doe 1460) + tdiv doe 36524) - tdiv doe 146096) = day_scale doe"
    using de q by (simp add: w64_id tdiv_nonneg day_scale_def)
  have yoe: "tdiv (day_scale doe) 365 = yoe" using sc by (simp add: tdiv_nonneg yoe_def)
  have ys: "0 \<le> yoe div 4" "yoe div 4 \<le> 399" "0 \<le> yoe div 100" "yoe div 100 \<le> 399"
    using yb by linarith+
  have year: "w64 (yoe + w64 (z div 146097 * 400)) = yoe + z div 146097 * 400"
    using yb eb by (simp add: w64_id)
  have doy: "w64 (doe - w64 (w64 (w64 (365 * yoe) + tdiv yoe 4) - tdiv yoe 100)) = doy"
    using yb ys de by (simp add: w64_id tdiv_nonneg doy_def year_start_def mult.commute)
  have mp: "tdiv (w64 (w64 (5 * doy) + 2)) 153 = mp"
    using db by (simp add: w64_id tdiv_nonneg mp_def)
  have mb: "0 \<le> mp" "mp \<le> 11" using db by (simp_all add: mp_def)
  have md: "0 \<le> month_start mp" "month_start mp \<le> 400" using mb by (simp_all add: month_start_def)
  have day: "w64 (w64 (doy - tdiv (w64 (w64 (153 * mp) + 2)) 5) + 1) = doy - month_start mp + 1"
  proof -
    have "tdiv (w64 (w64 (153 * mp) + 2)) 5 = month_start mp"
      using mb by (simp add: w64_id tdiv_nonneg month_start_def)
    then show ?thesis using db md by (simp add: w64_id)
  qed
  have mo: "w64 (mp + (if mp < 10 then 3 else - 9)) = month" using mb by (simp add: w64_id month_def)
  have mob: "1 \<le> month" "month \<le> 12" using mb by (auto simp: month_def)
  show ?thesis
    unfolding civil_from_days_def Let_def wz era doe scale yoe year doy mp day mo
    using yb eb mob db md by (simp add: w64_id w32_id)
qed

section \<open>The calendar\<close>

text \<open>The length of a year that starts in March, and of the months of the calendar.\<close>

definition march_year_len :: "int \<Rightarrow> int" where
  "march_year_len yoe = (if yoe mod 4 = 3 \<and> (yoe mod 100 \<noteq> 99 \<or> yoe = 399) then 366 else 365)"

definition leap_year :: "int \<Rightarrow> bool" where
  "leap_year y \<longleftrightarrow> y mod 4 = 0 \<and> (y mod 100 \<noteq> 0 \<or> y mod 400 = 0)"

definition month_len :: "int \<Rightarrow> int \<Rightarrow> int" where
  "month_len y m =
     (if m = 2 then (if leap_year y then 29 else 28)
      else if m \<in> {4, 6, 9, 11} then 30 else 31)"

definition valid_date :: "int \<times> int \<times> int \<Rightarrow> bool" where
  "valid_date date = (case date of (y, m, d) \<Rightarrow> 1 \<le> m \<and> m \<le> 12 \<and> 1 \<le> d \<and> d \<le> month_len y m)"

definition next_date :: "int \<times> int \<times> int \<Rightarrow> int \<times> int \<times> int" where
  "next_date date = (case date of (y, m, d) \<Rightarrow>
     if d < month_len y m then (y, m, d + 1)
     else if m < 12 then (y, m + 1, 1) else (y + 1, 1, 1))"

lemma day_scale_mono: "0 \<le> a \<Longrightarrow> a \<le> b \<Longrightarrow> day_scale a \<le> day_scale b"
proof -
  assume ab: "0 \<le> a" "a \<le> b"
  have q: "x div 146096 = x div 36524 div 4" for x :: int
    by (simp add: zdiv_zmult2_eq [symmetric])
  have "b div 1460 - a div 1460 \<le> b - a" using ab by linarith
  moreover have "a div 36524 \<le> b div 36524" using ab by (intro zdiv_mono1) simp_all
  then have "a div 36524 - a div 36524 div 4 \<le> b div 36524 - b div 36524 div 4" by linarith
  ultimately show ?thesis by (simp add: day_scale_def q)
qed

lemma year_table:
  "list_all (\<lambda>y. 365 * y \<le> day_scale (year_start y) \<and>
     day_scale (year_start y + march_year_len y - 1) \<le> 365 * y + 364 \<and>
     year_start y + march_year_len y \<le> 146097 \<and>
     year_start (y + 1) = (if y = 399 then year_start y + march_year_len y - 1 else year_start y + march_year_len y))
   [0..399]"
  by code_simp

lemma year_tableD:
  assumes "0 \<le> y" and "y \<le> 399"
  shows "365 * y \<le> day_scale (year_start y)"
    and "day_scale (year_start y + march_year_len y - 1) \<le> 365 * y + 364"
    and "year_start y + march_year_len y \<le> 146097"
    and "y < 399 \<Longrightarrow> year_start (y + 1) = year_start y + march_year_len y"
  using year_table assms by (auto simp: list_all_iff)

lemma year_start_nonneg: "0 \<le> y \<Longrightarrow> 0 \<le> year_start y"
  unfolding year_start_def by linarith

lemma year_of_day:
  assumes "0 \<le> y" "y \<le> 399" "0 \<le> t" "t < march_year_len y"
  shows "day_scale (year_start y + t) div 365 = y"
proof -
  have "day_scale (year_start y) \<le> day_scale (year_start y + t)"
    "day_scale (year_start y + t) \<le> day_scale (year_start y + march_year_len y - 1)"
    using assms year_start_nonneg [of y] by (auto intro!: day_scale_mono)
  then have "365 * y \<le> day_scale (year_start y + t)" "day_scale (year_start y + t) \<le> 365 * y + 364"
    using year_tableD [OF assms(1,2)] by simp_all
  then show ?thesis by linarith
qed

lemma day_in_year:
  assumes "0 \<le> doe" and "doe < 146097"
  shows "\<exists>y t. 0 \<le> y \<and> y \<le> 399 \<and> 0 \<le> t \<and> t < march_year_len y \<and> doe = year_start y + t"
proof -
  have "n \<le> 399 \<Longrightarrow> doe < year_start (int n) + march_year_len (int n) \<Longrightarrow> ?thesis" for n :: nat
  proof (induction n)
    case 0
    then show ?case using assms(1)
      by (intro exI [of _ 0] exI [of _ doe]) (simp add: year_start_def)
  next
    case (Suc n)
    show ?case
    proof (cases "doe < year_start (int n) + march_year_len (int n)")
      case True
      with Suc show ?thesis by simp
    next
      case False
      have "year_start (int n + 1) = year_start (int n) + march_year_len (int n)"
        using Suc.prems(1) by (intro year_tableD(4)) simp_all
      with False Suc.prems show ?thesis
        by (intro exI [of _ "int n + 1"] exI [of _ "doe - year_start (int n + 1)"]) (simp add: add.commute)
    qed
  qed
  from this [of 399] assms(2) show ?thesis by (simp add: year_start_def march_year_len_def)
qed

text \<open>Month and day from the day of the year.\<close>

lemma month_of_day:
  assumes "0 \<le> sm" "sm \<le> 11" "1 \<le> d" "d \<le> (if sm = 11 then 29 else if sm \<in> {1, 3, 6, 8} then 30 else 31)"
  shows "(5 * (month_start sm + d - 1) + 2) div 153 = sm"
proof -
  have "sm \<in> {0, 1, 2, 3, 4, 5, 6, 7, 8, 9, 10, 11}" using assms(1,2) by simp arith
  then show ?thesis using assms(3,4) unfolding month_start_def
    by (elim insertE emptyE; simp; linarith)
qed

text \<open>The shifted month and year of a date, and the day of the year they give.\<close>

definition shifted :: "int \<times> int \<Rightarrow> int \<times> int" where
  "shifted ym = (case ym of (y, m) \<Rightarrow> (y - (if m \<le> 2 then 1 else 0), m + (if m > 2 then - 3 else 9)))"

lemma succ_mod: "0 < n \<Longrightarrow> (r + 1) mod n = 0 \<longleftrightarrow> r mod n = n - (1 :: int)"
proof -
  assume n: "0 < n"
  then have k: "0 \<le> r mod n" "r mod n < n" by simp_all
  have "(r + 1) mod n = (r mod n + 1) mod n" by (simp only: mod_add_left_eq)
  also have "\<dots> = (if r mod n = n - 1 then 0 else r mod n + 1)"
    using k by (auto intro: mod_pos_pos_trivial)
  finally show ?thesis using k by simp
qed

lemma leap_march: "leap_year (y + 1) \<longleftrightarrow> march_year_len (y mod 400) = 366"
proof -
  obtain q r where y: "y = 400 * q + r" "0 \<le> r" "r < 400"
    by (metis mult.commute div_mult_mod_eq pos_mod_bound pos_mod_sign zero_less_numeral)
  have eq: "400 * q + r + 1 = (r + 1) + 4 * (100 * q)" "400 * q + r + 1 = (r + 1) + 100 * (4 * q)"
    "400 * q + r + 1 = (r + 1) + 400 * q" "400 * q + r = r + 400 * q" by simp_all
  have m: "(400 * q + r + 1) mod 4 = (r + 1) mod 4" by (subst eq(1)) (rule mod_mult_self2)
  have m': "(400 * q + r + 1) mod 100 = (r + 1) mod 100" by (subst eq(2)) (rule mod_mult_self2)
  have m'': "(400 * q + r + 1) mod 400 = (r + 1) mod 400" by (subst eq(3)) (rule mod_mult_self2)
  have r: "(400 * q + r) mod 400 = r" using y(2,3) by (subst eq(4)) (simp only: mod_mult_self2 mod_pos_pos_trivial)
  have "(r + 1) mod 4 = 0 \<longleftrightarrow> r mod 4 = 3" "(r + 1) mod 100 = 0 \<longleftrightarrow> r mod 100 = 99"
    "(r + 1) mod 400 = 0 \<longleftrightarrow> r = 399"
    using succ_mod [of 4 r] succ_mod [of 100 r] succ_mod [of 400 r] y(2,3) by simp_all
  then show ?thesis unfolding leap_year_def march_year_len_def y(1) m m' m'' r by simp
qed

lemma day_of_date:
  assumes "valid_date (y, m, d)" and "shifted (y, m) = (y', sm)"
  shows "0 \<le> sm" "sm \<le> 11" "1 \<le> d" "d \<le> 31"
    and "d \<le> (if sm = 11 then 29 else if sm \<in> {1, 3, 6, 8} then 30 else 31)"
    and "0 \<le> month_start sm + d - 1" "month_start sm + d - 1 < march_year_len (y' mod 400)"
proof -
  have m: "m \<in> {1, 2, 3, 4, 5, 6, 7, 8, 9, 10, 11, 12}"
    using assms(1) by (simp add: valid_date_def) arith
  have len: "march_year_len (y' mod 400) = 365 \<or> march_year_len (y' mod 400) = 366"
    by (simp add: march_year_len_def)
  show "0 \<le> sm" "sm \<le> 11" "1 \<le> d" "d \<le> 31"
    "d \<le> (if sm = 11 then 29 else if sm \<in> {1, 3, 6, 8} then 30 else 31)"
    "0 \<le> month_start sm + d - 1"
    using m assms by (auto simp: valid_date_def shifted_def month_len_def month_start_def split: if_splits)
  show "month_start sm + d - 1 < march_year_len (y' mod 400)"
    using m assms len leap_march [of y']
    by (auto simp: valid_date_def shifted_def month_len_def month_start_def split: if_splits)
qed

lemma days_of_date:
  assumes "valid_date (y, m, d)" and "shifted (y, m) = (y', sm)" and "- 5000000 \<le> y" "y \<le> 5000000"
  shows "days_from_civil y m d = y' div 400 * 146097 + (year_start (y' mod 400) + (month_start sm + d - 1)) - 719468"
  using days_from_civil_exact [of y m d] day_of_date [OF assms(1,2)] assms
  by (simp add: valid_date_def shifted_def)

lemma era_day: "0 \<le> t \<Longrightarrow> t < march_year_len (y' mod 400) \<Longrightarrow>
  0 \<le> year_start (y' mod 400) + t \<and> year_start (y' mod 400) + t < 146097"
proof -
  assume t: "0 \<le> t" "t < march_year_len (y' mod 400)"
  have r: "0 \<le> y' mod 400" "y' mod 400 \<le> 399" by simp_all
  show ?thesis using year_tableD(3) [OF r] year_start_nonneg [OF r(1)] t by simp
qed

text \<open>The month of a day of the year, found by its first day.\<close>

lemma month_in_year:
  assumes "0 \<le> t" "t \<le> 365"
  defines "sm \<equiv> (5 * t + 2) div 153"
  shows "0 \<le> sm" "sm \<le> 11" "month_start sm \<le> t"
    "t - month_start sm + 1 \<le> (if sm = 11 then t - 336 else if sm \<in> {1, 3, 6, 8} then 30 else 31)"
proof -
  show "0 \<le> sm" "sm \<le> 11" using assms(1,2) unfolding sm_def by linarith+
  then have "sm \<in> {0, 1, 2, 3, 4, 5, 6, 7, 8, 9, 10, 11}" by simp arith
  moreover have "153 * sm \<le> 5 * t + 2" "5 * t + 2 < 153 * sm + 153" unfolding sm_def by linarith+
  ultimately show "month_start sm \<le> t"
    "t - month_start sm + 1 \<le> (if sm = 11 then t - 336 else if sm \<in> {1, 3, 6, 8} then 30 else 31)"
    unfolding month_start_def by auto
qed

lemma civil_of_day:
  assumes "- 1700000000 \<le> n" and "n \<le> 1700000000"
  shows "valid_date (civil_from_days n) \<and>
    (case civil_from_days n of (y, m, d) \<Rightarrow> days_from_civil y m d) = n"
proof -
  let ?z = "n + 719468"
  obtain Y t where Y: "0 \<le> Y" "Y \<le> 399" and t: "0 \<le> t" "t < march_year_len Y"
    and doe: "?z mod 146097 = year_start Y + t"
    using day_in_year [of "?z mod 146097"] by auto
  have yoe: "day_scale (year_start Y + t) div 365 = Y" using Y t by (rule year_of_day)
  have t': "t \<le> 365" using t(2) by (simp add: march_year_len_def split: if_splits)
  define sm where "sm = (5 * t + 2) div 153"
  note ms = month_in_year [OF t(1) t', folded sm_def]
  define m where "m = sm + (if sm < 10 then 3 else - 9)"
  define y where "y = Y + ?z div 146097 * 400 + (if m \<le> 2 then 1 else 0)"
  define d where "d = t - month_start sm + 1"
  have nb: "- 2000000000 \<le> n" "n \<le> 2000000000" using assms by simp_all
  have date: "civil_from_days n = (y, m, d)"
    using civil_from_days_exact [OF nb] Y t(1) t' unfolding y_def m_def d_def sm_def by (simp add: doe yoe)
  define y' where "y' = Y + ?z div 146097 * 400"
  have sh: "shifted (y, m) = (y', sm)"
    using ms(1,2) by (auto simp: shifted_def y_def y'_def m_def)
  have yY: "y' mod 400 = Y" "y' div 400 = ?z div 146097" using Y by (simp_all add: y'_def)
  have d31: "d \<le> (if sm = 11 then t - 336 else if sm \<in> {1, 3, 6, 8} then 30 else 31)" and d1: "1 \<le> d"
    using ms(3,4) by (simp_all add: d_def)
  have valid: "valid_date (y, m, d)"
  proof -
    have "sm \<in> {0, 1, 2, 3, 4, 5, 6, 7, 8, 9, 10, 11}" using ms(1,2) by simp arith
    moreover have "m = 2 \<Longrightarrow> leap_year y \<longleftrightarrow> march_year_len Y = 366"
      using leap_march [of y'] by (simp add: y_def y'_def [symmetric] yY)
    moreover have "march_year_len Y = 365 \<or> march_year_len Y = 366" by (simp add: march_year_len_def)
    ultimately show ?thesis using d1 d31 t(2)
      by (elim insertE emptyE disjE) (simp_all add: valid_date_def month_len_def m_def)
  qed
  have zb: "- 11640 \<le> ?z div 146097" "?z div 146097 \<le> 11645" using assms by linarith+
  then have "- 5000000 \<le> y" "y \<le> 5000000" using Y by (simp_all add: y_def)
  then have "days_from_civil y m d = ?z div 146097 * 146097 + (year_start Y + (month_start sm + d - 1)) - 719468"
    using days_of_date [OF valid sh] yY by simp
  also have "\<dots> = n" using doe div_mult_mod_eq [of ?z 146097] by (simp add: d_def)
  finally show ?thesis using date valid by simp
qed

text \<open>
  C34: Dates and day numbers correspond one to one: for every valid date of the years -4900000 to
  4900000 the day number leads back to the date, and for every day within 1700000000 days of the
  epoch the date is valid and leads back to the day; no intermediate result overflows.
\<close>

theorem civil_inverse:
  assumes "- 1700000000 \<le> n" and "n \<le> 1700000000"
    and "valid_date (y, m, d)" and "- 4900000 \<le> y" and "y \<le> 4900000"
  shows "civil_from_days (days_from_civil y m d) = (y, m, d) \<and>
    valid_date (civil_from_days n) \<and>
    (case civil_from_days n of (y, m, d) \<Rightarrow> days_from_civil y m d) = n"
proof -
  obtain y' sm where sh: "shifted (y, m) = (y', sm)" by fastforce
  let ?Y = "y' mod 400" and ?t = "month_start sm + d - 1"
  note dd = day_of_date [OF assms(3) sh]
  note e = era_day [OF dd(6,7)]
  have days: "days_from_civil y m d = y' div 400 * 146097 + (year_start ?Y + ?t) - 719468"
    using days_of_date [OF assms(3) sh] assms(4,5) by simp
  have z: "(days_from_civil y m d + 719468) div 146097 = y' div 400"
    "(days_from_civil y m d + 719468) mod 146097 = year_start ?Y + ?t"
  proof -
    have days': "days_from_civil y m d + 719468 = year_start ?Y + ?t + y' div 400 * 146097"
      unfolding days by simp
    show "(days_from_civil y m d + 719468) div 146097 = y' div 400"
      "(days_from_civil y m d + 719468) mod 146097 = year_start ?Y + ?t"
      unfolding days' using e by (simp_all only: div_mult_self1 mod_mult_self1 div_pos_pos_trivial mod_pos_pos_trivial)
  qed
  have yb: "- 4900001 \<le> y'" "y' \<le> 4900000" using sh assms(4,5) by (auto simp: shifted_def split: if_splits)
  then have "- 12251 \<le> y' div 400" "y' div 400 \<le> 12250" by linarith+
  then have nb: "- 2000000000 \<le> days_from_civil y m d" "days_from_civil y m d \<le> 2000000000"
    unfolding days using e by linarith+
  have yoe: "day_scale (year_start ?Y + ?t) div 365 = ?Y"
    using dd(6,7) by (intro year_of_day) simp_all
  have len: "march_year_len ?Y \<le> 366" by (simp add: march_year_len_def)
  have civil: "civil_from_days (days_from_civil y m d) =
      (?Y + y' div 400 * 400 + (if sm + (if sm < 10 then 3 else - 9) \<le> 2 then 1 else 0),
       sm + (if sm < 10 then 3 else - 9), d)"
  proof -
    obtain t where t: "?t = t" by blast
    have mp: "(5 * t + 2) div 153 = sm" using month_of_day [OF dd(1,2,3,5)] t by simp
    have tb: "0 \<le> t" "t \<le> 366" "t - month_start sm + 1 = d" using dd(6,7) len t by simp_all
    obtain Y where Y: "?Y = Y" and Yb: "0 \<le> Y" "Y \<le> 399" by simp
    show ?thesis
      using civil_from_days_exact [OF nb] Yb tb unfolding z yoe [unfolded t Y] t Y by (simp add: mp yoe [unfolded t Y])
  qed
  have "?Y + y' div 400 * 400 = y'" by simp
  then have "civil_from_days (days_from_civil y m d) = (y, m, d)"
    using civil sh assms(3) by (auto simp: shifted_def valid_date_def split: if_splits)
  moreover have "valid_date (civil_from_days n) \<and>
    (case civil_from_days n of (y, m, d) \<Rightarrow> days_from_civil y m d) = n"
    by (rule civil_of_day) (use assms in simp_all)
  ultimately show ?thesis by blast
qed

lemma civil_inverse_witness:
  "civil_from_days (days_from_civil 2024 2 29) = (2024, 2, 29) \<and>
   valid_date (civil_from_days (- 719469)) \<and>
   (case civil_from_days (- 719469) of (y, m, d) \<Rightarrow> days_from_civil y m d) = - 719469"
  by (rule civil_inverse) (simp_all add: valid_date_def month_len_def leap_year_def)

text \<open>
  Consecutive dates of the Gregorian calendar have consecutive day numbers, over month ends,
  leap days and centuries, and the first of January 1970 is day 0.
\<close>

theorem next_day:
  assumes "valid_date (y, m, d)" and "- 4900000 \<le> y" and "y \<le> 4900000"
  shows "(case next_date (y, m, d) of (y', m', d') \<Rightarrow> days_from_civil y' m' d') =
      days_from_civil y m d + 1 \<and>
    days_from_civil 1970 1 1 = 0"
proof
  show "days_from_civil 1970 1 1 = 0" by code_simp
  obtain y' m' d' where n: "next_date (y, m, d) = (y', m', d')" by (cases "next_date (y, m, d)")
  have v: "valid_date (y', m', d')" and yb: "- 5000000 \<le> y'" "y' \<le> 5000000"
    using n assms by (auto simp: next_date_def valid_date_def month_len_def split: if_splits)
  obtain a s a' s' where sh: "shifted (y, m) = (a, s)" "shifted (y', m') = (a', s')" by fastforce
  have m: "m \<in> {1, 2, 3, 4, 5, 6, 7, 8, 9, 10, 11, 12}"
    using assms(1) by (simp add: valid_date_def) arith
  note eq = days_of_date [OF assms(1) sh(1)] days_of_date [OF v sh(2) yb]
  have same: "month_start s' + d' = month_start s + d + 1" if "a' = a"
  proof (cases "d < month_len y m")
    case True
    then show ?thesis using n sh by (auto simp: next_date_def shifted_def)
  next
    case False
    then have e: "d = month_len y m" "d' = 1" and "m \<noteq> 2" and step: "s' = s + 1"
      using n that assms(1) sh by (auto simp: next_date_def valid_date_def shifted_def split: if_splits)
    have "s = m + (if m > 2 then - 3 else 9)" using sh(1) by (simp add: shifted_def)
    then show ?thesis unfolding step e using m \<open>m \<noteq> 2\<close>
      by (elim insertE emptyE) (simp_all add: month_len_def month_start_def)
  qed
  have new_year: "a' = a + 1 \<and> s' = 0 \<and> d' = 1 \<and> month_start s + d = march_year_len (a mod 400)" if "a' \<noteq> a"
  proof -
    have e: "m = 2" "d = month_len y m" "y' = y" "m' = 3" "d' = 1"
      using n that assms(1) sh by (auto simp: next_date_def valid_date_def shifted_def split: if_splits)
    have "leap_year (a + 1) \<longleftrightarrow> march_year_len (a mod 400) = 366"
      "march_year_len (a mod 400) = 365 \<or> march_year_len (a mod 400) = 366"
      by (rule leap_march) (simp add: march_year_len_def)
    then show ?thesis using sh unfolding e by (auto simp: shifted_def month_len_def month_start_def)
  qed
  have "a' div 400 * 146097 + year_start (a' mod 400) + month_start s' + d' =
      a div 400 * 146097 + year_start (a mod 400) + month_start s + d + 1"
  proof (cases "a' = a")
    case False
    have r: "0 \<le> a mod 400" "a mod 400 \<le> 399" by simp_all
    have a: "a = a div 400 * 400 + a mod 400" by simp
    show ?thesis
    proof (cases "a mod 400 = 399")
      case True
      then have "a + 1 = 0 + (a div 400 + 1) * 400" using a by simp
      then have "(a + 1) mod 400 = 0" "(a + 1) div 400 = a div 400 + 1"
        by (simp_all only: mod_mult_self1 div_mult_self1) simp_all
      then show ?thesis using new_year [OF False] True
        by (simp add: year_start_def month_start_def march_year_len_def)
    next
      case less: False
      then have b: "0 \<le> a mod 400 + 1" "a mod 400 + 1 < 400" using r by simp_all
      have "a + 1 = (a mod 400 + 1) + (a div 400) * 400" by simp
      then have "(a + 1) mod 400 = a mod 400 + 1" "(a + 1) div 400 = a div 400"
        by (simp_all only: mod_mult_self1 div_mult_self1 mod_pos_pos_trivial [OF b] div_pos_pos_trivial [OF b])
      then show ?thesis using new_year [OF False] year_tableD(4) [OF r] less r
        by (simp add: month_start_def)
    qed
  qed (use same in simp)
  then show "(case next_date (y, m, d) of (y', m', d') \<Rightarrow> days_from_civil y' m' d') = days_from_civil y m d + 1"
    using eq assms n by simp
qed

lemma next_day_witness:
  "(case next_date (2000, 2, 29) of (y', m', d') \<Rightarrow> days_from_civil y' m' d') = days_from_civil 2000 2 29 + 1 \<and>
   days_from_civil 1970 1 1 = 0"
  by (rule next_day) (simp_all add: valid_date_def month_len_def leap_year_def)

end
