(* ===== verification/Manifest.thy ===== *)
theory Manifest
  imports DexRead Loops
begin

text \<open>
  \<open>manifest.rs\<close>: the resource table \<open>resources.arsc\<close> and the binary \<open>AndroidManifest.xml\<close> of an
  APK. Both are streams of chunks with a type and a size, walked by loops that end only if the
  sizes do not repeat an offset: \<open>run_while\<close> gives \<open>Diverge\<close> to a loop that goes on for ever.
  Shown: which files a walk hangs on, how references of resources are followed, and that string
  pools are read as the format writes them. Reserving memory for the announced number of strings
  is not modelled.
\<close>

section \<open>Bytes\<close>

datatype manifest_error = Missing string | Parse string

type_synonym 'a man = "(manifest_error, 'a) outcome"

text \<open>\<open>data[i]\<close> and the little-endian reads, which panic past the end.\<close>

definition byte_of :: "u8 list \<Rightarrow> nat \<Rightarrow> u8 man" where
  "byte_of d i = (case nth_opt d i of Some b \<Rightarrow> Ok b | None \<Rightarrow> Panic)"

definition bytes_u16 :: "u8 list \<Rightarrow> nat \<Rightarrow> u16 man" where
  "bytes_u16 d ofs = obind (byte_of d ofs) (\<lambda>a. obind (byte_of d (ofs + 1)) (\<lambda>b. Ok (u16_le a b)))"

definition bytes_u32 :: "u8 list \<Rightarrow> nat \<Rightarrow> u32 man" where
  "bytes_u32 d ofs =
     obind (byte_of d ofs) (\<lambda>a. obind (byte_of d (ofs + 1)) (\<lambda>b.
     obind (byte_of d (ofs + 2)) (\<lambda>c. obind (byte_of d (ofs + 3)) (\<lambda>e. Ok (u32_le a b c e)))))"

definition size_at :: "u8 list \<Rightarrow> nat \<Rightarrow> nat man" where
  "size_at d ofs = obind (bytes_u32 d ofs) (\<lambda>w. Ok (unat w))"

definition half_at :: "u8 list \<Rightarrow> nat \<Rightarrow> nat man" where
  "half_at d ofs = obind (bytes_u16 d ofs) (\<lambda>w. Ok (unat w))"

definition chunk_header :: "u8 list \<Rightarrow> nat \<Rightarrow> (u16 \<times> u16 \<times> u32) man" where
  "chunk_header d ofs =
     (if ofs + 8 > length d then Err (Parse ''chunk header overruns'')
      else obind (bytes_u16 d ofs) (\<lambda>ctype. obind (bytes_u16 d (ofs + 2)) (\<lambda>h.
        obind (bytes_u32 d (ofs + 4)) (\<lambda>size. Ok (ctype, h, size)))))"

definition pool_size :: "u8 list \<Rightarrow> nat \<Rightarrow> nat man" where
  "pool_size d ofs = obind (chunk_header d ofs) (\<lambda>(_, _, size). Ok (unat size))"

section \<open>String pools\<close>

text \<open>A length prefix of one or two bytes, and the cursor after it.\<close>

definition read_utf8_len :: "u8 list \<Rightarrow> nat \<Rightarrow> nat \<Rightarrow> (nat \<times> nat) man" where
  "read_utf8_len d p last' =
     obind (ok_or (Parse ''utf8 length overruns'') (nth_opt d p)) (\<lambda>b0.
     if b0 AND 0x80 = 0 then Ok (unat b0, p + 1)
     else if p + 1 \<ge> last' then Err (Parse ''utf8 length overruns'')
     else obind (byte_of d (p + 1)) (\<lambda>b1. Ok (unat (b0 AND 0x7f) * 256 + unat b1, p + 2)))"

definition utf8_entry :: "u8 list \<Rightarrow> nat \<Rightarrow> nat \<Rightarrow> string man" where
  "utf8_entry d s last' =
     obind (read_utf8_len d s last') (\<lambda>(_, p).
     obind (read_utf8_len d p last') (\<lambda>(n, p).
     if p + n > length d then Err (Parse ''utf8 string overruns'')
     else Ok (map byte_char (from_utf8_lossy (sub d p (p + n))))))"

text \<open>\<open>char::from_u32(u).unwrap_or('\u{fffd}')\<close>: every UTF-16 unit is a character of its own.\<close>

definition unit_text :: "u16 \<Rightarrow> u8 list" where
  "unit_text u = (if 0xD800 \<le> u \<and> u \<le> 0xDFFF then replacement else utf8_encode (unat u))"

fun units_of :: "u8 list \<Rightarrow> u16 list" where
  "units_of (a # b # r) = u16_le a b # units_of r"
| "units_of _ = []"

definition utf16_entry :: "u8 list \<Rightarrow> nat \<Rightarrow> nat \<Rightarrow> string man" where
  "utf16_entry d s last' =
     obind (half_at d s) (\<lambda>len.
     let end2 = s + 2 + len * 2 in
     if end2 > last' then Err (Parse ''utf16 string overruns'')
     else if end2 > length d then Panic
     else Ok (map byte_char (concat (map unit_text (units_of (sub d (s + 2) end2))))))"

definition pool_entry :: "u8 list \<Rightarrow> nat \<Rightarrow> nat \<Rightarrow> nat \<Rightarrow> bool \<Rightarrow> nat \<Rightarrow> string man" where
  "pool_entry d ofs last' strings_start utf8 i =
     obind (size_at d (ofs + 28 + 4 * i)) (\<lambda>rel.
     let s = ofs + strings_start + rel in
     if s \<ge> last' then Err (Parse ''string offset out of range'')
     else if utf8 then utf8_entry d s last' else utf16_entry d s last')"

definition parse_string_pool :: "u8 list \<Rightarrow> nat \<Rightarrow> (string list \<times> nat) man" where
  "parse_string_pool d ofs =
     obind (chunk_header d ofs) (\<lambda>(_, _, size).
     let last' = ofs + unat size in
     if ofs + 28 > last' then Err (Parse ''truncated string pool'')
     else
       obind (size_at d (ofs + 8)) (\<lambda>count.
       obind (bytes_u32 d (ofs + 16)) (\<lambda>flags.
       obind (size_at d (ofs + 20)) (\<lambda>strings_start.
       obind (omap (pool_entry d ofs last' strings_start (flags AND 0x100 \<noteq> 0)) [0..<count]) (\<lambda>strings.
       Ok (strings, unat size))))))"

section \<open>The resource table\<close>

datatype res_entry = ResStr string | ResInt i64 | ResRef u32

record resource_table =
  pool_values :: "string list"
  res_types :: "u8 \<rightharpoonup> (u32 \<rightharpoonup> res_entry)"

definition empty_table :: resource_table where
  "empty_table = \<lparr>pool_values = [], res_types = Map.empty\<rparr>"

definition REFERENCE :: u8 where "REFERENCE = 0x01"
definition STRING :: u8 where "STRING = 0x03"
definition INT_DEC :: u8 where "INT_DEC = 0x10"
definition INT_HEX :: u8 where "INT_HEX = 0x11"
definition INT_BOOLEAN :: u8 where "INT_BOOLEAN = 0x12"

definition is_int_type :: "u8 \<Rightarrow> bool" where
  "is_int_type t \<longleftrightarrow> t = INT_DEC \<or> t = INT_HEX \<or> t = INT_BOOLEAN"

text \<open>The typed value of an entry; \<open>None\<close> is a type that is skipped.\<close>

definition entry_value :: "string list \<Rightarrow> u8 \<Rightarrow> u32 \<Rightarrow> res_entry option man" where
  "entry_value strings vtype vdata =
     (if vtype = REFERENCE then Ok (Some (ResRef vdata))
      else if vtype = STRING then
        obind (ok_or (Parse (''value string '' @ show_nat (unat vdata) @ '' missing''))
          (nth_opt strings (unat vdata))) (\<lambda>s. Ok (Some (ResStr s)))
      else if is_int_type vtype then Ok (Some (ResInt (scast vdata)))
      else Ok None)"

text \<open>\<open>entries.entry(i).or_insert(e)\<close>: the first chunk to describe an entry wins.\<close>

definition or_insert :: "'k \<Rightarrow> 'v \<Rightarrow> ('k \<rightharpoonup> 'v) \<Rightarrow> ('k \<rightharpoonup> 'v)" where
  "or_insert k v m = (if m k = None then m(k \<mapsto> v) else m)"

definition type_entry :: "u8 list \<Rightarrow> nat \<Rightarrow> nat \<Rightarrow> string list \<Rightarrow> nat \<Rightarrow> nat \<Rightarrow>
  (u32 \<rightharpoonup> res_entry) \<Rightarrow> nat \<Rightarrow> (u32 \<rightharpoonup> res_entry) man" where
  "type_entry d ofs last' strings offsets_at entries_start entries i =
     (if offsets_at + 4 * i + 4 > last' then Err (Parse ''entry offsets overrun'')
      else
        obind (size_at d (offsets_at + 4 * i)) (\<lambda>rel.
        let entry_at = ofs + entries_start + rel in
        if entry_at + 16 > last' then Ok entries
        else
          let v = entry_at + 8 in
          obind (half_at d v) (\<lambda>vsize.
          obind (byte_of d (v + 2)) (\<lambda>_.
          obind (byte_of d (v + 3)) (\<lambda>vtype.
          obind (bytes_u32 d (v + 4)) (\<lambda>vdata.
          if vsize < 8 then Ok entries
          else obind (entry_value strings vtype vdata) (\<lambda>m.
            Ok (case m of Some e \<Rightarrow> or_insert (of_nat i) e entries | None \<Rightarrow> entries))))))))"

definition parse_type_chunk :: "u8 list \<Rightarrow> nat \<Rightarrow> nat \<Rightarrow> resource_table \<Rightarrow> resource_table man" where
  "parse_type_chunk d ofs last' t =
     (if ofs + 24 > last' then Err (Parse ''truncated type chunk'')
      else
        obind (byte_of d (ofs + 8)) (\<lambda>type_id.
        obind (size_at d (ofs + 12)) (\<lambda>entry_count.
        obind (size_at d (ofs + 16)) (\<lambda>entries_start.
        obind (size_at d (ofs + 20)) (\<lambda>config_size.
        if entry_count = 0 \<or> type_id = 0 then Ok t
        else
          let entries = (case res_types t type_id of Some m \<Rightarrow> m | None \<Rightarrow> Map.empty) in
          obind (ofold (type_entry d ofs last' (pool_values t) (ofs + 20 + config_size) entries_start)
            entries [0..<entry_count]) (\<lambda>m.
          Ok (t\<lparr>res_types := (res_types t)(type_id \<mapsto> m)\<rparr>)))))))"

text \<open>The chunks of a package; the flag is cleared by the \<open>break\<close>.\<close>

definition package_step :: "u8 list \<Rightarrow> nat \<Rightarrow> bool \<times> nat \<times> resource_table \<Rightarrow>
  (bool \<times> nat \<times> resource_table) man" where
  "package_step d last' st = (case st of (_, off2, t) \<Rightarrow>
     obind (chunk_header d off2) (\<lambda>(ctype, _, size).
     let cend = off2 + unat size in
     if cend > last' then Ok (False, off2, t)
     else obind (if ctype = 0x0201 then parse_type_chunk d off2 cend t else Ok t) (\<lambda>t'.
       Ok (True, cend, t'))))"

definition parse_package :: "u8 list \<Rightarrow> nat \<Rightarrow> nat \<Rightarrow> resource_table \<Rightarrow> resource_table man" where
  "parse_package d ofs last' t =
     (if ofs + 280 > last' then Err (Parse ''truncated package chunk'')
      else
        obind (size_at d (ofs + 268)) (\<lambda>type_strings.
        obind (size_at d (ofs + 276)) (\<lambda>key_strings.
        if ofs + type_strings + 28 > last' \<or> ofs + key_strings + 28 > last'
        then Err (Parse ''package pool offset out of range'')
        else
          obind (pool_size d (ofs + key_strings)) (\<lambda>n.
          obind (run_while (\<lambda>(go, off2, _). go \<and> off2 + 8 \<le> last') (package_step d last')
            (True, ofs + key_strings + n, t)) (\<lambda>(_, _, t'). Ok t')))))"

text \<open>The chunks of the table; the state is the offset, whether no pool was seen yet, and the table.\<close>

definition table_step :: "u8 list \<Rightarrow> nat \<times> bool \<times> resource_table \<Rightarrow> (nat \<times> bool \<times> resource_table) man" where
  "table_step d st = (case st of (ofs, first, t) \<Rightarrow>
     obind (chunk_header d ofs) (\<lambda>(ctype, _, size).
     let last' = ofs + unat size in
     if last' > length d then Err (Parse (''chunk @'' @ show_nat ofs @ '' overruns''))
     else if ctype = 0x0002 then Ok (12, first, t)
     else if ctype = 0x0001 \<and> first then
       obind (parse_string_pool d ofs) (\<lambda>(values, _). Ok (last', False, t\<lparr>pool_values := values\<rparr>))
     else if ctype = 0x0200 then obind (parse_package d ofs last' t) (\<lambda>t'. Ok (last', first, t'))
     else if ctype = 0x0201 then obind (parse_type_chunk d ofs last' t) (\<lambda>t'. Ok (last', first, t'))
     else Ok (last', first, t)))"

definition parse_table :: "u8 list \<Rightarrow> resource_table man" where
  "parse_table d =
     obind (run_while (\<lambda>(ofs, _, _). ofs + 8 \<le> length d) (table_step d) (0, True, empty_table))
       (\<lambda>(_, _, t). Ok t)"

text \<open>References are followed at most eight times.\<close>

fun resolve_rounds :: "nat \<Rightarrow> resource_table \<Rightarrow> u32 \<Rightarrow> res_entry option" where
  "resolve_rounds 0 t current = None"
| "resolve_rounds (Suc n) t current =
     (let type_id = ucast (drop_bit 16 current AND 0xff); entry = current AND 0xffff in
      case Option.bind (res_types t type_id) (\<lambda>m. m entry) of
        Some (ResRef next) \<Rightarrow> resolve_rounds n t next
      | r \<Rightarrow> r)"

definition resolve :: "resource_table \<Rightarrow> u32 \<Rightarrow> res_entry option" where
  "resolve t resource_id = resolve_rounds 8 t resource_id"

definition string_of :: "resource_table \<Rightarrow> u32 \<Rightarrow> string option" where
  "string_of t resource_id = (case resolve t resource_id of Some (ResStr s) \<Rightarrow> Some s | _ \<Rightarrow> None)"

definition path_of :: "resource_table \<Rightarrow> u32 \<Rightarrow> string option" where
  "path_of t resource_id = string_of t resource_id"

section \<open>The manifest\<close>

record app_manifest =
  package_id :: string
  app_name :: string
  version_name :: "string option"
  min_sdk :: "u32 option"
  target_sdk :: "u32 option"
  icon_resource_id :: "u32 option"

definition blank_manifest :: app_manifest where
  "blank_manifest = \<lparr>package_id = [], app_name = [], version_name = None, min_sdk = None,
     target_sdk = None, icon_resource_id = None\<rparr>"

datatype attr_value = AttrStr string | AttrRef u32 | AttrInt i32 | AttrOther

definition from_parts :: "u8 \<Rightarrow> u32 \<Rightarrow> string option \<Rightarrow> attr_value" where
  "from_parts vtype vdata raw =
     (if vtype = STRING then AttrStr (case raw of Some s \<Rightarrow> s | None \<Rightarrow> show_nat (unat vdata))
      else if vtype = REFERENCE then AttrRef vdata
      else if is_int_type vtype then AttrInt vdata
      else AttrOther)"

definition attr_ids :: "(u32 \<times> string) list" where
  "attr_ids = [(0x01010001, ''label''), (0x01010002, ''icon''), (0x01010003, ''name''),
     (0x0101021b, ''versionName''), (0x0101020c, ''minSdkVersion''), (0x01010270, ''targetSdkVersion'')]"

definition attr_name :: "string list \<Rightarrow> u32 \<Rightarrow> string option" where
  "attr_name strings raw =
     (if raw \<ge> 0x01000000 then map_of attr_ids raw else nth_opt strings (unat raw))"

definition attr_raw :: "string list \<Rightarrow> u32 \<Rightarrow> string option" where
  "attr_raw strings raw = (if raw = - 1 then None else nth_opt strings (unat raw))"

text \<open>What one attribute of an element sets: the manifest, and the label and icon seen so far.\<close>

type_synonym attrs = "app_manifest \<times> attr_value option \<times> attr_value option"

definition set_attr :: "string \<Rightarrow> string option \<Rightarrow> attr_value \<Rightarrow> attrs \<Rightarrow> attrs" where
  "set_attr el name value st = (case st of (m, label, icon) \<Rightarrow>
     if el = ''manifest'' then
       (case (name, value) of
          (Some n, AttrStr s) \<Rightarrow>
            (if n = ''package'' then m\<lparr>package_id := s\<rparr>
             else if n = ''versionName'' then m\<lparr>version_name := Some s\<rparr> else m, label, icon)
        | _ \<Rightarrow> st)
     else if el = ''application'' then
       (if name = Some ''label'' then (m, Some value, icon)
        else if name = Some ''icon'' then (m, label, Some value) else st)
     else if el = ''uses-sdk'' then
       (case (name, value) of
          (Some n, AttrInt v) \<Rightarrow>
            (if n = ''minSdkVersion'' then m\<lparr>min_sdk := Some v\<rparr>
             else if n = ''targetSdkVersion'' then m\<lparr>target_sdk := Some v\<rparr> else m, label, icon)
        | _ \<Rightarrow> st)
     else st)"

definition attr_step :: "u8 list \<Rightarrow> nat \<Rightarrow> nat \<Rightarrow> string list \<Rightarrow> string \<Rightarrow> nat \<Rightarrow> nat \<Rightarrow> attrs \<Rightarrow> nat \<Rightarrow> attrs man" where
  "attr_step d ofs last' strings el attr_start attr_size st i =
     (let a = ofs + 16 + attr_start + i * attr_size in
      if a + 20 > last' then Err (Parse ''attribute overrun'')
      else
        obind (bytes_u32 d (a + 4)) (\<lambda>n.
        obind (bytes_u32 d (a + 8)) (\<lambda>r.
        obind (bytes_u16 d (a + 12)) (\<lambda>_.
        obind (byte_of d (a + 14)) (\<lambda>_.
        obind (byte_of d (a + 15)) (\<lambda>vtype.
        obind (bytes_u32 d (a + 16)) (\<lambda>vdata.
        Ok (set_attr el (attr_name strings n) (from_parts vtype vdata (attr_raw strings r)) st))))))))"

text \<open>The label and the icon of an element, once its attributes are read.\<close>

definition finish_element :: "resource_table option \<Rightarrow> attrs \<Rightarrow> app_manifest" where
  "finish_element res st = (case st of (m, label, icon) \<Rightarrow>
     let m = (case icon of Some (AttrRef i) \<Rightarrow> m\<lparr>icon_resource_id := Some i\<rparr> | _ \<Rightarrow> m) in
     case label of
       None \<Rightarrow> m
     | Some v \<Rightarrow> m\<lparr>app_name := (case v of
           AttrStr s \<Rightarrow> s
         | AttrRef i \<Rightarrow> (case Option.bind res (\<lambda>t. string_of t i) of Some s \<Rightarrow> s | None \<Rightarrow> package_id m)
         | _ \<Rightarrow> package_id m)\<rparr>)"

type_synonym xml_state = "nat \<times> string list \<times> string list \<times> app_manifest"

definition start_element :: "resource_table option \<Rightarrow> u8 list \<Rightarrow> nat \<Rightarrow> nat \<Rightarrow> string list \<Rightarrow> string list \<Rightarrow>
  app_manifest \<Rightarrow> xml_state man" where
  "start_element res d ofs last' strings stack m =
     (if ofs + 36 > last' then Err (Parse ''truncated element'')
      else
        obind (size_at d (ofs + 20)) (\<lambda>name_idx.
        obind (half_at d (ofs + 24)) (\<lambda>attr_start.
        obind (half_at d (ofs + 26)) (\<lambda>attr_size.
        obind (half_at d (ofs + 28)) (\<lambda>attr_count.
        obind (ok_or (Parse (''element name '' @ show_nat name_idx @ '' missing''))
          (nth_opt strings name_idx)) (\<lambda>el.
        obind (ofold (attr_step d ofs last' strings el attr_start attr_size) (m, None, None) [0..<attr_count]) (\<lambda>st.
        Ok (last', strings, el # stack, finish_element res st))))))))"

definition xml_step :: "resource_table option \<Rightarrow> u8 list \<Rightarrow> xml_state \<Rightarrow> xml_state man" where
  "xml_step res d st = (case st of (ofs, strings, stack, m) \<Rightarrow>
     obind (chunk_header d ofs) (\<lambda>(ctype, _, size).
     let last' = ofs + unat size in
     if ctype = 0x0001 then
       obind (parse_string_pool d ofs) (\<lambda>(strings', _). Ok (last', strings', stack, m))
     else if ctype = 0x0102 then start_element res d ofs last' strings stack m
     else if ctype = 0x0103 then Ok (last', strings, tl stack, m)
     else Ok (last', strings, stack, m)))"

definition parse_manifest :: "u8 list \<Rightarrow> resource_table option \<Rightarrow> app_manifest man" where
  "parse_manifest d res =
     obind (run_while (\<lambda>(ofs, _). ofs + 8 \<le> length d) (xml_step res d) (8, [], [], blank_manifest))
       (\<lambda>(_, _, _, m).
     if package_id m = [] then Err (Parse ''manifest without a package attribute'')
     else Ok (if app_name m = [] then m\<lparr>app_name := package_id m\<rparr> else m))"

section \<open>What a context answers about its APK\<close>

definition context_manifest :: "(string \<rightharpoonup> u8 list) \<Rightarrow> app_manifest man" where
  "context_manifest rs =
     obind (ok_or (Missing ''AndroidManifest.xml'') (rs ''AndroidManifest.xml'')) (\<lambda>bytes.
     obind (case rs ''resources.arsc'' of
         None \<Rightarrow> Ok None
       | Some d \<Rightarrow> obind (parse_table d) (\<lambda>t. Ok (Some t))) (\<lambda>table.
     parse_manifest bytes table))"

text \<open>\<open>r.ok()?\<close>: an error is no answer.\<close>

definition or_nothing :: "('e, 'a) outcome \<Rightarrow> ('a \<Rightarrow> ('e, 'b option) outcome) \<Rightarrow> ('e, 'b option) outcome" where
  "or_nothing r f = (case r of Ok x \<Rightarrow> f x | Err _ \<Rightarrow> Ok None | Panic \<Rightarrow> Panic | Diverge \<Rightarrow> Diverge)"

definition resource_string :: "(string \<rightharpoonup> u8 list) \<Rightarrow> u32 \<Rightarrow> string option man" where
  "resource_string rs i = (case rs ''resources.arsc'' of
     None \<Rightarrow> Ok None
   | Some d \<Rightarrow> or_nothing (parse_table d) (\<lambda>t. Ok (string_of t i)))"

definition resource_path :: "(string \<rightharpoonup> u8 list) \<Rightarrow> u32 \<Rightarrow> string option man" where
  "resource_path rs i = (case rs ''resources.arsc'' of
     None \<Rightarrow> Ok None
   | Some d \<Rightarrow> or_nothing (parse_table d) (\<lambda>t. Ok (path_of t i)))"

definition icon_bytes :: "(string \<rightharpoonup> u8 list) \<Rightarrow> u8 list option man" where
  "icon_bytes rs =
     or_nothing (context_manifest rs) (\<lambda>m. case icon_resource_id m of
       None \<Rightarrow> Ok None
     | Some i \<Rightarrow> obind (resource_path rs i) (\<lambda>p. Ok (Option.bind p rs)))"

section \<open>The walks over chunks\<close>

text \<open>
  The offsets the walks look at: the chunk after a chunk, the first one after the header of the
  table, and the first one after the key pool of a package.
\<close>

inductive reached :: "u8 list \<Rightarrow> nat \<Rightarrow> nat \<Rightarrow> bool" for d start where
  here: "reached d start start"
| next_chunk: "reached d start i \<Longrightarrow> chunk_header d i = Ok (t, h, n) \<Longrightarrow> reached d start (i + unat n)"
| after_header: "reached d start i \<Longrightarrow> chunk_header d i = Ok (2, h, n) \<Longrightarrow> reached d start 12"
| in_package: "reached d start i \<Longrightarrow> chunk_header d i = Ok (0x0200, h, n) \<Longrightarrow>
    size_at d (i + 276) = Ok k \<Longrightarrow> pool_size d (i + k) = Ok p \<Longrightarrow> reached d start (i + k + p)"

inductive_cases reachedE: "reached d start i"

text \<open>A chunk that does not move the walk on: it is empty, or a second header of the table.\<close>

definition stuck :: "u8 list \<Rightarrow> nat \<Rightarrow> bool" where
  "stuck d i \<longleftrightarrow> (\<exists>t h n. chunk_header d i = Ok (t, h, n) \<and> (n = 0 \<or> t = 2 \<and> 12 \<le> i))"

named_theorems ends_simps

lemma byte_ends [ends_simps]:
  "byte_of d i \<noteq> Diverge" "bytes_u16 d i \<noteq> Diverge" "bytes_u32 d i \<noteq> Diverge"
  "size_at d i \<noteq> Diverge" "half_at d i \<noteq> Diverge"
  by (auto simp: byte_of_def bytes_u16_def bytes_u32_def size_at_def half_at_def obind_Diverge_iff
      split: option.splits)

lemma header_ends [ends_simps]: "chunk_header d i \<noteq> Diverge" "pool_size d i \<noteq> Diverge"
  by (auto simp: chunk_header_def pool_size_def obind_Diverge_iff ends_simps)

lemma pool_ends [ends_simps]: "parse_string_pool d i \<noteq> Diverge"
proof -
  have "pool_entry d i e s u k \<noteq> Diverge" for e s u k
    by (auto simp: pool_entry_def utf8_entry_def utf16_entry_def read_utf8_len_def Let_def
        obind_Diverge_iff ends_simps split: if_splits)
  then have "omap (pool_entry d i e s u) ks \<noteq> Diverge" for e s u ks
    using omap_Diverge by blast
  then show ?thesis by (auto simp: parse_string_pool_def Let_def obind_Diverge_iff ends_simps split: if_splits)
qed

lemma type_chunk_ends [ends_simps]: "parse_type_chunk d i e t \<noteq> Diverge"
proof -
  have "type_entry d i e ss oa es m k \<noteq> Diverge" for ss oa es m k
    by (auto simp: type_entry_def entry_value_def Let_def obind_Diverge_iff ends_simps split: if_splits)
  then have "ofold (type_entry d i e ss oa es) m ks \<noteq> Diverge" for ss oa es m ks
    by (rule ofold_ends)
  then show ?thesis by (auto simp: parse_type_chunk_def Let_def obind_Diverge_iff ends_simps split: if_splits)
qed

lemma not_stuck: "\<not> stuck d i \<Longrightarrow> chunk_header d i = Ok (t, h, n) \<Longrightarrow> 0 < unat n \<and> (t = 2 \<longrightarrow> i < 12)"
  by (auto simp: stuck_def unat_gt_0)

lemma package_ends:
  assumes r: "reached d start i" and h: "chunk_header d i = Ok (0x0200, h, n)"
    and ok: "\<And>j. reached d start j \<Longrightarrow> \<not> stuck d j"
  shows "parse_package d i e t \<noteq> Diverge"
proof -
  have "run_while (\<lambda>(go, o2, _). go \<and> o2 + 8 \<le> e) (package_step d e) (True, j, t) \<noteq> Diverge"
    if j: "reached d start j" for j
  proof (rule run_while_ends [where I = "\<lambda>(go, o2, _). reached d start o2"
        and m = "\<lambda>(go, o2, _). (if go then 1 else 0) + (e - o2)"])
    show "package_step d e s \<noteq> Diverge" for s
      by (cases s) (auto simp: package_step_def Let_def obind_Diverge_iff ends_simps split: if_splits)
    show "(\<lambda>(go, o2, _). reached d start o2) s' \<and>
        (\<lambda>(go, o2, _). (if go then 1 else 0) + (e - o2)) s' < (\<lambda>(go, o2, _). (if go then 1 else 0) + (e - o2)) s"
      if I: "(\<lambda>(go, o2, _). reached d start o2) s" and b: "(\<lambda>(go, o2, _). go \<and> o2 + 8 \<le> e) s"
        and f: "package_step d e s = Ok s'" for s s'
    proof -
      obtain go o2 u where s: "s = (go, o2, u)" by (cases s)
      obtain c hh nn where c: "chunk_header d o2 = Ok (c, hh, nn)"
        using f by (auto simp: s package_step_def obind_Ok_iff)
      from not_stuck [OF ok c] I have "0 < unat nn" by (simp add: s)
      then show ?thesis using f I b reached.next_chunk [OF _ c, of start]
        by (auto simp: s c package_step_def Let_def obind_Ok_iff split: if_splits)
    qed
    show "(\<lambda>(go, o2, _). reached d start o2) (True, j, t)" using j by simp
  qed
  then show ?thesis using reached.in_package [OF r h]
    by (auto simp: parse_package_def obind_Diverge_iff ends_simps)
qed

lemma table_step_ends:
  assumes "reached d 0 i" and "\<And>j. reached d 0 j \<Longrightarrow> \<not> stuck d j"
  shows "table_step d (i, first, t) \<noteq> Diverge"
proof -
  have "parse_package d i e t \<noteq> Diverge" if "chunk_header d i = Ok (0x0200, h, n)" for h n e
    using package_ends [OF assms(1) that assms(2)] .
  then show ?thesis
    by (auto simp: table_step_def Let_def obind_Diverge_iff ends_simps split: if_splits)
qed

lemma table_step_moves:
  assumes r: "reached d 0 i" and ok: "\<not> stuck d i"
    and f: "table_step d (i, first, t) = Ok (i', first', t')"
  shows "reached d 0 i' \<and> i < i'"
proof -
  obtain c h n where c: "chunk_header d i = Ok (c, h, n)"
    using f by (auto simp: table_step_def obind_Ok_iff)
  show ?thesis
  proof (cases "c = 2")
    case True
    with c have "i' = 12" using f by (auto simp: table_step_def Let_def split: if_splits)
    moreover have "reached d 0 12" using reached.after_header [OF r, of h n] c True by simp
    ultimately show ?thesis using not_stuck [OF ok c] True by simp
  next
    case False
    then have "i' = i + unat n"
      using f c by (auto simp: table_step_def Let_def obind_Ok_iff split: if_splits)
    then show ?thesis using not_stuck [OF ok c] reached.next_chunk [OF r c] by simp
  qed
qed

text \<open>
  C36: Parsing a resource table ends if no chunk it reaches is empty and no chunk past the start is
  a second table header: every step then moves the walk on, in the table and in its packages.
\<close>

theorem parse_table_ends:
  assumes ok: "\<And>i. reached d 0 i \<Longrightarrow> \<not> stuck d i"
  shows "parse_table d \<noteq> Diverge"
proof -
  have "run_while (\<lambda>(i, _, _). i + 8 \<le> length d) (table_step d) (0, True, empty_table) \<noteq> Diverge"
    by (rule run_while_ends [where I = "\<lambda>(i, _, _). reached d 0 i" and m = "\<lambda>(i, _, _). length d - i"])
      (use ok table_step_ends table_step_moves reached.here in \<open>fastforce+\<close>)
  then show ?thesis by (auto simp: parse_table_def obind_Diverge_iff)
qed

definition small_table :: "u8 list" where
  "small_table = [2, 0, 12, 0, 12, 0, 0, 0, 0, 0, 0, 0]"

lemma small_headers:
  "chunk_header small_table 0 = Ok (2, 12, 12)" "chunk_header small_table 12 = Err (Parse ''chunk header overruns'')"
  by code_simp+

lemma small_reached: "reached small_table 0 i \<Longrightarrow> i = 0 \<or> i = 12"
  by (induction rule: reached.induct) (auto simp: small_headers)

theorem parse_table_ends_witness: "parse_table small_table \<noteq> Diverge"
proof (rule parse_table_ends)
  show "\<not> stuck small_table i" if "reached small_table 0 i" for i
    using small_reached [OF that] by (auto simp: stuck_def small_headers)
qed

text \<open>
  An empty chunk keeps the walk where it is: sixteen zero bytes hang the parsing of a table and of
  a manifest, and the context that was asked for it.
\<close>

theorem empty_chunk_hangs:
  "parse_table (replicate 8 0) = Diverge \<and> parse_manifest (replicate 16 0) res = Diverge"
proof -
  have "table_step (replicate 8 0) (0, True, empty_table) = Ok (0, True, empty_table)" by code_simp
  moreover have h: "chunk_header (replicate 16 0) 8 = Ok (0, 0, 0)" by code_simp
  have "xml_step res (replicate 16 0) (8, [], [], blank_manifest) = Ok (8, [], [], blank_manifest)"
    by (simp add: xml_step_def h)
  ultimately show ?thesis by (simp add: parse_table_def parse_manifest_def run_while_stuck)
qed

text \<open>The sizes of the chunks of a manifest are not checked against its length.\<close>

definition overrun_manifest :: "u8 list" where
  "overrun_manifest = replicate 8 0 @ [2, 1, 16, 0, 255, 0, 0, 0]"

theorem manifest_overrun_panics: "parse_manifest overrun_manifest res = Panic"
proof -
  have "chunk_header overrun_manifest 8 = Ok (0x0102, 16, 255)" and "size_at overrun_manifest 28 = Panic"
    and l: "length overrun_manifest = 16"
    by code_simp+
  then have "xml_step res overrun_manifest (8, [], [], blank_manifest) = Panic"
    by (simp add: xml_step_def start_element_def Let_def)
  then show ?thesis
    by (simp add: parse_manifest_def run_while_unfold [of _ _ "(8, [], [], blank_manifest)"] l)
qed

text \<open>A character outside the BMP, two units in a UTF-16 pool, becomes two replacement characters.\<close>

theorem utf16_pairs_lost:
  "utf16_entry [2, 0, 0x3D, 0xD8, 0x00, 0xDE, 0, 0] 0 8 = Ok (map byte_char (replacement @ replacement))"
  by code_simp

section \<open>References of resources\<close>

definition entry_of :: "resource_table \<Rightarrow> u32 \<Rightarrow> res_entry option" where
  "entry_of t i = Option.bind (res_types t (ucast (drop_bit 16 i AND 0xff))) (\<lambda>m. m (i AND 0xffff))"

fun follow :: "nat \<Rightarrow> resource_table \<Rightarrow> u32 \<Rightarrow> u32 option" where
  "follow 0 t i = Some i"
| "follow (Suc n) t i = (case entry_of t i of Some (ResRef j) \<Rightarrow> follow n t j | _ \<Rightarrow> None)"

lemma rounds_follow:
  "resolve_rounds r t i = Some e \<longleftrightarrow>
     (\<exists>n<r. \<exists>j. follow n t i = Some j \<and> entry_of t j = Some e \<and> (\<forall>k. e \<noteq> ResRef k))"
proof (induction r arbitrary: i)
  case (Suc r)
  have step: "(\<exists>n<Suc r. \<exists>j. follow n t i = Some j \<and> entry_of t j = Some e \<and> (\<forall>k. e \<noteq> ResRef k)) \<longleftrightarrow>
      (entry_of t i = Some e \<and> (\<forall>k. e \<noteq> ResRef k)) \<or>
      (\<exists>n<r. \<exists>j. follow (Suc n) t i = Some j \<and> entry_of t j = Some e \<and> (\<forall>k. e \<noteq> ResRef k))"
    unfolding Ex_less_Suc2 by simp
  show ?case unfolding step
    by (cases "entry_of t i") (auto simp: Suc.IH entry_of_def [of t i] Let_def split: res_entry.splits)
qed simp

text \<open>
  Resolving a resource follows references, at most seven of them, to an entry that is not a
  reference. A longer chain, a cycle, or a reference to nothing has no value.
\<close>

theorem resolve_follows:
  "resolve t i = Some e \<longleftrightarrow>
     (\<exists>n<8. \<exists>j. follow n t i = Some j \<and> entry_of t j = Some e \<and> (\<forall>k. e \<noteq> ResRef k))"
  by (simp only: resolve_def rounds_follow)

section \<open>String pools are read as they are written\<close>

lemma found_nth: "found d i bs \<Longrightarrow> k < length bs \<Longrightarrow> byte_of d (i + k) = Ok (bs ! k)"
  using found_byte [of d i bs k] by (simp add: byte_of_def del: nth_opt_Some_iff)

definition le16 :: "nat \<Rightarrow> u8 list" where
  "le16 n = [of_nat n, of_nat (n div 256)]"

definition le32 :: "nat \<Rightarrow> u8 list" where
  "le32 n = [of_nat n, of_nat (n div 256), of_nat (n div 65536), of_nat (n div 16777216)]"

lemma length_le [simp]: "length (le16 n) = 2" "length (le32 n) = 4"
  by (simp_all add: le16_def le32_def)

lemma bit_of_nat_byte: "bit (of_nat n :: 'a::len word) k \<longleftrightarrow> k < LENGTH('a) \<and> bit n k"
proof -
  have "bit (of_nat n :: 'a word) k = bit (unat (of_nat n :: 'a word)) k"
    by (simp only: bit_unsigned_iff) simp
  then show ?thesis by (simp only: unsigned_of_nat bit_take_bit_iff of_nat_id)
qed

lemma u16_of_bytes: "u16_le (of_nat n) (of_nat (n div 256)) = of_nat n"
proof (rule bit_word_eqI)
  fix k assume "k < LENGTH(16)"
  moreover have "n div 256 = drop_bit 8 n" by (simp add: drop_bit_eq_div)
  ultimately show "bit (u16_le (of_nat n) (of_nat (n div 256))) k = bit (of_nat n :: u16) k"
    by (cases "8 \<le> k") (auto simp: u16_le_def bit_or_iff bit_push_bit_iff bit_ucast_iff
        bit_of_nat_byte bit_drop_bit_eq)
qed

lemma u32_of_bytes:
  "u32_le (of_nat n) (of_nat (n div 256)) (of_nat (n div 65536)) (of_nat (n div 16777216)) = of_nat n"
proof (rule bit_word_eqI)
  fix k assume "k < LENGTH(32)"
  moreover have "n div 256 = drop_bit 8 n" "n div 65536 = drop_bit 16 n" "n div 16777216 = drop_bit 24 n"
    by (simp_all add: drop_bit_eq_div)
  ultimately show "bit (u32_le (of_nat n) (of_nat (n div 256)) (of_nat (n div 65536))
      (of_nat (n div 16777216))) k = bit (of_nat n :: u32) k"
    by (cases "24 \<le> k"; cases "16 \<le> k"; cases "8 \<le> k")
      (auto simp: u32_le_def bit_or_iff bit_push_bit_iff bit_ucast_iff bit_of_nat_byte bit_drop_bit_eq)
qed

lemma found_le16: "found d i (le16 n) \<Longrightarrow> n < 65536 \<Longrightarrow> bytes_u16 d i = Ok (of_nat n)"
  using found_nth [of d i "le16 n" 0] found_nth [of d i "le16 n" 1]
  by (simp add: bytes_u16_def le16_def u16_of_bytes)

lemma found_le32: "found d i (le32 n) \<Longrightarrow> bytes_u32 d i = Ok (of_nat n)"
  using found_nth [of d i "le32 n" 0] found_nth [of d i "le32 n" 1] found_nth [of d i "le32 n" 2]
    found_nth [of d i "le32 n" 3]
  by (simp add: bytes_u32_def le32_def u32_of_bytes [simplified])

lemma found_size: "found d i (le32 n) \<Longrightarrow> n < 4294967296 \<Longrightarrow> size_at d i = Ok n"
  by (simp add: size_at_def found_le32 unat_of_nat take_bit_eq_mod)

lemma found_header:
  assumes "found d i (le16 c @ le16 h @ le32 n)" and "c < 65536" "h < 65536"
  shows "chunk_header d i = Ok (of_nat c, of_nat h, of_nat n)"
proof -
  have "found d i (le16 c)" "found d (i + 2) (le16 h)" "found d (i + 4) (le32 n)"
    using assms(1) by (simp_all add: found_append eval_nat_numeral)
  with assms(2,3) found_fits [OF assms(1)] show ?thesis
    by (simp add: chunk_header_def found_le16 found_le32)
qed

text \<open>A UTF-8 string of a pool: its length in UTF-16 units and in bytes, the bytes, and a zero.\<close>

definition encode_len :: "nat \<Rightarrow> u8 list" where
  "encode_len n = (if n < 128 then [of_nat n] else [of_nat (128 + n div 256), of_nat (n mod 256)])"

definition encode_text :: "nat list \<Rightarrow> u8 list" where
  "encode_text us = concat (map utf8_encode us)"

definition encode_entry :: "nat \<times> nat list \<Rightarrow> u8 list" where
  "encode_entry e = encode_len (fst e) @ encode_len (length (encode_text (snd e))) @ encode_text (snd e) @ [0]"

definition encode_offsets :: "(nat \<times> nat list) list \<Rightarrow> u8 list" where
  "encode_offsets es =
     concat (map (\<lambda>k. le32 (length (concat (map encode_entry (take k es))))) [0..<length es])"

definition encode_pool :: "(nat \<times> nat list) list \<Rightarrow> u8 list" where
  "encode_pool es =
     (let n = length es; body = encode_offsets es @ concat (map encode_entry es)
      in (le16 1 @ le16 28 @ le32 (28 + length body)) @ le32 n @ le32 0 @ le32 0x100 @ le32 (28 + 4 * n) @
         le32 0 @ body)"

lemma found_len:
  assumes f: "found d p (encode_len n)" and n: "n < 32768" and e: "p + length (encode_len n) \<le> e"
  shows "read_utf8_len d p e = Ok (n, p + length (encode_len n))"
proof (cases "n < 128")
  case True
  have "unat (of_nat n :: u8) = n" using True by (intro unat_byte) simp
  moreover from this have "(of_nat n :: u8) AND 0x80 = 0" using True by (simp only: and80 uint_nat)
  moreover have "nth_opt d p = Some (of_nat n)"
    using found_byte [OF f, of 0] True by (simp add: encode_len_def del: nth_opt_Some_iff)
  ultimately show ?thesis using True by (simp add: encode_len_def read_utf8_len_def del: nth_opt_Some_iff)
next
  case False
  define q r where "q = n div 256" and "r = n mod 256"
  then have q: "q < 128" and r: "r < 256" and nqr: "n = q * 256 + r" using n by simp_all
  have enc: "encode_len n = [of_nat (128 + q), of_nat r]" using False by (simp add: encode_len_def q_def r_def)
  have u: "unat (of_nat (128 + q) :: u8) = 128 + q" using q by (intro unat_byte) simp
  then have b: "uint (of_nat (128 + q) :: u8) = 128 + int q" by (simp only: uint_nat)
  have "(of_nat (128 + q) :: u8) AND 0x80 \<noteq> 0" by (simp only: and80 b)
  moreover have "uint ((of_nat (128 + q) :: u8) AND 0x7f) = int q"
    using q by (simp only: uint_and7f b) simp
  then have "unat ((of_nat (128 + q) :: u8) AND 0x7f) = q" by (simp only: unat_eq_nat_uint nat_int)
  moreover have "nth_opt d p = Some (of_nat (128 + q))" "byte_of d (p + 1) = Ok (of_nat r)"
    using found_byte [OF f, of 0] found_nth [OF f, of 1] by (simp_all add: enc del: nth_opt_Some_iff of_nat_add)
  moreover have "unat (of_nat r :: u8) = r" using r by (rule unat_byte)
  ultimately show ?thesis using e
    by (simp add: read_utf8_len_def enc nqr [symmetric] del: nth_opt_Some_iff of_nat_add)
qed

lemma found_entry:
  assumes f: "found d s (encode_entry (n, us))" and n: "n < 32768" "length (encode_text us) < 32768"
    and us: "\<forall>u \<in> set us. scalar u" and e: "s + length (encode_entry (n, us)) \<le> e"
  shows "utf8_entry d s e = Ok (map byte_char (encode_text us))"
proof -
  let ?m = "length (encode_text us)" and ?a = "length (encode_len n)"
  let ?b = "length (encode_len ?m)"
  have f1: "found d s (encode_len n)" and f2: "found d (s + ?a) (encode_len ?m)"
    and f3: "found d (s + ?a + ?b) (encode_text us)"
    using f by (simp_all add: encode_entry_def found_append)
  have "s + ?a \<le> e" "s + ?a + ?b \<le> e" using e by (simp_all add: encode_entry_def)
  then show ?thesis
    using found_len [OF f1 n(1)] found_len [OF f2 n(2)] found_fits [OF f3] found_sub [OF f3]
      lossy_utf8_encodes [OF us]
    by (simp add: utf8_entry_def encode_text_def)
qed

lemma length_concat_take:
  "k < length xs \<Longrightarrow> length (concat (map f (take k xs))) + length (f (xs ! k)) \<le> length (concat (map f xs))"
proof (induction xs arbitrary: k)
  case (Cons x xs)
  then show ?case by (cases k) (auto simp: add.assoc)
qed simp

lemma length_concat_same: "(\<And>x. length (f x) = m) \<Longrightarrow> length (concat (map f xs)) = m * length xs"
  by (induction xs) simp_all

definition pool_ok :: "(nat \<times> nat list) list \<Rightarrow> bool" where
  "pool_ok es \<longleftrightarrow> length (encode_pool es) < 4294967296 \<and>
     (\<forall>(n, us) \<in> set es. n < 32768 \<and> length (encode_text us) < 32768 \<and> (\<forall>u \<in> set us. scalar u))"

lemma length_encode_offsets [simp]: "length (encode_offsets es) = 4 * length es"
  unfolding encode_offsets_def by (subst length_concat_same [where m = 4]) simp_all

lemma length_encode_pool:
  "length (encode_pool es) = 28 + 4 * length es + length (concat (map encode_entry es))"
  by (simp add: encode_pool_def Let_def)

lemma found_pool:
  assumes f: "found d i (encode_pool es)"
  shows "found d i (le16 1 @ le16 28 @ le32 (length (encode_pool es)))" and "found d (i + 8) (le32 (length es))"
    and "found d (i + 16) (le32 0x100)" and "found d (i + 20) (le32 (28 + 4 * length es))"
    and "found d (i + 28) (encode_offsets es)"
    and "found d (i + (28 + 4 * length es)) (concat (map encode_entry es))"
proof -
  let ?n = "length es"
  have "encode_pool es = (le16 1 @ le16 28 @ le32 (length (encode_pool es))) @ le32 ?n @ le32 0 @ le32 0x100 @
      le32 (28 + 4 * ?n) @ le32 0 @ encode_offsets es @ concat (map encode_entry es)" (is "_ = ?h @ ?r")
    by (subst length_encode_pool) (simp add: encode_pool_def Let_def add.assoc)
  then have "found d i (?h @ ?r)" using f by metis
  then have h: "found d i ?h \<and> found d (i + length ?h) ?r" by (rule found_append [THEN iffD1])
  then show "found d i ?h" by simp
  have "i + length ?h = i + 8" by simp
  with h have r: "found d (i + 8) ?r" by metis
  show "found d (i + 8) (le32 ?n)" "found d (i + 16) (le32 0x100)" "found d (i + 20) (le32 (28 + 4 * ?n))"
    "found d (i + 28) (encode_offsets es)" "found d (i + (28 + 4 * ?n)) (concat (map encode_entry es))"
    using r by (simp_all only: found_append length_le length_encode_offsets add.assoc) simp_all
qed

lemma pool_entry_at:
  assumes f: "found d i (encode_pool es)" and ok: "pool_ok es" and k: "k < length es"
  shows "pool_entry d i (i + length (encode_pool es)) (28 + 4 * length es) True k =
    Ok (map byte_char (encode_text (snd (es ! k))))"
proof -
  let ?p = "length (concat (map encode_entry (take k es)))" and ?e = "encode_entry (es ! k)"
  obtain n us where e: "es ! k = (n, us)" by (cases "es ! k")
  then have us: "n < 32768" "length (encode_text us) < 32768" "\<forall>u \<in> set us. scalar u"
    using ok k nth_mem [of k es] by (auto simp: pool_ok_def)
  have p: "?p + length ?e \<le> length (concat (map encode_entry es))" by (rule length_concat_take [OF k])
  then have small: "?p < 4294967296" using ok by (simp add: pool_ok_def length_encode_pool)
  have "length (concat (map (\<lambda>k. le32 (length (concat (map encode_entry (take k es))))) (take k [0..<length es]))) = 4 * k"
    using k by (subst length_concat_same [where m = 4]) simp_all
  then have "found d (i + 28 + 4 * k) (le32 ?p)"
    using found_concat [OF found_pool(5) [OF f, unfolded encode_offsets_def], of k] k by simp
  then have rel: "size_at d (i + 28 + 4 * k) = Ok ?p" using small by (rule found_size)
  have at: "found d (i + (28 + 4 * length es) + ?p) (encode_entry (n, us))"
    using found_concat [OF found_pool(6) [OF f] k] e by simp
  have fits: "i + (28 + 4 * length es) + ?p + length (encode_entry (n, us)) \<le> i + length (encode_pool es)"
    using p e by (simp add: length_encode_pool)
  moreover have "0 < length (encode_entry (n, us))" by (simp add: encode_entry_def)
  ultimately have "i + (28 + 4 * length es) + ?p < i + length (encode_pool es)" by linarith
  then show ?thesis
    using found_entry [OF at us fits] e by (simp add: pool_entry_def rel [unfolded add.assoc] Let_def add.assoc)
qed

text \<open>
  C35: A UTF-8 string pool is read as the format writes it. Wherever in a file the pool of some
  texts stands, and however many there are, parsing it there gives the texts and the size of the
  pool, if the texts are short enough for their two length prefixes.
\<close>

theorem string_pool_roundtrip:
  assumes f: "found d i (encode_pool es)" and ok: "pool_ok es"
  shows "parse_string_pool d i =
    Ok (map (\<lambda>e. map byte_char (encode_text (snd e))) es, length (encode_pool es))"
proof -
  let ?l = "length (encode_pool es)"
  have l: "?l < 4294967296" and n: "length es < 4294967296" "28 + 4 * length es < 4294967296" "28 \<le> ?l"
    using ok by (simp_all add: pool_ok_def length_encode_pool)
  have "unat (of_nat ?l :: u32) = ?l" using l by (simp add: unat_of_nat)
  moreover note found_header [OF found_pool(1) [OF f]] found_size [OF found_pool(2) [OF f] n(1)]
    found_le32 [OF found_pool(3) [OF f]] found_size [OF found_pool(4) [OF f] n(2)]
  moreover have "omap (pool_entry d i (i + ?l) (28 + 4 * length es) True) [0..<length es] =
      Ok (map (\<lambda>e. map byte_char (encode_text (snd e))) es)"
    using pool_entry_at [OF f ok] by (simp add: omap_Ok_iff list_all2_conv_all_nth)
  ultimately show ?thesis using n by (simp add: parse_string_pool_def Let_def)
qed

definition two_texts :: "(nat \<times> nat list) list" where
  "two_texts = [(2, [97, 0x20AC]), (0, [])]"

theorem string_pool_roundtrip_witness:
  "parse_string_pool ([0] @ encode_pool two_texts @ [1]) (length [0 :: u8]) =
     Ok ([map byte_char [97, 0xE2, 0x82, 0xAC], []], 46)"
proof -
  have "pool_ok two_texts"
    by (simp add: pool_ok_def two_texts_def length_encode_pool encode_entry_def encode_len_def encode_text_def
        utf8_encode_def scalar_def)
  from string_pool_roundtrip [OF found_middle this, of "[0]" "[1]"]
  have "parse_string_pool ([0] @ encode_pool two_texts @ [1]) (length [0 :: u8]) =
      Ok (map (\<lambda>e. map byte_char (encode_text (snd e))) two_texts, length (encode_pool two_texts))" .
  moreover have "length (encode_pool two_texts) = 46"
    by (simp add: two_texts_def length_encode_pool encode_entry_def encode_len_def encode_text_def utf8_encode_def)
  moreover have "map (\<lambda>e. map byte_char (encode_text (snd e))) two_texts = [map byte_char [97, 0xE2, 0x82, 0xAC], []]"
    by (simp add: two_texts_def encode_text_def utf8_encode_def)
  ultimately show ?thesis by simp
qed

end
