(* ===== verification/Wire.thy ===== *)
theory Wire
  imports DexRead Loops
begin

text \<open>
  The wire format of \<open>vm/native/proto.rs\<close>: varints, the fields of a protobuf message and the
  values the decoder natives make of them. Shown: a message is read as the format writes it.
\<close>

section \<open>Fields\<close>

datatype wire_value = Varint i64 | Fixed32 u32 | Fixed64 u64 | Bytes "u8 list"

function read_varint_loop :: "u8 list \<Rightarrow> u64 \<Rightarrow> nat \<Rightarrow> nat \<Rightarrow> (u64 \<times> nat) option" where
  "read_varint_loop bytes result shift i =
     (case nth_opt bytes i of
        None \<Rightarrow> None
      | Some b \<Rightarrow>
          let result = result OR push_bit shift (ucast (b AND 0x7f)) in
          if b AND 0x80 = 0 then Some (result, i + 1)
          else if shift + 7 \<ge> 70 then None
          else read_varint_loop bytes result (shift + 7) (i + 1))"
  by pat_completeness auto
termination by (relation "measure (\<lambda>(_, _, shift, _). 70 - shift)") auto

declare read_varint_loop.simps [simp del]

definition read_varint :: "u8 list \<Rightarrow> nat \<Rightarrow> (u64 \<times> nat) option" where
  "read_varint bytes start = map_option (\<lambda>(v, i). (v, i - start)) (read_varint_loop bytes 0 0 start)"

text \<open>
  The end of a length-delimited value is computed with the wrap-around of \<open>usize\<close>; an end before
  the start makes the slice panic, as the overflow does in a debug build.
\<close>

definition delimited :: "u8 list \<Rightarrow> u64 \<Rightarrow> nat \<Rightarrow> (string, wire_value \<times> nat) outcome" where
  "delimited bytes len i =
     (let e = (i + unat len) mod 2 ^ 64 in
      if e > length bytes then Err ''truncated length-delimited data''
      else if e < i then Panic
      else Ok (Bytes (sub bytes i e), e))"

definition wire_value_at :: "u8 list \<Rightarrow> nat \<Rightarrow> nat \<Rightarrow> (string, wire_value \<times> nat) outcome" where
  "wire_value_at bytes wtype i =
     (if wtype = 0 then
        obind (ok_or ''truncated varint'' (read_varint bytes i)) (\<lambda>(v, n). Ok (Varint v, i + n))
      else if wtype = 1 then
        (if i + 8 > length bytes then Err ''truncated fixed64''
         else Ok (Fixed64 (u64_le (sub bytes i (i + 8))), i + 8))
      else if wtype = 2 then
        obind (ok_or ''truncated length'' (read_varint bytes i)) (\<lambda>(len, n). delimited bytes len (i + n))
      else if wtype = 5 then
        (if i + 4 > length bytes then Err ''truncated fixed32''
         else Ok (Fixed32 (u32_of (sub bytes i (i + 4))), i + 4))
      else Err (''unsupported wire type '' @ show_nat wtype))"

definition wire_step :: "u8 list \<Rightarrow> nat \<times> (u32 \<times> wire_value) list \<Rightarrow>
  (string, nat \<times> (u32 \<times> wire_value) list) outcome" where
  "wire_step bytes st = (case st of (i, out) \<Rightarrow>
     obind (ok_or ''truncated tag'' (read_varint bytes i)) (\<lambda>(key, n).
     let field = ucast (drop_bit 3 key) :: u32; wtype = unat (key AND 7) in
     if field = 0 then Err ''invalid field number 0''
     else obind (wire_value_at bytes wtype (i + n)) (\<lambda>(v, i'). Ok (i', out @ [(field, v)]))))"

definition parse_wire :: "u8 list \<Rightarrow> (string, (u32 \<times> wire_value) list) outcome" where
  "parse_wire bytes =
     obind (run_while (\<lambda>(i, _). i < length bytes) (wire_step bytes) (0, [])) (\<lambda>(_, out). Ok out)"

section \<open>Conversions\<close>

definition wire_to_int :: "wire_value \<Rightarrow> i32" where
  "wire_to_int v = (case v of
     Varint i \<Rightarrow> ucast i | Fixed32 u \<Rightarrow> u | Fixed64 b \<Rightarrow> ucast b | Bytes _ \<Rightarrow> 0)"

definition wire_to_long :: "wire_value \<Rightarrow> i64" where
  "wire_to_long v = (case v of
     Varint i \<Rightarrow> i | Fixed32 u \<Rightarrow> ucast u | Fixed64 b \<Rightarrow> b | Bytes _ \<Rightarrow> 0)"

definition wire_to_bool :: "wire_value \<Rightarrow> bool" where
  "wire_to_bool v = (case v of Varint i \<Rightarrow> i \<noteq> 0 | _ \<Rightarrow> False)"

section \<open>Reading ends\<close>

lemma varint_loop_moves: "read_varint_loop bytes r s i = Some (v, j) \<Longrightarrow> i < j"
  by (induction bytes r s i rule: read_varint_loop.induct)
    (subst (asm) (2) read_varint_loop.simps, fastforce simp: Let_def split: option.splits if_splits)

lemma varint_moves: "read_varint bytes i = Some (v, n) \<Longrightarrow> 0 < n"
  by (auto simp: read_varint_def dest: varint_loop_moves)

lemma value_moves: "wire_value_at bytes t i = Ok (v, j) \<Longrightarrow> i \<le> j"
  by (auto simp: wire_value_at_def delimited_def Let_def obind_Ok_iff split: if_splits)

lemma value_ends: "wire_value_at bytes t i \<noteq> Diverge"
  by (auto simp: wire_value_at_def delimited_def Let_def obind_Diverge_iff split: if_splits)

theorem parse_wire_ends: "parse_wire bytes \<noteq> Diverge"
proof -
  have "run_while (\<lambda>(i, _). i < length bytes) (wire_step bytes) (0, []) \<noteq> Diverge"
    by (rule run_while_ends [where I = "\<lambda>_. True" and m = "\<lambda>(i, _). length bytes - i"])
      (auto simp: wire_step_def Let_def obind_iffs value_ends split: if_splits
        dest!: varint_moves value_moves)
  then show ?thesis by (auto simp: parse_wire_def obind_Diverge_iff)
qed

text \<open>A length close to \<open>2 ^ 64\<close> passes the check by its wrap-around, and the slice panics.\<close>

theorem huge_length_panics:
  "parse_wire [0x0a, 0xff, 0xff, 0xff, 0xff, 0xff, 0xff, 0xff, 0xff, 0xff, 0x01] = Panic"
proof -
  let ?d = "[0x0a, 0xff, 0xff, 0xff, 0xff, 0xff, 0xff, 0xff, 0xff, 0xff, 0x01] :: u8 list"
  have "read_varint ?d 0 = Some (0x0a, 1)" "read_varint ?d 1 = Some (- 1, 10)" by code_simp+
  moreover have "unat (- 1 :: u64) = 18446744073709551615"
    by (simp add: unsigned_minus_1_eq_mask mask_eq_exp_minus_1)
  ultimately have "wire_step ?d (0, []) = Panic"
    by (simp add: wire_step_def wire_value_at_def delimited_def Let_def)
  then show ?thesis by (simp add: parse_wire_def run_while_unfold [of _ _ "(0, [])"])
qed

section \<open>Messages are read as they are written\<close>

lemma byte_low7_64:
  "0 \<le> i \<Longrightarrow> i < 256 \<Longrightarrow> (ucast ((word_of_int i :: u8) AND 0x7f) :: u64) = word_of_int (i mod 128)"
  using uint_and7f [of "word_of_int i"] by (simp add: uint_byte ucast_eq)

lemma varint_loop_encode:
  assumes "found bytes i (uleb_encode k)" and "s < 64" and "0 \<le> k" and "k < 2 ^ (64 - s)"
  shows "read_varint_loop bytes r s i = Some (r OR push_bit s (word_of_int k), i + length (uleb_encode k))"
  using assms
proof (induction k arbitrary: r s i rule: uleb_encode.induct)
  case (1 k)
  show ?case
  proof (cases "k < 128")
    case True
    then have e: "uleb_encode k = [word_of_int k]" by (simp add: uleb_encode.simps)
    then have "nth_opt bytes i = Some (word_of_int k)" using found_byte [OF 1(2), of 0] by simp
    with True 1(4) show ?thesis
      by (subst read_varint_loop.simps) (simp add: e byte_low7_64 byte_more Let_def del: nth_opt_Some_iff)
  next
    case False
    define q m where "q = k div 128" and "m = k mod 128"
    have m: "0 \<le> m" "m < 128" by (simp_all add: m_def)
    have e: "uleb_encode k = word_of_int (m + 128) # uleb_encode q"
      using False by (simp add: uleb_encode.simps [of k] q_def m_def)
    then have "found bytes i ([word_of_int (m + 128)] @ uleb_encode q)" using 1(2) by simp
    then have f: "found bytes (i + 1) (uleb_encode q)" unfolding found_append by simp
    have b: "nth_opt bytes i = Some (word_of_int (m + 128))"
      using found_byte [OF 1(2), of 0] by (simp add: e del: of_int_add nth_opt_Some_iff)
    have "(2::int) ^ 7 \<le> k" using False by simp
    also note "1.prems"(4)
    finally have "7 < 64 - s" by (rule power_less_imp_less_exp [rotated]) simp
    then have s: "s + 7 < 64" "64 - s = 7 + (64 - (s + 7))" by simp_all
    then have "q < 2 ^ (64 - (s + 7))" using 1(5) unfolding s(2) power_add q_def by simp
    then have "read_varint_loop bytes (r OR push_bit s (word_of_int m)) (s + 7) (i + 1) =
        Some ((r OR push_bit s (word_of_int m)) OR push_bit (s + 7) (word_of_int q), i + 1 + length (uleb_encode q))"
      using 1(1) [of "i + 1" "s + 7"] False s(1) f 1(4) by (simp add: q_def)
    moreover have "read_varint_loop bytes r s i =
        read_varint_loop bytes (r OR push_bit s (word_of_int m)) (s + 7) (i + 1)"
      using b s(1) m byte_more [of "m + 128"] byte_low7_64 [of "m + 128"]
      by (subst read_varint_loop.simps) (simp add: Let_def del: of_int_add nth_opt_Some_iff)
    ultimately show ?thesis by (simp add: e push_split7 [of s k] q_def m_def or.assoc)
  qed
qed

lemma found_varint:
  assumes "found bytes i (uleb_encode k)" and "0 \<le> k" "k < 2 ^ 64"
  shows "read_varint bytes i = Some (word_of_int k, length (uleb_encode k))"
  using varint_loop_encode [OF assms(1), of 0 0] assms(2,3) by (simp add: read_varint_def)

text \<open>A field: its number and wire type as one varint, and the value.\<close>

fun wire_type :: "wire_value \<Rightarrow> int" where
  "wire_type (Varint _) = 0" | "wire_type (Fixed64 _) = 1" | "wire_type (Bytes _) = 2" | "wire_type (Fixed32 _) = 5"

fun encode_value :: "wire_value \<Rightarrow> u8 list" where
  "encode_value (Varint v) = uleb_encode (uint v)"
| "encode_value (Fixed64 w) = to_le_bytes 8 w"
| "encode_value (Fixed32 w) = to_le_bytes 4 w"
| "encode_value (Bytes bs) = uleb_encode (int (length bs)) @ bs"

definition encode_field :: "u32 \<times> wire_value \<Rightarrow> u8 list" where
  "encode_field f = uleb_encode (8 * uint (fst f) + wire_type (snd f)) @ encode_value (snd f)"

lemma found_value:
  assumes "found bytes i (encode_value v)" and "length bytes < 2 ^ 63"
  shows "wire_value_at bytes (nat (wire_type v)) i = Ok (v, i + length (encode_value v))"
proof (cases v)
  case (Varint w)
  then show ?thesis using found_varint [of bytes i "uint w"] assms uint_lt2p [of w]
    by (simp add: wire_value_at_def)
next
  case (Fixed64 w)
  then have "found bytes i (to_le_bytes 8 w)" (is "found _ _ ?bs")
    using assms(1) by simp
  note found_sub [OF this] found_fits [OF this]
  then show ?thesis using Fixed64 fixed64_bytes [of w] by (simp add: wire_value_at_def)
next
  case (Fixed32 w)
  then have "found bytes i (to_le_bytes 4 w)"
    using assms(1) by simp
  note found_sub [OF this] found_fits [OF this]
  then show ?thesis using Fixed32 fixed32_bytes [of w] by (simp add: wire_value_at_def)
next
  case (Bytes bs)
  let ?n = "length (uleb_encode (int (length bs)))"
  have f: "found bytes i (uleb_encode (int (length bs)))" "found bytes (i + ?n) bs"
    using assms(1) by (simp_all add: Bytes found_append)
  have fits: "i + ?n + length bs \<le> length bytes" by (rule found_fits [OF f(2)])
  then have small: "length bs < 2 ^ 64" "i + ?n + length bs < 2 ^ 64" using assms(2) by simp_all
  then have "unat (of_nat (length bs) :: u64) = length bs"
    by (simp only: unat_of_nat len_num1 len_bit0) simp
  then have "unat (word_of_int (int (length bs)) :: u64) = length bs" by (simp only: of_int_of_nat_eq)
  moreover have "read_varint bytes i = Some (word_of_int (int (length bs)), ?n)"
    using small(1) by (intro found_varint f(1)) simp_all
  moreover note found_sub [OF f(2)] fits small(2)
  ultimately show ?thesis by (simp add: Bytes wire_value_at_def delimited_def add.assoc)
qed

lemma found_field:
  assumes f: "found bytes i (encode_field (n, v))" and n: "n \<noteq> 0" and b: "length bytes < 2 ^ 63"
  shows "wire_step bytes (i, out) = Ok (i + length (encode_field (n, v)), out @ [(n, v)])"
proof -
  define k where "k = 8 * uint n + wire_type v"
  have t: "0 \<le> wire_type v" "wire_type v < 8" by (cases v; simp)+
  have k: "0 \<le> k" "k < 2 ^ 64" using uint_lt2p [of n] t by (simp_all add: k_def)
  have e: "encode_field (n, v) = uleb_encode k @ encode_value v" by (simp add: encode_field_def k_def)
  have f1: "found bytes i (uleb_encode k)" and f2: "found bytes (i + length (uleb_encode k)) (encode_value v)"
    using f by (simp_all add: e found_append)
  have u: "uint (word_of_int k :: u64) = k" using k by (simp add: uint_word_of_int)
  have "uint (drop_bit 3 (word_of_int k :: u64)) = k div 8"
    by (simp only: unsigned_drop_bit_eq u) (use k in \<open>simp add: drop_bit_eq_div take_bit_eq_mod\<close>)
  also have "\<dots> = uint n" using t by (simp add: k_def)
  finally have "(ucast (drop_bit 3 (word_of_int k :: u64)) :: u32) = word_of_int (uint n)" by (simp only: ucast_eq)
  then have field: "(ucast (drop_bit 3 (word_of_int k :: u64)) :: u32) = n" by simp
  have "(word_of_int k :: u64) AND 7 = take_bit 3 (word_of_int k)"
    by (simp add: take_bit_eq_mask mask_eq_exp_minus_1)
  then have "uint ((word_of_int k :: u64) AND 7) = k mod 8"
    by (simp only: unsigned_take_bit_eq u) (simp add: take_bit_eq_mod)
  also have "\<dots> = wire_type v" using t by (simp add: k_def)
  finally have "unat ((word_of_int k :: u64) AND 7) = nat (wire_type v)" by (simp only: unat_eq_nat_uint)
  then show ?thesis using n field found_varint [OF f1 k] found_value [OF f2 b]
    by (simp add: wire_step_def e Let_def add.assoc)
qed

lemma found_fields:
  "found bytes i (concat (map encode_field fs)) \<Longrightarrow> i + length (concat (map encode_field fs)) = length bytes \<Longrightarrow>
   length bytes < 2 ^ 63 \<Longrightarrow> \<forall>(n, v) \<in> set fs. n \<noteq> 0 \<Longrightarrow>
     run_while (\<lambda>(i, _). i < length bytes) (wire_step bytes) (i, out) = Ok (length bytes, out @ fs)"
proof (induction fs arbitrary: i out)
  case (Cons e fs)
  obtain n v where e: "e = (n, v)" by (cases e)
  have f: "found bytes i (encode_field (n, v))" "found bytes (i + length (encode_field (n, v))) (concat (map encode_field fs))"
    using Cons.prems(1) by (simp_all add: e found_append)
  have "0 < length (encode_field (n, v))" by (simp add: encode_field_def uleb_encode.simps)
  moreover have "i + (length (encode_field (n, v)) + length (concat (map encode_field fs))) = length bytes"
    using Cons.prems(2) by (simp add: e)
  ultimately have "i < length bytes" by linarith
  moreover have "wire_step bytes (i, out) = Ok (i + length (encode_field (n, v)), out @ [(n, v)])"
    using Cons.prems by (intro found_field f(1)) (auto simp: e)
  ultimately show ?case using Cons.IH [OF f(2), of "out @ [(n, v)]"] Cons.prems
    by (subst run_while_unfold) (simp add: e)
qed (simp add: run_while_unfold)

text \<open>
  C37: A protobuf message is read as the format writes it: parsing the encoding of any list of
  fields with valid numbers, repeated and nested ones included, gives the fields in order.
\<close>

theorem parse_wire_roundtrip:
  assumes "length (concat (map encode_field fs)) < 2 ^ 63" and "\<forall>(n, v) \<in> set fs. n \<noteq> 0"
  shows "parse_wire (concat (map encode_field fs)) = Ok fs"
  using found_fields [of "concat (map encode_field fs)" 0 fs "[]"] found_middle [of "[]" _ "[]"] assms
  by (simp add: parse_wire_def)

theorem parse_wire_roundtrip_witness:
  "parse_wire [0x08, 0x96, 0x01, 0x12, 0x02, 0x68, 0x69] = Ok [(1, Varint 150), (2, Bytes [0x68, 0x69])]"
proof -
  have e: "concat (map encode_field [(1, Varint 150), (2, Bytes [0x68, 0x69])]) =
      [0x08, 0x96, 0x01, 0x12, 0x02, 0x68, 0x69]"
    by (simp add: encode_field_def uleb_encode.simps)
  have "parse_wire (concat (map encode_field [(1, Varint 150), (2, Bytes [0x68, 0x69])])) =
      Ok [(1, Varint 150), (2, Bytes [0x68, 0x69])]"
  proof (rule parse_wire_roundtrip)
    show "length (concat (map encode_field [(1, Varint 150), (2, Bytes [0x68, 0x69])])) < 2 ^ 63"
      by (simp only: e) simp
  qed simp
  then show ?thesis by (simp only: e)
qed

end
