(* ===== verification/Cells.thy ===== *)
theory Cells
  imports Shims
begin

text \<open>
  Shims that keep one value in their payload: \<open>AtomicInteger\<close>, \<open>AtomicBoolean\<close>,
  \<open>AtomicReference\<close> and \<open>AtomicReferenceArray\<close> (\<open>java/util/atomic.rs\<close>), and \<open>Random\<close>
  (\<open>java/util/random.rs\<close>). Locale \<open>cell\<close> says what a payload must be to hold a value. Shown:
  calls on an \<open>AtomicInteger\<close> refine the calls on a register; the generator never reaches the
  seed that would stop it; and where the shims leave Java.
\<close>

section \<open>Reading and writing a payload\<close>

text \<open>\<open>u\<close> takes the value out of the payload of the right variant, \<open>p\<close> builds that variant.\<close>

definition read_cell :: "env \<Rightarrow> (native \<Rightarrow> 'a option) \<Rightarrow> jvalue \<Rightarrow> 'a shim_act" where
  "read_cell E u v =
     bnd (the_payload v) (\<lambda>m. case Option.bind m u of Some x \<Rightarrow> ret x | None \<Rightarrow> npe E)"

definition write_cell :: "env \<Rightarrow> (native \<Rightarrow> 'a option) \<Rightarrow> ('a \<Rightarrow> native) \<Rightarrow> jvalue \<Rightarrow>
  ('a \<Rightarrow> ('a \<times> 'b) shim_act) \<Rightarrow> 'b shim_act" where
  "write_cell E u p v f =
     bnd (payload_mut v) (\<lambda>m. case m of
       None \<Rightarrow> npe E
     | Some (i, n) \<Rightarrow>
         (case u n of
            None \<Rightarrow> npe E
          | Some x \<Rightarrow> bnd (f x) (\<lambda>(y, r). bnd (put_payload i (p y)) (\<lambda>_. ret r))))"

definition set_cell :: "env \<Rightarrow> (native \<Rightarrow> 'a option) \<Rightarrow> ('a \<Rightarrow> native) \<Rightarrow> jvalue \<Rightarrow> 'a shim_act \<Rightarrow> jvalue shim_act" where
  "set_cell E u p v new = write_cell E u p v (\<lambda>_. bnd new (\<lambda>y. ret (y, VNull)))"

locale cell =
  fixes u :: "native \<Rightarrow> 'a option" and p :: "'a \<Rightarrow> native"
  assumes u_p: "u (p x) = Some x"
begin

lemma read_holds: "payload s v = Some (p x) \<Longrightarrow> read_cell E u v s = (Ok x, s)"
  by (simp add: read_cell_def the_payload_def u_p ret_def)

lemma write_holds:
  assumes "payload s v = Some (p x)" and "f x s = (Ok (y, r), s)"
  shows "write_cell E u p v f s = (Ok r, with_payload v (p y) s)"
  using assms payload_mut_at [OF assms(1)] put_payload_at [OF assms(1)]
  by (simp add: write_cell_def u_p bnd_def ret_def)

text \<open>A write can be read back, and the last of two writes stays.\<close>

lemma read_after_write:
  assumes "payload s v = Some (p x)" and "f x s = (Ok (y, r), s)"
  shows "read_cell E u v (snd (write_cell E u p v f s)) = (Ok y, with_payload v (p y) s)"
  using write_holds [of s v x f y r] assms by (simp add: read_holds)

lemma set_holds:
  "payload s v = Some (p x) \<Longrightarrow> set_cell E u p v (ret y) s = (Ok VNull, with_payload v (p y) s)"
  unfolding set_cell_def by (rule write_holds) (simp_all add: ret_def bnd_def)

end

section \<open>Arguments\<close>

text \<open>\<open>as_int\<close> of an argument, a panic on anything but an int and null.\<close>

definition raw_int :: "jvalue list \<Rightarrow> nat \<Rightarrow> i32 shim_act" where
  "raw_int args i = bnd (arg args i) (\<lambda>v. unwrap (as_int v))"

lemma raw_int_at [simp]: "i < length args \<Longrightarrow> args ! i = VInt x \<Longrightarrow> raw_int args i = ret x"
  by (rule ext) (simp add: raw_int_def unwrap_def)

definition bool_int :: "bool \<Rightarrow> jvalue" where
  "bool_int b = VInt (int_of_bool b)"

section \<open>AtomicReference\<close>

definition un_ref :: "native \<Rightarrow> jvalue option" where
  "un_ref n = (case n of Lazy v \<Rightarrow> Some v | _ \<Rightarrow> None)"

interpretation ref_cell: cell un_ref Lazy
  by unfold_locales (simp add: un_ref_def)

definition atomic_ref_init :: "env \<Rightarrow> jvalue list \<Rightarrow> jvalue shim_act" where
  "atomic_ref_init E args =
     bnd (arg args 0) (\<lambda>this.
     set_cell E un_ref Lazy this (ret (case nth_opt args 1 of Some v \<Rightarrow> v | None \<Rightarrow> VNull)))"

definition atomic_ref_get :: "env \<Rightarrow> jvalue list \<Rightarrow> jvalue shim_act" where
  "atomic_ref_get E args = bnd (arg args 0) (read_cell E un_ref)"

definition atomic_ref_set :: "env \<Rightarrow> jvalue list \<Rightarrow> jvalue shim_act" where
  "atomic_ref_set E args = bnd (arg args 0) (\<lambda>this. set_cell E un_ref Lazy this (arg args 1))"

section \<open>AtomicReferenceArray\<close>

definition un_refs :: "native \<Rightarrow> jvalue list option" where
  "un_refs n = (case n of Arr (ObjArr vs) \<Rightarrow> Some vs | _ \<Rightarrow> None)"

interpretation refs_cell: cell un_refs "\<lambda>vs. Arr (ObjArr vs)"
  by unfold_locales (simp add: un_refs_def)

text \<open>\<open>max(0) as usize\<close> of an index: a negative one is 0.\<close>

definition clamped_index :: "i32 \<Rightarrow> nat" where
  "clamped_index i = nat (sint i)"

definition atomic_ref_array_init :: "env \<Rightarrow> jvalue list \<Rightarrow> jvalue shim_act" where
  "atomic_ref_array_init E args =
     bnd (arg_int args 1) (\<lambda>n. bnd (arg args 0) (\<lambda>this. case this of
       VObj i \<Rightarrow>
         bnd (asks (\<lambda>s. unat i < length (objects (heap s)))) (\<lambda>b.
         if b then bnd (put_payload i (Arr (ObjArr (replicate (clamped_index n) VNull)))) (\<lambda>_. ret VNull)
         else panic)
     | _ \<Rightarrow> npe E))"

definition atomic_ref_array_get :: "env \<Rightarrow> jvalue list \<Rightarrow> jvalue shim_act" where
  "atomic_ref_array_get E args =
     bnd (arg_int args 1) (\<lambda>i. bnd (arg args 0) (\<lambda>this. bnd (read_cell E un_refs this) (\<lambda>vs.
     case nth_opt vs (unat (scast i :: u64)) of Some x \<Rightarrow> ret x | None \<Rightarrow> ioobe E i)))"

text \<open>A write to the element at the clamped index.\<close>

definition write_ref :: "env \<Rightarrow> jvalue list \<Rightarrow> (jvalue \<Rightarrow> jvalue \<times> jvalue) \<Rightarrow> jvalue shim_act" where
  "write_ref E args f =
     bnd (arg_int args 1) (\<lambda>i. bnd (arg args 0) (\<lambda>this.
     write_cell E un_refs (\<lambda>vs. Arr (ObjArr vs)) this (\<lambda>vs.
       case nth_opt vs (clamped_index i) of
         None \<Rightarrow> ioobe E (of_nat (clamped_index i))
       | Some old \<Rightarrow> (case f old of (new, r) \<Rightarrow> ret (vs[clamped_index i := new], r)))))"

definition atomic_ref_array_set :: "env \<Rightarrow> jvalue list \<Rightarrow> jvalue shim_act" where
  "atomic_ref_array_set E args = bnd (arg args 2) (\<lambda>v. write_ref E args (\<lambda>old. (v, VNull)))"

definition atomic_ref_array_get_and_set :: "env \<Rightarrow> jvalue list \<Rightarrow> jvalue shim_act" where
  "atomic_ref_array_get_and_set E args = bnd (arg args 2) (\<lambda>v. write_ref E args (\<lambda>old. (v, old)))"

text \<open>The comparison is that of the slots: references by identity, floats by value.\<close>

definition same_value :: "jvalue \<Rightarrow> jvalue \<Rightarrow> bool" where
  "same_value v w = (case (v, w) of
     (VFloat x, VFloat y) \<Rightarrow> feq (f32_of x) (f32_of y)
   | (VDouble x, VDouble y) \<Rightarrow> feq (f64_of x) (f64_of y)
   | _ \<Rightarrow> v = w)"

definition atomic_ref_array_cas :: "env \<Rightarrow> jvalue list \<Rightarrow> jvalue shim_act" where
  "atomic_ref_array_cas E args =
     bnd (arg args 2) (\<lambda>expect. bnd (arg args 3) (\<lambda>update.
     write_ref E args (\<lambda>old.
       if same_value old expect then (update, bool_int True) else (old, bool_int False))))"

section \<open>AtomicBoolean\<close>

definition un_bool :: "native \<Rightarrow> bool option" where
  "un_bool n = (case n of AtomicBool b \<Rightarrow> Some b | _ \<Rightarrow> None)"

interpretation bool_cell: cell un_bool AtomicBool
  by unfold_locales (simp add: un_bool_def)

definition atomic_bool_init :: "env \<Rightarrow> jvalue list \<Rightarrow> jvalue shim_act" where
  "atomic_bool_init E args =
     bnd (if length args > 1 then bnd (raw_int args 1) (\<lambda>i. ret (i \<noteq> 0)) else ret False) (\<lambda>b.
     bnd (arg args 0) (\<lambda>this. set_cell E un_bool AtomicBool this (ret b)))"

definition atomic_bool_init_default :: "env \<Rightarrow> jvalue list \<Rightarrow> jvalue shim_act" where
  "atomic_bool_init_default E args =
     bnd (arg args 0) (\<lambda>this. set_cell E un_bool AtomicBool this (ret False))"

definition atomic_bool_get :: "env \<Rightarrow> jvalue list \<Rightarrow> jvalue shim_act" where
  "atomic_bool_get E args =
     bnd (arg args 0) (\<lambda>this. bnd (read_cell E un_bool this) (\<lambda>b. ret (bool_int b)))"

definition atomic_bool_set :: "env \<Rightarrow> jvalue list \<Rightarrow> jvalue shim_act" where
  "atomic_bool_set E args = bnd (arg args 0) (\<lambda>this.
     set_cell E un_bool AtomicBool this (bnd (raw_int args 1) (\<lambda>i. ret (i \<noteq> 0))))"

definition atomic_bool_cas :: "env \<Rightarrow> jvalue list \<Rightarrow> jvalue shim_act" where
  "atomic_bool_cas E args = bnd (arg args 0) (\<lambda>this.
     write_cell E un_bool AtomicBool this (\<lambda>b.
       bnd (raw_int args 1) (\<lambda>ex. bnd (raw_int args 2) (\<lambda>up.
       ret (if b = (ex \<noteq> 0) then (up \<noteq> 0, bool_int True) else (b, bool_int False))))))"

definition atomic_bool_tostring :: "env \<Rightarrow> jvalue list \<Rightarrow> jvalue shim_act" where
  "atomic_bool_tostring E args = bnd (arg args 0) (\<lambda>this. bnd (read_cell E un_bool this) (\<lambda>b.
     via (alloc_string (if b then ''true'' else ''false''))))"

section \<open>AtomicInteger\<close>

definition un_int :: "native \<Rightarrow> i32 option" where
  "un_int n = (case n of AtomicInt i \<Rightarrow> Some i | _ \<Rightarrow> None)"

interpretation int_cell: cell un_int AtomicInt
  by unfold_locales (simp add: un_int_def)

text \<open>The sums wrap around, as in a release build.\<close>

definition on_int_cell :: "env \<Rightarrow> jvalue list \<Rightarrow> (i32 \<Rightarrow> (i32 \<times> jvalue) shim_act) \<Rightarrow> jvalue shim_act" where
  "on_int_cell E args f = bnd (arg args 0) (\<lambda>this. write_cell E un_int AtomicInt this f)"

definition atomic_int_init :: "env \<Rightarrow> jvalue list \<Rightarrow> jvalue shim_act" where
  "atomic_int_init E args =
     bnd (if length args > 1 then raw_int args 1 else ret 0) (\<lambda>v.
     bnd (arg args 0) (\<lambda>this. set_cell E un_int AtomicInt this (ret v)))"

definition atomic_int_get :: "env \<Rightarrow> jvalue list \<Rightarrow> jvalue shim_act" where
  "atomic_int_get E args =
     bnd (arg args 0) (\<lambda>this. bnd (read_cell E un_int this) (\<lambda>i. ret (VInt i)))"

definition atomic_int_set :: "env \<Rightarrow> jvalue list \<Rightarrow> jvalue shim_act" where
  "atomic_int_set E args = bnd (arg args 0) (\<lambda>this. set_cell E un_int AtomicInt this (raw_int args 1))"

definition atomic_int_add_and_get :: "env \<Rightarrow> jvalue list \<Rightarrow> jvalue shim_act" where
  "atomic_int_add_and_get E args =
     on_int_cell E args (\<lambda>i. bnd (raw_int args 1) (\<lambda>d. ret (i + d, VInt (i + d))))"

definition atomic_int_get_and_add :: "env \<Rightarrow> jvalue list \<Rightarrow> jvalue shim_act" where
  "atomic_int_get_and_add E args =
     on_int_cell E args (\<lambda>i. bnd (raw_int args 1) (\<lambda>d. ret (i + d, VInt i)))"

definition atomic_int_increment_and_get :: "env \<Rightarrow> jvalue list \<Rightarrow> jvalue shim_act" where
  "atomic_int_increment_and_get E args = on_int_cell E args (\<lambda>i. ret (i + 1, VInt (i + 1)))"

definition atomic_int_decrement_and_get :: "env \<Rightarrow> jvalue list \<Rightarrow> jvalue shim_act" where
  "atomic_int_decrement_and_get E args = on_int_cell E args (\<lambda>i. ret (i - 1, VInt (i - 1)))"

definition atomic_int_get_and_increment :: "env \<Rightarrow> jvalue list \<Rightarrow> jvalue shim_act" where
  "atomic_int_get_and_increment E args = on_int_cell E args (\<lambda>i. ret (i + 1, VInt i))"

definition atomic_int_cas :: "env \<Rightarrow> jvalue list \<Rightarrow> jvalue shim_act" where
  "atomic_int_cas E args =
     on_int_cell E args (\<lambda>i. bnd (raw_int args 1) (\<lambda>ex. bnd (raw_int args 2) (\<lambda>up.
       ret (if i = ex then (up, bool_int True) else (i, bool_int False)))))"

definition atomic_int_tostring :: "env \<Rightarrow> jvalue list \<Rightarrow> jvalue shim_act" where
  "atomic_int_tostring E args = bnd (arg args 0) (\<lambda>this. bnd (read_cell E un_int this) (\<lambda>i.
     via (alloc_string (show_int (sint i)))))"

section \<open>A register\<close>

text \<open>The calls a guest makes on one \<open>AtomicInteger\<close>, and what they are on a register.\<close>

datatype int_op =
  Get | Set i32 | AddGet i32 | GetAdd i32 | IncGet | DecGet | GetInc | CompareSet i32 i32

fun int_call :: "env \<Rightarrow> jvalue \<Rightarrow> int_op \<Rightarrow> jvalue shim_act" where
  "int_call E v Get = atomic_int_get E [v]"
| "int_call E v (Set x) = atomic_int_set E [v, VInt x]"
| "int_call E v (AddGet d) = atomic_int_add_and_get E [v, VInt d]"
| "int_call E v (GetAdd d) = atomic_int_get_and_add E [v, VInt d]"
| "int_call E v IncGet = atomic_int_increment_and_get E [v]"
| "int_call E v DecGet = atomic_int_decrement_and_get E [v]"
| "int_call E v GetInc = atomic_int_get_and_increment E [v]"
| "int_call E v (CompareSet x y) = atomic_int_cas E [v, VInt x, VInt y]"

fun register_op :: "int_op \<Rightarrow> i32 \<Rightarrow> i32 \<times> jvalue" where
  "register_op Get i = (i, VInt i)"
| "register_op (Set x) i = (x, VNull)"
| "register_op (AddGet d) i = (i + d, VInt (i + d))"
| "register_op (GetAdd d) i = (i + d, VInt i)"
| "register_op IncGet i = (i + 1, VInt (i + 1))"
| "register_op DecGet i = (i - 1, VInt (i - 1))"
| "register_op GetInc i = (i + 1, VInt i)"
| "register_op (CompareSet x y) i = (if i = x then (y, VInt 1) else (i, VInt 0))"

fun register_ops :: "int_op list \<Rightarrow> i32 \<Rightarrow> i32 \<times> jvalue list" where
  "register_ops [] i = (i, [])"
| "register_ops (c # cs) i =
     (case register_op c i of (j, r) \<Rightarrow> case register_ops cs j of (k, rs) \<Rightarrow> (k, r # rs))"

lemma int_call_step:
  assumes "payload s v = Some (AtomicInt i)" and "register_op c i = (j, r)"
  shows "int_call E v c s = (Ok r, with_payload v (AtomicInt j) s)"
  using assms with_payload_same [OF assms(1)]
  by (cases c) (auto simp: atomic_int_get_def atomic_int_set_def on_int_cell_def
      atomic_int_add_and_get_def atomic_int_get_and_add_def atomic_int_increment_and_get_def
      atomic_int_decrement_and_get_def atomic_int_get_and_increment_def atomic_int_cas_def
      set_cell_def bool_int_def int_of_bool_def int_cell.read_holds [OF assms(1)]
      ret_def bnd_def
      intro!: int_cell.write_holds [OF assms(1), THEN trans] split: if_splits)

theorem atomic_calls_refine:
  assumes "payload s v = Some (AtomicInt i)" and "register_ops cs i = (j, rs)"
  shows "amap (int_call E v) cs s = (Ok rs, with_payload v (AtomicInt j) s)"
  using assms
proof (induction cs arbitrary: s i rs)
  case Nil
  then show ?case by (simp add: ret_def with_payload_same)
next
  case (Cons c cs)
  obtain k r where c: "register_op c i = (k, r)" by fastforce
  obtain rs' where cs: "register_ops cs k = (j, rs')" and rs: "rs = r # rs'"
    using Cons.prems(2) c by (auto split: prod.splits)
  let ?s = "with_payload v (AtomicInt k) s"
  have "payload ?s v = Some (AtomicInt k)" using Cons.prems(1) by simp
  from Cons.IH [OF this cs] int_call_step [OF Cons.prems(1) c] rs
  show ?case by (simp add: bnd_def ret_def)
qed

text \<open>A negative index of an \<open>AtomicReferenceArray\<close> writes the first element.\<close>

theorem negative_index_writes_first:
  assumes "payload s this = Some (Arr (ObjArr (x # vs)))" and "sint i < 0"
  shows "atomic_ref_array_set E [this, VInt i, w] s =
    (Ok VNull, with_payload this (Arr (ObjArr (w # vs))) s)"
proof -
  have "clamped_index i = 0" using assms(2) by (simp add: clamped_index_def)
  then show ?thesis
    by (auto simp: atomic_ref_array_set_def write_ref_def arg_int_def int_of_def nth_opt_def ret_def
        bnd_def asks_def intro!: refs_cell.write_holds [OF assms(1), THEN trans])
qed

section \<open>Random\<close>

text \<open>The next seed and the output of the generator; a seed of 0 starts from a constant.\<close>

definition rand_next :: "u64 \<Rightarrow> u64 \<times> u64" where
  "rand_next sd =
     (let x = (if sd = 0 then 0x9E3779B97F4A7C15 else sd);
          x = x XOR drop_bit 12 x;
          x = x XOR push_bit 25 x;
          x = x XOR drop_bit 27 x
      in (x, x * 0x2545F4914F6CDD1D))"

definition un_random :: "native \<Rightarrow> u64 option" where
  "un_random n = (case n of Random sd \<Rightarrow> Some sd | _ \<Rightarrow> None)"

interpretation seed_cell: cell un_random Random
  by unfold_locales (simp add: un_random_def)

definition on_seed :: "env \<Rightarrow> jvalue list \<Rightarrow> (u64 \<Rightarrow> jvalue) \<Rightarrow> jvalue shim_act" where
  "on_seed E args f =
     bnd (arg args 0) (\<lambda>this. write_cell E un_random Random this (\<lambda>sd.
       case rand_next sd of (sd', w) \<Rightarrow> ret (sd', f w)))"

text \<open>\<open>fresh\<close> is the clock mixed with a random number of the host.\<close>

definition random_init :: "u64 \<Rightarrow> env \<Rightarrow> jvalue list \<Rightarrow> jvalue shim_act" where
  "random_init fresh E args =
     bnd (arg args 0) (\<lambda>this. set_cell E un_random Random this (ret fresh))"

definition random_init_seed :: "env \<Rightarrow> jvalue list \<Rightarrow> jvalue shim_act" where
  "random_init_seed E args =
     bnd (arg_long args 1) (\<lambda>sd. bnd (arg args 0) (\<lambda>this.
     set_cell E un_random Random this (ret sd)))"

definition random_next_int :: "env \<Rightarrow> jvalue list \<Rightarrow> jvalue shim_act" where
  "random_next_int E args = on_seed E args (\<lambda>w. VInt (ucast (drop_bit 32 w)))"

definition random_next_int_bound :: "env \<Rightarrow> jvalue list \<Rightarrow> jvalue shim_act" where
  "random_next_int_bound E args =
     bnd (arg_int args 1) (\<lambda>bound.
     if sint bound \<le> 0 then iae E ''bound must be positive''
     else on_seed E args (\<lambda>w. VInt (ucast (drop_bit 32 w) mod bound)))"

definition random_next_long :: "env \<Rightarrow> jvalue list \<Rightarrow> jvalue shim_act" where
  "random_next_long E args = on_seed E args VLong"

text \<open>The quotient \<open>1 / 2^k\<close> and the products are those of the format.\<close>

definition unit_fraction :: "fmt \<Rightarrow> nat \<Rightarrow> u64 \<Rightarrow> nat" where
  "unit_fraction F k w =
     fmul F (unpack F (of_int_fp F (uint w)))
       (unpack F (fdiv F (unpack F (of_int_fp F 1)) (unpack F (of_int_fp F (2 ^ k)))))"

definition random_next_double :: "env \<Rightarrow> jvalue list \<Rightarrow> jvalue shim_act" where
  "random_next_double E args =
     on_seed E args (\<lambda>w. VDouble (of_nat (unit_fraction binary64 53 (drop_bit 11 w))))"

definition random_next_float :: "env \<Rightarrow> jvalue list \<Rightarrow> jvalue shim_act" where
  "random_next_float E args =
     on_seed E args (\<lambda>w. VFloat (of_nat (unit_fraction binary32 24 (drop_bit 40 w))))"

definition random_next_boolean :: "env \<Rightarrow> jvalue list \<Rightarrow> jvalue shim_act" where
  "random_next_boolean E args = on_seed E args (\<lambda>w. bool_int (drop_bit 63 w \<noteq> 0))"

text \<open>
  The bytes of \<open>nextBytes\<close>, lowest first; a word that has run out of bits makes the generator
  draw another. The seed is a copy.
\<close>

fun random_bytes :: "u64 \<Rightarrow> u64 \<Rightarrow> nat \<Rightarrow> i8 list" where
  "random_bytes sd w 0 = []"
| "random_bytes sd w (Suc n) =
     ucast w #
     (let w' = drop_bit 8 w in
      if w' = 0 \<and> 0 < n then (case rand_next sd of (sd', w'') \<Rightarrow> random_bytes sd' w'' n)
      else random_bytes sd w' n)"

definition un_bytes :: "native \<Rightarrow> i8 list option" where
  "un_bytes n = (case n of Arr (ByteArr bs) \<Rightarrow> Some bs | _ \<Rightarrow> None)"

interpretation bytes_cell: cell un_bytes "\<lambda>bs. Arr (ByteArr bs)"
  by unfold_locales (simp add: un_bytes_def)

definition random_next_bytes :: "env \<Rightarrow> jvalue list \<Rightarrow> jvalue shim_act" where
  "random_next_bytes E args =
     bnd (arg args 0) (\<lambda>this. bnd (payload_mut this) (\<lambda>m. case m of
       Some (i, Random sd) \<Rightarrow>
         bnd (arg args 1) (\<lambda>dst. write_cell E un_bytes (\<lambda>bs. Arr (ByteArr bs)) dst (\<lambda>bs.
           case rand_next sd of (sd', w) \<Rightarrow> ret (random_bytes sd' w (length bs), VNull)))
     | _ \<Rightarrow> npe E))"

definition random_set_seed :: "env \<Rightarrow> jvalue list \<Rightarrow> jvalue shim_act" where
  "random_set_seed E args =
     bnd (arg_long args 1) (\<lambda>sd. bnd (arg args 0) (\<lambda>this.
     set_cell E un_random Random this (ret sd)))"

lemma xor_drop_bit_zero:
  assumes "x XOR drop_bit k x = 0" and "0 < k"
  shows "x = (0 :: 'a::len word)"
proof (rule bit_word_eqI)
  fix i
  have step: "bit x i = bit x (k + i)" for i
    using assms(1) by (metis bit_0_eq bit_drop_bit_eq bit_xor_iff bot_apply bot_bool_def comp_apply)
  then have "bit x i = bit x (i + j * k)" for j
  proof (induction j)
    case (Suc j)
    then show ?case using step [of "i + j * k"] by (simp add: ac_simps)
  qed simp
  moreover have "\<not> bit x (i + LENGTH('a) * k)"
  proof
    assume "bit x (i + LENGTH('a) * k)"
    then have "i + LENGTH('a) * k < LENGTH('a)" by (rule bit_imp_le_length)
    moreover have "LENGTH('a) * 1 \<le> LENGTH('a) * k" using assms(2) by (intro mult_le_mono2) simp
    ultimately show False by simp
  qed
  ultimately show "bit x i = bit 0 i" by (metis bit_0_eq bot_apply bot_bool_def)
qed

lemma xor_push_bit_zero:
  assumes "x XOR push_bit k x = 0" and "0 < k"
  shows "x = (0 :: 'a::len word)"
proof (rule bit_word_eqI)
  fix i :: nat assume "i < LENGTH('a)"
  then show "bit x i = bit 0 i"
  proof (induction i rule: less_induct)
    case (less i)
    have "bit x i = bit (push_bit k x) i"
      using assms(1) by (metis bit_0_eq bit_xor_iff bot_apply bot_bool_def)
    then show ?case using less assms(2) by (auto simp: bit_push_bit_iff)
  qed
qed

text \<open>The generator never reaches the seed 0, which it would leave only by the constant.\<close>

theorem seed_never_zero: "fst (rand_next sd) \<noteq> 0"
proof -
  define x where "x = (if sd = 0 then 0x9E3779B97F4A7C15 else sd)"
  define y where "y = x XOR drop_bit 12 x"
  define z where "z = y XOR push_bit 25 y"
  have "x \<noteq> 0" by (simp add: x_def)
  then have "y \<noteq> 0" using xor_drop_bit_zero [of x 12] by (auto simp: y_def)
  then have "z \<noteq> 0" using xor_push_bit_zero [of y 25] by (auto simp: z_def)
  then have "z XOR drop_bit 27 z \<noteq> 0" using xor_drop_bit_zero [of z 27] by auto
  moreover have "fst (rand_next sd) = z XOR drop_bit 27 z"
    unfolding rand_next_def Let_def z_def y_def x_def by simp
  ultimately show ?thesis by simp
qed

theorem next_int_in_bounds:
  assumes "payload s v = Some (Random sd)" and "0 < sint bound"
  shows "\<exists>r sd'. random_next_int_bound E [v, VInt bound] s = (Ok (VInt r), with_payload v (Random sd') s) \<and>
    0 \<le> sint r \<and> sint r < sint bound \<and> sd' \<noteq> 0"
proof -
  obtain sd' w where n: "rand_next sd = (sd', w)" by fastforce
  define r where "r = (ucast (drop_bit 32 w) :: u32) mod bound"
  have b: "uint bound = sint bound" using assms(2) by (simp add: uint_sint take_bit_int_eq_self sint_lt less_le_trans [OF sint_lt])
  have "uint r < uint bound"
    using assms(2) b by (simp add: r_def uint_mod_distrib)
  moreover have "uint bound < 2 ^ 31" using sint_lt [of bound] b by simp
  ultimately have "uint r < 2 ^ 31" by linarith
  then have "sint r = uint r" by (simp add: sint_uint signed_take_bit_int_eq_self_iff order_trans [OF _ uint_ge_0])
  then have "0 \<le> sint r \<and> sint r < sint bound" using b \<open>uint r < uint bound\<close> by simp
  moreover have "random_next_int_bound E [v, VInt bound] s = (Ok (VInt r), with_payload v (Random sd') s)"
    using assms(2) n
    by (auto simp: random_next_int_bound_def on_seed_def arg_int_def int_of_def r_def ret_def
        bnd_def asks_def intro!: seed_cell.write_holds [OF assms(1), THEN trans])
  ultimately show ?thesis using seed_never_zero [of sd] n by auto
qed

text \<open>\<open>nextBytes\<close> leaves the seed, so that it gives the same bytes each time.\<close>

theorem next_bytes_repeat:
  assumes "payload s r = Some (Random sd)" "payload s d = Some (Arr (ByteArr bs))"
  shows "\<exists>bs'. random_next_bytes E [r, d] s = (Ok VNull, with_payload d (Arr (ByteArr bs')) s) \<and>
    random_next_bytes E [r, d] (with_payload d (Arr (ByteArr bs')) s) =
      (Ok VNull, with_payload d (Arr (ByteArr bs')) s)"
proof -
  have ne: "r \<noteq> d" using assms by auto
  obtain sd' w where n: "rand_next sd = (sd', w)" by fastforce
  have run: "random_next_bytes E [r, d] t =
      (Ok VNull, with_payload d (Arr (ByteArr (random_bytes sd' w (length cs)))) t)"
    if "payload t r = Some (Random sd)" "payload t d = Some (Arr (ByteArr cs))" for t cs
    using payload_mut_at [OF that(1)] n
    by (auto simp: random_next_bytes_def ret_def bnd_def
        intro!: bytes_cell.write_holds [OF that(2), THEN trans])
  have len: "length (random_bytes sd x k) = k" for sd x k
    by (induction sd x k rule: random_bytes.induct) (auto simp: Let_def split: prod.split)
  let ?t = "with_payload d (Arr (ByteArr (random_bytes sd' w (length bs)))) s"
  have "payload ?t r = Some (Random sd)"
      "payload ?t d = Some (Arr (ByteArr (random_bytes sd' w (length bs))))"
    using assms ne by simp_all
  from run [OF this] run [OF assms] len show ?thesis by auto
qed

end
