(* ===== verification/Ranges.thy ===== *)
theory Ranges
  imports Cells
begin

text \<open>
  Kotlin's ranges and progressions and their iterators (\<open>vm/native/kotlin/ranges.rs\<close>). The
  iterator of a range is the range itself, with its first element as the cursor. Shown: iterating
  gives the elements of the range in order and then refuses; the last element of a progression is
  the last one it reaches; and what the wrap-around of 32 bits does at the ends.
\<close>

section \<open>Payloads\<close>

definition un_int_range :: "native \<Rightarrow> (i32 \<times> i32) option" where
  "un_int_range n = (case n of IntRange f l \<Rightarrow> Some (f, l) | _ \<Rightarrow> None)"

definition un_char_range :: "native \<Rightarrow> (i32 \<times> i32) option" where
  "un_char_range n = (case n of CharRange f l \<Rightarrow> Some (f, l) | _ \<Rightarrow> None)"

definition un_long_range :: "native \<Rightarrow> (i64 \<times> i64) option" where
  "un_long_range n = (case n of LongRange f l \<Rightarrow> Some (f, l) | _ \<Rightarrow> None)"

abbreviation int_range :: "i32 \<times> i32 \<Rightarrow> native" where
  "int_range \<equiv> \<lambda>(f, l). IntRange f l"

abbreviation char_range :: "i32 \<times> i32 \<Rightarrow> native" where
  "char_range \<equiv> \<lambda>(f, l). CharRange f l"

abbreviation long_range :: "i64 \<times> i64 \<Rightarrow> native" where
  "long_range \<equiv> \<lambda>(f, l). LongRange f l"

interpretation int_ranges: cell un_int_range int_range
  by unfold_locales (simp add: un_int_range_def split: prod.split)

interpretation char_ranges: cell un_char_range char_range
  by unfold_locales (simp add: un_char_range_def split: prod.split)

interpretation long_ranges: cell un_long_range long_range
  by unfold_locales (simp add: un_long_range_def split: prod.split)

text \<open>\<open>saturating_sub(1)\<close> of a signed word, and \<open>rem_euclid\<close> by a divisor other than 0.\<close>

definition saturating_dec :: "'a::len word \<Rightarrow> 'a word" where
  "saturating_dec x = (if sint x = - (2 ^ (LENGTH('a) - 1)) then x else x - 1)"

definition rem_euclid :: "i32 \<Rightarrow> i32 \<Rightarrow> i32" where
  "rem_euclid x m = word_of_int (sint x mod \<bar>sint m\<bar>)"

section \<open>IntRange and IntIterator\<close>

definition rangeskt_until :: "env \<Rightarrow> jvalue list \<Rightarrow> jvalue shim_act" where
  "rangeskt_until E args =
     bnd (arg_int args 0) (\<lambda>first. bnd (arg_int args 1) (\<lambda>end'.
     alloc_shim E ''Lkotlin/ranges/IntRange;'' (IntRange first (saturating_dec end'))))"

definition int_range_init :: "env \<Rightarrow> jvalue list \<Rightarrow> jvalue shim_act" where
  "int_range_init E args =
     bnd (arg_int args 1) (\<lambda>first. bnd (arg_int args 2) (\<lambda>last'. bnd (arg args 0) (\<lambda>this.
     set_cell E un_int_range int_range this (ret (first, last')))))"

definition int_range_get_first :: "env \<Rightarrow> jvalue list \<Rightarrow> jvalue shim_act" where
  "int_range_get_first E args =
     bnd (arg args 0) (\<lambda>this. bnd (read_cell E un_int_range this) (\<lambda>(f, l). ret (VInt f)))"

definition int_range_get_last :: "env \<Rightarrow> jvalue list \<Rightarrow> jvalue shim_act" where
  "int_range_get_last E args =
     bnd (arg args 0) (\<lambda>this. bnd (read_cell E un_int_range this) (\<lambda>(f, l). ret (VInt l)))"

definition int_iterator_init :: "env \<Rightarrow> jvalue list \<Rightarrow> jvalue shim_act" where
  "int_iterator_init E args =
     bnd (arg args 0) (\<lambda>this. set_cell E un_int_range int_range this (ret (0, 0)))"

definition int_iterator_next_int :: "env \<Rightarrow> jvalue list \<Rightarrow> jvalue shim_act" where
  "int_iterator_next_int E args =
     bnd (arg args 0) (\<lambda>this. bnd (read_cell E un_int_range this) (\<lambda>(f, l).
     if sint l < sint f then no_such_elem E
     else bnd (write_cell E un_int_range int_range this (\<lambda>(f2, l2). ret ((f2 + 1, l2), ())))
       (\<lambda>_. ret (VInt f))))"

definition int_iterator_has_next :: "env \<Rightarrow> jvalue list \<Rightarrow> jvalue shim_act" where
  "int_iterator_has_next E args =
     bnd (arg args 0) (\<lambda>this. bnd (read_cell E un_int_range this) (\<lambda>(f, l).
     ret (bool_int (sint f \<le> sint l))))"

section \<open>Progressions\<close>

text \<open>The last element an arithmetic progression reaches, in wrapping 32-bit arithmetic.\<close>

definition last_element :: "i32 \<Rightarrow> i32 \<Rightarrow> i32 \<Rightarrow> i32" where
  "last_element first last' step =
     (if step = 0 then last'
      else if 0 < sint step then last' - rem_euclid (last' - first) step
      else last' + rem_euclid (first - last') (- step))"

definition progression_last_element :: "env \<Rightarrow> jvalue list \<Rightarrow> jvalue shim_act" where
  "progression_last_element E args =
     bnd (raw_int args 0) (\<lambda>first. bnd (raw_int args 1) (\<lambda>last'. bnd (raw_int args 2) (\<lambda>step.
     ret (VInt (last_element first last' step)))))"

definition progression_bounds :: "env \<Rightarrow> jvalue \<Rightarrow> (i32 \<times> i32 \<times> i32) shim_act" where
  "progression_bounds E v = bnd (the_payload v) (\<lambda>m. case m of
     Some (IntProgression f l st) \<Rightarrow> ret (f, l, st)
   | Some (IntRange f l) \<Rightarrow> ret (f, l, 1)
   | _ \<Rightarrow> npe E)"

definition new_progression :: "env \<Rightarrow> i32 \<Rightarrow> i32 \<Rightarrow> i32 \<Rightarrow> jvalue shim_act" where
  "new_progression E f l st = alloc_shim E ''Lkotlin/ranges/IntProgression;'' (IntProgression f l st)"

definition rangeskt_down_to :: "env \<Rightarrow> jvalue list \<Rightarrow> jvalue shim_act" where
  "rangeskt_down_to E args =
     bnd (arg_int args 0) (\<lambda>first. bnd (arg_int args 1) (\<lambda>last'. new_progression E first last' (- 1)))"

text \<open>The first, last and step of \<open>p step n\<close>, for a positive \<open>n\<close>.\<close>

definition stepped :: "i32 \<times> i32 \<times> i32 \<Rightarrow> i32 \<Rightarrow> i32 \<times> i32 \<times> i32" where
  "stepped b n =
     (case b of (first, last', old_step) \<Rightarrow>
      let step = (if 0 < sint old_step then n else - n);
          new_last =
            (if 0 < sint step then
               (if sint last' \<le> sint first then last' else last' - rem_euclid (last' - first) step)
             else if sint first \<le> sint last' then last'
             else last' + rem_euclid (first - last') (- step))
      in (first, new_last, step))"

definition progression_step :: "env \<Rightarrow> jvalue list \<Rightarrow> jvalue shim_act" where
  "progression_step E args =
     bnd (arg args 0) (\<lambda>this. bnd (progression_bounds E this) (\<lambda>b. bnd (arg_int args 1) (\<lambda>n.
     if sint n \<le> 0
     then iae E (''Step must be positive, was: '' @ show_int (sint n))
     else (case stepped b n of (f, l, st) \<Rightarrow> new_progression E f l st))))"

definition progression_reversed :: "env \<Rightarrow> jvalue list \<Rightarrow> jvalue shim_act" where
  "progression_reversed E args =
     bnd (arg args 0) (\<lambda>this. bnd (progression_bounds E this) (\<lambda>(f, l, st).
     if sint st = - (2 ^ 31) then throw E ''Ljava/lang/ArithmeticException;'' ''step overflow''
     else new_progression E l f (- st)))"

definition progression_get_first :: "env \<Rightarrow> jvalue list \<Rightarrow> jvalue shim_act" where
  "progression_get_first E args =
     bnd (arg args 0) (\<lambda>this. bnd (progression_bounds E this) (\<lambda>(f, l, st). ret (VInt f)))"

definition progression_get_last :: "env \<Rightarrow> jvalue list \<Rightarrow> jvalue shim_act" where
  "progression_get_last E args =
     bnd (arg args 0) (\<lambda>this. bnd (progression_bounds E this) (\<lambda>(f, l, st). ret (VInt l)))"

definition progression_get_step :: "env \<Rightarrow> jvalue list \<Rightarrow> jvalue shim_act" where
  "progression_get_step E args =
     bnd (arg args 0) (\<lambda>this. bnd (progression_bounds E this) (\<lambda>(f, l, st). ret (VInt st)))"

definition progression_bound_box :: "env \<Rightarrow> jvalue \<Rightarrow> bool \<Rightarrow> jvalue shim_act" where
  "progression_bound_box E v pick_last =
     bnd (progression_bounds E v) (\<lambda>(f, l, st).
     alloc_shim E ''Ljava/lang/Integer;'' (IntBox (if pick_last then l else f)))"

definition progression_get_start :: "env \<Rightarrow> jvalue list \<Rightarrow> jvalue shim_act" where
  "progression_get_start E args = bnd (arg args 0) (\<lambda>this. progression_bound_box E this False)"

definition progression_get_end_inclusive :: "env \<Rightarrow> jvalue list \<Rightarrow> jvalue shim_act" where
  "progression_get_end_inclusive E args = bnd (arg args 0) (\<lambda>this. progression_bound_box E this True)"

section \<open>CharRange and LongRange\<close>

definition char_range_init :: "env \<Rightarrow> jvalue list \<Rightarrow> jvalue shim_act" where
  "char_range_init E args =
     bnd (arg_int args 1) (\<lambda>first. bnd (arg_int args 2) (\<lambda>last'. bnd (arg args 0) (\<lambda>this.
     set_cell E un_char_range char_range this (ret (first, last')))))"

definition char_range_get_first :: "env \<Rightarrow> jvalue list \<Rightarrow> jvalue shim_act" where
  "char_range_get_first E args =
     bnd (arg args 0) (\<lambda>this. bnd (read_cell E un_char_range this) (\<lambda>(f, l). ret (VInt f)))"

definition char_range_get_last :: "env \<Rightarrow> jvalue list \<Rightarrow> jvalue shim_act" where
  "char_range_get_last E args =
     bnd (arg args 0) (\<lambda>this. bnd (read_cell E un_char_range this) (\<lambda>(f, l). ret (VInt l)))"

definition long_range_init :: "env \<Rightarrow> jvalue list \<Rightarrow> jvalue shim_act" where
  "long_range_init E args =
     bnd (arg_long args 1) (\<lambda>first. bnd (arg_long args 2) (\<lambda>last'. bnd (arg args 0) (\<lambda>this.
     set_cell E un_long_range long_range this (ret (first, last')))))"

definition long_range_get_first :: "env \<Rightarrow> jvalue list \<Rightarrow> jvalue shim_act" where
  "long_range_get_first E args =
     bnd (arg args 0) (\<lambda>this. bnd (read_cell E un_long_range this) (\<lambda>(f, l). ret (VLong f)))"

definition long_range_get_last :: "env \<Rightarrow> jvalue list \<Rightarrow> jvalue shim_act" where
  "long_range_get_last E args =
     bnd (arg args 0) (\<lambda>this. bnd (read_cell E un_long_range this) (\<lambda>(f, l). ret (VLong l)))"

definition rangeskt_until_long :: "env \<Rightarrow> jvalue list \<Rightarrow> jvalue shim_act" where
  "rangeskt_until_long E args =
     bnd (arg_long args 0) (\<lambda>first. bnd (arg_long args 1) (\<lambda>end'.
     alloc_shim E ''Lkotlin/ranges/LongRange;'' (LongRange first (saturating_dec end'))))"

text \<open>\<open>nanos\<close> are the nanoseconds of the host's clock; a remainder by zero is a panic.\<close>

definition rangeskt_random :: "u32 \<Rightarrow> env \<Rightarrow> jvalue list \<Rightarrow> jvalue shim_act" where
  "rangeskt_random nanos E args =
     bnd (arg args 0) (\<lambda>this. bnd (read_cell E un_int_range this) (\<lambda>(first, last').
     if sint last' < sint first then throw E ''Ljava/lang/IllegalArgumentException;'' ''empty random range''
     else if last' - first + 1 = 0 then panic
     else ret (VInt (first + nanos mod (last' - first + 1)))))"

definition char_iterator_next_char :: "env \<Rightarrow> jvalue list \<Rightarrow> jvalue shim_act" where
  "char_iterator_next_char E args =
     bnd (arg args 0) (\<lambda>this. bnd (read_cell E un_char_range this) (\<lambda>(f, l).
     if sint l < sint f then no_such_elem E
     else bnd (write_cell E un_char_range char_range this (\<lambda>(f2, l2). ret ((f2 + 1, l2), ())))
       (\<lambda>_. ret (VInt f))))"

section \<open>Coercions\<close>

definition max_w :: "'a::len word \<Rightarrow> 'a word \<Rightarrow> 'a word" where
  "max_w x y = (if sint x \<le> sint y then y else x)"

definition min_w :: "'a::len word \<Rightarrow> 'a word \<Rightarrow> 'a word" where
  "min_w x y = (if sint x \<le> sint y then x else y)"

definition coerce_at_least :: "env \<Rightarrow> jvalue list \<Rightarrow> jvalue shim_act" where
  "coerce_at_least E args =
     bnd (raw_int args 0) (\<lambda>x. bnd (raw_int args 1) (\<lambda>y. ret (VInt (max_w x y))))"

definition coerce_at_most :: "env \<Rightarrow> jvalue list \<Rightarrow> jvalue shim_act" where
  "coerce_at_most E args =
     bnd (raw_int args 0) (\<lambda>x. bnd (raw_int args 1) (\<lambda>y. ret (VInt (min_w x y))))"

definition coerce_at_least_long :: "env \<Rightarrow> jvalue list \<Rightarrow> jvalue shim_act" where
  "coerce_at_least_long E args =
     bnd (arg_long args 0) (\<lambda>x. bnd (arg_long args 1) (\<lambda>y. ret (VLong (max_w x y))))"

definition coerce_in :: "env \<Rightarrow> jvalue list \<Rightarrow> jvalue shim_act" where
  "coerce_in E args =
     bnd (arg_int args 0) (\<lambda>x. bnd (arg_int args 1) (\<lambda>lo. bnd (arg_int args 2) (\<lambda>hi.
     ret (VInt (min_w (max_w x lo) hi)))))"

text \<open>The bounds come from the guest; \<open>map_err(nat_fatal)\<close> keeps its exceptions.\<close>

definition coerce_in_closed_range :: "env \<Rightarrow> jvalue list \<Rightarrow> jvalue shim_act" where
  "coerce_in_closed_range E args =
     bnd (arg_int args 0) (\<lambda>x. bnd (arg args 1) (\<lambda>r.
     bnd (via (invoke_virtual (fst E) (snd E) r ''getStart'' ''()Ljava/lang/Comparable;'')) (\<lambda>v.
     bnd (asks (\<lambda>s. int_of s v)) (\<lambda>lo.
     bnd (via (invoke_virtual (fst E) (snd E) r ''getEndInclusive'' ''()Ljava/lang/Comparable;'')) (\<lambda>w.
     bnd (asks (\<lambda>s. int_of s w)) (\<lambda>hi.
     ret (VInt (min_w (max_w x lo) hi))))))))"

section \<open>Iterating\<close>

text \<open>
  The loop of a guest: as long as \<open>hasNext\<close> says so it takes \<open>nextInt\<close>, at most \<open>n\<close> times before
  it is given up as endless.
\<close>

fun drain :: "env \<Rightarrow> jvalue \<Rightarrow> nat \<Rightarrow> jvalue list shim_act" where
  "drain E it 0 = lift Diverge"
| "drain E it (Suc n) =
     bnd (int_iterator_has_next E [it]) (\<lambda>b.
     if b = bool_int False then ret []
     else bnd (int_iterator_next_int E [it]) (\<lambda>x. bnd (drain E it n) (\<lambda>xs. ret (x # xs))))"

lemma read_range: "payload s it = Some (IntRange f l) \<Longrightarrow> read_cell E un_int_range it s = (Ok (f, l), s)"
  by (rule int_ranges.read_holds) simp

lemma write_range:
  "payload s it = Some (IntRange f l) \<Longrightarrow>
   write_cell E un_int_range int_range it (\<lambda>(f2, l2). ret ((f2 + 1, l2), ())) s =
     (Ok (), with_payload it (IntRange (f + 1) l) s)"
  by (rule int_ranges.write_holds [of s it "(f, l)" _ "(f + 1, l)", simplified]) (simp_all add: ret_def)

lemma has_next_at:
  "payload s it = Some (IntRange f l) \<Longrightarrow>
   int_iterator_has_next E [it] s = (Ok (bool_int (sint f \<le> sint l)), s)"
  by (simp add: int_iterator_has_next_def bnd_def ret_def read_range)

lemma next_at:
  "payload s it = Some (IntRange f l) \<Longrightarrow> sint f \<le> sint l \<Longrightarrow>
   int_iterator_next_int E [it] s = (Ok (VInt f), with_payload it (IntRange (f + 1) l) s)"
  using read_range [of s it f l E] write_range [of s it f l E]
  by (simp add: int_iterator_next_int_def bnd_def ret_def)

lemma next_past:
  "payload s it = Some (IntRange f l) \<Longrightarrow> sint l < sint f \<Longrightarrow>
   int_iterator_next_int E [it] s = no_such_elem E s"
  using read_range [of s it f l E]
  by (simp add: int_iterator_next_int_def bnd_def ret_def)

lemma bool_int_eq [simp]: "bool_int b = bool_int c \<longleftrightarrow> b = c"
  by (simp add: bool_int_def int_of_bool_def)

lemma drain_step:
  assumes "payload s it = Some (IntRange f l)" and "sint f \<le> sint l"
  shows "drain E it (Suc n) s =
    (case drain E it n (with_payload it (IntRange (f + 1) l) s) of
       (Ok xs, t) \<Rightarrow> (Ok (VInt f # xs), t)
     | (Err e, t) \<Rightarrow> (Err e, t) | (Panic, t) \<Rightarrow> (Panic, t) | (Diverge, t) \<Rightarrow> (Diverge, t))"
  using has_next_at [OF assms(1), of E] next_at [OF assms, of E] assms(2)
  by (simp add: bnd_def ret_def split: outcome.split prod.split)

lemma sint_of_int32: "- (2 ^ 31) \<le> i \<Longrightarrow> i < 2 ^ 31 \<Longrightarrow> sint (word_of_int i :: i32) = i"
  by (simp add: signed_of_int signed_take_bit_int_eq_self)

lemma sint_range32: "- (2 ^ 31) \<le> sint (x :: i32)" "sint (x :: i32) < 2 ^ 31"
  using sint_ge [of x] sint_lt [of x] by simp_all

text \<open>The loop over a range that ends below the greatest int.\<close>

lemma drain_ends:
  assumes "payload s it = Some (IntRange f l)" and "sint l < 2 ^ 31 - 1"
    and "nat (sint l + 1 - sint f) < n"
  shows "\<exists>g. drain E it n s =
      (Ok (map (\<lambda>i. VInt (word_of_int i)) [sint f..sint l]), with_payload it (IntRange g l) s) \<and>
    int_iterator_next_int E [it] (with_payload it (IntRange g l) s) =
      no_such_elem E (with_payload it (IntRange g l) s)"
  using assms
proof (induction n arbitrary: s f)
  case (Suc n)
  show ?case
  proof (cases "sint f \<le> sint l")
    case True
    have "sint (f + 1) = sint f + 1"
    proof -
      have "f + 1 = word_of_int (sint f + 1)" by simp
      then show ?thesis
        using sint_of_int32 [of "sint f + 1"] sint_range32(1) [of f] True Suc.prems(2) by simp
    qed
    moreover from this have "nat (sint l + 1 - sint (f + 1)) < n" using Suc.prems(3) True by simp
    moreover have "payload (with_payload it (IntRange (f + 1) l) s) it = Some (IntRange (f + 1) l)"
      using Suc.prems(1) by simp
    ultimately obtain g where
      "drain E it n (with_payload it (IntRange (f + 1) l) s) =
         (Ok (map (\<lambda>i. VInt (word_of_int i)) [sint f + 1..sint l]), with_payload it (IntRange g l) s)"
      "int_iterator_next_int E [it] (with_payload it (IntRange g l) s) =
         no_such_elem E (with_payload it (IntRange g l) s)"
      using Suc.IH [of _ "f + 1"] Suc.prems(2) by fastforce
    then show ?thesis
      unfolding drain_step [OF Suc.prems(1) True] using True by (auto simp: upto_rec1)
  next
    case False
    then have "drain E it (Suc n) s = (Ok [], s)"
      using has_next_at [OF Suc.prems(1), of E] by (simp add: bnd_def ret_def)
    then show ?thesis
      using False next_past [OF Suc.prems(1), of E] with_payload_same [OF Suc.prems(1)]
      by (intro exI [of _ f]) simp
  qed
qed simp

definition range_vm :: "native \<Rightarrow> vm" where
  "range_vm n = (vm_empty [])\<lparr>heap :=
     \<lparr>objects = [\<lparr>obj_class = 0, obj_fields = [], obj_native = Some n\<rparr>], free_ids = []\<rparr>\<rparr>"

lemma range_vm_payload [simp]: "payload (range_vm n) (VObj 0) = Some n"
  by (simp add: range_vm_def payload_def arena_get_def nth_opt_def)

text \<open>A range up to the greatest int never ends: the cursor wraps around to the least.\<close>

theorem range_to_max_hangs:
  assumes "payload s it = Some (IntRange f l)" and "sint l = 2 ^ 31 - 1"
  shows "fst (drain E it n s) = Diverge"
  using assms
proof (induction n arbitrary: s f)
  case (Suc n)
  have "sint f \<le> sint l" using sint_range32(2) [of f] Suc.prems(2) by simp
  moreover have "fst (drain E it n (with_payload it (IntRange (f + 1) l) s)) = Diverge"
    using Suc.IH Suc.prems by (metis payload_with_payload)
  ultimately show ?case
    unfolding drain_step [OF Suc.prems(1) \<open>sint f \<le> sint l\<close>] by (auto split: prod.split)
qed (simp add: lift_def)

text \<open>
  C29: A range iterates as it reads. The loop over the iterator of a range that ends below the
  greatest int takes exactly its elements in ascending order, none for an empty range, stops
  by itself, and the iterator then refuses with \<open>NoSuchElementException\<close>. A range that ends at
  the greatest int is the one exception: the cursor wraps around and the loop takes elements for
  ever.
\<close>

theorem iterator_drains:
  assumes "payload s it = Some (IntRange f l)"
  shows "if sint l < 2 ^ 31 - 1
    then \<forall>n. nat (sint l + 1 - sint f) < n \<longrightarrow>
      (\<exists>g. drain E it n s =
        (Ok (map (\<lambda>i. VInt (word_of_int i)) [sint f..sint l]), with_payload it (IntRange g l) s) \<and>
      int_iterator_next_int E [it] (with_payload it (IntRange g l) s) =
        no_such_elem E (with_payload it (IntRange g l) s))
    else \<forall>n. fst (drain E it n s) = Diverge"
proof (cases "sint l < 2 ^ 31 - 1")
  case True
  then show ?thesis using drain_ends [OF assms] by simp
next
  case False
  then have "sint l = 2 ^ 31 - 1" using sint_range32(2) [of l] by simp
  then show ?thesis using range_to_max_hangs [OF assms] by simp
qed

theorem iterator_drains_witness:
  "\<forall>E. fst (drain E (VObj 0) 9 (range_vm (IntRange (- 1) 2))) = Ok [VInt (- 1), VInt 0, VInt 1, VInt 2] \<and>
     fst (drain E (VObj 0) 9 (range_vm (IntRange 5 0x7FFFFFFF))) = Diverge"
proof
  fix E
  have r: "[- 1..2] = [- 1, 0, 1, 2 :: int]" by (simp add: upto_rec1)
  let ?s = "range_vm (IntRange (- 1) 2)"
  have "\<forall>n. 4 < n \<longrightarrow> fst (drain E (VObj 0) n ?s) = Ok [VInt (- 1), VInt 0, VInt 1, VInt 2]"
    using iterator_drains [of ?s "VObj 0" "- 1" 2 E] r by auto
  moreover have "fst (drain E (VObj 0) 9 (range_vm (IntRange 5 0x7FFFFFFF))) = Diverge"
    using iterator_drains [of "range_vm (IntRange 5 0x7FFFFFFF)" "VObj 0" 5 "0x7FFFFFFF" E] by simp
  ultimately show "fst (drain E (VObj 0) 9 ?s) = Ok [VInt (- 1), VInt 0, VInt 1, VInt 2] \<and>
      fst (drain E (VObj 0) 9 (range_vm (IntRange 5 0x7FFFFFFF))) = Diverge"
    by (auto simp del: drain.simps)
qed

section \<open>Last elements\<close>

lemma sint_diff32:
  "0 \<le> sint x - sint y \<Longrightarrow> sint x - sint y < 2 ^ 31 \<Longrightarrow> sint (x - y :: i32) = sint x - sint y"
  using sint_of_int32 [of "sint x - sint y"] by simp

lemma rem_euclid_up:
  assumes "0 < sint m" "0 \<le> sint x - sint y" "sint x - sint y < 2 ^ 31"
  shows "rem_euclid (x - y) m = word_of_int ((sint x - sint y) mod sint m)"
  using assms by (simp add: rem_euclid_def sint_diff32)

lemma up_last:
  assumes "0 < sint m" "0 \<le> sint l - sint f" "sint l - sint f < 2 ^ 31"
  shows "sint (l - rem_euclid (l - f) m) = sint l - (sint l - sint f) mod sint m"
proof -
  let ?d = "(sint l - sint f) mod sint m"
  have d: "0 \<le> ?d" "?d \<le> sint l - sint f" using assms by (auto intro: zmod_le_nonneg_dividend)
  have eq: "l - word_of_int ?d = word_of_int (sint l - ?d)" by simp
  have "sint (word_of_int (sint l - ?d) :: i32) = sint l - ?d"
    using d sint_range32 [of l] sint_range32 [of f] by (intro sint_of_int32) linarith+
  then show ?thesis unfolding rem_euclid_up [OF assms] eq .
qed

lemma down_last:
  assumes "0 < sint m" "0 \<le> sint f - sint l" "sint f - sint l < 2 ^ 31"
  shows "sint (l + rem_euclid (f - l) m) = sint l + (sint f - sint l) mod sint m"
proof -
  let ?d = "(sint f - sint l) mod sint m"
  have d: "0 \<le> ?d" "?d \<le> sint f - sint l" using assms by (auto intro: zmod_le_nonneg_dividend)
  have eq: "l + word_of_int ?d = word_of_int (sint l + ?d)" by simp
  have "sint (word_of_int (sint l + ?d) :: i32) = sint l + ?d"
    using d sint_range32 [of l] sint_range32 [of f] by (intro sint_of_int32) linarith+
  then show ?thesis unfolding rem_euclid_up [OF assms] eq .
qed

text \<open>
  \<open>p step n\<close> keeps the first element and the direction of \<open>p\<close> and ends at the last element it
  reaches: a multiple of the step away from the first, not past the old end, and less than a step
  before it. The distance must fit an int.
\<close>

theorem stepped_ends_where_it_gets:
  assumes "0 < sint n" "stepped (f, l, old) n = (f', l', st)"
    and "up = (if 0 < sint old then 1 else - 1)"
    and "0 \<le> up * (sint l - sint f)" "up * (sint l - sint f) < 2 ^ 31"
  shows "f' = f \<and> sint st = up * sint n \<and> sint n dvd sint l' - sint f \<and>
    0 \<le> up * (sint l' - sint f) \<and> 0 \<le> up * (sint l - sint l') \<and> up * (sint l - sint l') < sint n"
proof (cases "0 < sint old")
  case True
  then have d: "0 \<le> sint l - sint f" "sint l - sint f < 2 ^ 31" using assms(3-5) by simp_all
  have l': "sint l' = sint l - (sint l - sint f) mod sint n"
    using assms(1,2) True d up_last [OF assms(1) d] by (auto simp: stepped_def Let_def split: if_splits)
  have "sint l - (sint l - sint f) mod sint n - sint f = (sint l - sint f) div sint n * sint n"
    using div_mult_mod_eq [of "sint l - sint f" "sint n"] by linarith
  moreover have "(sint l - sint f) mod sint n \<le> sint l - sint f"
    using d by (intro zmod_le_nonneg_dividend)
  ultimately show ?thesis
    using assms(1-3) True l' by (auto simp: stepped_def Let_def)
next
  case False
  then have d: "0 \<le> sint f - sint l" "sint f - sint l < 2 ^ 31" using assms(3-5) by simp_all
  have neg: "sint (- n) = - sint n"
  proof -
    have "- n = word_of_int (- sint n)" by simp
    then show ?thesis using sint_of_int32 [of "- sint n"] sint_range32(2) [of n] assms(1) by simp
  qed
  have l': "sint l' = sint l + (sint f - sint l) mod sint n"
    using assms(1,2) False d neg down_last [OF assms(1) d] by (auto simp: stepped_def Let_def split: if_splits)
  have "sint l + (sint f - sint l) mod sint n - sint f = - ((sint f - sint l) div sint n) * sint n"
    using div_mult_mod_eq [of "sint f - sint l" "sint n"] by (simp add: algebra_simps)
  moreover have "(sint f - sint l) mod sint n \<le> sint f - sint l"
    using d by (intro zmod_le_nonneg_dividend)
  ultimately show ?thesis
    using assms(1-3) False l' neg by (auto simp: stepped_def Let_def)
qed

text \<open>Without that bound it goes wrong: 2147483647 is reached by threes from -2147483648.\<close>

theorem far_last_missed:
  "last_element (- 2147483648) 2147483647 3 = 2147483645 \<and>
   (3 :: int) dvd 2147483647 - (- 2147483648)"
proof -
  have "last_element (- 2147483648) 2147483647 3 = 2147483645" by code_simp
  then show ?thesis by simp
qed

text \<open>\<open>a until b\<close> for the least \<open>b\<close> is not empty when \<open>a\<close> is the least int too.\<close>

theorem until_least_not_empty:
  "rangeskt_until E [VInt (- 2147483648), VInt (- 2147483648)] s =
     alloc_shim E ''Lkotlin/ranges/IntRange;'' (IntRange (- 2147483648) (- 2147483648)) s"
  by (simp add: rangeskt_until_def arg_int_def int_of_def saturating_dec_def ret_def bnd_def asks_def)

text \<open>A random element of the range of all ints is a remainder by zero, a panic of the host.\<close>

theorem random_of_all_panics:
  assumes "payload s r = Some (IntRange (- 2147483648) 2147483647)"
  shows "rangeskt_random nanos E [r] s = (Panic, s)"
  using read_range [OF assms, of E]
  by (simp add: rangeskt_random_def panic_def ret_def bnd_def)

end
