(* ===== verification/ClassData.thy ===== *)
theory ClassData
  imports DexFile
begin

text \<open>
  The class data and the code items of a DEX file as the format lays them out, written as encoders
  that are independent of the parser of \<open>dex/mod.rs\<close>: members as \<open>uleb128\<close> differences, code as
  little-endian words with its padding, try items and handler lists. Shown: the parser reads every
  layout back.
\<close>

section \<open>Bytes at a place of the file\<close>

definition lies :: "u8 list \<Rightarrow> nat \<Rightarrow> u8 list \<Rightarrow> bool" where
  "lies d p bs \<longleftrightarrow> p \<le> length d \<and> take (length bs) (drop p d) = bs"

lemma lies_append: "lies d p (as @ bs) \<longleftrightarrow> lies d p as \<and> lies d (p + length as) bs"
proof
  assume l: "lies d p (as @ bs)"
  then have t: "take (length as + length bs) (drop p d) = as @ bs" by (simp add: lies_def)
  then have "length as + length bs \<le> length d - p" by (metis length_append length_take length_drop min.absorb_iff2 min.commute)
  then show "lies d p as \<and> lies d (p + length as) bs"
    using l t by (auto simp: lies_def take_add append_eq_append_conv add.commute)
next
  assume "lies d p as \<and> lies d (p + length as) bs"
  then show "lies d p (as @ bs)" by (simp add: lies_def take_add add.commute)
qed

lemma lies_at: "lies d p bs \<Longrightarrow> p = q \<Longrightarrow> lies d q bs"
  by simp

lemma lies_end: "lies d p bs \<Longrightarrow> p + length bs \<le> length d"
  unfolding lies_def by (metis add.commute diff_add_inverse2 le_add_diff_inverse length_drop length_take
      min.bounded_iff nat_add_left_cancel_le order_refl)

lemma lies_split: "lies d p bs \<Longrightarrow> p \<le> length d \<and> d = take p d @ bs @ drop (p + length bs) d"
  by (simp add: lies_def) (metis append_take_drop_id drop_drop add.commute)

lemma lies_concat:
  "lies d p (concat (map g xs)) \<Longrightarrow> \<forall>x \<in> set xs. length (g x) = k \<Longrightarrow> i < length xs \<Longrightarrow> lies d (p + i * k) (g (xs ! i))"
proof (induction xs arbitrary: p i)
  case (Cons x xs)
  then show ?case by (cases i) (auto simp: lies_append add.assoc [symmetric])
qed simp

abbreviation cur :: "u8 list \<Rightarrow> nat \<Rightarrow> cursor" where
  "cur d p \<equiv> \<lparr>data = d, pos = p\<rparr>"

lemma read_lies: "reads q bs x \<Longrightarrow> lies d p bs \<Longrightarrow> q (cur d p) = Ok (x, cur d (p + length bs))"
  by (frule lies_split) (drule readsD [of q bs x "cur d p" "take p d" "drop (p + length bs) d"], auto)

text \<open>Little-endian words.\<close>

definition le16 :: "u16 \<Rightarrow> u8 list" where
  "le16 w = [ucast w, ucast (drop_bit 8 w)]"

definition le32 :: "u32 \<Rightarrow> u8 list" where
  "le32 w = [ucast w, ucast (drop_bit 8 w), ucast (drop_bit 16 w), ucast (drop_bit 24 w)]"

lemma length_le_words [simp]: "length (le16 w) = 2" "length (le32 v) = 4"
  by (simp_all add: le16_def le32_def)

lemma u16_of_le: "u16_le (ucast w) (ucast (drop_bit 8 w)) = w"
  by (rule bit_word_eqI) (auto simp: u16_le_def bit_simps)

lemma u32_of_le: "u32_le (ucast w) (ucast (drop_bit 8 w)) (ucast (drop_bit 16 w)) (ucast (drop_bit 24 w)) = w"
proof (rule bit_word_eqI)
  fix n assume "n < LENGTH(32)"
  then consider "n < 8" | "8 \<le> n" "n < 16" | "16 \<le> n" "n < 24" | "24 \<le> n" "n < 32" by fastforce
  then show "bit (u32_le (ucast w) (ucast (drop_bit 8 w)) (ucast (drop_bit 16 w)) (ucast (drop_bit 24 w))) n = bit w n"
    by cases (auto simp: u32_le_def bit_simps)
qed

lemma reads_word16: "reads read_u16 (le16 w) w"
  by (rule readsI) (simp add: read_u16_def le16_def nth_append u16_of_le)

lemma reads_word32: "reads read_u32 (le32 w) w"
  by (rule readsI) (simp add: read_u32_def le32_def nth_append u32_of_le)

lemma rd16: "lies d p (le16 w) \<Longrightarrow> q = p + 2 \<Longrightarrow> read_u16 (cur d p) = Ok (w, cur d q)"
  using read_lies [OF reads_word16] by simp

lemma rd32: "lies d p (le32 w) \<Longrightarrow> q = p + 4 \<Longrightarrow> read_u32 (cur d p) = Ok (w, cur d q)"
  using read_lies [OF reads_word32] by simp

lemma orep_at:
  assumes "\<And>i. i < length xs \<Longrightarrow> q (cur d (p + i * k)) = Ok (xs ! i, cur d (p + i * k + k))"
  shows "orep (length xs) q (cur d p) = Ok (xs, cur d (p + length xs * k))"
  using assms
proof (induction xs arbitrary: p)
  case (Cons x xs)
  have "q (cur d p) = Ok (x, cur d (p + k))" using Cons.prems [of 0] by simp
  moreover have "orep (length xs) q (cur d (p + k)) = Ok (xs, cur d (p + k + length xs * k))"
    using Cons.prems [of "Suc _"] by (intro Cons.IH) (simp add: add.assoc)
  ultimately show ?case by (simp add: add.assoc)
qed simp

section \<open>Code items\<close>

definition try_bytes :: "try_item \<times> u16 \<Rightarrow> u8 list" where
  "try_bytes = (\<lambda>(t, h). le32 (start_addr t) @ le16 (insn_count t) @ le16 h)"

text \<open>A handler list is read when it is short enough and says that it is not empty.\<close>

definition list_ok :: "try_item \<Rightarrow> bool" where
  "list_ok t \<longleftrightarrow> length (handlers t) < 2 ^ 31 \<and> (catch_all t = None \<longrightarrow> handlers t \<noteq> [])"

text \<open>
  The code item \<open>ci\<close> at offset \<open>p\<close>, with the debug information at \<open>dbg\<close>, the padding \<open>pad\<close> that keeps
  the try items aligned, and the offsets \<open>hs\<close> of the handler lists of its try items, counted from the
  end of the try items (several may share a list).
\<close>

definition padding :: "code_item \<Rightarrow> u16 \<Rightarrow> u8 list" where
  "padding ci pad = (if tries ci \<noteq> [] \<and> odd (length (code_insns ci)) then le16 pad else [])"

definition code_head :: "code_item \<Rightarrow> u32 \<Rightarrow> u8 list" where
  "code_head ci dbg =
     le16 (registers_size ci) @ le16 (ins_size ci) @ le16 (outs_size ci) @ le16 (of_nat (length (tries ci))) @
     le32 dbg @ le32 (of_nat (length (code_insns ci)))"

definition code_item_at :: "u8 list \<Rightarrow> nat \<Rightarrow> code_item \<Rightarrow> bool" where
  "code_item_at d p ci \<longleftrightarrow> length (tries ci) < 2 ^ 16 \<and> length (code_insns ci) < 2 ^ 32 \<and>
     (\<exists>dbg pad hs. length hs = length (tries ci) \<and>
       lies d p (code_head ci dbg @ concat (map le16 (code_insns ci)) @ padding ci pad @
         concat (map try_bytes (zip (tries ci) hs))) \<and>
       (\<forall>(t, h) \<in> set (zip (tries ci) hs). list_ok t \<and>
         lies d (p + 16 + 2 * length (code_insns ci) + length (padding ci pad) + 8 * length (tries ci) + unat h)
           (handlers_encode (handlers t) (catch_all t))))"

lemma length_concat_le16 [simp]: "length (concat (map le16 ws)) = 2 * length ws"
  by (induction ws) simp_all

lemma units_back:
  "map (\<lambda>i. u16_le (concat (map le16 ws) ! (i * 2)) (concat (map le16 ws) ! (i * 2 + 1))) [0..<length ws] = ws"
proof (induction ws)
  case (Cons w ws)
  have "map (\<lambda>i. u16_le (concat (map le16 (w # ws)) ! (i * 2)) (concat (map le16 (w # ws)) ! (i * 2 + 1)))
      [0..<length (w # ws)] =
    u16_le (ucast w) (ucast (drop_bit 8 w)) #
      map (\<lambda>i. u16_le (concat (map le16 ws) ! (i * 2)) (concat (map le16 ws) ! (i * 2 + 1))) [0..<length ws]"
    by (simp add: upt_conv_Cons map_Suc_upt [symmetric] le16_def comp_def del: upt_Suc)
  then show ?case using Cons by (simp add: u16_of_le)
qed simp

lemma parse_try_at:
  assumes "lies d q (try_bytes (t, h))" and "list_ok t"
    and "lies d (ts + n * 8 + unat h) (handlers_encode (handlers t) (catch_all t))"
  shows "parse_try ts n (cur d q) = Ok (t, cur d (q + 8))"
proof -
  have l: "lies d q (le32 (start_addr t))" "lies d (q + 4) (le16 (insn_count t))" "lies d (q + 6) (le16 h)"
    using assms(1) by (simp_all add: try_bytes_def lies_append) (elim conjE; erule lies_at; simp)
  have "q + 8 \<le> length d" using lies_end [OF l(3)] by simp
  let ?p = "ts + n * 8 + unat h"
  have "parse_handlers (cur d ?p) = Ok (handlers t, catch_all t)"
    using assms(2) lies_split [OF assms(3)]
    by (intro parse_handlers_encode [where pre = "take ?p d" and rest = "drop (?p + length (handlers_encode (handlers t) (catch_all t))) d"])
      (auto simp: list_ok_def)
  moreover have "?p \<le> length d" using assms(3) by (simp add: lies_def)
  moreover have "read_u32 (cur d q) = Ok (start_addr t, cur d (q + 4))"
    "read_u16 (cur d (q + 4)) = Ok (insn_count t, cur d (q + 6))" "read_u16 (cur d (q + 6)) = Ok (h, cur d (q + 8))"
    using l by (auto intro: rd16 rd32)
  ultimately show ?thesis using \<open>q + 8 \<le> length d\<close> by (simp add: parse_try_def seek_def Let_def)
qed

lemma parse_code_item_at:
  assumes "code_item_at d p ci"
  shows "parse_code_item d p = Ok ci"
proof -
  obtain dbg pad hs where n: "length (tries ci) < 2 ^ 16" "length (code_insns ci) < 2 ^ 32"
    and hs: "length hs = length (tries ci)"
    and l: "lies d p (code_head ci dbg @ concat (map le16 (code_insns ci)) @ padding ci pad @
         concat (map try_bytes (zip (tries ci) hs)))"
    and lists: "\<forall>(t, h) \<in> set (zip (tries ci) hs). list_ok t \<and>
         lies d (p + 16 + 2 * length (code_insns ci) + length (padding ci pad) + 8 * length (tries ci) + unat h)
           (handlers_encode (handlers t) (catch_all t))"
    using assms unfolding code_item_at_def by blast
  let ?k = "length (code_insns ci)" and ?n = "length (tries ci)"
  let ?u = "p + 16" and ?t = "p + 16 + 2 * ?k + length (padding ci pad)"
  have u: "unat (of_nat ?n :: u16) = ?n" "unat (of_nat ?k :: u32) = ?k"
    using n by (simp_all add: unat_of_nat)
  have head: "lies d p (le16 (registers_size ci))" "lies d (p + 2) (le16 (ins_size ci))"
    "lies d (p + 4) (le16 (outs_size ci))" "lies d (p + 6) (le16 (of_nat ?n))"
    "lies d (p + 8) (le32 dbg)" "lies d (p + 12) (le32 (of_nat ?k))"
    and code: "lies d ?u (concat (map le16 (code_insns ci)))"
    and pad: "lies d (?u + 2 * ?k) (padding ci pad)"
    and items: "lies d ?t (concat (map try_bytes (zip (tries ci) hs)))"
    using l by (simp_all only: code_head_def lies_append) (elim conjE, erule lies_at, simp)+
  have insns: "read_bytes (?k * 2) (cur d ?u) = Ok (concat (map le16 (code_insns ci)), cur d (?u + 2 * ?k))"
    using code lies_end [OF code] by (simp add: read_bytes_def lies_def sub_def mult.commute add.commute)
  have skip: "(if 0 < (of_nat ?n :: u16) \<and> ?k mod 2 = 1
      then obind (read_u16 (cur d (?u + 2 * ?k))) (\<lambda>(padding, c). Ok c) else Ok (cur d (?u + 2 * ?k))) = Ok (cur d ?t)"
    using rd16 [of d "?u + 2 * ?k" pad ?t] pad n(1)
    by (auto simp: padding_def word_less_nat_alt unat_of_nat odd_iff_mod_2_eq_one)
  have "orep ?n (parse_try ?t ?n) (cur d ?t) = Ok (tries ci, cur d (?t + ?n * 8))"
  proof (rule orep_at)
    fix i assume i: "i < ?n"
    then have "(tries ci ! i, hs ! i) \<in> set (zip (tries ci) hs)"
      using hs by (auto simp: set_zip)
    moreover have "lies d (?t + i * 8) (try_bytes (tries ci ! i, hs ! i))"
      using lies_concat [OF items, of 8 i] i hs by (simp add: try_bytes_def split_beta)
    ultimately show "parse_try ?t ?n (cur d (?t + i * 8)) = Ok (tries ci ! i, cur d (?t + i * 8 + 8))"
      using lists by (intro parse_try_at) (auto simp: mult.commute)
  qed
  moreover have "read_u16 (cur d p) = Ok (registers_size ci, cur d (p + 2))"
    "read_u16 (cur d (p + 2)) = Ok (ins_size ci, cur d (p + 4))"
    "read_u16 (cur d (p + 4)) = Ok (outs_size ci, cur d (p + 6))"
    "read_u16 (cur d (p + 6)) = Ok (of_nat ?n, cur d (p + 8))"
    "read_u32 (cur d (p + 8)) = Ok (dbg, cur d (p + 12))"
    "read_u32 (cur d (p + 12)) = Ok (of_nat ?k, cur d ?u)"
    using head by (auto intro: rd16 rd32)
  moreover have "seek p (cursor_new d) = Ok (cur d p)" using head(1) by (simp add: seek_def cursor_new_def lies_def)
  ultimately show ?thesis using insns skip units_back [of "code_insns ci"]
    by (simp add: parse_code_item_def u Let_def)
qed

section \<open>Class data\<close>

abbreviation uleb :: "u32 \<Rightarrow> u8 list" where
  "uleb w \<equiv> uleb_encode (uint w)"

text \<open>Members in order, each index as the difference to the one before.\<close>

fun fields_encode :: "u32 \<Rightarrow> encoded_field list \<Rightarrow> u8 list" where
  "fields_encode prev [] = []"
| "fields_encode prev (f # fs) =
     uleb (field_idx f - prev) @ uleb (ef_access_flags f) @ fields_encode (field_idx f) fs"

fun methods_encode :: "u32 \<Rightarrow> (encoded_method \<times> u32) list \<Rightarrow> u8 list" where
  "methods_encode prev [] = []"
| "methods_encode prev ((m, code_off) # ms) =
     uleb (method_idx m - prev) @ uleb (em_access_flags m) @ uleb code_off @ methods_encode (method_idx m) ms"

text \<open>A method without code has offset 0, the code of the others lies at its offset.\<close>

definition code_at :: "u8 list \<Rightarrow> encoded_method \<Rightarrow> u32 \<Rightarrow> bool" where
  "code_at d m code_off =
     (case code m of None \<Rightarrow> code_off = 0 | Some ci \<Rightarrow> code_off \<noteq> 0 \<and> code_item_at d (unat code_off) ci)"

definition sizes_encode :: "class_data \<Rightarrow> u8 list" where
  "sizes_encode cd =
     uleb (of_nat (length (static_fields cd))) @ uleb (of_nat (length (instance_fields cd))) @
     uleb (of_nat (length (direct_methods cd))) @ uleb (of_nat (length (virtual_methods cd)))"

definition class_data_at :: "u8 list \<Rightarrow> nat \<Rightarrow> class_data \<Rightarrow> bool" where
  "class_data_at d p cd \<longleftrightarrow>
     (\<forall>n \<in> {length (static_fields cd), length (instance_fields cd), length (direct_methods cd),
            length (virtual_methods cd)}. n < 2 ^ 32) \<and>
     (\<exists>ds vs. list_all2 (code_at d) (direct_methods cd) ds \<and> list_all2 (code_at d) (virtual_methods cd) vs \<and>
       lies d p (sizes_encode cd @ fields_encode 0 (static_fields cd) @ fields_encode 0 (instance_fields cd) @
         methods_encode 0 (zip (direct_methods cd) ds) @ methods_encode 0 (zip (virtual_methods cd) vs)))"

lemma rd_uleb: "lies d p (uleb w) \<Longrightarrow> uleb128 (cur d p) = Ok (w, cur d (p + length (uleb w)))"
  by (rule read_lies [OF reads_uleb])

lemma parse_fields_at:
  "lies d p (fields_encode prev fs) \<Longrightarrow>
   \<exists>last. orep (length fs) parse_field (prev, cur d p) = Ok (fs, last, cur d (p + length (fields_encode prev fs)))"
proof (induction fs arbitrary: prev p)
  case (Cons f fs)
  let ?a = "uleb (field_idx f - prev)" and ?b = "uleb (ef_access_flags f)"
  have l: "lies d p ?a" "lies d (p + length ?a) ?b" "lies d (p + length ?a + length ?b) (fields_encode (field_idx f) fs)"
    using Cons.prems by (simp_all add: lies_append add.assoc)
  have "parse_field (prev, cur d p) = Ok (f, field_idx f, cur d (p + length ?a + length ?b))"
    by (simp add: parse_field_def rd_uleb [OF l(1)] rd_uleb [OF l(2)])
  then show ?case using Cons.IH [OF l(3)] by (auto simp: add.assoc)
qed simp

lemma parse_methods_at:
  "lies d p (methods_encode prev (zip ms os)) \<Longrightarrow> list_all2 (code_at d) ms os \<Longrightarrow>
   \<exists>last. orep (length ms) parse_method (prev, cur d p) =
     Ok (ms, last, cur d (p + length (methods_encode prev (zip ms os))))"
proof (induction ms arbitrary: prev p os)
  case (Cons m ms)
  obtain a os' where os: "os = a # os'" "code_at d m a" "list_all2 (code_at d) ms os'"
    using Cons.prems(2) by (auto simp: list_all2_Cons1)
  let ?a = "uleb (method_idx m - prev)" and ?b = "uleb (em_access_flags m)" and ?c = "uleb a"
  let ?q = "p + length ?a + length ?b + length ?c"
  have l: "lies d p ?a" "lies d (p + length ?a) ?b" "lies d (p + length ?a + length ?b) ?c"
      "lies d ?q (methods_encode (method_idx m) (zip ms os'))"
    using Cons.prems(1) by (simp_all add: os(1) lies_append add.assoc)
  note rd = parse_method_def rd_uleb [OF l(1)] rd_uleb [OF l(2)] rd_uleb [OF l(3)]
  have "parse_method (prev, cur d p) = Ok (m, method_idx m, cur d ?q)"
  proof (cases "code m")
    case None
    then show ?thesis using os(2) by (simp add: code_at_def rd)
  next
    case (Some ci)
    then have "a \<noteq> 0" "parse_code_item d (unat a) = Ok ci"
      using os(2) parse_code_item_at by (simp_all add: code_at_def)
    then show ?thesis using Some by (simp add: rd)
  qed
  then show ?case using Cons.IH [OF l(4) os(3)] by (auto simp: os(1) add.assoc)
qed simp

lemma parse_class_data_at:
  assumes "class_data_at d p cd"
  shows "parse_class_data d p = Ok cd"
proof -
  let ?sf = "static_fields cd" and ?if = "instance_fields cd" and ?dm = "direct_methods cd" and ?vm = "virtual_methods cd"
  obtain ds vs where n: "length ?sf < 2 ^ 32" "length ?if < 2 ^ 32" "length ?dm < 2 ^ 32" "length ?vm < 2 ^ 32"
    and codes: "list_all2 (code_at d) ?dm ds" "list_all2 (code_at d) ?vm vs"
    and all: "lies d p (sizes_encode cd @ fields_encode 0 ?sf @ fields_encode 0 ?if @
         methods_encode 0 (zip ?dm ds) @ methods_encode 0 (zip ?vm vs))"
    using assms unfolding class_data_at_def by blast
  let ?e1 = "uleb (of_nat (length ?sf))" and ?e2 = "uleb (of_nat (length ?if))"
    and ?e3 = "uleb (of_nat (length ?dm))" and ?e4 = "uleb (of_nat (length ?vm))"
  define p1 p2 p3 p4 where ps: "p1 = p + length ?e1" "p2 = p1 + length ?e2" "p3 = p2 + length ?e3" "p4 = p3 + length ?e4"
  define p5 p6 p7 where qs: "p5 = p4 + length (fields_encode 0 ?sf)" "p6 = p5 + length (fields_encode 0 ?if)"
    "p7 = p6 + length (methods_encode 0 (zip ?dm ds))"
  have l: "lies d p ?e1" "lies d p1 ?e2" "lies d p2 ?e3" "lies d p3 ?e4" "lies d p4 (fields_encode 0 ?sf)"
    "lies d p5 (fields_encode 0 ?if)" "lies d p6 (methods_encode 0 (zip ?dm ds))"
    "lies d p7 (methods_encode 0 (zip ?vm vs))"
    using all by (simp_all add: sizes_encode_def lies_append ps qs add.assoc)
  have u: "unat (of_nat (length ?sf) :: u32) = length ?sf" "unat (of_nat (length ?if) :: u32) = length ?if"
    "unat (of_nat (length ?dm) :: u32) = length ?dm" "unat (of_nat (length ?vm) :: u32) = length ?vm"
    using n by (simp_all add: unat_of_nat)
  obtain a b e f where members:
    "orep (length ?sf) parse_field (0, cur d p4) = Ok (?sf, a, cur d p5)"
    "orep (length ?if) parse_field (0, cur d p5) = Ok (?if, b, cur d p6)"
    "orep (length ?dm) parse_method (0, cur d p6) = Ok (?dm, e, cur d p7)"
    "orep (length ?vm) parse_method (0, cur d p7) = Ok (?vm, f, cur d (p7 + length (methods_encode 0 (zip ?vm vs))))"
    using parse_fields_at [OF l(5)] parse_fields_at [OF l(6)] parse_methods_at [OF l(7) codes(1)]
      parse_methods_at [OF l(8) codes(2)] unfolding qs by blast
  have "seek p (cursor_new d) = Ok (cur d p)" using l(1) by (simp add: seek_def cursor_new_def lies_def)
  with rd_uleb [OF l(1)] rd_uleb [OF l(2)] rd_uleb [OF l(3)] rd_uleb [OF l(4)]
  show ?thesis by (simp add: parse_class_data_def u members flip: ps)
qed

section \<open>Properties\<close>

text \<open>
  C3: The members of a class are read as the format writes them. Take any class data laid out
  at a place of a file: the four sizes, the fields and methods as \<open>uleb128\<close> differences of their
  indices with their access flags, and for every method with code an offset at which its code item
  lies with registers, instructions, padding, try items and the handler lists these point to, shared
  ones included. Then the parser gives back exactly these fields, methods and code items.
\<close>

theorem class_data_roundtrip:
  assumes "class_data_at d p cd"
  shows "parse_class_data d p = Ok cd"
  by (rule parse_class_data_at [OF assms])

text \<open>
  A class with a field and a method. The method's code at offset 4 has one instruction, so that it is
  padded, and a try item whose handler list, at offset 33, has a typed and a catch-all handler; the
  class data is at offset 37.
\<close>

definition one_class :: class_data where
  "one_class = \<lparr>static_fields = [\<lparr>field_idx = 5, ef_access_flags = 9\<rparr>], instance_fields = [],
     direct_methods = [\<lparr>method_idx = 2, em_access_flags = 9, code = Some
       \<lparr>registers_size = 1, ins_size = 0, outs_size = 0, code_insns = [0x000e],
        tries = [\<lparr>start_addr = 0, insn_count = 1, handlers = [(3, 0)], catch_all = Some 0\<rparr>]\<rparr>\<rparr>],
     virtual_methods = []\<rparr>"

definition one_class_bytes :: "u8 list" where
  "one_class_bytes = [0, 0, 0, 0,
     1, 0, 0, 0, 0, 0, 1, 0, 0, 0, 0, 0, 1, 0, 0, 0, 0x0e, 0, 0, 0, 0, 0, 0, 0, 1, 0, 1, 0,
     1, 0x7f, 3, 0, 0, 1, 0, 1, 0, 5, 9, 2, 9, 4]"

lemma one_class_lies:
  "lies one_class_bytes 37 (sizes_encode one_class @ fields_encode 0 (static_fields one_class) @
     methods_encode 0 (zip (direct_methods one_class) [4]))"
  "list_all2 (code_at one_class_bytes) (direct_methods one_class) [4]"
proof -
  show "lies one_class_bytes 37 (sizes_encode one_class @ fields_encode 0 (static_fields one_class) @
      methods_encode 0 (zip (direct_methods one_class) [4]))"
    by code_simp
  let ?t = "\<lparr>start_addr = 0, insn_count = 1, handlers = [(3, 0)], catch_all = Some 0\<rparr> :: try_item"
  let ?ci = "\<lparr>registers_size = 1, ins_size = 0, outs_size = 0, code_insns = [0x000e], tries = [?t]\<rparr>"
  have "lies one_class_bytes 4 (code_head ?ci 0 @ concat (map le16 (code_insns ?ci)) @ padding ?ci 0 @
      concat (map try_bytes (zip (tries ?ci) [1])))"
    "lies one_class_bytes 33 (handlers_encode (handlers ?t) (catch_all ?t))" "padding ?ci 0 = [0, 0]"
    by code_simp+
  then have "code_item_at one_class_bytes 4 ?ci" unfolding code_item_at_def
    by (intro conjI exI [of _ 0] exI [of _ "[1]"]) (simp_all add: list_ok_def)
  then show "list_all2 (code_at one_class_bytes) (direct_methods one_class) [4]"
    by (simp add: one_class_def code_at_def)
qed

theorem class_data_roundtrip_witness: "parse_class_data one_class_bytes 37 = Ok one_class"
proof (rule class_data_roundtrip)
  have "instance_fields one_class = []" "virtual_methods one_class = []"
    "length (static_fields one_class) = 1" "length (direct_methods one_class) = 1"
    by (simp_all add: one_class_def)
  then show "class_data_at one_class_bytes 37 one_class"
    using one_class_lies unfolding class_data_at_def
    by (intro conjI exI [of _ "[4]"] exI [of _ "[]"]) simp_all
qed

end
