(* ===== verification/Spec2Isabelle.thy ===== *)
theory Spec2Isabelle
  imports Permission Collector Execute RunTotal Ctx Keys Gcm Civil Manifest Wire Prefs Ranges ClassData
begin

text \<open>
  A model of dexvm, a Dalvik virtual machine in Rust (the crate under \<open>src/src\<close>), and the
  theorems that make it correct.

  The program. A host hands an APK or DEX file to a context (\<open>context.rs\<close>). The context takes
  the DEX files out of the archive, parses them (\<open>dex/\<close>) and boots a machine (\<open>vm/mod.rs\<close>) on
  them. Calls of the host run bytecode in the interpreter (\<open>vm/interpret.rs\<close>), which asks the
  machine to link classes, resolve references and allocate objects (\<open>vm/object.rs\<close>). Classes of
  the platform are shims, rows of a table whose methods are natives in Rust (\<open>vm/native/\<close>) that
  call back into the interpreter. Natives with outside effects ask the sandbox
  (\<open>permission.rs\<close>). Between top-level calls the context collects the heap.

  How it is modelled.
  \<^item> A method on \<open>&mut self\<close> is an action (theory \<open>Monad\<close>): a function from the state to an
    outcome and a state. The outcome of \<open>Prelude\<close> is \<open>Ok\<close>, an error value \<open>Err\<close>, \<open>Panic\<close> for
    a Rust panic, or \<open>Diverge\<close> for a loop that does not end.
  \<^item> Integers are words of their width, with the wrap-around of a release build; the dates of
    \<open>Civil\<close> are \<open>int\<close> with the wrap-around written out. Floats are bit patterns and their IEEE
    operations are those of \<open>SoftFloat\<close>.
  \<^item> The shim tables, the natives, the file system of the host with the bytes of the
    preferences file, the zip reader and the AES block cipher are arguments of the definitions that use them.
  \<^item> Output, tracing and debugging aids are left out.

  The theories, in the order of the program.
  \<^item> \<open>Prelude\<close>, \<open>Monad\<close>: words, outcomes, actions, their laws, and the shared invariant
    combinators.
  \<^item> \<open>DexRead\<close> (\<open>dex/read.rs\<close>): the bounds-checked cursor, LEB128 and MUTF-8. Locales
    \<open>byte_reader\<close> and \<open>total_reader\<close> say what a reader promises its caller. Shown: round trips of
    the encodings.
  \<^item> \<open>DexInsn\<close> (\<open>dex/insn.rs\<close>): the decoder of one instruction, group by group, and the sweep
    \<open>decode_all\<close>. Shown: decoding stays within the code and makes progress, the sweep ends for
    any code, and its side tables describe the code.
  \<^item> \<open>DexFile\<close> (\<open>dex/mod.rs\<close>): header, tables, class data, code items, encoded values,
    annotations, lookups. Shown: parsing any bytes returns, the tables are those announced, values
    and handlers round-trip.
  \<^item> \<open>ClassData\<close>: the class data and code items of the format as an independent layout of bytes.
    Shown: the parser of \<open>DexFile\<close> reads every layout back, members, code, try items and
    handler lists.
  \<^item> \<open>Object\<close> (\<open>vm/value.rs\<close>, \<open>vm/object.rs\<close>), \<open>Heap\<close>, \<open>VmState\<close> (\<open>vm/error.rs\<close>, records of
    \<open>vm/class.rs\<close>, state of \<open>vm/mod.rs\<close>) and \<open>Collector\<close>: the arena, marking, sweeping and the
    roots. Shown: a collection frees exactly what is unreachable, and allocation afterwards
    reuses nothing that is.
  \<^item> \<open>Linker\<close> and \<open>Resolve\<close> (\<open>vm/mod.rs\<close>): loading of DEX, shim and array classes, vtables,
    static values, class initialisation, field and method references, dispatch. \<open>LinkInv\<close> states
    the interface of every invariant of the linker as locales (\<open>intern_inv\<close>, \<open>object_inv\<close>,
    \<open>link_inv\<close>, \<open>resolve_inv\<close>), each proved once over all operations and interpreted on the
    invariants that follow. \<open>ClassGraph\<close>: classes only refer to older classes. \<open>LoadTotal\<close>:
    loading ends. \<open>Rooted\<close>: the root class stays in place and code can be decoded.
  \<^item> \<open>Arith\<close>, \<open>SoftFloat\<close> and \<open>Interp\<close> (\<open>vm/interpret.rs\<close>): arithmetic, one step of every
    instruction, frames, calls, unwinding, the loop. \<open>Execute\<close>: what single instructions do.
    \<open>Unwind\<close>: where an exception lands. \<open>RunInv\<close>: locale \<open>run_inv\<close> extends the linker's interface
    by the interpreter's own writes; invariants of whole runs are its interpretations, among them
    that an object in use keeps its class and the number of its fields.
    \<open>RunTotal\<close>: locale \<open>halting\<close>, and every run returns.
  \<^item> \<open>Permission\<close> (\<open>permission.rs\<close>): coverage of capabilities and the grant store. Locale
    \<open>coverage\<close> is what the store needs of coverage. Shown: the store refines a set of
    capabilities, nothing is allowed without a standing grant, and a scope of the file system covers
    what lies below its directory by the path walk of Unix (\<open>walk\<close>, \<open>place\<close>), unless a path
    leaves a symbolic link by its parent.
  \<^item> \<open>Loops\<close>: \<open>run_while\<close>, a loop of the program as such, with \<open>Diverge\<close> for one that does not
    end, and byte offsets shared by the two formats that follow.
  \<^item> \<open>Manifest\<close> (\<open>manifest.rs\<close>): the binary manifest and the resource table of an APK, and the
    lookups of the context on them. Shown: parsing a resource table ends unless it reaches an empty
    chunk or a second header, string pools round-trip, references are followed as far as the code says; and where the parser of
    the manifest hangs, panics or loses characters.
  \<^item> \<open>Prefs\<close> (\<open>vm/native/android/mod.rs\<close>, \<open>vm/object.rs\<close>): the file of shared preferences and the edits
    of its values. Locale \<open>codec\<close> is what an encoder and its decoder promise each other, interpreted on values and on
    files. Shown: a file that was saved loads as it was.
  \<^item> \<open>Ctx\<close> (\<open>context.rs\<close>): archive contents, construction, grants, settings and preferences,
    calls and collections. Shown: a new context satisfies the invariants of the linker, and the
    DEX files of an archive are taken in the order of their names.
  \<^item> \<open>Wire\<close> (\<open>vm/native/proto.rs\<close>): the wire format of protocol buffers. Shown: what was written
    is read back, reading ends for any bytes, and a length that overflows is a panic.
  \<^item> \<open>Shims\<close> (\<open>vm/native/mod.rs\<close>), \<open>Lists\<close> (\<open>java/util/arraylist.rs\<close>), \<open>Maps\<close>
    (\<open>java/util/hashmap.rs\<close>, \<open>hashset.rs\<close>, \<open>map_entry.rs\<close>): natives of the collections. Locale
    \<open>hash_keys\<close> is what a map needs of the keys' \<open>equals\<close> and \<open>hashCode\<close>. Shown: calls on a list
    object refine a sequence with Java's bounds errors. \<open>Keys\<close>: \<open>hash_keys\<close> for boxed integers,
    through virtual dispatch. Shown: calls on a map object refine a finite map.
  \<^item> \<open>Numbers\<close> (\<open>java/lang/integer.rs\<close>, \<open>long.rs\<close>, \<open>short.rs\<close>, \<open>byte.rs\<close> and the radix helpers
    of \<open>vm/native/mod.rs\<close>). Shown: numbers survive their texts in every radix, and parsing accepts
    exactly the numerals in range.
  \<^item> \<open>Cells\<close> (\<open>java/util/atomic.rs\<close>, \<open>random.rs\<close>): shims with one value as their payload. Locale
    \<open>cell\<close> is what such a payload must be, interpreted on each of them. Shown: calls on an
    \<open>AtomicInteger\<close> refine the calls on a register; the generator never reaches the seed 0.
  \<^item> \<open>Ranges\<close> (\<open>kotlin/ranges.rs\<close>): ranges, progressions and their iterators. Shown: iterating a
    range gives its elements and stops, unless it ends at the greatest int;
    a stepped progression ends where it gets; and where the 32 bits wrap around.
  \<^item> \<open>Gcm\<close> (\<open>vm/crypto.rs\<close>): AES-GCM over a block cipher. Shown: what opens is what was sealed, and
    the multiplication is that of its field.
  \<^item> \<open>Civil\<close> (\<open>java/civil.rs\<close>): dates. Shown: days and dates are inverse, consecutive days are
    consecutive dates of the Gregorian calendar.

  Recursion. Loops of the program are structural where they follow data. Elsewhere they have
  fuel, and running out is \<open>Diverge\<close>: \<open>load_depth\<close> for the linker is enough by \<open>loader_ends\<close>
  whenever the shim tables have no cycle; \<open>run_fuel\<close>, twice the budget of instructions plus two,
  is enough by \<open>run_returns\<close>, because each iteration takes one from the budget and each nested
  entry of the interpreter comes from an iteration; walks up the superclasses take as many steps
  as there are classes, which is enough on a well-founded class graph; dispatch looks at most
  twice, since the second round starts from the interfaces; the decoder and the parser take the
  number of code units or bytes, and their termination theorems say that this is enough. Theorems
  about the linker assume at most \<open>2 ^ 32\<close> strings, the range of the string ids of the program.

  Hypotheses about code outside the model. Natives of the host are any actions that keep the
  invariant in question (\<open>host_keeps\<close>, \<open>host_tame\<close>); the witnesses instantiate them. Keys of a
  map have a stable equality and hash (\<open>hash_keys\<close>); this holds for null and unboxed ints
  (interpretation \<open>int_map\<close>) and for null and the \<open>Integer\<close> objects of a machine whose \<open>equals\<close>
  and \<open>hashCode\<close> dispatch to their natives (interpretation \<open>boxed\<close>). \<open>canonicalize\<close> of the host
  is the path walk of Unix (\<open>unix_host\<close>), which holds for the host \<open>host_of\<close> of the tree of files of
  the witness.

  Not modelled. The remaining natives of the shims: the rest of \<open>java.lang\<close>, text, time, regular
  expressions, threads, Kotlin's extension functions, Android, HTTP, HTML, JSON, QuickJS and serialization,
  with the natives that call the preferences and the wire format modelled here.
  They are independent wrappers of the Rust standard library and of third-party crates, whose
  code is not in the repository. Of the lists and maps the \<open>toString\<close> natives are left out, which
  print floats with the standard library, and \<open>sort\<close>, whose order of comparator calls is that
  of the standard library's sort. Of the context the listing of the settings an extension defines,
  which formats objects of the preference shims for the host, and the registration of callbacks are left out. The shim tables of \<open>class.rs\<close> are data, the command line tool
  is input and output.
\<close>

end
